(* ===== verification/Prelude.thy ===== *)
theory Prelude
  imports Main "HOL-Library.Word" "HOL-Library.Monad_Syntax"
begin

text \<open>
  Shared vocabulary of the development: names for the machine types of the C++ code, the parts
  of the C++ standard library the sources use (\<open>std::upper_bound\<close>, \<open>std::map\<close> as an ordered
  association list), little-endian byte encodings, and the lemma collections the component
  theories draw on.

  Conventions used by every theory:
  \<^item> \<open>uint32_t\<close>, \<open>uint64_t\<close>, \<open>DWORD\<close>, \<open>uintptr_t\<close> are words of that width, so additions wrap
    as in C++; indices into vectors are \<open>nat\<close>;
  \<^item> a result of type \<open>'a option\<close> where the C++ returns a plain \<open>'a\<close> means that the call may not
    return normally: \<open>None\<close> is an out-of-range access, a \<open>bad_optional_access\<close>, a missing key in
    \<open>at()\<close> or a loop that never ends.
\<close>

named_theorems chrono_simps "rewrite rules for the operations of the model"
named_theorems chrono_inv "preservation rules for the invariants of the model"

type_synonym u8 = "8 word"
type_synonym u16 = "16 word"
type_synonym u32 = "32 word"
type_synonym u64 = "64 word"
type_synonym byte = "8 word"
type_synonym addr = "64 word"
type_synonym thread_id = "32 word"
type_synonym handle = "64 word"

section \<open>\<open>std::upper_bound\<close>\<close>

text \<open>
  The halving loop of \<open>std::upper_bound\<close> over \<open>xs\<close>, starting at \<open>first\<close> with \<open>count\<close> elements
  left; \<open>gt x\<close> is the call \<open>comp(value, x)\<close>, true of the elements that come after the value.
\<close>

function ub_loop :: "('a \<Rightarrow> bool) \<Rightarrow> 'a list \<Rightarrow> nat \<Rightarrow> nat \<Rightarrow> nat" where
  "ub_loop gt xs first count =
     (if count = 0 then first
      else let step = count div 2; mid = first + step in
        if gt (xs ! mid) then ub_loop gt xs first step
        else ub_loop gt xs (mid + 1) (count - (step + 1)))"
  by pat_completeness auto
termination
  by (relation "measure (\<lambda>(gt, xs, first, count). count)") auto

declare ub_loop.simps [simp del]

definition upper_bound :: "'k::linorder \<Rightarrow> ('a \<Rightarrow> 'k) \<Rightarrow> 'a list \<Rightarrow> nat" where
  "upper_bound k key xs = ub_loop (\<lambda>x. k < key x) xs 0 (length xs)"

text \<open>What the loop finds when the range is partitioned: the partition point.\<close>

lemma ub_loop_partition:
  assumes "\<And>i j. i < j \<Longrightarrow> j < first + count \<Longrightarrow> gt (xs ! i) \<Longrightarrow> gt (xs ! j)"
  shows "first \<le> ub_loop gt xs first count \<and> ub_loop gt xs first count \<le> first + count
    \<and> (\<forall>i. first \<le> i \<and> i < ub_loop gt xs first count \<longrightarrow> \<not> gt (xs ! i))
    \<and> (\<forall>i. ub_loop gt xs first count \<le> i \<and> i < first + count \<longrightarrow> gt (xs ! i))"
  using assms
proof (induction gt xs first count rule: ub_loop.induct)
  case (1 gt xs first count)
  show ?case
  proof (cases "count = 0")
    case True
    then show ?thesis by (auto simp: ub_loop.simps)
  next
    case False
    define step where "step = count div 2"
    define mid where "mid = first + step"
    have step: "step < count" using False by (simp add: step_def)
    show ?thesis
    proof (cases "gt (xs ! mid)")
      case True
      have IH: "first \<le> ub_loop gt xs first step \<and> ub_loop gt xs first step \<le> first + step
        \<and> (\<forall>i. first \<le> i \<and> i < ub_loop gt xs first step \<longrightarrow> \<not> gt (xs ! i))
        \<and> (\<forall>i. ub_loop gt xs first step \<le> i \<and> i < first + step \<longrightarrow> gt (xs ! i))"
        using "1.IH"(1)[OF False step_def mid_def True] "1.prems" step by auto
      have "gt (xs ! i)" if "first + step \<le> i" "i < first + count" for i
        using that True "1.prems"[of mid i] by (cases "i = mid") (auto simp: mid_def)
      moreover have "ub_loop gt xs first count = ub_loop gt xs first step"
        using False True by (subst ub_loop.simps) (simp add: Let_def step_def mid_def)
      ultimately show ?thesis using IH step by (metis le_trans nat_le_linear nat_less_le not_le
        add_le_cancel_left)
    next
      case no: False
      let ?c = "count - (step + 1)"
      have top: "mid + 1 + ?c = first + count" using step by (simp add: mid_def)
      have IH: "mid + 1 \<le> ub_loop gt xs (mid + 1) ?c \<and> ub_loop gt xs (mid + 1) ?c \<le> mid + 1 + ?c
        \<and> (\<forall>i. mid + 1 \<le> i \<and> i < ub_loop gt xs (mid + 1) ?c \<longrightarrow> \<not> gt (xs ! i))
        \<and> (\<forall>i. ub_loop gt xs (mid + 1) ?c \<le> i \<and> i < mid + 1 + ?c \<longrightarrow> gt (xs ! i))"
        using "1.IH"(2)[OF False step_def mid_def no] "1.prems" top by auto
      have "\<not> gt (xs ! i)" if "first \<le> i" "i < mid + 1" for i
        using that no "1.prems"[of i mid] step by (cases "i = mid") (auto simp: mid_def)
      moreover have "ub_loop gt xs first count = ub_loop gt xs (mid + 1) ?c"
        using False no by (subst ub_loop.simps) (simp add: Let_def step_def mid_def)
      ultimately show ?thesis using IH top
        by (metis le_add1 le_trans mid_def not_le_imp_less add.assoc)
    qed
  qed
qed

lemma length_takeWhile_eqI:
  assumes "n \<le> length xs" and "\<And>i. i < n \<Longrightarrow> P (xs ! i)"
    and "n < length xs \<Longrightarrow> \<not> P (xs ! n)"
  shows "length (takeWhile P xs) = n"
proof -
  have "takeWhile P xs = take n xs"
    using assms by (intro takeWhile_eq_take_P_nth) auto
  with assms(1) show ?thesis by simp
qed

lemma upper_bound_sorted [chrono_simps]:
  assumes "sorted (map key xs)"
  shows "upper_bound k key xs = length (takeWhile (\<lambda>x. key x \<le> k) xs)"
proof -
  let ?n = "upper_bound k key xs"
  have mono: "k < key (xs ! j)" if "i < j" "j < 0 + length xs" "k < key (xs ! i)" for i j
    using that sorted_nth_mono[OF assms, of i j] by simp
  note part = ub_loop_partition[of 0 "length xs" "\<lambda>x. k < key x" xs, OF mono, folded upper_bound_def]
  have "length (takeWhile (\<lambda>x. key x \<le> k) xs) = ?n"
    using part by (intro length_takeWhile_eqI) (auto simp: not_less not_le)
  then show ?thesis by simp
qed

lemma upper_bound_le_length:
  assumes "sorted (map key xs)"
  shows "upper_bound k key xs \<le> length xs"
  by (simp add: upper_bound_sorted[OF assms] length_takeWhile_le)

text \<open>Stepping back one from the upper bound gives the last entry at or before the key.\<close>

lemma takeWhile_filter_sorted:
  "sorted (map key xs) \<Longrightarrow> takeWhile (\<lambda>x. key x \<le> k) xs = filter (\<lambda>x. key x \<le> k) xs"
proof (induction xs)
  case Nil
  then show ?case by simp
next
  case (Cons a xs)
  show ?case
  proof (cases "key a \<le> k")
    case True
    then show ?thesis using Cons by simp
  next
    case False
    then have "filter (\<lambda>x. key x \<le> k) xs = []"
      using Cons.prems by (auto simp: filter_empty_conv)
    with False show ?thesis by simp
  qed
qed

lemma upper_bound_step_back:
  assumes "sorted (map key xs)" and "0 < upper_bound k key xs"
  shows "xs ! (upper_bound k key xs - 1) = last (filter (\<lambda>x. key x \<le> k) xs)"
proof -
  let ?tw = "takeWhile (\<lambda>x. key x \<le> k) xs"
  have len: "upper_bound k key xs = length ?tw" by (rule upper_bound_sorted[OF assms(1)])
  then have ne: "?tw \<noteq> []" using assms(2) by auto
  have "last ?tw = ?tw ! (length ?tw - 1)" using ne by (simp add: last_conv_nth)
  also have "\<dots> = xs ! (length ?tw - 1)"
    using ne by (intro takeWhile_nth) (simp add: Suc_le_eq)
  finally show ?thesis using len takeWhile_filter_sorted[OF assms(1), of k] by simp
qed

lemma upper_bound_pos_iff:
  assumes "sorted (map key xs)"
  shows "0 < upper_bound k key xs \<longleftrightarrow> filter (\<lambda>x. key x \<le> k) xs \<noteq> []"
  using upper_bound_sorted[OF assms, of k] takeWhile_filter_sorted[OF assms, of k] by auto

section \<open>The entry of a sorted history at or before a key\<close>

definition latest :: "'k::linorder \<Rightarrow> ('a \<Rightarrow> 'k) \<Rightarrow> 'a list \<Rightarrow> 'a option" where
  "latest k key xs = (let ys = filter (\<lambda>x. key x \<le> k) xs in if ys = [] then None else Some (last ys))"

lemma latest_Nil [simp]: "latest k key [] = None"
  by (simp add: latest_def)

lemma latest_append_le [simp]: "key x \<le> k \<Longrightarrow> latest k key (xs @ [x]) = Some x"
  by (simp add: latest_def)

lemma latest_append_gt [simp]: "\<not> key x \<le> k \<Longrightarrow> latest k key (xs @ [x]) = latest k key xs"
  by (simp add: latest_def)

lemma latest_Cons_sorted:
  assumes "\<forall>y\<in>set xs. key x < key y"
  shows "latest k key (x # xs) =
    (case latest k key xs of Some y \<Rightarrow> Some y | None \<Rightarrow> if key x \<le> k then Some x else None)"
proof -
  have "filter (\<lambda>y. key y \<le> k) xs = []" if "\<not> key x \<le> k"
    using assms that by (force simp: filter_empty_conv)
  then show ?thesis by (auto simp: latest_def Let_def)
qed

lemma latest_in_set: "latest k key xs = Some x \<Longrightarrow> x \<in> set xs \<and> key x \<le> k"
  unfolding latest_def Let_def
  by (metis (no_types, lifting) last_in_set mem_Collect_eq option.distinct(1) option.inject set_filter)

lemma latest_None_iff: "latest k key xs = None \<longleftrightarrow> (\<forall>x\<in>set xs. k < key x)"
  by (auto simp: latest_def Let_def filter_empty_conv not_le)

lemma upper_bound_latest:
  assumes "sorted (map key xs)"
  shows "(let idx = upper_bound k key xs in if 0 < idx then Some (xs ! (idx - 1)) else None) = latest k key xs"
  using upper_bound_step_back[OF assms, of k] upper_bound_pos_iff[OF assms, of k]
  by (auto simp: latest_def Let_def)

section \<open>Loops that may fail, and buffers\<close>

text \<open>A counted or ranged \<open>for\<close> loop whose body may not return normally.\<close>

primrec foldM :: "('a \<Rightarrow> 's \<Rightarrow> 's option) \<Rightarrow> 'a list \<Rightarrow> 's \<Rightarrow> 's option" where
  "foldM f [] s = Some s"
| "foldM f (x # xs) s = Option.bind (f x s) (foldM f xs)"

lemma foldM_append [simp]: "foldM f (xs @ ys) s = Option.bind (foldM f xs s) (foldM f ys)"
  by (induction xs arbitrary: s) (auto split: bind_split)

lemma foldM_cong [fundef_cong]:
  "xs = ys \<Longrightarrow> s = t \<Longrightarrow> (\<And>x s. x \<in> set ys \<Longrightarrow> f x s = g x s) \<Longrightarrow> foldM f xs s = foldM g ys t"
  by (induction ys arbitrary: xs s t) (auto split: bind_split)

text \<open>The rule for a loop with an invariant: the body keeps it and returns.\<close>

lemma foldM_invariant:
  assumes "Inv s" "\<And>x s. x \<in> set xs \<Longrightarrow> Inv s \<Longrightarrow> \<exists>s'. f x s = Some s' \<and> Inv s'"
  shows "\<exists>s'. foldM f xs s = Some s' \<and> Inv s'"
  using assms
proof (induction xs arbitrary: s)
  case Nil
  then show ?case by simp
next
  case (Cons x xs)
  obtain t where t: "f x s = Some t" "Inv t" using Cons.prems by fastforce
  have "\<exists>s'. foldM f xs t = Some s' \<and> Inv s'" by (rule Cons.IH[OF t(2)]) (auto intro: Cons.prems(2))
  with t show ?case by simp
qed

lemma foldM_total: "foldM (\<lambda>x s. Some (f x s)) xs s = Some (fold f xs s)"
  by (induction xs arbitrary: s) auto

primrec mapM :: "('a \<Rightarrow> 'b option) \<Rightarrow> 'a list \<Rightarrow> 'b list option" where
  "mapM f [] = Some []"
| "mapM f (x # xs) = Option.bind (f x) (\<lambda>y. map_option ((#) y) (mapM f xs))"

text \<open>\<open>memcpy(dst + off, src, size)\<close> into a buffer that is large enough.\<close>

definition memcpy_at :: "nat \<Rightarrow> 'a list \<Rightarrow> 'a list \<Rightarrow> 'a list" where
  "memcpy_at off src dst = take off dst @ src @ drop (off + length src) dst"

lemma length_memcpy_at [simp]: "off + length src \<le> length dst \<Longrightarrow> length (memcpy_at off src dst) = length dst"
  by (simp add: memcpy_at_def)

definition list_at :: "'a list \<Rightarrow> nat \<Rightarrow> 'a option" where
  "list_at xs i = (if i < length xs then Some (xs ! i) else None)"

lemma list_at_simps [simp]:
  "i < length xs \<Longrightarrow> list_at xs i = Some (xs ! i)"
  "\<not> i < length xs \<Longrightarrow> list_at xs i = None"
  by (simp_all add: list_at_def)

lemma length_concat_const: "(\<And>l. l \<in> set xs \<Longrightarrow> length l = k) \<Longrightarrow> length (concat xs) = length xs * k"
  by (induction xs) auto

lemma fold_memcpy_at:
  assumes "\<And>i d. i < m \<Longrightarrow> g i = Some d \<Longrightarrow> length d = k"
  shows "n \<le> m \<Longrightarrow> fold (\<lambda>i buf. case g i of None \<Rightarrow> buf | Some d \<Rightarrow> memcpy_at (i * k) d buf) [0..<n]
        (replicate (m * k) z) =
      concat (map (\<lambda>i. case g i of None \<Rightarrow> replicate k z | Some d \<Rightarrow> d) [0..<n]) @ replicate ((m - n) * k) z"
proof (induction n)
  case 0
  then show ?case by simp
next
  case (Suc n)
  define C where "C = concat (map (\<lambda>i. case g i of None \<Rightarrow> replicate k z | Some d \<Rightarrow> d) [0..<n])"
  have k: "length d = k" if "i < n" "g i = Some d" for i d
    using assms[of i d] that Suc.prems by simp
  have "length C = length [0..<n] * k"
    unfolding C_def by (subst length_concat_const) (auto simp: k split: option.split)
  then have len: "length C = n * k" by simp
  have "m - n = Suc (m - Suc n)" using Suc.prems by simp
  then have split: "replicate ((m - n) * k) z = replicate k z @ replicate ((m - Suc n) * k) z"
    by (simp add: replicate_add)
  have "memcpy_at (n * k) d (C @ replicate ((m - n) * k) z) = C @ d @ replicate ((m - Suc n) * k) z"
    if "g n = Some d" for d
    using assms[of n d] that Suc.prems len by (simp add: memcpy_at_def split)
  then show ?case
    using Suc split by (auto simp flip: C_def split: option.split)
qed

lemma memcpy_at_concat:
  assumes "\<forall>l\<in>set ls. length l = k" "length d = k" "n < length ls"
  shows "memcpy_at (n * k) d (concat ls) = concat (ls[n := d])"
  using assms
proof (induction ls arbitrary: n)
  case Nil
  then show ?case by simp
next
  case (Cons l ls)
  then show ?case
    by (cases n) (auto simp: memcpy_at_def add.commute)
qed

lemma mapM_iff: "mapM f xs = Some ys \<longleftrightarrow> list_all2 (\<lambda>x y. f x = Some y) xs ys"
  by (induction xs arbitrary: ys) (auto simp: list_all2_Cons1 bind_eq_Some_conv)

lemma mapM_None_iff: "mapM f xs = None \<longleftrightarrow> (\<exists>x\<in>set xs. f x = None)"
  by (induction xs) (auto split: bind_split)

text \<open>The rule for a loop that rewrites every element of a vector.\<close>

lemma mapM_each:
  assumes "\<And>x. x \<in> set xs \<Longrightarrow> \<exists>y. f x = Some y \<and> R x y"
  shows "\<exists>ys. mapM f xs = Some ys \<and> list_all2 R xs ys"
  using assms
proof (induction xs)
  case (Cons x xs)
  obtain ys where "mapM f xs = Some ys" "list_all2 R xs ys" using Cons by auto
  moreover obtain y where "f x = Some y" "R x y" using Cons.prems by auto
  ultimately show ?case by auto
qed simp

text \<open>A buffer seen as an array of \<open>k\<close>-byte blocks; an incomplete last block is not part of it.\<close>

definition chunks :: "nat \<Rightarrow> 'a list \<Rightarrow> 'a list list" where
  "chunks k xs = map (\<lambda>i. take k (drop (i * k) xs)) [0..<length xs div k]"

lemma length_chunks [simp]: "length (chunks k xs) = length xs div k"
  by (simp add: chunks_def)

lemma nth_chunks: "i < length xs div k \<Longrightarrow> chunks k xs ! i = take k (drop (i * k) xs)"
  by (simp add: chunks_def)

lemma length_chunk:
  assumes "i < length xs div k"
  shows "length (chunks k xs ! i) = k"
proof -
  have "(i + 1) * k \<le> length xs div k * k" using assms by (intro mult_le_mono1) simp
  also have "\<dots> \<le> length xs" by simp
  finally show ?thesis using assms by (simp add: nth_chunks)
qed

lemma concat_take_chunks: "concat (map (\<lambda>i. take k (drop (i * k) xs)) [0..<n]) = take (n * k) xs"
proof (induction n)
  case (Suc n)
  then show ?case by (simp add: take_add add.commute[of k])
qed simp

lemma concat_chunks: "concat (chunks k xs) = take (length xs div k * k) xs"
  by (simp add: chunks_def concat_take_chunks)

section \<open>\<open>std::map\<close>\<close>

text \<open>
  A \<open>std::map\<close> is an association list with strictly increasing keys, which is also its iteration
  order.  \<open>smap_modify k d f\<close> is \<open>f(m[k])\<close>: the subscript inserts \<open>d\<close> when the key is missing.
\<close>

type_synonym ('k, 'v) smap = "('k \<times> 'v) list"

definition smap_ok :: "('k::linorder, 'v) smap \<Rightarrow> bool" where
  "smap_ok m = sorted_wrt (<) (map fst m)"

fun smap_modify :: "'k::linorder \<Rightarrow> 'v \<Rightarrow> ('v \<Rightarrow> 'v) \<Rightarrow> ('k, 'v) smap \<Rightarrow> ('k, 'v) smap" where
  "smap_modify k d f [] = [(k, f d)]"
| "smap_modify k d f ((k', v) # m) =
     (if k < k' then (k, f d) # (k', v) # m
      else if k = k' then (k, f v) # m
      else (k', v) # smap_modify k d f m)"

definition smap_erase :: "'k::linorder \<Rightarrow> ('k, 'v) smap \<Rightarrow> ('k, 'v) smap" where
  "smap_erase k m = filter (\<lambda>(k', v). k' \<noteq> k) m"

lemma smap_ok_simps [simp]:
  "smap_ok []" "smap_ok ((k, v) # m) \<longleftrightarrow> (\<forall>x\<in>set m. k < fst x) \<and> smap_ok m"
  by (auto simp: smap_ok_def)

lemma keys_smap_modify: "fst ` set (smap_modify k d f m) = insert k (fst ` set m)"
  by (induction k d f m rule: smap_modify.induct) auto

lemma smap_ok_modify [chrono_inv]: "smap_ok m \<Longrightarrow> smap_ok (smap_modify k d f m)"
proof (induction k d f m rule: smap_modify.induct)
  case (2 k d f k' v m)
  have keys: "fst x = k \<or> (\<exists>y\<in>set m. fst x = fst y)" if "x \<in> set (smap_modify k d f m)" for x
    using imageI[OF that, of fst] unfolding keys_smap_modify by auto
  consider "k < k'" | "k = k'" | "k' < k" by force
  then show ?case
  proof cases
    case 1
    then show ?thesis using 2(2) by (auto intro: order.strict_trans)
  next
    case 3
    have "k' < fst x" if "x \<in> set (smap_modify k d f m)" for x
      using keys[OF that] 3 2(2) by auto
    with 3 2 show ?thesis by auto
  qed (use 2 in auto)
qed simp

lemma smap_ok_erase [chrono_inv]: "smap_ok m \<Longrightarrow> smap_ok (smap_erase k m)"
  by (simp add: smap_ok_def smap_erase_def sorted_wrt_filter sorted_wrt_map)

lemma smap_ok_distinct: "smap_ok m \<Longrightarrow> distinct (map fst m)"
  unfolding smap_ok_def using strict_sorted_iff by blast

lemma smap_in_set: "smap_ok m \<Longrightarrow> (k, v) \<in> set m \<longleftrightarrow> map_of m k = Some v"
  using smap_ok_distinct by (metis map_of_eq_Some_iff)

lemma map_of_above: "smap_ok m \<Longrightarrow> (\<forall>x\<in>set m. k < fst x) \<Longrightarrow> map_of m k = None"
  by (force simp: map_of_eq_None_iff)

lemma map_of_smap_modify [chrono_simps]:
  "smap_ok m \<Longrightarrow> map_of (smap_modify k d f m) =
    (map_of m)(k \<mapsto> f (case map_of m k of Some v \<Rightarrow> v | None \<Rightarrow> d))"
proof (induction k d f m rule: smap_modify.induct)
  case (2 k d f k' v m)
  consider "k < k'" | "k = k'" | "k' < k" by force
  then show ?case
  proof cases
    case 1
    then have "map_of m k = None" using 2(2) by (intro map_of_above) (auto intro: order.strict_trans)
    with 1 show ?thesis by auto
  qed (use 2 in auto)
qed auto

lemma map_of_smap_erase [chrono_simps]: "smap_ok m \<Longrightarrow> map_of (smap_erase k m) = (map_of m)(k := None)"
  by (induction m) (auto simp: smap_erase_def fun_eq_iff)

lemma smap_modify_in:
  assumes "smap_ok m"
  shows "(k', v) \<in> set (smap_modify k d f m) \<longleftrightarrow>
    (if k' = k then v = f (case map_of m k of Some v \<Rightarrow> v | None \<Rightarrow> d) else (k', v) \<in> set m)"
  using assms by (auto simp: smap_in_set smap_ok_modify map_of_smap_modify)

end
