(* ===== verification/Persistence.thy ===== *)
theory Persistence
  imports Prelude
begin

text \<open>
  The contract that every history container of the debugger promises its clients: a fully
  persistent store keyed by (run id, run sequence).  A client may write the next value of the
  active run, or branch a new run off any point of the past, and every earlier point keeps the
  value it had.

  The abstract state is a \<open>timeline\<close>: what a reader sees at each (run, sequence).  The locale
  \<open>fully_persistent\<close> says that an implementation refines the timeline operations with its lookup
  as abstraction function; \<open>created_history\<close> adds the constructor, and \<open>history_pair\<close> relates two
  implementations that are kept side by side (as \<open>RegionHistory\<close> keeps a tree of region states
  beside the page histories).  The interpretations are in the theories of the containers.
\<close>

type_synonym 'd timeline = "u32 \<Rightarrow> u32 \<Rightarrow> 'd option"

definition tl_write :: "u32 \<Rightarrow> u32 \<Rightarrow> 'd \<Rightarrow> 'd timeline \<Rightarrow> 'd timeline" where
  "tl_write r s d f = (\<lambda>r' s'. if r' = r \<and> s \<le> s' then Some d else f r' s')"

definition tl_branch :: "u32 \<Rightarrow> u32 \<Rightarrow> u32 \<Rightarrow> 'd timeline \<Rightarrow> 'd timeline" where
  "tl_branch n p b f = (\<lambda>r s. if r = n then f p b else f r s)"

definition tl_create :: "u32 \<Rightarrow> u32 \<Rightarrow> 'd \<Rightarrow> 'd timeline" where
  "tl_create r s d = (\<lambda>r' s'. if r' = r \<and> s \<le> s' then Some d else None)"

text \<open>A recording session: the values written to one run, in order.\<close>

type_synonym 'd session = "(u32 \<times> u64 \<times> 'd) list"

definition write_all :: "(u32 \<Rightarrow> u32 \<Rightarrow> u64 \<Rightarrow> 'd \<Rightarrow> 'h \<Rightarrow> 'h) \<Rightarrow> u32 \<Rightarrow> 'd session \<Rightarrow> 'h \<Rightarrow> 'h" where
  "write_all wr r ws h = fold (\<lambda>(s, g, d). wr r s g d) ws h"

lemma write_all_simps [simp]:
  "write_all wr r [] h = h"
  "write_all wr r ((s, g, d) # ws) h = write_all wr r ws (wr r s g d h)"
  by (simp_all add: write_all_def)

text \<open>What a session leaves visible in its own run: the last value at or before the sequence.\<close>

definition session_value :: "'d session \<Rightarrow> u32 \<Rightarrow> 'd option" where
  "session_value ws s = map_option (snd \<circ> snd) (latest s fst ws)"

definition session_order :: "'d session \<Rightarrow> bool" where
  "session_order ws = sorted_wrt (<) (map fst ws)"

lemma session_order_simps [simp]:
  "session_order []"
  "session_order ((s, g, d) # ws) \<longleftrightarrow> (\<forall>x\<in>set ws. s < fst x) \<and> session_order ws"
  by (auto simp: session_order_def)

lemma session_value_Nil [simp]: "session_value [] s = None"
  by (simp add: session_value_def)

lemma session_value_Cons:
  assumes "\<forall>x\<in>set ws. s < fst x"
  shows "session_value ((s, g, d) # ws) s' =
    (case session_value ws s' of Some e \<Rightarrow> Some e | None \<Rightarrow> if s \<le> s' then Some d else None)"
  using assms by (simp add: session_value_def latest_Cons_sorted split: option.split)

text \<open>
  A whole history of runs: each has its run id, the point it branches off, and its session.  Run ids
  ascend, so every run branches off an earlier one (or off one that was there before).
\<close>

type_synonym 'd run = "u32 \<times> u32 \<times> u32 \<times> 'd session"

definition runs_ok :: "'d run list \<Rightarrow> bool" where
  "runs_ok runs = (sorted_wrt (<) (map fst runs) \<and> (\<forall>(n, p, b, ws)\<in>set runs. p < n \<and> session_order ws))"

definition tl_run :: "'d run \<Rightarrow> 'd timeline \<Rightarrow> 'd timeline" where
  "tl_run = (\<lambda>(n, p, b, ws) f. \<lambda>r s.
     if r = n then (case session_value ws s of Some d \<Rightarrow> Some d | None \<Rightarrow> f p b) else f r s)"

section \<open>The interface\<close>

locale fully_persistent =
  fixes invar :: "'h \<Rightarrow> bool"
    and lookup :: "'h \<Rightarrow> u32 \<Rightarrow> u32 \<Rightarrow> 'd option"
    and put :: "u32 \<Rightarrow> u32 \<Rightarrow> u64 \<Rightarrow> 'd \<Rightarrow> 'h \<Rightarrow> 'h"
    and branch :: "u32 \<Rightarrow> u32 \<Rightarrow> u32 \<Rightarrow> 'h \<Rightarrow> 'h"
    and writable :: "'h \<Rightarrow> u32 \<Rightarrow> u32 \<Rightarrow> bool"
    and fresh :: "'h \<Rightarrow> u32 \<Rightarrow> bool"
  assumes invar_write: "invar h \<Longrightarrow> writable h r s \<Longrightarrow> invar (put r s g d h)"
    and invar_branch: "invar h \<Longrightarrow> fresh h n \<Longrightarrow> p < n \<Longrightarrow> invar (branch n p b h)"
    and lookup_write: "invar h \<Longrightarrow> writable h r s \<Longrightarrow>
          lookup (put r s g d h) = tl_write r s d (lookup h)"
    and lookup_branch: "invar h \<Longrightarrow> fresh h n \<Longrightarrow> p < n \<Longrightarrow>
          lookup (branch n p b h) = tl_branch n p b (lookup h)"
    and writable_write: "invar h \<Longrightarrow> writable h r s \<Longrightarrow> s < s' \<Longrightarrow>
          writable (put r s g d h) r s'"
    and writable_branch: "invar h \<Longrightarrow> fresh h n \<Longrightarrow> p < n \<Longrightarrow> writable (branch n p b h) n s"
    and fresh_write: "invar h \<Longrightarrow> writable h r s \<Longrightarrow> fresh h n \<Longrightarrow> n \<noteq> r \<Longrightarrow> fresh (put r s g d h) n"
    and fresh_branch: "invar h \<Longrightarrow> fresh h n \<Longrightarrow> p < n \<Longrightarrow> fresh h k \<Longrightarrow> n < k \<Longrightarrow> fresh (branch n p b h) k"
begin

lemma write_all_invar:
  "invar h \<Longrightarrow> session_order ws \<Longrightarrow> (ws \<noteq> [] \<Longrightarrow> writable h r (fst (hd ws))) \<Longrightarrow>
    invar (write_all put r ws h)"
proof (induction ws arbitrary: h)
  case Nil
  then show ?case by simp
next
  case (Cons w ws)
  obtain s g d where w: "w = (s, g, d)" by (cases w)
  have "writable h r s" using Cons.prems(3) w by simp
  then show ?case
    using Cons.prems w by (auto intro!: Cons.IH invar_write writable_write)
qed

lemma write_all_fresh:
  "invar h \<Longrightarrow> session_order ws \<Longrightarrow> (ws \<noteq> [] \<Longrightarrow> writable h r (fst (hd ws))) \<Longrightarrow> fresh h n \<Longrightarrow> n \<noteq> r \<Longrightarrow>
    fresh (write_all put r ws h) n"
proof (induction ws arbitrary: h)
  case (Cons w ws)
  obtain s g d where w: "w = (s, g, d)" by (cases w)
  have "writable h r s" using Cons.prems(3) w by simp
  then show ?case
    using Cons.prems w by (auto intro!: Cons.IH invar_write writable_write fresh_write)
qed simp

lemma lookup_write_all:
  assumes "invar h" "session_order ws" "ws \<noteq> [] \<Longrightarrow> writable h r (fst (hd ws))"
  shows "lookup (write_all put r ws h) r' s' =
    (if r' = r then (case session_value ws s' of Some d \<Rightarrow> Some d | None \<Rightarrow> lookup h r s')
     else lookup h r' s')"
  using assms
proof (induction ws arbitrary: h)
  case Nil
  then show ?case by simp
next
  case (Cons w ws)
  obtain s g d where w: "w = (s, g, d)" by (cases w)
  have wr: "writable h r s" using Cons.prems(3) w by simp
  have next_wr: "ws \<noteq> [] \<Longrightarrow> writable (put r s g d h) r (fst (hd ws))"
    using Cons.prems(1,2) w wr by (auto intro!: writable_write)
  have "lookup (write_all put r ws (put r s g d h)) r' s' =
    (if r' = r then (case session_value ws s' of Some d \<Rightarrow> Some d | None \<Rightarrow> lookup (put r s g d h) r s')
     else lookup (put r s g d h) r' s')"
    using Cons.prems w wr next_wr by (intro Cons.IH) (auto intro: invar_write)
  moreover have "\<forall>x\<in>set ws. s < fst x" using Cons.prems(2) w by simp
  ultimately show ?case
    using lookup_write[OF Cons.prems(1) wr]
    by (auto simp: w session_value_Cons tl_write_def split: option.splits)
qed

text \<open>
  Going back in time: a branch off (p, b) followed by a whole session on the new run shows the
  session's own values in the new run, falls back to what (p, b) showed, and leaves every other
  run as it was.
\<close>

lemma time_travel:
  assumes "invar h" "fresh h n" "p < n" "session_order ws"
  shows "lookup (write_all put n ws (branch n p b h)) r s =
    (if r = n then (case session_value ws s of Some d \<Rightarrow> Some d | None \<Rightarrow> lookup h p b)
     else lookup h r s)"
proof -
  note inv = invar_branch[OF assms(1-3), of b]
  have "lookup (write_all put n ws (branch n p b h)) r s =
    (if r = n then (case session_value ws s of Some d \<Rightarrow> Some d | None \<Rightarrow> lookup (branch n p b h) n s)
     else lookup (branch n p b h) r s)"
    using inv assms writable_branch[OF assms(1-3)] by (intro lookup_write_all) auto
  then show ?thesis
    by (simp add: lookup_branch[OF assms(1-3)] tl_branch_def split: option.split)
qed

text \<open>And so for any number of runs, branched off each other in any way.\<close>

definition play :: "'d run list \<Rightarrow> 'h \<Rightarrow> 'h" where
  "play runs h = fold (\<lambda>(n, p, b, ws) h. write_all put n ws (branch n p b h)) runs h"

lemma play_run:
  assumes "invar h" "fresh h n" "p < n" "session_order ws"
  shows "invar (write_all put n ws (branch n p b h))"
    and "lookup (write_all put n ws (branch n p b h)) = tl_run (n, p, b, ws) (lookup h)"
    and "fresh h k \<Longrightarrow> n < k \<Longrightarrow> fresh (write_all put n ws (branch n p b h)) k"
proof -
  note w = writable_branch[OF assms(1-3)]
  show "invar (write_all put n ws (branch n p b h))"
    by (rule write_all_invar[OF invar_branch[OF assms(1-3)] assms(4) w])
  show "lookup (write_all put n ws (branch n p b h)) = tl_run (n, p, b, ws) (lookup h)"
    using time_travel[OF assms] by (auto simp: tl_run_def fun_eq_iff)
  show "fresh h k \<Longrightarrow> n < k \<Longrightarrow> fresh (write_all put n ws (branch n p b h)) k"
    by (rule write_all_fresh[OF invar_branch[OF assms(1-3)] assms(4) w fresh_branch[OF assms(1-3)]]) auto
qed

lemma lookup_play:
  assumes "invar h" "runs_ok runs" "\<forall>n\<in>fst ` set runs. fresh h n"
  shows "lookup (play runs h) = fold tl_run runs (lookup h)"
  using assms
proof (induction runs arbitrary: h)
  case (Cons x runs)
  obtain n p b ws where x: "x = (n, p, b, ws)" by (cases x)
  have n: "fresh h n" "p < n" "session_order ws" "\<forall>k\<in>fst ` set runs. n < k" "runs_ok runs"
    using Cons.prems(2,3) by (auto simp: x runs_ok_def)
  note one = play_run[OF Cons.prems(1) n(1-3), where b = b]
  have "\<forall>k\<in>fst ` set runs. fresh (write_all put n ws (branch n p b h)) k"
    using one(3) n(4) Cons.prems(3) by simp
  from Cons.IH[OF one(1) n(5) this] show ?case by (simp add: play_def x one(2))
qed (simp add: play_def)

end

section \<open>Containers with a constructor\<close>

locale created_history = fully_persistent +
  fixes create :: "u32 \<Rightarrow> u32 \<Rightarrow> u64 \<Rightarrow> 'b \<Rightarrow> 'a"
  assumes invar_create: "invar (create r s g d)"
    and lookup_create: "lookup (create r s g d) = tl_create r s d"
    and writable_create: "s < s' \<Longrightarrow> writable (create r s g d) r s'"
    and fresh_create: "r < n \<Longrightarrow> fresh (create r s g d) n"
begin

text \<open>A first recording, from the constructor on: the session of the root run.\<close>

lemma recorded_session:
  assumes "session_order ((s, g, d) # ws)"
  shows "lookup (write_all put r ws (create r s g d)) r' s' =
    (if r' = r then session_value ((s, g, d) # ws) s' else None)"
proof -
  have "lookup (write_all put r ws (create r s g d)) r' s' =
    (if r' = r then (case session_value ws s' of Some d \<Rightarrow> Some d | None \<Rightarrow> lookup (create r s g d) r s')
     else lookup (create r s g d) r' s')"
    using assms by (intro lookup_write_all) (auto intro: invar_create writable_create)
  then show ?thesis
    using assms by (auto simp: lookup_create tl_create_def session_value_Cons split: option.splits)
qed

end

section \<open>Two histories kept side by side\<close>

locale history_pair =
  A: fully_persistent invar1 lookup1 put1 branch1 writable1 fresh1 +
  B: fully_persistent invar2 lookup2 put2 branch2 writable2 fresh2
  for invar1 :: "'h1 \<Rightarrow> bool" and lookup1 :: "'h1 \<Rightarrow> u32 \<Rightarrow> u32 \<Rightarrow> 'd1 option"
    and put1 branch1 writable1 fresh1
    and invar2 :: "'h2 \<Rightarrow> bool" and lookup2 :: "'h2 \<Rightarrow> u32 \<Rightarrow> u32 \<Rightarrow> 'd2 option"
    and put2 branch2 writable2 fresh2
begin

text \<open>Two histories that are defined at the same points stay so when they are updated together.\<close>

lemma together_write:
  assumes "invar1 h1" "invar2 h2" "writable1 h1 r s" "writable2 h2 r s"
    and "\<And>r s. lookup1 h1 r s = None \<longleftrightarrow> lookup2 h2 r s = None"
  shows "lookup1 (put1 r s g d1 h1) r' s' = None \<longleftrightarrow> lookup2 (put2 r s g d2 h2) r' s' = None"
  using assms by (simp add: A.lookup_write B.lookup_write tl_write_def)

lemma together_branch:
  assumes "invar1 h1" "invar2 h2" "fresh1 h1 n" "fresh2 h2 n" "p < n"
    and "\<And>r s. lookup1 h1 r s = None \<longleftrightarrow> lookup2 h2 r s = None"
  shows "lookup1 (branch1 n p b h1) r' s' = None \<longleftrightarrow> lookup2 (branch2 n p b h2) r' s' = None"
  using assms by (simp add: A.lookup_branch B.lookup_branch tl_branch_def)

end

end
