(* ===== verification/Persistent_Array.thy ===== *)
theory Persistent_Array
  imports Persistence
begin

text \<open>
  \<open>src/src/utils/fully_persistent_array.h\<close>: \<open>FullyPersistentArray\<close> (one value per update) and
  \<open>FullyPersistentCacheArray\<close> (a 4096-byte page kept as 64 histories of 64-byte cache lines).

  Both keep, per run, the nodes written in that run, and a lineage that names where a run forked
  from; a read walks the lineage towards the root (\<open>find_fat_node\<close>).  The walk is a
  \<open>partial_function\<close>, so \<open>None\<close> is a walk that never ends; \<open>fat_walk_returns\<close> shows that it ends
  when every run branches off an older one.
\<close>

record 'd fat_node =
  fn_run_id :: u32
  fn_run_seq :: u32
  fn_global_seq :: u64
  fn_data :: 'd

record branch_point =
  bp_parent_run_id :: u32
  bp_branch_run_seq :: u32

section \<open>The lineage walk\<close>

partial_function (option) fat_walk ::
    "(u32 \<Rightarrow> 'd fat_node list option) \<Rightarrow> (u32 \<Rightarrow> branch_point option) \<Rightarrow> u32 \<Rightarrow> u32 \<Rightarrow> 'd fat_node option option" where
  "fat_walk runs lineage search_run_id search_upper_bound =
     (case (case runs search_run_id of
              Some history \<Rightarrow>
                (let idx = upper_bound search_upper_bound fn_run_seq history
                 in if 0 < idx then Some (history ! (idx - 1)) else None)
            | None \<Rightarrow> None) of
        Some node \<Rightarrow> Some (Some node)
      | None \<Rightarrow>
          (case lineage search_run_id of
             None \<Rightarrow> Some None
           | Some b \<Rightarrow> fat_walk runs lineage (bp_parent_run_id b) (bp_branch_run_seq b)))"

definition runs_sorted :: "(u32 \<Rightarrow> 'd fat_node list option) \<Rightarrow> bool" where
  "runs_sorted runs = (\<forall>r xs. runs r = Some xs \<longrightarrow> sorted (map fn_run_seq xs))"

definition lineage_wf :: "(u32 \<Rightarrow> branch_point option) \<Rightarrow> bool" where
  "lineage_wf lin = (\<forall>r b. lin r = Some b \<longrightarrow> bp_parent_run_id b < r)"

definition fat_writable ::
    "(u32 \<Rightarrow> 'd fat_node list option) \<Rightarrow> (u32 \<Rightarrow> branch_point option) \<Rightarrow> u32 \<Rightarrow> u32 \<Rightarrow> bool" where
  "fat_writable runs lin r s =
     ((\<forall>xs. runs r = Some xs \<longrightarrow> (\<forall>x\<in>set xs. fn_run_seq x \<le> s)) \<and>
      (\<forall>c b. lin c = Some b \<longrightarrow> bp_parent_run_id b = r \<longrightarrow> bp_branch_run_seq b < s))"

definition fat_fresh ::
    "(u32 \<Rightarrow> 'd fat_node list option) \<Rightarrow> (u32 \<Rightarrow> branch_point option) \<Rightarrow> u32 \<Rightarrow> bool" where
  "fat_fresh runs lin n =
     (runs n = None \<and> lin n = None \<and> (\<forall>c b. lin c = Some b \<longrightarrow> bp_parent_run_id b \<noteq> n))"

definition fat_push :: "'d fat_node \<Rightarrow> (u32 \<Rightarrow> 'd fat_node list option) \<Rightarrow> u32 \<Rightarrow> 'd fat_node list option" where
  "fat_push node runs =
     runs(fn_run_id node \<mapsto> (case runs (fn_run_id node) of Some xs \<Rightarrow> xs | None \<Rightarrow> []) @ [node])"

text \<open>One step of the walk in terms of the latest entry of a history.\<close>

lemma fat_walk_step:
  assumes "runs_sorted runs"
  shows "fat_walk runs lin r s =
     (case Option.bind (runs r) (latest s fn_run_seq) of
        Some node \<Rightarrow> Some (Some node)
      | None \<Rightarrow> (case lin r of None \<Rightarrow> Some None
                | Some b \<Rightarrow> fat_walk runs lin (bp_parent_run_id b) (bp_branch_run_seq b)))"
proof (cases "runs r")
  case None
  then show ?thesis by (subst fat_walk.simps) simp
next
  case (Some xs)
  then have "sorted (map fn_run_seq xs)" using assms by (auto simp: runs_sorted_def)
  from upper_bound_latest[OF this, of s] Some show ?thesis
    by (subst fat_walk.simps) simp
qed

lemma fat_walk_returns:
  assumes "lineage_wf lin"
  shows "\<exists>x. fat_walk runs lin r s = Some x"
proof (induction r arbitrary: s rule: less_induct)
  case (less r)
  show ?case
  proof (cases "lin r")
    case None
    then show ?thesis by (subst fat_walk.simps) (auto split: option.split)
  next
    case (Some b)
    then have "bp_parent_run_id b < r" using assms by (auto simp: lineage_wf_def)
    then obtain x where "fat_walk runs lin (bp_parent_run_id b) (bp_branch_run_seq b) = Some x"
      using less.IH by blast
    then show ?thesis using Some by (subst fat_walk.simps) (auto split: option.split)
  qed
qed

lemma runs_sorted_push [chrono_inv]:
  assumes "runs_sorted runs" "fat_writable runs lin (fn_run_id node) (fn_run_seq node)"
  shows "runs_sorted (fat_push node runs)"
  using assms by (auto simp: runs_sorted_def fat_push_def fat_writable_def sorted_append split: option.splits)

text \<open>A push at the tip of a run is seen from its own sequence on, in its own run only.\<close>

lemma fat_walk_push:
  assumes "runs_sorted runs" "lineage_wf lin"
    and "fat_writable runs lin (fn_run_id node) (fn_run_seq node)"
  shows "fat_walk (fat_push node runs) lin r s =
    (if r = fn_run_id node \<and> fn_run_seq node \<le> s then Some (Some node) else fat_walk runs lin r s)"
proof (induction r arbitrary: s rule: less_induct)
  case (less r)
  let ?runs' = "fat_push node runs"
  have sorted': "runs_sorted ?runs'" by (rule runs_sorted_push[OF assms(1,3)])
  have up: "fat_walk ?runs' lin (bp_parent_run_id b) (bp_branch_run_seq b) =
      fat_walk runs lin (bp_parent_run_id b) (bp_branch_run_seq b)" if "lin r = Some b" for b
  proof -
    have "bp_parent_run_id b < r" using that assms(2) by (auto simp: lineage_wf_def)
    moreover have "\<not> (bp_parent_run_id b = fn_run_id node \<and> fn_run_seq node \<le> bp_branch_run_seq b)"
      using assms(3) that by (auto simp: fat_writable_def not_le)
    ultimately show ?thesis using less.IH by presburger
  qed
  show ?case
  proof (cases "r = fn_run_id node")
    case True
    show ?thesis
      using up by (simp only: fat_walk_step[OF sorted', where r = r] fat_walk_step[OF assms(1), where r = r])
        (auto simp: True fat_push_def split: option.split)
  next
    case False
    then have "?runs' r = runs r" by (simp add: fat_push_def)
    with False up show ?thesis
      by (simp only: fat_walk_step[OF sorted', where r = r] fat_walk_step[OF assms(1), where r = r])
        (simp split: option.split)
  qed
qed

lemma fat_walk_branch:
  assumes "lineage_wf lin" "fat_fresh runs lin n" "p < n"
  shows "fat_walk runs (lin(n \<mapsto> \<lparr>bp_parent_run_id = p, bp_branch_run_seq = b\<rparr>)) r s =
    (if r = n then fat_walk runs lin p b else fat_walk runs lin r s)"
proof -
  let ?lin' = "lin(n \<mapsto> \<lparr>bp_parent_run_id = p, bp_branch_run_seq = b\<rparr>)"
  have other: "fat_walk runs ?lin' r s = fat_walk runs lin r s" if "r \<noteq> n" for r s
    using that
  proof (induction r arbitrary: s rule: less_induct)
    case (less r)
    have up: "fat_walk runs ?lin' (bp_parent_run_id c) (bp_branch_run_seq c) =
        fat_walk runs lin (bp_parent_run_id c) (bp_branch_run_seq c)" if "lin r = Some c" for c
      using that assms(1,2) by (intro less.IH) (auto simp: lineage_wf_def fat_fresh_def)
    show ?case
      using less.prems up
      by (subst fat_walk.simps, subst (2) fat_walk.simps) (auto split: option.split)
  qed
  have "fat_walk runs ?lin' n s = fat_walk runs ?lin' p b"
    using assms(2) by (subst fat_walk.simps) (simp add: fat_fresh_def)
  with other assms(3) show ?thesis by auto
qed

lemma lineage_wf_branch [chrono_inv]:
  "lineage_wf lin \<Longrightarrow> p < n \<Longrightarrow> lineage_wf (lin(n \<mapsto> \<lparr>bp_parent_run_id = p, bp_branch_run_seq = b\<rparr>))"
  by (simp add: lineage_wf_def)

lemma fat_writable_push:
  assumes "fat_writable runs lin (fn_run_id node) (fn_run_seq node)" "fn_run_seq node < s"
  shows "fat_writable (fat_push node runs) lin (fn_run_id node) s"
  using assms by (force simp: fat_writable_def fat_push_def split: option.splits)

lemma fat_writable_branch:
  assumes "fat_fresh runs lin n" "p < n"
  shows "fat_writable runs (lin(n \<mapsto> \<lparr>bp_parent_run_id = p, bp_branch_run_seq = b\<rparr>)) n s"
  using assms by (auto simp: fat_writable_def fat_fresh_def)

lemma fat_fresh_push: "fat_fresh runs lin n \<Longrightarrow> n \<noteq> fn_run_id node \<Longrightarrow> fat_fresh (fat_push node runs) lin n"
  by (simp add: fat_fresh_def fat_push_def)

lemma fat_fresh_branch:
  "fat_fresh runs lin k \<Longrightarrow> p < n \<Longrightarrow> n < k \<Longrightarrow> fat_fresh runs (lin(n \<mapsto> \<lparr>bp_parent_run_id = p, bp_branch_run_seq = b\<rparr>)) k"
  by (auto simp: fat_fresh_def)

lemma fat_walk_tip:
  assumes "runs_sorted runs" "fat_writable runs lin r s" "s \<le> s'"
  shows "fat_walk runs lin r s' = fat_walk runs lin r s"
proof -
  have "Option.bind (runs r) (latest s' fn_run_seq) = Option.bind (runs r) (latest s fn_run_seq)"
  proof (cases "runs r")
    case (Some xs)
    then have all: "fn_run_seq x \<le> s" if "x \<in> set xs" for x
      using that assms(2) by (auto simp: fat_writable_def)
    then have "filter (\<lambda>x. fn_run_seq x \<le> s') xs = filter (\<lambda>x. fn_run_seq x \<le> s) xs"
      using assms(3) by (intro filter_cong) (auto intro: order_trans)
    then show ?thesis by (simp add: Some latest_def)
  qed simp
  then show ?thesis
    by (simp only: fat_walk_step[OF assms(1), where s = s'] fat_walk_step[OF assms(1), where s = s])
qed

text \<open>A run with an empty history is walked like a run without one.\<close>

lemma fat_walk_cong:
  assumes "lineage_wf lin" "runs_sorted runs" "runs_sorted runs'"
    and "\<And>r. (case runs r of Some xs \<Rightarrow> xs | None \<Rightarrow> []) = (case runs' r of Some xs \<Rightarrow> xs | None \<Rightarrow> [])"
  shows "fat_walk runs lin r s = fat_walk runs' lin r s"
proof (induction r arbitrary: s rule: less_induct)
  case (less r)
  have "Option.bind (runs r) (latest s fn_run_seq) = Option.bind (runs' r) (latest s fn_run_seq)"
    using assms(4)[of r] by (cases "runs r"; cases "runs' r") auto
  moreover have "fat_walk runs lin (bp_parent_run_id b) (bp_branch_run_seq b) =
      fat_walk runs' lin (bp_parent_run_id b) (bp_branch_run_seq b)" if "lin r = Some b" for b
    using that assms(1) by (intro less.IH) (auto simp: lineage_wf_def)
  ultimately show ?case
    by (simp only: fat_walk_step[OF assms(2), where r = r] fat_walk_step[OF assms(3), where r = r])
      (auto split: option.split)
qed

section \<open>\<open>FullyPersistentArray\<close>\<close>

record 'd fp_array =
  pa_created_run_id :: u32
  pa_created_run_seq :: u32
  pa_runs :: "u32 \<Rightarrow> 'd fat_node list option"
  pa_lineage :: "u32 \<Rightarrow> branch_point option"

definition pa_create :: "u32 \<Rightarrow> u32 \<Rightarrow> u64 \<Rightarrow> 'd \<Rightarrow> 'd fp_array" where
  "pa_create run_id run_seq global_seq data =
     \<lparr> pa_created_run_id = run_id, pa_created_run_seq = run_seq,
       pa_runs = [run_id \<mapsto> [\<lparr> fn_run_id = run_id, fn_run_seq = run_seq, fn_global_seq = global_seq, fn_data = data \<rparr>]],
       pa_lineage = Map.empty \<rparr>"

definition pa_register_branch :: "u32 \<Rightarrow> u32 \<Rightarrow> u32 \<Rightarrow> 'd fp_array \<Rightarrow> 'd fp_array" where
  "pa_register_branch run_id parent_run_id branch_run_seq a =
     a \<lparr> pa_lineage := (pa_lineage a)(run_id \<mapsto>
           \<lparr> bp_parent_run_id = parent_run_id, bp_branch_run_seq = branch_run_seq \<rparr>) \<rparr>"

definition pa_update :: "u32 \<Rightarrow> u32 \<Rightarrow> u64 \<Rightarrow> 'd \<Rightarrow> 'd fp_array \<Rightarrow> 'd fp_array" where
  "pa_update run_id run_seq global_seq data a =
     a \<lparr> pa_runs := fat_push \<lparr> fn_run_id = run_id, fn_run_seq = run_seq, fn_global_seq = global_seq, fn_data = data \<rparr>
           (pa_runs a) \<rparr>"

definition pa_find_fat_node :: "'d fp_array \<Rightarrow> u32 \<Rightarrow> u32 \<Rightarrow> 'd fat_node option option" where
  "pa_find_fat_node a run_id run_seq = fat_walk (pa_runs a) (pa_lineage a) run_id run_seq"

text \<open>\<open>get\<close> dereferences the node it found: no node is undefined behaviour.\<close>

definition pa_get :: "'d fp_array \<Rightarrow> u32 \<Rightarrow> u32 \<Rightarrow> 'd option" where
  "pa_get a run_id run_seq =
     (case pa_find_fat_node a run_id run_seq of Some (Some node) \<Rightarrow> Some (fn_data node) | _ \<Rightarrow> None)"

definition pa_try_get :: "'d fp_array \<Rightarrow> u32 \<Rightarrow> u32 \<Rightarrow> 'd option option" where
  "pa_try_get a run_id run_seq = map_option (map_option fn_data) (pa_find_fat_node a run_id run_seq)"

definition pa_wf :: "'d fp_array \<Rightarrow> bool" where
  "pa_wf a = (runs_sorted (pa_runs a) \<and> lineage_wf (pa_lineage a))"

definition pa_writable :: "'d fp_array \<Rightarrow> u32 \<Rightarrow> u32 \<Rightarrow> bool" where
  "pa_writable a = fat_writable (pa_runs a) (pa_lineage a)"

definition pa_fresh :: "'d fp_array \<Rightarrow> u32 \<Rightarrow> bool" where
  "pa_fresh a = fat_fresh (pa_runs a) (pa_lineage a)"

lemmas pa_defs = pa_create_def pa_register_branch_def pa_update_def pa_find_fat_node_def
  pa_get_def pa_try_get_def pa_wf_def pa_writable_def pa_fresh_def

lemma pa_get_try_get: "pa_get a r s = Option.bind (pa_try_get a r s) id"
  by (simp add: pa_defs split: option.split)

lemma pa_try_get_returns: "pa_wf a \<Longrightarrow> \<exists>x. pa_try_get a r s = Some x"
  using fat_walk_returns by (fastforce simp: pa_defs)

interpretation pa: created_history pa_wf pa_get pa_update "\<lambda>n p b. pa_register_branch n p b"
  pa_writable pa_fresh pa_create
proof
  fix a :: "'d fp_array" and r s s' n p b g and d :: 'd
  let ?node = "\<lparr>fn_run_id = r, fn_run_seq = s, fn_global_seq = g, fn_data = d\<rparr>"
  have sorted1: "runs_sorted [r \<mapsto> [?node]]" by (simp add: runs_sorted_def)
  show "pa_wf (pa_create r s g d)" by (simp add: pa_defs sorted1 lineage_wf_def)
  show "pa_get (pa_create r s g d) = tl_create r s d"
    by (auto simp: pa_defs tl_create_def fat_walk_step[OF sorted1] latest_def fun_eq_iff)
  show "s < s' \<Longrightarrow> pa_writable (pa_create r s g d) r s'"
    by (auto simp: pa_defs fat_writable_def)
  show "r < n \<Longrightarrow> pa_fresh (pa_create r s g d) n"
    by (auto simp: pa_defs fat_fresh_def)
  assume wf: "pa_wf a"
  show "pa_fresh a n \<Longrightarrow> p < n \<Longrightarrow> pa_wf (pa_register_branch n p b a)"
    using wf by (auto simp: pa_defs lineage_wf_branch)
  show "pa_fresh a n \<Longrightarrow> p < n \<Longrightarrow> pa_get (pa_register_branch n p b a) = tl_branch n p b (pa_get a)"
    using wf by (auto simp: pa_defs fat_walk_branch tl_branch_def fun_eq_iff)
  show "pa_fresh a n \<Longrightarrow> p < n \<Longrightarrow> pa_writable (pa_register_branch n p b a) n s"
    by (simp add: pa_defs fat_writable_branch)
  show "pa_fresh (pa_register_branch n p b a) k" if "pa_fresh a n" "p < n" "pa_fresh a k" "n < k" for k
    using that fat_fresh_branch by (simp add: pa_defs)
  assume w: "pa_writable a r s"
  show "pa_wf (pa_update r s g d a)"
    using wf w runs_sorted_push[of "pa_runs a" "pa_lineage a" ?node] by (simp add: pa_defs)
  show "pa_get (pa_update r s g d a) = tl_write r s d (pa_get a)"
    using wf w fat_walk_push[of "pa_runs a" "pa_lineage a" ?node]
    by (auto simp: pa_defs tl_write_def fun_eq_iff)
  show "s < s' \<Longrightarrow> pa_writable (pa_update r s g d a) r s'"
    using w fat_writable_push[of "pa_runs a" "pa_lineage a" ?node] by (simp add: pa_defs)
  show "pa_fresh a n \<Longrightarrow> n \<noteq> r \<Longrightarrow> pa_fresh (pa_update r s g d a) n"
    by (simp add: pa_defs fat_fresh_push)
qed

text \<open>
  Time travel.  After branching a new run n off any point (p, b) of the past and writing any
  session to it, a read of n gives the session's last value at or before the point read, and what
  (p, b) held before the first of them; every read of another run gives what it gave before.
\<close>

theorem array_time_travel:
  assumes "pa_wf a" "pa_fresh a n" "p < n" "session_order ws"
  shows "pa_get (write_all pa_update n ws (pa_register_branch n p b a)) r s =
    (if r = n then (case session_value ws s of Some d \<Rightarrow> Some d | None \<Rightarrow> pa_get a p b) else pa_get a r s)"
  by (rule pa.time_travel[OF assms])

theorem array_time_travel_witness:
  "pa_get (write_all pa_update 2 [(3, 8, ''D''), (5, 9, ''E'')]
     (pa_register_branch 2 1 4 (pa_update 1 6 5 ''B'' (pa_create 1 0 0 ''A'')))) 2 4 = Some ''D''
   \<and> pa_get (write_all pa_update 2 [(3, 8, ''D''), (5, 9, ''E'')]
     (pa_register_branch 2 1 4 (pa_update 1 6 5 ''B'' (pa_create 1 0 0 ''A'')))) 2 1 = Some ''A''"
proof -
  let ?c = "pa_create 1 0 0 ''A''"
  let ?a = "pa_update 1 6 5 ''B'' ?c"
  let ?ws = "[(3, 8, ''D''), (5, 9, ''E'')] :: string session"
  have w: "pa_writable ?c 1 6" by (rule pa.writable_create) simp
  have wf: "pa_wf ?a" by (rule pa.invar_write[OF pa.invar_create w])
  have get: "pa_get ?a 1 4 = Some ''A''"
    by (simp add: pa.lookup_write[OF pa.invar_create w] pa.lookup_create tl_write_def tl_create_def)
  have fresh: "pa_fresh ?a 2"
    by (simp add: pa_fresh_def fat_fresh_def pa_update_def pa_create_def fat_push_def)
  have o: "session_order ?ws" by simp
  note t = array_time_travel[OF wf fresh _ o, of 1 4]
  have "session_value ?ws 4 = Some ''D''" "session_value ?ws 1 = None"
    by (simp_all add: session_value_def latest_def word_le_nat_alt)
  then show ?thesis using t[of 2 4] t[of 2 1] get by simp
qed

end
