(* ===== verification/Cache_Array.thy ===== *)
theory Cache_Array
  imports Persistent_Array
begin

text \<open>
  \<open>FullyPersistentCacheArray<4096>\<close> of \<open>src/src/utils/fully_persistent_array.h\<close>: one page, kept as
  64 histories of 64-byte cache lines per run, and the mirror \<open>latest_page_memory\<close> of the active
  run.  Cache lines are byte lists; \<open>std::array\<close> bounds them to 64 bytes, which is part of
  \<open>cache_sized\<close>.

  Each line is a fully persistent history of its own (the interpretation \<open>line\<close>); the page
  theorems put the 64 lines together: a page written as a diff against the page it replaces
  reads back whole, and the mirror is what a read at the tip of the active run would rebuild.
\<close>

abbreviation kCacheLineSize :: nat where "kCacheLineSize \<equiv> 64"

abbreviation cache_line_amount :: nat where "cache_line_amount \<equiv> 64"

abbreviation kPageSize :: nat where "kPageSize \<equiv> 4096"

type_synonym cache_line = "byte list"
type_synonym page_lines = "cache_line list"
type_synonym page_memory = "byte list"

record cache_array =
  ca_created_run_id :: u32
  ca_created_run_seq :: u32
  ca_runs :: "u32 \<Rightarrow> cache_line fat_node list list option"
  ca_lineage :: "u32 \<Rightarrow> branch_point option"
  ca_latest_page_memory :: page_memory

definition ca_node :: "u32 \<Rightarrow> u32 \<Rightarrow> u64 \<Rightarrow> cache_line \<Rightarrow> cache_line fat_node" where
  "ca_node run_id run_seq global_seq memory =
     \<lparr> fn_run_id = run_id, fn_run_seq = run_seq, fn_global_seq = global_seq, fn_data = memory \<rparr>"

text \<open>\<open>runs[run_id].cache_lines[idx].push_back(node)\<close> and the copy into the mirror.\<close>

definition ca_append :: "nat \<Rightarrow> cache_line fat_node \<Rightarrow> cache_array \<Rightarrow> cache_array" where
  "ca_append idx node a =
     (let lines = (case ca_runs a (fn_run_id node) of
                     Some ls \<Rightarrow> ls | None \<Rightarrow> replicate cache_line_amount [])
      in a \<lparr> ca_runs := (ca_runs a)(fn_run_id node \<mapsto> lines[idx := lines ! idx @ [node]]),
             ca_latest_page_memory := memcpy_at (idx * kCacheLineSize) (fn_data node) (ca_latest_page_memory a) \<rparr>)"

definition ca_create :: "u32 \<Rightarrow> u32 \<Rightarrow> u64 \<Rightarrow> page_lines \<Rightarrow> cache_array" where
  "ca_create run_id run_seq global_seq page =
     (let a0 = \<lparr> ca_created_run_id = run_id, ca_created_run_seq = run_seq,
                 ca_runs = [run_id \<mapsto> replicate cache_line_amount []],
                 ca_lineage = Map.empty, ca_latest_page_memory = replicate kPageSize 0 \<rparr>
      in fold (\<lambda>idx. ca_append idx (ca_node run_id run_seq global_seq (page ! idx))) [0..<cache_line_amount] a0)"

definition ca_register_branch :: "u32 \<Rightarrow> u32 \<Rightarrow> u32 \<Rightarrow> cache_array \<Rightarrow> cache_array" where
  "ca_register_branch run_id parent_run_id branch_run_seq a =
     a \<lparr> ca_lineage := (ca_lineage a)(run_id \<mapsto>
           \<lparr> bp_parent_run_id = parent_run_id, bp_branch_run_seq = branch_run_seq \<rparr>) \<rparr>"

text \<open>The single-line update; an index past the array is undefined behaviour.\<close>

definition ca_update_line :: "u32 \<Rightarrow> u32 \<Rightarrow> u64 \<Rightarrow> nat \<Rightarrow> cache_line \<Rightarrow> cache_array \<Rightarrow> cache_array option" where
  "ca_update_line run_id run_seq global_seq idx memory a =
     (if idx < cache_line_amount then Some (ca_append idx (ca_node run_id run_seq global_seq memory) a) else None)"

definition ca_update_page ::
    "u32 \<Rightarrow> u32 \<Rightarrow> u64 \<Rightarrow> page_lines \<Rightarrow> page_lines \<Rightarrow> cache_array \<Rightarrow> cache_array option" where
  "ca_update_page run_id run_seq global_seq page previous_page =
     foldM (\<lambda>idx a. if page ! idx = previous_page ! idx then Some a
                    else ca_update_line run_id run_seq global_seq idx (page ! idx) a)
       [0..<cache_line_amount]"

definition line_runs :: "nat \<Rightarrow> cache_array \<Rightarrow> u32 \<Rightarrow> cache_line fat_node list option" where
  "line_runs idx a = (\<lambda>r. map_option (\<lambda>ls. ls ! idx) (ca_runs a r))"

definition ca_find_fat_node :: "cache_array \<Rightarrow> nat \<Rightarrow> u32 \<Rightarrow> u32 \<Rightarrow> cache_line fat_node option option" where
  "ca_find_fat_node a idx run_id run_seq = fat_walk (line_runs idx a) (ca_lineage a) run_id run_seq"

definition ca_get :: "cache_array \<Rightarrow> u32 \<Rightarrow> u32 \<Rightarrow> page_memory option" where
  "ca_get a run_id run_seq =
     foldM (\<lambda>idx rebuilt_page. do {
              fat_node \<leftarrow> ca_find_fat_node a idx run_id run_seq;
              (case fat_node of
                 None \<Rightarrow> Some rebuilt_page
               | Some node \<Rightarrow> Some (memcpy_at (idx * kCacheLineSize) (fn_data node) rebuilt_page)) })
       [0..<cache_line_amount] (replicate kPageSize 0)"

definition ca_latest :: "cache_array \<Rightarrow> page_memory" where
  "ca_latest a = ca_latest_page_memory a"

section \<open>Invariant\<close>

definition ca_wf :: "cache_array \<Rightarrow> bool" where
  "ca_wf a = (lineage_wf (ca_lineage a)
     \<and> (\<forall>r ls. ca_runs a r = Some ls \<longrightarrow> length ls = cache_line_amount)
     \<and> (\<forall>i < cache_line_amount. runs_sorted (line_runs i a)))"

definition ca_writable :: "cache_array \<Rightarrow> nat \<Rightarrow> u32 \<Rightarrow> u32 \<Rightarrow> bool" where
  "ca_writable a i r s = (i < cache_line_amount \<and> fat_writable (line_runs i a) (ca_lineage a) r s)"

definition ca_fresh :: "cache_array \<Rightarrow> nat \<Rightarrow> u32 \<Rightarrow> bool" where
  "ca_fresh a i n = (i < cache_line_amount \<and> fat_fresh (line_runs i a) (ca_lineage a) n)"

text \<open>What a reader sees of one line.\<close>

definition ca_line :: "cache_array \<Rightarrow> nat \<Rightarrow> u32 \<Rightarrow> u32 \<Rightarrow> cache_line option" where
  "ca_line a i r s = (case ca_find_fat_node a i r s of Some (Some node) \<Rightarrow> Some (fn_data node) | _ \<Rightarrow> None)"

lemma ca_append_simps [simp]:
  "ca_lineage (ca_append i node a) = ca_lineage a"
  "ca_latest_page_memory (ca_append i node a) =
     memcpy_at (i * kCacheLineSize) (fn_data node) (ca_latest_page_memory a)"
  "ca_created_run_id (ca_append i node a) = ca_created_run_id a"
  "ca_created_run_seq (ca_append i node a) = ca_created_run_seq a"
  by (simp_all add: ca_append_def Let_def)

lemma ca_node_simps [simp]:
  "fn_run_id (ca_node r s g d) = r" "fn_run_seq (ca_node r s g d) = s"
  "fn_global_seq (ca_node r s g d) = g" "fn_data (ca_node r s g d) = d"
  by (simp_all add: ca_node_def)

lemma ca_wf_lengths:
  "ca_wf a \<Longrightarrow> ca_runs a r = Some ls \<Longrightarrow> length ls = cache_line_amount"
  by (auto simp: ca_wf_def)

lemma line_runs_append_same:
  assumes "ca_wf a" "i < cache_line_amount"
  shows "line_runs i (ca_append i node a) = fat_push node (line_runs i a)"
  using assms
  by (auto simp: line_runs_def ca_append_def fat_push_def Let_def fun_eq_iff ca_wf_lengths split: option.split)

lemma line_runs_append_other:
  assumes "ca_wf a" "i \<noteq> j" "j < cache_line_amount"
  shows "(case line_runs j (ca_append i node a) r of Some xs \<Rightarrow> xs | None \<Rightarrow> []) =
    (case line_runs j a r of Some xs \<Rightarrow> xs | None \<Rightarrow> [])"
  using assms by (auto simp: line_runs_def ca_append_def Let_def split: option.split)

lemma runs_sorted_cong:
  assumes "runs_sorted runs"
    and "\<And>r. (case runs' r of Some xs \<Rightarrow> xs | None \<Rightarrow> []) = (case runs r of Some xs \<Rightarrow> xs | None \<Rightarrow> [])"
  shows "runs_sorted runs'"
  unfolding runs_sorted_def
proof (intro allI impI)
  fix r xs assume "runs' r = Some xs"
  then show "sorted (map fn_run_seq xs)"
    using assms(2)[of r] assms(1) by (auto simp: runs_sorted_def split: option.splits)
qed

lemma ca_wf_append:
  assumes "ca_wf a" "ca_writable a i (fn_run_id node) (fn_run_seq node)"
  shows "ca_wf (ca_append i node a)"
proof -
  have i: "i < cache_line_amount" using assms(2) by (simp add: ca_writable_def)
  have "runs_sorted (line_runs j (ca_append i node a))" if j: "j < cache_line_amount" for j
  proof (cases "j = i")
    case True
    then show ?thesis
      using assms i by (auto simp: line_runs_append_same ca_wf_def ca_writable_def intro: runs_sorted_push)
  next
    case False
    then have "i \<noteq> j" by simp
    note eq = line_runs_append_other[OF assms(1) this j]
    show ?thesis
      by (rule runs_sorted_cong[OF _ eq]) (use assms(1) j in \<open>simp add: ca_wf_def\<close>)
  qed
  moreover have "length ls = cache_line_amount" if "ca_runs (ca_append i node a) r = Some ls" for r ls
    using that assms(1) by (auto simp: ca_append_def Let_def ca_wf_lengths split: if_splits option.splits)
  ultimately show ?thesis using assms(1) by (auto simp: ca_wf_def)
qed

lemma ca_line_append:
  assumes "ca_wf a" "ca_writable a i (fn_run_id node) (fn_run_seq node)" "j < cache_line_amount"
  shows "ca_line (ca_append i node a) j =
    (if j = i then tl_write (fn_run_id node) (fn_run_seq node) (fn_data node) (ca_line a i) else ca_line a j)"
proof (cases "j = i")
  case True
  then show ?thesis
    using assms fat_walk_push[of "line_runs i a" "ca_lineage a" node]
    by (auto simp: ca_line_def ca_find_fat_node_def line_runs_append_same ca_wf_def ca_writable_def
        tl_write_def fun_eq_iff)
next
  case False
  have "runs_sorted (line_runs j (ca_append i node a))" "runs_sorted (line_runs j a)" "lineage_wf (ca_lineage a)"
    using assms ca_wf_append[OF assms(1,2)] by (auto simp: ca_wf_def)
  with False assms have "fat_walk (line_runs j (ca_append i node a)) (ca_lineage a) r s =
      fat_walk (line_runs j a) (ca_lineage a) r s" for r s
    by (intro fat_walk_cong line_runs_append_other) auto
  with False show ?thesis by (simp add: ca_line_def ca_find_fat_node_def fun_eq_iff)
qed

lemma ca_writable_append:
  assumes "ca_wf a" "ca_writable a i (fn_run_id node) (fn_run_seq node)"
  shows "fn_run_seq node < s \<Longrightarrow> ca_writable (ca_append i node a) i (fn_run_id node) s"
    and "i \<noteq> j \<Longrightarrow> ca_writable a j r s \<Longrightarrow> ca_writable (ca_append i node a) j r s"
proof -
  assume "fn_run_seq node < s"
  with assms fat_writable_push[of "line_runs i a" "ca_lineage a" node s]
  show "ca_writable (ca_append i node a) i (fn_run_id node) s"
    by (auto simp: ca_writable_def line_runs_append_same)
next
  assume "i \<noteq> j" and w: "ca_writable a j r s"
  then have "(case line_runs j (ca_append i node a) r of Some xs \<Rightarrow> xs | None \<Rightarrow> []) =
      (case line_runs j a r of Some xs \<Rightarrow> xs | None \<Rightarrow> [])"
    by (intro line_runs_append_other[OF assms(1)]) (auto simp: ca_writable_def)
  with w show "ca_writable (ca_append i node a) j r s"
    by (auto simp: ca_writable_def fat_writable_def split: option.splits)
qed

interpretation line: fully_persistent ca_wf "\<lambda>a. ca_line a i"
  "\<lambda>r s g d a. ca_append i (ca_node r s g d) a" "\<lambda>n p b. ca_register_branch n p b"
  "\<lambda>a. ca_writable a i" "\<lambda>a. ca_fresh a i" for i
proof
  fix a r s s' n p b g d
  assume wf: "ca_wf a"
  have branch_wf: "ca_wf (ca_register_branch n p b a)" if "p < n"
    using wf that by (auto simp: ca_wf_def ca_register_branch_def line_runs_def lineage_wf_branch)
  then show "ca_fresh a i n \<Longrightarrow> p < n \<Longrightarrow> ca_wf (ca_register_branch n p b a)" by blast
  show "ca_fresh a i n \<Longrightarrow> p < n \<Longrightarrow> ca_line (ca_register_branch n p b a) i = tl_branch n p b (ca_line a i)"
    using wf fat_walk_branch[of "ca_lineage a" "line_runs i a" n p b]
    by (auto simp: ca_line_def ca_find_fat_node_def ca_register_branch_def ca_fresh_def ca_wf_def line_runs_def
        tl_branch_def fun_eq_iff)
  show "ca_fresh a i n \<Longrightarrow> p < n \<Longrightarrow> ca_writable (ca_register_branch n p b a) i n s"
    using fat_writable_branch[of "line_runs i a" "ca_lineage a" n p b s]
    by (auto simp: ca_writable_def ca_fresh_def ca_register_branch_def line_runs_def)
  show "ca_fresh (ca_register_branch n p b a) i k" if "ca_fresh a i n" "p < n" "ca_fresh a i k" "n < k" for k
    using that fat_fresh_branch[of "line_runs i a" "ca_lineage a" k p n b]
    by (simp add: ca_fresh_def ca_register_branch_def line_runs_def)
  assume w: "ca_writable a i r s"
  show "ca_wf (ca_append i (ca_node r s g d) a)" by (rule ca_wf_append[OF wf]) (simp add: w)
  show "ca_line (ca_append i (ca_node r s g d) a) i = tl_write r s d (ca_line a i)"
    using ca_line_append[OF wf, of i "ca_node r s g d" i] w by (simp add: ca_writable_def)
  show "s < s' \<Longrightarrow> ca_writable (ca_append i (ca_node r s g d) a) i r s'"
    using ca_writable_append(1)[OF wf, of i "ca_node r s g d" s'] w by simp
  show "ca_fresh a i n \<Longrightarrow> n \<noteq> r \<Longrightarrow> ca_fresh (ca_append i (ca_node r s g d) a) i n"
    using fat_fresh_push[of "line_runs i a" "ca_lineage a" n "ca_node r s g d"] wf
    by (auto simp: ca_fresh_def line_runs_append_same)
qed

section \<open>Pages\<close>

definition page_ok :: "page_lines \<Rightarrow> bool" where
  "page_ok p = (length p = cache_line_amount \<and> (\<forall>l\<in>set p. length l = kCacheLineSize))"

definition ca_sized :: "cache_array \<Rightarrow> bool" where
  "ca_sized a = (\<forall>i < cache_line_amount. \<forall>r s d. ca_line a i r s = Some d \<longrightarrow> length d = kCacheLineSize)"

definition line_or_zero :: "cache_array \<Rightarrow> u32 \<Rightarrow> u32 \<Rightarrow> nat \<Rightarrow> cache_line" where
  "line_or_zero a r s i = (case ca_line a i r s of None \<Rightarrow> replicate kCacheLineSize 0 | Some d \<Rightarrow> d)"

lemma ca_get_eq:
  assumes "ca_wf a" "ca_sized a"
  shows "ca_get a r s = Some (concat (map (line_or_zero a r s) [0..<cache_line_amount]))"
proof -
  have step: "(do { fat_node \<leftarrow> ca_find_fat_node a i r s;
          (case fat_node of None \<Rightarrow> Some buf
           | Some node \<Rightarrow> Some (memcpy_at (i * kCacheLineSize) (fn_data node) buf)) }) =
      Some (case ca_line a i r s of None \<Rightarrow> buf | Some d \<Rightarrow> memcpy_at (i * kCacheLineSize) d buf)"
    if "i \<in> set [0..<cache_line_amount]" for i buf
  proof -
    obtain x where "ca_find_fat_node a i r s = Some x"
      using fat_walk_returns[of "ca_lineage a"] assms(1) unfolding ca_find_fat_node_def ca_wf_def by blast
    then show ?thesis by (simp add: ca_line_def split: option.split)
  qed
  have "fold (\<lambda>i buf. case ca_line a i r s of None \<Rightarrow> buf | Some d \<Rightarrow> memcpy_at (i * kCacheLineSize) d buf)
      [0..<cache_line_amount] (replicate (cache_line_amount * kCacheLineSize) 0) =
    concat (map (line_or_zero a r s) [0..<cache_line_amount])"
    using fold_memcpy_at[of cache_line_amount "\<lambda>i. ca_line a i r s" kCacheLineSize cache_line_amount] assms(2)
    by (simp add: ca_sized_def line_or_zero_def[abs_def])
  then show ?thesis
    unfolding ca_get_def by (subst foldM_cong[OF refl refl step]) (simp_all add: foldM_total)
qed

lemma line_or_zero_length: "ca_sized a \<Longrightarrow> i < cache_line_amount \<Longrightarrow> length (line_or_zero a r s i) = kCacheLineSize"
  by (auto simp: line_or_zero_def ca_sized_def split: option.split)

lemma concat_same_sized:
  assumes "\<forall>l\<in>set xs. length l = k" "\<forall>l\<in>set ys. length l = k" "length xs = length ys"
  shows "concat xs = concat ys \<longleftrightarrow> xs = ys"
  using assms by (intro concat_eq_concat_iff) (metis (mono_tags, lifting) case_prodI2 set_zip_leftD set_zip_rightD)

lemma ca_get_page_iff:
  assumes "ca_wf a" "ca_sized a" "page_ok page"
  shows "ca_get a r s = Some (concat page) \<longleftrightarrow> (\<forall>i < cache_line_amount. line_or_zero a r s i = page ! i)"
proof -
  have "concat (map (line_or_zero a r s) [0..<cache_line_amount]) = concat page \<longleftrightarrow>
      map (line_or_zero a r s) [0..<cache_line_amount] = page"
    using assms by (intro concat_same_sized[where k = kCacheLineSize]) (auto simp: page_ok_def line_or_zero_length)
  then show ?thesis
    using assms(3) by (simp add: ca_get_eq[OF assms(1,2)] list_eq_iff_nth_eq page_ok_def)
qed

text \<open>
  The state of a loop over the lines after \<open>n\<close> of them, \<open>skip\<close> marking the lines it leaves alone:
  the diffing update skips the lines that did not change, the constructor none.
\<close>

definition page_updated ::
    "(nat \<Rightarrow> bool) \<Rightarrow> u32 \<Rightarrow> u32 \<Rightarrow> page_lines \<Rightarrow> page_lines \<Rightarrow> cache_array \<Rightarrow> nat \<Rightarrow> cache_array \<Rightarrow> bool" where
  "page_updated skip r s page prev a n a' =
     (ca_wf a' \<and> (\<forall>j < cache_line_amount. n \<le> j \<longrightarrow> ca_writable a' j r s)
      \<and> (\<forall>j < cache_line_amount. \<forall>s' > s. ca_writable a' j r s')
      \<and> (\<forall>j < cache_line_amount. ca_line a' j =
           (if j < n \<and> \<not> skip j then tl_write r s (page ! j) (ca_line a j) else ca_line a j))
      \<and> ca_latest_page_memory a' = concat (take n page @ drop n prev))"

lemma ca_writable_mono: "ca_writable a i r s \<Longrightarrow> s \<le> s' \<Longrightarrow> ca_writable a i r s'"
  by (force simp: ca_writable_def fat_writable_def)

lemma page_updated_step:
  assumes "page_updated skip r s page prev a n a'" "n < cache_line_amount" "page_ok page" "page_ok prev"
    and "skip n \<Longrightarrow> page ! n = prev ! n"
  shows "page_updated skip r s page prev a (Suc n)
    (if skip n then a' else ca_append n (ca_node r s g (page ! n)) a')"
proof -
  have lens: "length page = cache_line_amount" "length prev = cache_line_amount"
    using assms(3,4) by (auto simp: page_ok_def)
  have wf: "ca_wf a'" and w: "ca_writable a' n r s" using assms(1,2) by (auto simp: page_updated_def)
  have upd: "(take n page @ drop n prev)[n := page ! n] = take (Suc n) page @ drop (Suc n) prev"
    using assms(2) lens by (simp add: take_Suc_conv_app_nth list_update_append flip: Cons_nth_drop_Suc)
  have mem: "memcpy_at (n * kCacheLineSize) (page ! n) (concat (take n page @ drop n prev)) =
      concat (take (Suc n) page @ drop (Suc n) prev)"
    unfolding upd[symmetric]
    using assms(2-4) lens by (intro memcpy_at_concat) (auto simp: page_ok_def dest: in_set_takeD in_set_dropD)
  show ?thesis
  proof (cases "skip n")
    case True
    then have "take (Suc n) page @ drop (Suc n) prev = take n page @ drop n prev"
      using assms(2,5) lens by (simp add: take_Suc_conv_app_nth flip: Cons_nth_drop_Suc)
    then show ?thesis using True assms(1) by (auto simp: page_updated_def less_Suc_eq)
  next
    case False
    let ?b = "ca_append n (ca_node r s g (page ! n)) a'"
    have "ca_wf ?b" using wf w by (intro ca_wf_append) auto
    moreover have "ca_writable ?b j r s" if "j < cache_line_amount" "Suc n \<le> j" for j
      using that assms(1) wf w by (intro ca_writable_append(2)) (auto simp: page_updated_def)
    moreover have "ca_writable ?b j r s'" if "j < cache_line_amount" "s < s'" for j s'
      using that assms(1) wf w ca_writable_append[of a' n "ca_node r s g (page ! n)"]
      by (cases "j = n") (auto simp: page_updated_def)
    moreover have "ca_line ?b j = (if j < Suc n \<and> \<not> skip j
        then tl_write r s (page ! j) (ca_line a j) else ca_line a j)" if "j < cache_line_amount" for j
      using that False assms(1) wf w ca_line_append[of a' n "ca_node r s g (page ! n)" j]
      by (auto simp: page_updated_def less_Suc_eq)
    ultimately show ?thesis
      using False mem assms(1) by (auto simp: page_updated_def)
  qed
qed

lemma page_updated_all:
  assumes "page_ok page" "page_ok prev" "ca_wf a" "\<forall>j < cache_line_amount. ca_writable a j r s"
    and "ca_latest_page_memory a = concat prev" "\<And>j. skip j \<Longrightarrow> page ! j = prev ! j"
  shows "page_updated skip r s page prev a cache_line_amount
    (fold (\<lambda>j b. if skip j then b else ca_append j (ca_node r s g (page ! j)) b) [0..<cache_line_amount] a)"
proof -
  have "page_updated skip r s page prev a n
    (fold (\<lambda>j b. if skip j then b else ca_append j (ca_node r s g (page ! j)) b) [0..<n] a)"
    if "n \<le> cache_line_amount" for n
    using that
  proof (induction n)
    case 0
    then show ?case using assms by (auto simp: page_updated_def intro: ca_writable_mono)
  next
    case (Suc n)
    then show ?case using page_updated_step[where skip = skip and r = r and s = s and a = a and n = n, OF _ _ assms(1,2,6)] by simp
  qed
  then show ?thesis by blast
qed

lemma ca_update_page_fold:
  "ca_update_page r s g page prev a =
    Some (fold (\<lambda>j b. if page ! j = prev ! j then b else ca_append j (ca_node r s g (page ! j)) b)
      [0..<cache_line_amount] a)"
proof -
  have "foldM (\<lambda>j a. if page ! j = prev ! j then Some a else ca_update_line r s g j (page ! j) a)
      [0..<cache_line_amount] a =
    foldM (\<lambda>j b. Some (if page ! j = prev ! j then b else ca_append j (ca_node r s g (page ! j)) b))
      [0..<cache_line_amount] a"
    by (intro foldM_cong refl) (simp add: ca_update_line_def)
  then show ?thesis by (simp add: ca_update_page_def foldM_total)
qed

lemma ca_line_tip:
  assumes "ca_wf a" "ca_writable a i r s" "s \<le> s'"
  shows "ca_line a i r s' = ca_line a i r s"
proof -
  have "fat_walk (line_runs i a) (ca_lineage a) r s' = fat_walk (line_runs i a) (ca_lineage a) r s"
    using assms by (intro fat_walk_tip) (auto simp: ca_wf_def ca_writable_def)
  then show ?thesis by (simp add: ca_line_def ca_find_fat_node_def)
qed

lemma page_updated_get:
  assumes "page_updated skip r s page prev a cache_line_amount a'" "page_ok page" "ca_sized a"
    and "page_ok prev"
  shows "ca_sized a'" "ca_latest a' = concat page"
    and "ca_get a' r' s' =
      Some (concat (map (\<lambda>i. if \<not> skip i \<and> r' = r \<and> s \<le> s' then page ! i else line_or_zero a r' s' i) [0..<cache_line_amount]))"
proof -
  have lines: "ca_line a' j = (if \<not> skip j then tl_write r s (page ! j) (ca_line a j) else ca_line a j)"
    if "j < cache_line_amount" for j
    using that assms(1) by (simp add: page_updated_def)
  show sized: "ca_sized a'"
    using assms(2,3) lines by (auto simp: ca_sized_def tl_write_def page_ok_def split: if_splits)
  show "ca_latest a' = concat page"
    using assms(1,2,4) by (simp add: ca_latest_def page_updated_def page_ok_def)
  have "ca_wf a'" using assms(1) by (simp add: page_updated_def)
  then have "ca_get a' r' s' = Some (concat (map (line_or_zero a' r' s') [0..<cache_line_amount]))"
    using sized by (rule ca_get_eq)
  also have "map (line_or_zero a' r' s') [0..<cache_line_amount] =
      map (\<lambda>i. if \<not> skip i \<and> r' = r \<and> s \<le> s' then page ! i else line_or_zero a r' s' i) [0..<cache_line_amount]"
    by (intro map_cong refl) (auto simp: lines line_or_zero_def tl_write_def)
  finally show "ca_get a' r' s' = Some (concat (map (\<lambda>i. if \<not> skip i \<and> r' = r \<and> s \<le> s'
      then page ! i else line_or_zero a r' s' i) [0..<cache_line_amount]))" .
qed

lemma page_as_map: "page_ok page \<Longrightarrow> map ((!) page) [0..<cache_line_amount] = page"
  by (auto simp: page_ok_def intro: nth_equalityI)

lemma zero_page:
  "page_ok (replicate cache_line_amount (replicate kCacheLineSize 0))"
  "concat (replicate cache_line_amount (replicate kCacheLineSize (0::byte))) = replicate kPageSize 0"
proof -
  show "page_ok (replicate cache_line_amount (replicate kCacheLineSize 0))" by (simp add: page_ok_def)
  have "concat (replicate n (replicate k z)) = replicate (n * k) z" for n k and z :: byte
    by (induction n) (simp_all add: replicate_add)
  from this[of cache_line_amount kCacheLineSize 0]
  show "concat (replicate cache_line_amount (replicate kCacheLineSize (0::byte))) = replicate kPageSize 0"
    by simp
qed

lemma ca_create_spec:
  assumes "page_ok page"
  shows "ca_wf (ca_create r s g page)" "ca_sized (ca_create r s g page)"
    and "ca_latest (ca_create r s g page) = concat page"
    and "s \<le> s' \<Longrightarrow> ca_get (ca_create r s g page) r s' = Some (concat page)"
    and "s < s' \<Longrightarrow> \<forall>j < cache_line_amount. ca_writable (ca_create r s g page) j r s'"
proof -
  let ?a0 = "\<lparr> ca_created_run_id = r, ca_created_run_seq = s, ca_runs = [r \<mapsto> replicate cache_line_amount []],
      ca_lineage = Map.empty, ca_latest_page_memory = replicate kPageSize 0 \<rparr>"
  have sorted0: "runs_sorted (line_runs i ?a0)" if "i < cache_line_amount" for i
    using that by (auto simp: runs_sorted_def line_runs_def)
  have none: "ca_line ?a0 i r' s' = None" if "i < cache_line_amount" for i r' s'
    using that
    by (simp add: ca_line_def ca_find_fat_node_def fat_walk_step[OF sorted0[OF that]])
      (simp add: line_runs_def)
  have "page_updated (\<lambda>_. False) r s page (replicate cache_line_amount (replicate kCacheLineSize 0)) ?a0
      cache_line_amount (ca_create r s g page)"
    using page_updated_all[OF assms zero_page(1), of ?a0 r s "\<lambda>_. False" g] sorted0 zero_page(2)
    by (simp add: ca_create_def ca_wf_def lineage_wf_def ca_writable_def fat_writable_def line_runs_def)
  note st = this and get = page_updated_get[OF this assms]
  have "ca_sized ?a0" by (simp add: ca_sized_def none)
  from get[OF this zero_page(1)] st page_as_map[OF assms]
  show "ca_wf (ca_create r s g page)" "ca_sized (ca_create r s g page)"
    "ca_latest (ca_create r s g page) = concat page"
    "s \<le> s' \<Longrightarrow> ca_get (ca_create r s g page) r s' = Some (concat page)"
    "s < s' \<Longrightarrow> \<forall>j < cache_line_amount. ca_writable (ca_create r s g page) j r s'"
    by (simp_all add: page_updated_def)
qed

text \<open>
  C23: Recording a page as a diff against the mirror loses nothing.  When the mirror is what the
  active run shows at its tip and every line may be written at (r, s), the diffing update returns,
  a read of that run at or after s gives exactly the new page, every earlier point and every other
  run reads what it read before, and the mirror is again the page at the tip.
\<close>

theorem cache_page_update:
  assumes "ca_wf a" "ca_sized a" "page_ok page" "page_ok prev"
    and "\<forall>j < cache_line_amount. ca_writable a j r s"
    and "ca_latest a = concat prev" "ca_get a r s = Some (ca_latest a)"
  shows "\<exists>a'. ca_update_page r s g page prev a = Some a' \<and> ca_latest a' = concat page
    \<and> (\<forall>r' s'. ca_get a' r' s' = (if r' = r \<and> s \<le> s' then Some (concat page) else ca_get a r' s'))"
proof -
  let ?skip = "\<lambda>j. page ! j = prev ! j"
  let ?a' = "fold (\<lambda>j b. if ?skip j then b else ca_append j (ca_node r s g (page ! j)) b) [0..<cache_line_amount] a"
  have st: "page_updated ?skip r s page prev a cache_line_amount ?a'"
    using assms by (intro page_updated_all) (auto simp: ca_latest_def)
  have old: "line_or_zero a r s' i = prev ! i" if "i < cache_line_amount" "s \<le> s'" for i s'
  proof -
    have "ca_line a i r s' = ca_line a i r s" using that assms(1,5) by (intro ca_line_tip) auto
    then show ?thesis
      using that assms(6,7) ca_get_page_iff[OF assms(1,2,4), of r s] by (simp add: line_or_zero_def)
  qed
  have "map (\<lambda>i. if \<not> ?skip i \<and> r' = r \<and> s \<le> s' then page ! i else line_or_zero a r' s' i) [0..<cache_line_amount] =
      (if r' = r \<and> s \<le> s' then page else map (line_or_zero a r' s') [0..<cache_line_amount])" for r' s'
  proof (cases "r' = r \<and> s \<le> s'")
    case True
    have "map (\<lambda>i. if \<not> ?skip i \<and> r' = r \<and> s \<le> s' then page ! i else line_or_zero a r' s' i) [0..<cache_line_amount] =
        map ((!) page) [0..<cache_line_amount]"
      by (rule map_cong[OF refl]) (use True old in auto)
    then show ?thesis using True page_as_map[OF assms(3)] by simp
  qed auto
  then have "ca_get ?a' r' s' = (if r' = r \<and> s \<le> s' then Some (concat page) else ca_get a r' s')" for r' s'
    using page_updated_get(3)[OF st assms(3,2,4), of r' s'] by (simp add: ca_get_eq[OF assms(1,2)])
  then show ?thesis
    using page_updated_get(2)[OF st assms(3,2,4)] by (simp add: ca_update_page_fold)
qed

theorem cache_page_update_witness:
  "let p0 = replicate 64 (replicate 64 0); p1 = p0[3 := replicate 64 7]
   in \<exists>a'. ca_update_page 1 5 9 p1 p0 (ca_create 1 0 0 p0) = Some a'
     \<and> ca_get a' 1 6 = Some (concat p1) \<and> ca_get a' 1 4 = Some (concat p0)"
proof -
  let ?p0 = "replicate 64 (replicate 64 0) :: page_lines"
  let ?p1 = "?p0[3 := replicate 64 7]"
  have p1: "page_ok ?p1" by (auto simp: page_ok_def dest: set_update_subset_insert[THEN subsetD])
  note c = ca_create_spec[OF zero_page(1), where r = 1 and s = 0 and g = 0]
  have "\<exists>a'. ca_update_page 1 5 9 ?p1 ?p0 (ca_create 1 0 0 ?p0) = Some a' \<and> ca_latest a' = concat ?p1
    \<and> (\<forall>r' s'. ca_get a' r' s' = (if r' = 1 \<and> 5 \<le> s' then Some (concat ?p1) else ca_get (ca_create 1 0 0 ?p0) r' s'))"
    using c(3) c(4)[of 5] by (intro cache_page_update[OF c(1,2) p1 zero_page(1) c(5)]) simp_all
  then obtain a' where a': "ca_update_page 1 5 9 ?p1 ?p0 (ca_create 1 0 0 ?p0) = Some a'"
    "\<And>r' s'. ca_get a' r' s' = (if r' = 1 \<and> 5 \<le> s' then Some (concat ?p1) else ca_get (ca_create 1 0 0 ?p0) r' s')"
    by blast
  have "ca_get a' 1 6 = Some (concat ?p1)" by (subst a'(2)) simp
  moreover have "ca_get a' 1 4 = Some (concat ?p0)" using c(4)[of 4] by (subst a'(2)) simp
  ultimately show ?thesis unfolding Let_def using a'(1) by blast
qed

end
