(* ===== verification/Machine.thy ===== *)
theory Machine
  imports Prelude
begin

text \<open>
  The machine the debugger runs on: the Windows data types the sources use, the operating-system
  calls as parameters, the global variables of \<open>src/src/globals.cpp\<close>, and the thin wrappers of
  \<open>src/src/utils/memory/memory_utils.cpp\<close> and \<open>src/src/windows/nt_wrappers.cpp\<close>.

  Windows is not part of the repository, so its calls are the fields of the record \<open>win32\<close>, over an
  abstract world \<open>'w\<close> (the debuggee and the rest of the system).  Every definition that makes a
  call takes such a record as its first argument; what a theorem needs of it is a named predicate
  stating documented behaviour (\<open>w_bytes_ok\<close> below).
\<close>

section \<open>Data\<close>

record cpu_context =
  ctx_Rax :: u64
  ctx_Rcx :: u64
  ctx_Rdx :: u64
  ctx_Rbx :: u64
  ctx_Rsp :: u64
  ctx_Rbp :: u64
  ctx_Rsi :: u64
  ctx_Rdi :: u64
  ctx_R8 :: u64
  ctx_R9 :: u64
  ctx_R10 :: u64
  ctx_R11 :: u64
  ctx_R12 :: u64
  ctx_R13 :: u64
  ctx_R14 :: u64
  ctx_R15 :: u64
  ctx_Rip :: u64
  ctx_EFlags :: u32
  ctx_other :: "byte list"

record mbi =
  mbi_BaseAddress :: addr
  mbi_AllocationBase :: addr
  mbi_AllocationProtect :: u32
  mbi_RegionSize :: u64
  mbi_State :: u32
  mbi_Protect :: u32
  mbi_Type :: u32

definition mbi_zero :: mbi where
  "mbi_zero = \<lparr> mbi_BaseAddress = 0, mbi_AllocationBase = 0, mbi_AllocationProtect = 0, mbi_RegionSize = 0,
     mbi_State = 0, mbi_Protect = 0, mbi_Type = 0 \<rparr>"

abbreviation MEM_COMMIT :: u32 where "MEM_COMMIT \<equiv> 0x1000"
abbreviation MEM_RESERVE :: u32 where "MEM_RESERVE \<equiv> 0x2000"
abbreviation MEM_RELEASE :: u32 where "MEM_RELEASE \<equiv> 0x8000"
abbreviation MEM_FREE :: u32 where "MEM_FREE \<equiv> 0x10000"
abbreviation MEM_MAPPED :: u32 where "MEM_MAPPED \<equiv> 0x40000"
abbreviation MEM_IMAGE :: u32 where "MEM_IMAGE \<equiv> 0x1000000"
abbreviation PAGE_EXECUTE_READWRITE :: u32 where "PAGE_EXECUTE_READWRITE \<equiv> 0x40"
abbreviation PAGE_EXECUTE_WRITECOPY :: u32 where "PAGE_EXECUTE_WRITECOPY \<equiv> 0x80"
abbreviation PAGE_GUARD :: u32 where "PAGE_GUARD \<equiv> 0x100"

section \<open>Debug events\<close>

text \<open>
  What \<open>WaitForDebugEvent\<close> reports, with the fields of the union that the sources read.
\<close>

datatype debug_info =
    DE_Exception u32
  | DE_CreateThread
  | DE_ExitThread
  | DE_ExitProcess u32
  | DE_LoadDll addr addr handle
  | DE_UnloadDll addr
  | DE_Other u32

record debug_event =
  de_process_id :: u32
  de_thread_id :: thread_id
  de_info :: debug_info

abbreviation STATUS_BREAKPOINT :: u32 where "STATUS_BREAKPOINT \<equiv> 0x80000003"
abbreviation EXCEPTION_SINGLE_STEP :: u32 where "EXCEPTION_SINGLE_STEP \<equiv> 0x80000004"
abbreviation DBG_CONTINUE :: u32 where "DBG_CONTINUE \<equiv> 0x10002"
abbreviation DBG_EXCEPTION_NOT_HANDLED :: u32 where "DBG_EXCEPTION_NOT_HANDLED \<equiv> 0x80010001"
abbreviation ERROR_SEM_TIMEOUT :: u32 where "ERROR_SEM_TIMEOUT \<equiv> 121"
abbreviation INFINITE :: u32 where "INFINITE \<equiv> 0xFFFFFFFF"

section \<open>Operating-system calls\<close>

text \<open>
  Reads take the buffer as it is before the call and give the buffer after it, so a failed or short
  read leaves what the buffer held; \<open>w_indeterminate n\<close> is what an uninitialised buffer of n bytes
  holds.  \<open>w_get_context\<close> is what the context record holds after \<open>GetThreadContext\<close>.
  \<open>w_wait_event\<close> waits up to the given number of milliseconds and gives an event or, on failure, the
  error code; the debuggee runs meanwhile, so the world after it is another one.  \<open>w_clock\<close> is the
  system clock in microseconds, and \<open>w_thread_exit_code\<close> the exit code of a thread that has ended.
\<close>

record 'w win32 =
  w_read :: "'w \<Rightarrow> addr \<Rightarrow> byte list \<Rightarrow> bool \<times> byte list"
  w_write :: "'w \<Rightarrow> addr \<Rightarrow> byte list \<Rightarrow> bool \<times> 'w"
  w_flush :: "'w \<Rightarrow> addr \<Rightarrow> nat \<Rightarrow> 'w"
  w_virtual_query :: "'w \<Rightarrow> addr \<Rightarrow> mbi option"
  w_virtual_alloc :: "'w \<Rightarrow> addr \<Rightarrow> u64 \<Rightarrow> u32 \<Rightarrow> u32 \<Rightarrow> addr \<times> 'w"
  w_virtual_free :: "'w \<Rightarrow> addr \<Rightarrow> u64 \<Rightarrow> u32 \<Rightarrow> bool \<times> 'w"
  w_virtual_protect :: "'w \<Rightarrow> addr \<Rightarrow> u64 \<Rightarrow> u32 \<Rightarrow> u32 \<times> 'w"
  w_indeterminate :: "nat \<Rightarrow> byte list"
  w_open_thread :: "'w \<Rightarrow> thread_id \<Rightarrow> handle \<times> 'w"
  w_close_handle :: "'w \<Rightarrow> handle \<Rightarrow> 'w"
  w_teb_address :: "'w \<Rightarrow> handle \<Rightarrow> addr option"
  w_get_context :: "'w \<Rightarrow> handle \<Rightarrow> cpu_context"
  w_set_context :: "'w \<Rightarrow> handle \<Rightarrow> cpu_context \<Rightarrow> bool \<times> 'w"
  w_suspend_thread :: "'w \<Rightarrow> handle \<Rightarrow> 'w"
  w_resume_thread :: "'w \<Rightarrow> handle \<Rightarrow> 'w"
  w_terminate_thread :: "'w \<Rightarrow> handle \<Rightarrow> 'w"
  w_suspend_process :: "'w \<Rightarrow> u32 \<times> 'w"
  w_resume_process :: "'w \<Rightarrow> u32 \<times> 'w"
  w_proc_address :: "string \<Rightarrow> addr"
  w_peb_address :: "'w \<Rightarrow> addr"
  w_wait_event :: "'w \<Rightarrow> u32 \<Rightarrow> (u32 + debug_event) \<times> 'w"
  w_continue_event :: "'w \<Rightarrow> u32 \<Rightarrow> thread_id \<Rightarrow> u32 \<Rightarrow> 'w"
  w_clock :: "'w \<Rightarrow> int"
  w_thread_list :: "'w \<Rightarrow> (u32 \<times> thread_id) list option"
  w_duplicate_handle :: "'w \<Rightarrow> handle \<Rightarrow> handle \<times> 'w"
  w_thread_id_of :: "'w \<Rightarrow> handle \<Rightarrow> thread_id"
  w_create_remote_thread :: "'w \<Rightarrow> addr \<Rightarrow> addr \<Rightarrow> handle \<times> 'w"
  w_thread_exit_code :: "'w \<Rightarrow> handle \<Rightarrow> u32 option"
  w_stop_debugging :: "'w \<Rightarrow> bool \<times> 'w"
  w_read_line :: "'w \<Rightarrow> string \<times> 'w"
  w_last_error :: "'w \<Rightarrow> u32"

text \<open>
  The documented contract of \<open>ReadProcessMemory\<close> and \<open>WriteProcessMemory\<close> on memory that can be
  read and written: a read fills the buffer, a write is read back byte for byte and touches nothing
  else.  \<open>mem w\<close> is the debuggee's memory in world w.
\<close>

definition span :: "addr \<Rightarrow> nat \<Rightarrow> addr list" where
  "span a n = map (\<lambda>i. a + of_nat i) [0..<n]"

definition bytes_at :: "(addr \<Rightarrow> byte) \<Rightarrow> addr \<Rightarrow> nat \<Rightarrow> byte list" where
  "bytes_at m a n = map m (span a n)"

fun store_bytes :: "addr \<Rightarrow> byte list \<Rightarrow> (addr \<Rightarrow> byte) \<Rightarrow> addr \<Rightarrow> byte" where
  "store_bytes a [] m = m"
| "store_bytes a (b # bs) m = store_bytes (a + 1) bs (m(a := b))"

definition w_bytes_ok :: "'w win32 \<Rightarrow> ('w \<Rightarrow> addr \<Rightarrow> byte) \<Rightarrow> bool" where
  "w_bytes_ok W mem =
     ((\<forall>w a buf. w_read W w a buf = (True, bytes_at (mem w) a (length buf)))
      \<and> (\<forall>w a bs. fst (w_write W w a bs) \<and> mem (snd (w_write W w a bs)) = store_bytes a bs (mem w))
      \<and> (\<forall>w a n. mem (w_flush W w a n) = mem w)
      \<and> (\<forall>n. length (w_indeterminate W n) = n))"

lemma span_Suc: "span a (Suc n) = a # span (a + 1) n"
proof -
  have "map (\<lambda>i. a + of_nat i) [0..<Suc n] = (a + 0) # map (\<lambda>i. a + of_nat (Suc i)) [0..<n]"
    by (simp only: upt_conv_Cons[of 0 "Suc n"] zero_less_Suc map_Suc_upt[symmetric] list.map map_map comp_def)
      simp
  then show ?thesis by (simp add: span_def ac_simps)
qed

lemma span_0 [simp]: "span a 0 = []"
  by (simp add: span_def)

lemma length_bytes_at [simp]: "length (bytes_at m a n) = n"
  by (simp add: bytes_at_def span_def)

lemma store_bytes_outside: "x \<notin> set (span a (length bs)) \<Longrightarrow> store_bytes a bs m x = m x"
  by (induction bs arbitrary: a m) (auto simp: span_Suc)

section \<open>Global variables\<close>

record 'w machine =
  m_world :: 'w
  g_running :: bool
  g_process_id :: u32
  g_run_id :: u32
  g_run_sequence :: u32
  g_global_sequence :: u64
  g_thread_id_to_sequence :: "(thread_id, u64) smap"
  g_main_thread_id :: thread_id
  g_snapshot_interval :: nat
  g_current_debugger_language :: string
  g_stdout :: "string list"

definition kTargetSentinel :: u64 where "kTargetSentinel = - 1"
definition kUserSharedDataBaseAddress :: addr where "kUserSharedDataBaseAddress = 0x7ffe0000"
definition kUserSharedDataEndAddress :: addr where "kUserSharedDataEndAddress = 0x7ffeffff"

text \<open>The initial values of the globals; \<open>w\<close> is the world when the debugger starts.\<close>

definition machine_init :: "'w \<Rightarrow> 'w machine" where
  "machine_init w =
     \<lparr> m_world = w, g_running = False, g_process_id = 0, g_run_id = 0, g_run_sequence = 0,
       g_global_sequence = 0, g_thread_id_to_sequence = [], g_main_thread_id = 0, g_snapshot_interval = 5000,
       g_current_debugger_language = ''cpp'', g_stdout = [] \<rparr>"

definition put_line :: "string \<Rightarrow> ('w, 'z) machine_scheme \<Rightarrow> ('w, 'z) machine_scheme" where
  "put_line line m = m \<lparr> g_stdout := g_stdout m @ [line] \<rparr>"

text \<open>Reading a fixed number of bytes into an uninitialised or a zeroed buffer.\<close>

definition read_uninit :: "'w win32 \<Rightarrow> addr \<Rightarrow> nat \<Rightarrow> ('w, 'z) machine_scheme \<Rightarrow> byte list" where
  "read_uninit W a n m = snd (w_read W (m_world m) a (w_indeterminate W n))"

definition read_zeroed :: "'w win32 \<Rightarrow> addr \<Rightarrow> nat \<Rightarrow> ('w, 'z) machine_scheme \<Rightarrow> byte list" where
  "read_zeroed W a n m = snd (w_read W (m_world m) a (replicate n 0))"

definition write_mem :: "'w win32 \<Rightarrow> addr \<Rightarrow> byte list \<Rightarrow> ('w, 'z) machine_scheme \<Rightarrow> bool \<times> ('w, 'z) machine_scheme" where
  "write_mem W a bs m = (let (ok, w) = w_write W (m_world m) a bs in (ok, m \<lparr> m_world := w \<rparr>))"

definition flush_icache :: "'w win32 \<Rightarrow> addr \<Rightarrow> nat \<Rightarrow> ('w, 'z) machine_scheme \<Rightarrow> ('w, 'z) machine_scheme" where
  "flush_icache W a n m = m \<lparr> m_world := w_flush W (m_world m) a n \<rparr>"

text \<open>\<open>WaitForDebugEvent\<close> and \<open>ContinueDebugEvent\<close>.\<close>

definition wait_event :: "'w win32 \<Rightarrow> u32 \<Rightarrow> ('w, 'z) machine_scheme \<Rightarrow> (u32 + debug_event) \<times> ('w, 'z) machine_scheme" where
  "wait_event W timeout m = (let (r, w) = w_wait_event W (m_world m) timeout in (r, m \<lparr> m_world := w \<rparr>))"

definition continue_event :: "'w win32 \<Rightarrow> debug_event \<Rightarrow> u32 \<Rightarrow> ('w, 'z) machine_scheme \<Rightarrow> ('w, 'z) machine_scheme" where
  "continue_event W de status m =
     m \<lparr> m_world := w_continue_event W (m_world m) (de_process_id de) (de_thread_id de) status \<rparr>"

section \<open>\<open>memory_utils.cpp\<close>\<close>

definition virtual_free :: "'w win32 \<Rightarrow> addr \<Rightarrow> ('w, 'z) machine_scheme \<Rightarrow> ('w, 'z) machine_scheme" where
  "virtual_free W allocation_base m =
     m \<lparr> m_world := snd (w_virtual_free W (m_world m) allocation_base 0 MEM_RELEASE) \<rparr>"

definition virtual_reserve_memory ::
    "'w win32 \<Rightarrow> addr \<Rightarrow> u64 \<Rightarrow> u32 \<Rightarrow> ('w, 'z) machine_scheme \<Rightarrow> ('w, 'z) machine_scheme" where
  "virtual_reserve_memory W address total_region_size alloc_protect m =
     m \<lparr> m_world := snd (w_virtual_alloc W (m_world m) address total_region_size MEM_RESERVE alloc_protect) \<rparr>"

definition virtual_write :: "'w win32 \<Rightarrow> addr \<Rightarrow> byte list \<Rightarrow> ('w, 'z) machine_scheme \<Rightarrow> ('w, 'z) machine_scheme" where
  "virtual_write W address memory m = snd (write_mem W address memory m)"

definition virtual_alloc_full_permissions ::
    "'w win32 \<Rightarrow> addr \<Rightarrow> u64 \<Rightarrow> ('w, 'z) machine_scheme \<Rightarrow> ('w, 'z) machine_scheme" where
  "virtual_alloc_full_permissions W address region_size m =
     m \<lparr> m_world := snd (w_virtual_alloc W (m_world m) address region_size MEM_COMMIT PAGE_EXECUTE_READWRITE) \<rparr>"

definition virtual_protect ::
    "'w win32 \<Rightarrow> addr \<Rightarrow> u64 \<Rightarrow> u32 \<Rightarrow> ('w, 'z) machine_scheme \<Rightarrow> u32 \<times> ('w, 'z) machine_scheme" where
  "virtual_protect W address region_size new_protect m =
     (let (old_protect, w) = w_virtual_protect W (m_world m) address region_size new_protect
      in (old_protect, m \<lparr> m_world := w \<rparr>))"

section \<open>\<open>nt_wrappers.cpp\<close>\<close>

text \<open>
  The functions of \<open>ntdll\<close> whose addresses the program looks up once, before it creates the debuggee.  An address
  stays what it is, so the model asks \<open>w_proc_address\<close> wherever the source reads one of these variables.
\<close>

definition nt_wrapper_names :: "string list" where
  "nt_wrapper_names =
     [''NtSuspendProcess'', ''NtResumeProcess'', ''NtQueryInformationProcess'', ''NtUnmapViewOfSection'', ''LdrLoadDll'',
      ''LdrUnloadDll'', ''NtCreateThreadEx'', ''NtAllocateVirtualMemory'', ''NtFreeVirtualMemory'', ''NtProtectVirtualMemory'',
      ''NtCreateThread'', ''NtTerminateThread'']"

definition initialize_wrapper_addresses :: "'w win32 \<Rightarrow> string \<rightharpoonup> addr" where
  "initialize_wrapper_addresses W = map_of (map (\<lambda>name. (name, w_proc_address W name)) nt_wrapper_names)"

lemma initialized_wrapper:
  "name \<in> set nt_wrapper_names \<Longrightarrow> initialize_wrapper_addresses W name = Some (w_proc_address W name)"
  by (simp add: initialize_wrapper_addresses_def map_of_map_restrict)

definition suspend_process :: "'w win32 \<Rightarrow> ('w, 'z) machine_scheme \<Rightarrow> u32 \<times> ('w, 'z) machine_scheme" where
  "suspend_process W m = (let (error, w) = w_suspend_process W (m_world m) in (error, m \<lparr> m_world := w \<rparr>))"

definition resume_process :: "'w win32 \<Rightarrow> ('w, 'z) machine_scheme \<Rightarrow> u32 \<times> ('w, 'z) machine_scheme" where
  "resume_process W m = (let (error, w) = w_resume_process W (m_world m) in (error, m \<lparr> m_world := w \<rparr>))"

text \<open>
  \<open>GetChildEntryAddress\<close>: image base from the PEB (offset 16), the offset of the NT headers
  from the DOS header (offset 60, 32 bits signed), the entry point from the optional header (offset
  40 of the NT headers, 32 bits).
\<close>

definition le_word :: "byte list \<Rightarrow> u64" where
  "le_word bs = foldr (\<lambda>b acc. ucast b + 256 * acc) bs 0"

definition le_u32 :: "byte list \<Rightarrow> u32" where
  "le_u32 bs = foldr (\<lambda>b acc. ucast b + 256 * acc) bs 0"

definition get_child_entry_address :: "'w win32 \<Rightarrow> ('w, 'z) machine_scheme \<Rightarrow> addr" where
  "get_child_entry_address W m =
     (let image_base = le_word (read_uninit W (w_peb_address W (m_world m) + 16) 8 m);
          e_lfanew = le_u32 (read_uninit W (image_base + 60) 4 m);
          nt_headers = image_base + scast e_lfanew
      in image_base + ucast (le_u32 (read_uninit W (nt_headers + 40) 4 m)))"

section \<open>Little-endian words in memory\<close>

lemma byte_take_bit: "(ucast (ucast x :: byte) :: u64) = take_bit 8 x" for x :: u64
  by (rule bit_word_eqI) (auto simp: bit_unsigned_iff bit_take_bit_iff)

lemma byte_split: "ucast (ucast x :: byte) + 256 * drop_bit 8 x = x" for x :: u64
proof -
  have "push_bit 8 (drop_bit 8 x) + take_bit 8 x = x" by (rule bits_ident)
  then show ?thesis by (simp add: byte_take_bit push_bit_eq_mult add.commute mult.commute)
qed

definition word_le :: "u64 \<Rightarrow> byte list" where
  "word_le v = map (\<lambda>i. ucast (drop_bit (8 * i) v)) [0..<8]"

lemma length_word_le [simp]: "length (word_le v) = 8"
  by (simp add: word_le_def)

lemma le_word_word_le [simp]: "le_word (word_le v) = v"
proof -
  have step: "ucast (ucast (drop_bit n v) :: byte) + 256 * drop_bit (n + 8) v = drop_bit n v" for n
    using byte_split[of "drop_bit n v"] by (simp add: add.commute)
  have top: "drop_bit 64 v = 0"
    by (rule bit_word_eqI) (auto simp: bit_drop_bit_eq dest: bit_imp_le_length)
  have "le_word (word_le v) = ucast (ucast (drop_bit 0 v) :: byte) + 256 * (ucast (ucast (drop_bit 8 v) :: byte)
      + 256 * (ucast (ucast (drop_bit 16 v) :: byte) + 256 * (ucast (ucast (drop_bit 24 v) :: byte)
      + 256 * (ucast (ucast (drop_bit 32 v) :: byte) + 256 * (ucast (ucast (drop_bit 40 v) :: byte)
      + 256 * (ucast (ucast (drop_bit 48 v) :: byte) + 256 * (ucast (ucast (drop_bit 56 v) :: byte)
      + 256 * drop_bit 64 v)))))))"
    unfolding top le_word_def word_le_def by (simp add: upt_rec)
  also have "\<dots> = v"
    using step[of 0] step[of 8] step[of 16] step[of 24] step[of 32] step[of 40] step[of 48] step[of 56] by simp
  finally show ?thesis .
qed

lemma span_no_wrap:
  assumes "n < 2 ^ 64"
  shows "a \<notin> set (span (a + 1) n)"
proof -
  have "(of_nat (Suc i) :: addr) \<noteq> 0" if "i < n" for i
  proof -
    have "Suc i < 2 ^ 64" using that assms by simp
    then have "unat (of_nat (Suc i) :: addr) = Suc i" by (simp only: unat_of_nat take_bit_nat_eq_self) simp
    then show ?thesis by (metis unat_0 nat.distinct(1))
  qed
  then show ?thesis by (auto simp: span_def add.assoc simp del: of_nat_Suc) (metis of_nat_Suc add_cancel_left_right)
qed

lemma bytes_at_Suc: "bytes_at f a (Suc n) = f a # bytes_at f (a + 1) n"
  by (simp add: bytes_at_def span_Suc)

lemma bytes_at_append: "bytes_at f a (n + k) = bytes_at f a n @ bytes_at f (a + of_nat n) k"
proof (induction n arbitrary: a)
  case (Suc n)
  then show ?case by (simp add: bytes_at_Suc ac_simps)
qed (simp add: bytes_at_def)

lemma bytes_at_slice:
  "i + n \<le> N \<Longrightarrow> bytes_at f (a + of_nat i) n = take n (drop i (bytes_at f a N))"
  using bytes_at_append[of f a i "N - i"] bytes_at_append[of f "a + of_nat i" n "N - i - n"] by simp

lemma bytes_at_take: "n \<le> N \<Longrightarrow> take n (bytes_at f a N) = bytes_at f a n"
  using bytes_at_slice[of 0 n N f a] by simp

text \<open>What is stored is read back.\<close>

lemma bytes_at_store:
  assumes "length bs < 2 ^ 64"
  shows "bytes_at (store_bytes a bs m) a (length bs) = bs"
  using assms
proof (induction bs arbitrary: a m)
  case Nil
  then show ?case by (simp add: bytes_at_def)
next
  case (Cons b bs)
  have "store_bytes (a + 1) bs (m(a := b)) a = b"
    using store_bytes_outside[of a "a + 1" bs "m(a := b)"] span_no_wrap[of "length bs" a] Cons.prems by simp
  then show ?case using Cons.IH[of "a + 1" "m(a := b)"] Cons.prems by (simp add: bytes_at_Suc del: fun_upd_apply)
qed

lemma write_read_back:
  assumes "w_bytes_ok W mem" "length bs < 2 ^ 64" "length buf = length bs"
  shows "w_read W (snd (w_write W w a bs)) a buf = (True, bs)"
  using assms bytes_at_store[OF assms(2)] by (simp add: w_bytes_ok_def)

lemma write_mem_eq:
  "write_mem W a bs m = (fst (w_write W (m_world m) a bs), m \<lparr> m_world := snd (w_write W (m_world m) a bs) \<rparr>)"
  by (simp add: write_mem_def split: prod.split)

lemma w_bytes_okD:
  assumes "w_bytes_ok W mem"
  shows "w_read W w a buf = (True, bytes_at (mem w) a (length buf))" "fst (w_write W w a bs)"
    and "mem (snd (w_write W w a bs)) = store_bytes a bs (mem w)" "mem (w_flush W w a n) = mem w"
    and "length (w_indeterminate W n) = n"
  using assms by (simp_all add: w_bytes_ok_def)

section \<open>A concrete system\<close>

text \<open>
  A system whose world is a flat byte memory, always readable and writable, in which handles are
  thread ids, every TEB is at 0x100000 times the thread id, and thread and process calls change
  nothing.  It satisfies \<open>w_bytes_ok\<close> and is what the concrete instances of the theorems run on.
\<close>

definition cpu_zero :: cpu_context where
  "cpu_zero = \<lparr> ctx_Rax = 0, ctx_Rcx = 0, ctx_Rdx = 0, ctx_Rbx = 0, ctx_Rsp = 0, ctx_Rbp = 0, ctx_Rsi = 0,
     ctx_Rdi = 0, ctx_R8 = 0, ctx_R9 = 0, ctx_R10 = 0, ctx_R11 = 0, ctx_R12 = 0, ctx_R13 = 0, ctx_R14 = 0,
     ctx_R15 = 0, ctx_Rip = 0, ctx_EFlags = 0, ctx_other = [] \<rparr>"

definition flat_win32 :: "(addr \<Rightarrow> byte) win32" where
  "flat_win32 =
     \<lparr> w_read = (\<lambda>w a buf. (True, bytes_at w a (length buf))),
       w_write = (\<lambda>w a bs. (True, store_bytes a bs w)),
       w_flush = (\<lambda>w a n. w),
       w_virtual_query = (\<lambda>w a. None),
       w_virtual_alloc = (\<lambda>w a n t p. (0x10000, w)),
       w_virtual_free = (\<lambda>w a n t. (True, w)),
       w_virtual_protect = (\<lambda>w a n p. (0, w)),
       w_indeterminate = (\<lambda>n. replicate n 0),
       w_open_thread = (\<lambda>w tid. (ucast tid, w)),
       w_close_handle = (\<lambda>w h. w),
       w_teb_address = (\<lambda>w h. Some (0x100000 * h)),
       w_get_context = (\<lambda>w h. cpu_zero),
       w_set_context = (\<lambda>w h c. (True, w)),
       w_suspend_thread = (\<lambda>w h. w),
       w_resume_thread = (\<lambda>w h. w),
       w_terminate_thread = (\<lambda>w h. w),
       w_suspend_process = (\<lambda>w. (0, w)),
       w_resume_process = (\<lambda>w. (0, w)),
       w_proc_address = (\<lambda>name. 0),
       w_peb_address = (\<lambda>w. 0),
       w_wait_event = (\<lambda>w n. (Inl 0, w)),
       w_continue_event = (\<lambda>w p t c. w),
       w_clock = (\<lambda>w. 0),
       w_thread_list = (\<lambda>w. None),
       w_duplicate_handle = (\<lambda>w h. (h, w)),
       w_thread_id_of = (\<lambda>w h. ucast h),
       w_create_remote_thread = (\<lambda>w r p. (0, w)),
       w_thread_exit_code = (\<lambda>w h. None),
       w_stop_debugging = (\<lambda>w. (True, w)),
       w_read_line = (\<lambda>w. ([], w)),
       w_last_error = (\<lambda>w. 0) \<rparr>"

lemma flat_win32_ok: "w_bytes_ok flat_win32 (\<lambda>w. w)"
  by (simp add: w_bytes_ok_def flat_win32_def)

end
