(* ===== verification/Execution_Tree.thy ===== *)
theory Execution_Tree
  imports Persistence
begin

text \<open>
  \<open>src/src/utils/execution_tree.h\<close>: \<open>ExecutionTree<Data>\<close>, the branching history of a whole-value
  state.  Node pointers are indices into the list of nodes in the order they were allocated
  (nothing is ever freed); node 0 is \<open>tree_node_\<close>, the anchor of the runs.  \<open>branch_children\<close> is a
  \<open>std::map\<close> from run id to the children of that run.

  Every lookup is a depth-first loop over an explicit stack (\<open>et_search\<close>, a \<open>partial_function\<close>);
  \<open>et_search_visit\<close> shows that on a well-formed tree it visits each reachable node once, so the
  loop ends, and \<open>et_find_spec\<close> what it finds.
\<close>

record 'd enode =
  en_state :: 'd
  en_run_id :: u32
  en_run_seq :: u32
  en_global_seq :: u64
  en_parent :: "nat option"
  en_branch_children :: "(u32, nat list) smap"

record 'd etree =
  et_nodes :: "'d enode list"
  et_cursor :: nat

definition enode_new :: "'d \<Rightarrow> u32 \<Rightarrow> u32 \<Rightarrow> u64 \<Rightarrow> 'd enode" where
  "enode_new state run_id run_seq global_seq =
     \<lparr> en_state = state, en_run_id = run_id, en_run_seq = run_seq, en_global_seq = global_seq,
       en_parent = None, en_branch_children = [] \<rparr>"

text \<open>
  The constructor: an anchor holding \<open>Data {}\<close> (the value-initialised state, an argument here) and
  the first node below it, where the cursor starts.
\<close>

definition et_new :: "'d \<Rightarrow> 'd \<Rightarrow> u32 \<Rightarrow> u32 \<Rightarrow> u64 \<Rightarrow> 'd etree" where
  "et_new data0 state run_id run_seq global_seq =
     \<lparr> et_nodes =
         [ (enode_new data0 0 0 0) \<lparr> en_branch_children := smap_modify run_id [] (\<lambda>c. c @ [1]) [] \<rparr>,
           (enode_new state run_id run_seq global_seq) \<lparr> en_parent := Some 0 \<rparr> ],
       et_cursor = 1 \<rparr>"

definition et_modify_children :: "nat \<Rightarrow> u32 \<Rightarrow> (nat list \<Rightarrow> nat list) \<Rightarrow> 'd enode list \<Rightarrow> 'd enode list" where
  "et_modify_children i run_id f nodes =
     nodes[i := (nodes ! i) \<lparr> en_branch_children := smap_modify run_id [] f (en_branch_children (nodes ! i)) \<rparr>]"

definition et_add_child :: "'d \<Rightarrow> u32 \<Rightarrow> u32 \<Rightarrow> u64 \<Rightarrow> 'd etree \<Rightarrow> 'd etree" where
  "et_add_child state run_id run_seq global_seq t =
     (let node = (enode_new state run_id run_seq global_seq) \<lparr> en_parent := Some (et_cursor t) \<rparr>;
          idx = length (et_nodes t)
      in t \<lparr> et_nodes := et_modify_children (et_cursor t) run_id (\<lambda>c. c @ [idx]) (et_nodes t @ [node]) \<rparr>)"

section \<open>The depth-first loop\<close>

definition en_children_upto :: "u32 \<Rightarrow> 'd enode \<Rightarrow> nat list" where
  "en_children_upto target n =
     concat (map (\<lambda>(run_id, children). if run_id \<le> target then children else []) (en_branch_children n))"

definition en_keys :: "'d enode \<Rightarrow> u32 set" where
  "en_keys n = fst ` set (en_branch_children n)"

definition en_all_children :: "'d enode \<Rightarrow> nat list" where
  "en_all_children n = concat (map snd (en_branch_children n))"

text \<open>
  The stack is a list with its top at the head, so pushing children one by one puts them there
  reversed.  \<open>visit\<close> is the body of the loop up to the pushes: \<open>Inl\<close> is its early return.
\<close>

partial_function (option) et_search ::
    "'d enode list \<Rightarrow> u32 \<Rightarrow> (nat \<Rightarrow> 'a \<Rightarrow> 'b + 'a) \<Rightarrow> nat list \<Rightarrow> 'a \<Rightarrow> ('b + 'a) option" where
  "et_search nodes target visit stack acc =
     (case stack of
        [] \<Rightarrow> Some (Inr acc)
      | n # st \<Rightarrow>
          (case visit n acc of
             Inl r \<Rightarrow> Some (Inl r)
           | Inr acc' \<Rightarrow> et_search nodes target visit (rev (en_children_upto target (nodes ! n)) @ st) acc'))"

definition et_roots :: "'d enode list \<Rightarrow> nat list" where
  "et_roots nodes = rev (en_all_children (nodes ! 0))"

text \<open>The two candidates the loop keeps, \<open>best_in_run\<close> and \<open>origin\<close>.\<close>

definition et_track :: "'d enode list \<Rightarrow> u32 \<Rightarrow> u32 \<Rightarrow> nat \<Rightarrow> nat option \<times> nat option \<Rightarrow> nat option \<times> nat option" where
  "et_track nodes r s n = (\<lambda>(best, origin).
     (let node = nodes ! n in
      (if en_run_id node = r \<and> en_run_seq node \<le> s \<and>
          (case best of None \<Rightarrow> True | Some b \<Rightarrow> en_run_seq (nodes ! b) < en_run_seq node)
       then Some n else best,
       if r \<in> en_keys node \<and> en_run_id node \<noteq> r then Some n else origin)))"

definition et_exact :: "'d enode list \<Rightarrow> u32 \<Rightarrow> u32 \<Rightarrow> nat \<Rightarrow> bool" where
  "et_exact nodes r s n = (r = en_run_id (nodes ! n) \<and> s = en_run_seq (nodes ! n))"

definition et_pick :: "nat option \<times> nat option \<Rightarrow> nat option" where
  "et_pick = (\<lambda>(best, origin). case best of Some b \<Rightarrow> Some b | None \<Rightarrow> origin)"

definition et_find_node :: "u32 \<Rightarrow> u32 \<Rightarrow> 'd etree \<Rightarrow> nat option option" where
  "et_find_node r s t =
     (let nodes = et_nodes t in
      map_option (\<lambda>res. case res of Inl n \<Rightarrow> Some n | Inr acc \<Rightarrow> et_pick acc)
        (et_search nodes r (\<lambda>n acc. if et_exact nodes r s n then Inl n else Inr (et_track nodes r s n acc))
           (et_roots nodes) (None, None)))"

definition et_get_state :: "u32 \<Rightarrow> u32 \<Rightarrow> 'd etree \<Rightarrow> 'd option option" where
  "et_get_state r s t = map_option (map_option (\<lambda>n. en_state (et_nodes t ! n))) (et_find_node r s t)"

definition et_get_nearest_state :: "u32 \<Rightarrow> u32 \<Rightarrow> 'd etree \<Rightarrow> 'd option option" where
  "et_get_nearest_state r s t =
     (let nodes = et_nodes t in
      map_option (\<lambda>res. case res of Inl (_ :: unit) \<Rightarrow> None | Inr acc \<Rightarrow> map_option (\<lambda>n. en_state (nodes ! n)) (et_pick acc))
        (et_search nodes r (\<lambda>n acc. Inr (et_track nodes r s n acc)) (et_roots nodes) (None, None)))"

definition et_get_exact_node :: "u32 \<Rightarrow> u32 \<Rightarrow> 'd etree \<Rightarrow> nat option option" where
  "et_get_exact_node r s t =
     (let nodes = et_nodes t in
      map_option (\<lambda>res. case res of Inl n \<Rightarrow> Some n | Inr _ \<Rightarrow> None)
        (et_search nodes r (\<lambda>n u. if et_exact nodes r s n then Inl n else Inr u) (et_roots nodes) ()))"

definition et_exact_node_exists :: "u32 \<Rightarrow> u32 \<Rightarrow> 'd etree \<Rightarrow> bool option" where
  "et_exact_node_exists r s t =
     (let nodes = et_nodes t in
      map_option (\<lambda>res. case res of Inl b \<Rightarrow> b | Inr _ \<Rightarrow> False)
        (et_search nodes r (\<lambda>n u. if et_exact nodes r s n then Inl True else Inr u) (et_roots nodes) ()))"

text \<open>The run id arrives as 64 bits and is cut to the 32 bits of the key.\<close>

definition et_revert_to_state :: "u32 \<Rightarrow> u32 \<Rightarrow> u64 \<Rightarrow> 'd etree \<Rightarrow> 'd etree option" where
  "et_revert_to_state target_run_id target_run_seq new_run_id t =
     do { node \<leftarrow> et_find_node target_run_id target_run_seq t;
          let c = (case node of Some n \<Rightarrow> n | None \<Rightarrow> 0);
          Some (t \<lparr> et_cursor := c,
                    et_nodes := et_modify_children c (ucast new_run_id) (\<lambda>x. x) (et_nodes t) \<rparr>) }"

text \<open>
  \<open>Print\<close>: the lines in the order they are printed.  The recursion of \<open>PrintNode\<close> is the worklist
  of nodes still to print, each with its depth.
\<close>

partial_function (option) et_print_nodes ::
    "'d enode list \<Rightarrow> ('d \<Rightarrow> u32 \<Rightarrow> u32 \<Rightarrow> u64 \<Rightarrow> string) \<Rightarrow> (nat \<times> nat) list \<Rightarrow> string list \<Rightarrow> string list option" where
  "et_print_nodes nodes formatter work out =
     (case work of
        [] \<Rightarrow> Some out
      | (n, depth) # rest \<Rightarrow>
          (let node = nodes ! n;
               line = replicate (depth * 2) CHR '' '' @
                 formatter (en_state node) (en_run_id node) (en_run_seq node) (en_global_seq node)
           in et_print_nodes nodes formatter
                (map (\<lambda>c. (c, depth + 1)) (en_all_children node) @ rest) (out @ [line])))"

definition et_print :: "('d \<Rightarrow> u32 \<Rightarrow> u32 \<Rightarrow> u64 \<Rightarrow> string) \<Rightarrow> 'd etree \<Rightarrow> string list option" where
  "et_print formatter t =
     et_print_nodes (et_nodes t) formatter (map (\<lambda>c. (c, 0)) (en_all_children (et_nodes t ! 0))) []"

section \<open>The order of the visits\<close>

function et_visits :: "'d enode list \<Rightarrow> u32 \<Rightarrow> nat \<Rightarrow> nat list" where
  "et_visits nodes target n =
     (if n < length nodes
      then n # concat (map (et_visits nodes target)
             (filter (\<lambda>c. n < c) (rev (en_children_upto target (nodes ! n)))))
      else [])"
  by pat_completeness auto
termination
  by (relation "measure (\<lambda>(nodes, target, n). length nodes - n)") auto

declare et_visits.simps [simp del]

text \<open>Children come after their parents and inside the arena.\<close>

definition et_descending :: "'d enode list \<Rightarrow> bool" where
  "et_descending nodes =
     (\<forall>i < length nodes. \<forall>(k, cs) \<in> set (en_branch_children (nodes ! i)). \<forall>c \<in> set cs. i < c \<and> c < length nodes)"

lemma en_children_upto_set:
  "c \<in> set (en_children_upto r n) \<longleftrightarrow> (\<exists>k cs. (k, cs) \<in> set (en_branch_children n) \<and> k \<le> r \<and> c \<in> set cs)"
  by (fastforce simp: en_children_upto_def split: if_splits)

lemma en_all_children_set:
  "c \<in> set (en_all_children n) \<longleftrightarrow> (\<exists>k cs. (k, cs) \<in> set (en_branch_children n) \<and> c \<in> set cs)"
  by (force simp: en_all_children_def)

lemma et_visits_step:
  assumes "et_descending nodes" "n < length nodes"
  shows "et_visits nodes r n = n # concat (map (et_visits nodes r) (rev (en_children_upto r (nodes ! n))))"
proof -
  have "filter (\<lambda>c. n < c) (rev (en_children_upto r (nodes ! n))) = rev (en_children_upto r (nodes ! n))"
    using assms by (fastforce simp: filter_id_conv en_children_upto_set et_descending_def)
  with assms(2) show ?thesis by (subst et_visits.simps) simp
qed

text \<open>The loop is a left-to-right pass over the visits.\<close>

fun visit_all :: "(nat \<Rightarrow> 'a \<Rightarrow> 'b + 'a) \<Rightarrow> nat list \<Rightarrow> 'a \<Rightarrow> 'b + 'a" where
  "visit_all v [] acc = Inr acc"
| "visit_all v (n # ns) acc = (case v n acc of Inl r \<Rightarrow> Inl r | Inr acc' \<Rightarrow> visit_all v ns acc')"

lemma et_search_visit:
  assumes "et_descending nodes" "\<forall>n\<in>set stack. n < length nodes"
  shows "et_search nodes r v stack acc = Some (visit_all v (concat (map (et_visits nodes r) stack)) acc)"
  using assms(2)
proof (induction "length (concat (map (et_visits nodes r) stack))" arbitrary: stack acc rule: less_induct)
  case less
  show ?case
  proof (cases stack)
    case Nil
    then show ?thesis by (subst et_search.simps) simp
  next
    case (Cons n st)
    let ?st = "rev (en_children_upto r (nodes ! n)) @ st"
    have n: "n < length nodes" using less.prems Cons by simp
    have order: "concat (map (et_visits nodes r) stack) = n # concat (map (et_visits nodes r) ?st)"
      using Cons by (simp add: et_visits_step[OF assms(1) n])
    have "\<forall>m\<in>set ?st. m < length nodes"
      using less.prems Cons n assms(1) by (fastforce simp: en_children_upto_set et_descending_def)
    then have "et_search nodes r v ?st acc' = Some (visit_all v (concat (map (et_visits nodes r) ?st)) acc')" for acc'
      using order by (intro less.hyps) simp_all
    then show ?thesis
      unfolding order using Cons by (subst et_search.simps) (simp split: sum.split)
  qed
qed

section \<open>What a lookup finds\<close>

definition et_at :: "'d enode list \<Rightarrow> nat \<Rightarrow> bool" where
  "et_at nodes i = (0 < i \<and> i < length nodes)"

definition et_cand :: "'d enode list \<Rightarrow> u32 \<Rightarrow> u32 \<Rightarrow> nat \<Rightarrow> bool" where
  "et_cand nodes r s i = (en_run_id (nodes ! i) = r \<and> en_run_seq (nodes ! i) \<le> s)"

definition et_orig :: "'d enode list \<Rightarrow> u32 \<Rightarrow> nat \<Rightarrow> bool" where
  "et_orig nodes r i = (r \<in> en_keys (nodes ! i) \<and> en_run_id (nodes ! i) \<noteq> r)"

definition et_visited :: "'d enode list \<Rightarrow> u32 \<Rightarrow> nat list" where
  "et_visited nodes r = concat (map (et_visits nodes r) (et_roots nodes))"

text \<open>
  The specification: the node of the run with the greatest sequence at or before the target, else
  the node the run branched off, else nothing.  A run may record several nodes at one sequence (a
  thread tracked and captured at the same point): the first of them in the order of the visits is
  the one found.
\<close>

definition et_first :: "'d enode list \<Rightarrow> u32 \<Rightarrow> u32 \<Rightarrow> nat list \<Rightarrow> nat \<Rightarrow> bool" where
  "et_first nodes r s ns n =
     (\<exists>xs ys. ns = xs @ n # ys \<and> et_cand nodes r s n
        \<and> (\<forall>m\<in>set xs. et_cand nodes r s m \<longrightarrow> en_run_seq (nodes ! m) < en_run_seq (nodes ! n))
        \<and> (\<forall>m\<in>set ys. et_cand nodes r s m \<longrightarrow> en_run_seq (nodes ! m) \<le> en_run_seq (nodes ! n)))"

definition et_result :: "'d enode list \<Rightarrow> u32 \<Rightarrow> u32 \<Rightarrow> nat option \<Rightarrow> bool" where
  "et_result nodes r s x =
     (case x of
        Some n \<Rightarrow> et_at nodes n \<and>
          (et_first nodes r s (et_visited nodes r) n
           \<or> et_orig nodes r n \<and> (\<forall>m. et_at nodes m \<longrightarrow> \<not> et_cand nodes r s m))
      | None \<Rightarrow> \<forall>m. et_at nodes m \<longrightarrow> \<not> et_cand nodes r s m \<and> \<not> et_orig nodes r m)"

definition nodes_wf :: "'d enode list \<Rightarrow> bool" where
  "nodes_wf nodes =
     (et_descending nodes
      \<and> (\<forall>i < length nodes. smap_ok (en_branch_children (nodes ! i)))
      \<and> (\<forall>i < length nodes. \<forall>(k, cs) \<in> set (en_branch_children (nodes ! i)). \<forall>c \<in> set cs.
            en_run_id (nodes ! c) = k \<and> en_parent (nodes ! c) = Some i)
      \<and> (\<forall>c. et_at nodes c \<longrightarrow> (\<exists>i < length nodes. c \<in> set (en_all_children (nodes ! i))))
      \<and> (\<forall>i. et_at nodes i \<longrightarrow> (\<forall>k \<in> en_keys (nodes ! i). en_run_id (nodes ! i) \<le> k))
      \<and> (\<forall>i j r. et_at nodes i \<longrightarrow> et_at nodes j \<longrightarrow> et_orig nodes r i \<longrightarrow> et_orig nodes r j \<longrightarrow> i = j))"

definition et_wf :: "'d etree \<Rightarrow> bool" where
  "et_wf t = (nodes_wf (et_nodes t) \<and> et_cursor t < length (et_nodes t))"

lemma nodes_wfD:
  assumes "nodes_wf nodes"
  shows "et_descending nodes"
    and "i < length nodes \<Longrightarrow> smap_ok (en_branch_children (nodes ! i))"
    and "i < length nodes \<Longrightarrow> (k, cs) \<in> set (en_branch_children (nodes ! i)) \<Longrightarrow> c \<in> set cs \<Longrightarrow>
          en_run_id (nodes ! c) = k \<and> en_parent (nodes ! c) = Some i \<and> i < c \<and> c < length nodes"
    and "et_at nodes c \<Longrightarrow> \<exists>i < length nodes. c \<in> set (en_all_children (nodes ! i))"
    and "et_at nodes i \<Longrightarrow> k \<in> en_keys (nodes ! i) \<Longrightarrow> en_run_id (nodes ! i) \<le> k"
    and "et_at nodes i \<Longrightarrow> et_at nodes j \<Longrightarrow> et_orig nodes r i \<Longrightarrow> et_orig nodes r j \<Longrightarrow> i = j"
  using assms unfolding nodes_wf_def et_descending_def by blast+

lemma et_parent:
  assumes "nodes_wf nodes" "et_at nodes c"
  shows "\<exists>i < c. en_parent (nodes ! c) = Some i"
proof -
  obtain i k cs where "i < length nodes" "(k, cs) \<in> set (en_branch_children (nodes ! i))" "c \<in> set cs"
    using nodes_wfD(4)[OF assms] by (auto simp: en_all_children_set)
  from nodes_wfD(3)[OF assms(1) this] show ?thesis by blast
qed

lemma et_first_unique:
  assumes "et_first nodes r s ns n" "et_first nodes r s ns m"
  shows "n = m"
proof -
  obtain xs ys xs' ys' where ns: "ns = xs @ n # ys" "ns = xs' @ m # ys'"
    and c: "et_cand nodes r s n" "et_cand nodes r s m"
    and n: "\<forall>k\<in>set xs. et_cand nodes r s k \<longrightarrow> en_run_seq (nodes ! k) < en_run_seq (nodes ! n)"
      "\<forall>k\<in>set ys. et_cand nodes r s k \<longrightarrow> en_run_seq (nodes ! k) \<le> en_run_seq (nodes ! n)"
    and m: "\<forall>k\<in>set xs'. et_cand nodes r s k \<longrightarrow> en_run_seq (nodes ! k) < en_run_seq (nodes ! m)"
      "\<forall>k\<in>set ys'. et_cand nodes r s k \<longrightarrow> en_run_seq (nodes ! k) \<le> en_run_seq (nodes ! m)"
    using assms unfolding et_first_def by blast
  have "n = m \<or> (n \<in> set xs' \<and> m \<in> set ys) \<or> (m \<in> set xs \<and> n \<in> set ys')"
    using ns by (auto simp: append_eq_append_conv2 append_eq_Cons_conv Cons_eq_append_conv)
  then show ?thesis using c n m by (meson leD)
qed

lemma et_first_in: "et_first nodes r s ns n \<Longrightarrow> n \<in> set ns \<and> et_cand nodes r s n"
  by (auto simp: et_first_def)

lemma et_first_max:
  "et_first nodes r s ns n \<Longrightarrow> m \<in> set ns \<Longrightarrow> et_cand nodes r s m \<Longrightarrow> en_run_seq (nodes ! m) \<le> en_run_seq (nodes ! n)"
  by (auto simp: et_first_def less_imp_le)

lemma et_result_None:
  assumes "et_result nodes r s None"
  shows "\<not> et_result nodes r s (Some n)"
proof
  assume "et_result nodes r s (Some n)"
  then have "et_at nodes n" "et_cand nodes r s n \<or> et_orig nodes r n"
    using et_first_in[of nodes r s "et_visited nodes r" n] by (auto simp: et_result_def)
  then show False using assms by (simp add: et_result_def)
qed

lemma et_result_unique:
  assumes wf: "nodes_wf nodes" and "et_result nodes r s x" "et_result nodes r s y"
  shows "x = y"
proof (cases x; cases y)
  fix n m assume x: "x = Some n" and y: "y = Some m"
  then have at: "et_at nodes n" "et_at nodes m" using assms by (auto simp: et_result_def)
  show ?thesis
  proof (cases "et_first nodes r s (et_visited nodes r) n")
    case True
    then have "et_cand nodes r s n" by (simp add: et_first_in)
    then have "et_first nodes r s (et_visited nodes r) m" using assms at x y by (auto simp: et_result_def)
    with True show ?thesis using et_first_unique x y by blast
  next
    case False
    then have "et_orig nodes r n" "\<forall>k. et_at nodes k \<longrightarrow> \<not> et_cand nodes r s k"
      using assms x by (auto simp: et_result_def)
    then have "et_orig nodes r m" using assms at y et_first_in by (fastforce simp: et_result_def)
    with \<open>et_orig nodes r n\<close> show ?thesis using nodes_wfD(6)[OF wf at] x y by simp
  qed
qed (use assms(2,3) et_result_None[of nodes r s] in auto)

text \<open>Which nodes the loop visits.\<close>

lemma et_visits_at:
  assumes "et_descending nodes" "m \<in> set (et_visits nodes r n)"
  shows "n \<le> m \<and> m < length nodes"
  using assms(2)
proof (induction "length nodes - n" arbitrary: n rule: less_induct)
  case less
  then have n: "n < length nodes" by (subst (asm) et_visits.simps) (auto split: if_splits)
  from less.prems consider "m = n" | c where "c \<in> set (en_children_upto r (nodes ! n))" "m \<in> set (et_visits nodes r c)"
    by (auto simp: et_visits_step[OF assms(1) n])
  then show ?case
  proof cases
    case 2
    then have "n < c" "c < length nodes" using assms(1) n by (fastforce simp: en_children_upto_set et_descending_def)+
    then show ?thesis using less.hyps[of c] 2 by fastforce
  qed (use n in simp)
qed

lemma et_visits_closed:
  assumes "et_descending nodes" "m \<in> set (et_visits nodes r n)" "c \<in> set (en_children_upto r (nodes ! m))"
  shows "c \<in> set (et_visits nodes r n)"
  using assms(2)
proof (induction "length nodes - n" arbitrary: n rule: less_induct)
  case less
  then have n: "n < length nodes" by (subst (asm) et_visits.simps) (auto split: if_splits)
  have child: "n < c \<and> c < length nodes" if "c \<in> set (en_children_upto r (nodes ! n))" for c
    using that assms(1) n by (fastforce simp: en_children_upto_set et_descending_def)
  from less.prems consider "m = n" | d where "d \<in> set (en_children_upto r (nodes ! n))" "m \<in> set (et_visits nodes r d)"
    by (auto simp: et_visits_step[OF assms(1) n])
  then show ?case
  proof cases
    case 1
    then have "c \<in> set (et_visits nodes r c)" using child assms(3) by (subst et_visits.simps) auto
    then show ?thesis using 1 assms(3) by (auto simp: et_visits_step[OF assms(1) n])
  next
    case 2
    then have "c \<in> set (et_visits nodes r d)" using less.hyps[of d] child[of d] n by fastforce
    then show ?thesis using 2(1) by (auto simp: et_visits_step[OF assms(1) n])
  qed
qed

lemma et_visited_at:
  assumes "nodes_wf nodes" "nodes \<noteq> []" "m \<in> set (et_visited nodes r)"
  shows "et_at nodes m"
proof -
  obtain n where n: "n \<in> set (en_all_children (nodes ! 0))" "m \<in> set (et_visits nodes r n)"
    using assms(3) by (auto simp: et_visited_def et_roots_def)
  then have "0 < n" using nodes_wfD(3)[OF assms(1), of 0] assms(2) by (auto simp: en_all_children_set)
  then show ?thesis using et_visits_at[OF nodes_wfD(1)[OF assms(1)] n(2)] by (simp add: et_at_def)
qed

lemma et_visited_complete:
  assumes wf: "nodes_wf nodes" and "et_at nodes m" "en_run_id (nodes ! m) \<le> r"
  shows "m \<in> set (et_visited nodes r)"
  using assms(2,3)
proof (induction m rule: less_induct)
  case (less m)
  obtain i k cs where i: "i < length nodes" "(k, cs) \<in> set (en_branch_children (nodes ! i))" "m \<in> set cs"
    using nodes_wfD(4)[OF wf less.prems(1)] by (auto simp: en_all_children_set)
  then have k: "en_run_id (nodes ! m) = k" "i < m" "m < length nodes" using nodes_wfD(3)[OF wf i] by auto
  have k_in: "k \<in> en_keys (nodes ! i)" using i(2) by (force simp: en_keys_def)
  show ?case
  proof (cases "i = 0")
    case True
    have "m \<in> set (et_visits nodes r m)" using k by (subst et_visits.simps) simp
    moreover have "m \<in> set (en_all_children (nodes ! 0))" using i True by (auto simp: en_all_children_set)
    ultimately show ?thesis by (auto simp: et_visited_def et_roots_def)
  next
    case False
    then have at: "et_at nodes i" using i by (simp add: et_at_def)
    then have "en_run_id (nodes ! i) \<le> r" using nodes_wfD(5)[OF wf at k_in] k less.prems(2) by simp
    then have "i \<in> set (et_visited nodes r)" using less.IH k at by simp
    moreover have "m \<in> set (en_children_upto r (nodes ! i))"
      using i k less.prems(2) by (auto simp: en_children_upto_set)
    ultimately show ?thesis
      using et_visits_closed[OF nodes_wfD(1)[OF wf]] unfolding et_visited_def by force
  qed
qed

text \<open>The two candidates after a pass over a list of nodes.\<close>

definition et_best_ok :: "'d enode list \<Rightarrow> u32 \<Rightarrow> u32 \<Rightarrow> nat list \<Rightarrow> nat option \<Rightarrow> bool" where
  "et_best_ok nodes r s ns best =
     (case best of
        None \<Rightarrow> \<forall>m\<in>set ns. \<not> et_cand nodes r s m
      | Some b \<Rightarrow> et_first nodes r s ns b)"

definition et_origin_ok :: "'d enode list \<Rightarrow> u32 \<Rightarrow> nat list \<Rightarrow> nat option \<Rightarrow> bool" where
  "et_origin_ok nodes r ns origin =
     (case origin of
        None \<Rightarrow> \<forall>m\<in>set ns. \<not> et_orig nodes r m
      | Some b \<Rightarrow> b \<in> set ns \<and> et_orig nodes r b)"

lemma et_first_snoc:
  assumes "et_first nodes r s ns b"
  shows "et_first nodes r s (ns @ [n])
    (if et_cand nodes r s n \<and> en_run_seq (nodes ! b) < en_run_seq (nodes ! n) then n else b)"
proof -
  obtain xs ys where ns: "ns = xs @ b # ys" "et_cand nodes r s b"
    and b: "\<forall>m\<in>set xs. et_cand nodes r s m \<longrightarrow> en_run_seq (nodes ! m) < en_run_seq (nodes ! b)"
      "\<forall>m\<in>set ys. et_cand nodes r s m \<longrightarrow> en_run_seq (nodes ! m) \<le> en_run_seq (nodes ! b)"
    using assms unfolding et_first_def by blast
  show ?thesis
  proof (cases "et_cand nodes r s n \<and> en_run_seq (nodes ! b) < en_run_seq (nodes ! n)")
    case True
    have "en_run_seq (nodes ! m) < en_run_seq (nodes ! n)" if "m \<in> set ns" "et_cand nodes r s m" for m
      using that ns b True by (auto intro: less_trans le_less_trans)
    then have "et_first nodes r s (ns @ [n]) n"
      unfolding et_first_def using True by (intro exI[of _ ns] exI[of _ "[]"]) simp
    then show ?thesis using True by simp
  next
    case False
    have "et_first nodes r s (ns @ [n]) b"
      unfolding et_first_def using ns b False by (intro exI[of _ xs] exI[of _ "ys @ [n]"]) auto
    then show ?thesis using False by (simp only: if_False)
  qed
qed

lemma et_best_ok_step:
  assumes "et_best_ok nodes r s ns best"
  shows "et_best_ok nodes r s (ns @ [n]) (fst (et_track nodes r s n (best, origin)))"
proof (cases best)
  case None
  show ?thesis
  proof (cases "et_cand nodes r s n")
    case True
    then have "et_first nodes r s (ns @ [n]) n"
      unfolding et_first_def using assms None
      by (intro exI[of _ ns] exI[of _ "[]"]) (simp add: et_best_ok_def)
    then show ?thesis using None True by (simp add: et_best_ok_def et_track_def Let_def et_cand_def)
  next
    case False
    then have "fst (et_track nodes r s n (best, origin)) = None"
      using None by (auto simp: et_track_def Let_def et_cand_def)
    then show ?thesis using assms None False by (auto simp: et_best_ok_def)
  qed
next
  case (Some b)
  have "fst (et_track nodes r s n (best, origin)) =
      Some (if et_cand nodes r s n \<and> en_run_seq (nodes ! b) < en_run_seq (nodes ! n) then n else b)"
    using Some by (auto simp: et_track_def Let_def et_cand_def)
  then show ?thesis using assms Some et_first_snoc[of nodes r s ns b n] by (simp add: et_best_ok_def)
qed

lemma et_origin_ok_step:
  assumes "et_origin_ok nodes r ns origin"
  shows "et_origin_ok nodes r (ns @ [n]) (snd (et_track nodes r s n (best, origin)))"
  using assms by (auto simp: et_origin_ok_def et_track_def Let_def et_orig_def split: option.splits)

lemma et_tracked_fold:
  "et_best_ok nodes r s ns (fst (fold (et_track nodes r s) ns (None, None)))"
  "et_origin_ok nodes r ns (snd (fold (et_track nodes r s) ns (None, None)))"
proof (induction ns rule: rev_induct)
  case Nil
  show "et_best_ok nodes r s [] (fst (fold (et_track nodes r s) [] (None, None)))"
    "et_origin_ok nodes r [] (snd (fold (et_track nodes r s) [] (None, None)))"
    by (simp_all add: et_best_ok_def et_origin_ok_def)
next
  case (snoc n ns)
  obtain best origin where acc: "fold (et_track nodes r s) ns (None, None) = (best, origin)" by force
  then show "et_best_ok nodes r s (ns @ [n]) (fst (fold (et_track nodes r s) (ns @ [n]) (None, None)))"
    "et_origin_ok nodes r (ns @ [n]) (snd (fold (et_track nodes r s) (ns @ [n]) (None, None)))"
    using snoc et_best_ok_step[of nodes r s ns best n origin] et_origin_ok_step[of nodes r ns origin n s best] by simp_all
qed

lemma visit_all_track: "visit_all (\<lambda>n acc. Inr (et_track nodes r s n acc)) ns acc = Inr (fold (et_track nodes r s) ns acc)"
  by (induction ns arbitrary: acc) auto

lemma visit_all_exact:
  "visit_all (\<lambda>n acc. if P n then Inl (f n) else Inr (g n acc)) ns acc =
    (case filter P ns of [] \<Rightarrow> Inr (fold g ns acc) | n # _ \<Rightarrow> Inl (f n))"
  by (induction ns arbitrary: acc) (auto split: list.split)

lemma et_pick_result:
  assumes "nodes_wf nodes" "nodes \<noteq> []"
  shows "et_result nodes r s (et_pick (fold (et_track nodes r s) (et_visited nodes r) (None, None)))"
proof -
  obtain best origin where acc: "fold (et_track nodes r s) (et_visited nodes r) (None, None) = (best, origin)" by force
  have tr: "et_best_ok nodes r s (et_visited nodes r) best" "et_origin_ok nodes r (et_visited nodes r) origin"
    using et_tracked_fold[where nodes = nodes and r = r and s = s and ns = "et_visited nodes r"] acc by simp_all
  have cand: "m \<in> set (et_visited nodes r)" if "et_at nodes m" "et_cand nodes r s m" for m
    using that by (intro et_visited_complete[OF assms(1)]) (auto simp: et_cand_def)
  have orig: "m \<in> set (et_visited nodes r)" if "et_at nodes m" "et_orig nodes r m" for m
    using that nodes_wfD(5)[OF assms(1)] by (intro et_visited_complete[OF assms(1)]) (auto simp: et_orig_def)
  have at: "et_at nodes m" if "m \<in> set (et_visited nodes r)" for m
    by (rule et_visited_at[OF assms that])
  have "et_result nodes r s (et_pick (best, origin))"
  proof (cases best)
    case (Some b)
    then have "et_first nodes r s (et_visited nodes r) b" using tr(1) by (simp add: et_best_ok_def)
    then show ?thesis using Some at et_first_in by (fastforce simp: et_pick_def et_result_def)
  next
    case None
    then have "\<forall>m. et_at nodes m \<longrightarrow> \<not> et_cand nodes r s m" using tr(1) cand by (auto simp: et_best_ok_def)
    then show ?thesis
      using None tr(2) orig at by (cases origin) (auto simp: et_pick_def et_result_def et_origin_ok_def)
  qed
  then show ?thesis by (simp add: acc)
qed

lemma et_roots_bound: "nodes_wf nodes \<Longrightarrow> nodes \<noteq> [] \<Longrightarrow> \<forall>n\<in>set (et_roots nodes). n < length nodes"
  using nodes_wfD(3)[of nodes 0] by (fastforce simp: et_roots_def en_all_children_set)

lemma et_search_visited:
  assumes "nodes_wf nodes" "nodes \<noteq> []"
  shows "et_search nodes r v (et_roots nodes) acc = Some (visit_all v (et_visited nodes r) acc)"
  using et_search_visit[OF nodes_wfD(1)[OF assms(1)] et_roots_bound[OF assms]] by (simp add: et_visited_def)

lemma et_exact_result:
  assumes "nodes_wf nodes" "nodes \<noteq> []" "filter (et_exact nodes r s) (et_visited nodes r) = n # ns"
  shows "et_result nodes r s (Some n)"
proof -
  obtain us vs where v: "et_visited nodes r = us @ n # vs" "\<forall>u\<in>set us. \<not> et_exact nodes r s u" "et_exact nodes r s n"
    using filter_eq_ConsD[OF assms(3)] by blast
  then have "et_first nodes r s (et_visited nodes r) n"
    unfolding et_first_def et_cand_def et_exact_def
    by (intro exI[of _ us] exI[of _ vs]) (auto intro: le_neq_trans)
  moreover have "et_at nodes n" using v(1) by (intro et_visited_at[OF assms(1,2), of n r]) simp
  ultimately show ?thesis by (simp add: et_result_def)
qed

lemma et_find_spec:
  assumes "et_wf t"
  shows "\<exists>x. et_find_node r s t = Some x \<and> et_result (et_nodes t) r s x"
proof -
  let ?nodes = "et_nodes t"
  have wf: "nodes_wf ?nodes" "?nodes \<noteq> []" using assms by (auto simp: et_wf_def)
  show ?thesis
  proof (cases "filter (et_exact ?nodes r s) (et_visited ?nodes r)")
    case Nil
    then have "et_find_node r s t = Some (et_pick (fold (et_track ?nodes r s) (et_visited ?nodes r) (None, None)))"
      by (simp add: et_find_node_def et_search_visited[OF wf] visit_all_exact Let_def)
    then show ?thesis using et_pick_result[OF wf] by blast
  next
    case (Cons n ns)
    then have "et_result ?nodes r s (Some n)" by (rule et_exact_result[OF wf])
    moreover have "et_find_node r s t = Some (Some n)"
      using Cons by (simp add: et_find_node_def et_search_visited[OF wf] visit_all_exact Let_def)
    ultimately show ?thesis by blast
  qed
qed

section \<open>What the operations keep\<close>

lemma length_modify_children [simp]: "length (et_modify_children i k f nodes) = length nodes"
  by (simp add: et_modify_children_def)

lemma modify_children_nth:
  "i < length nodes \<Longrightarrow> et_modify_children i k f nodes ! j =
    (if j = i then (nodes ! i) \<lparr> en_branch_children := smap_modify k [] f (en_branch_children (nodes ! i)) \<rparr>
     else nodes ! j)"
  by (simp add: et_modify_children_def)

lemma modify_children_simps [simp]:
  assumes "i < length nodes"
  shows "en_run_id (et_modify_children i k f nodes ! j) = en_run_id (nodes ! j)"
    and "en_run_seq (et_modify_children i k f nodes ! j) = en_run_seq (nodes ! j)"
    and "en_state (et_modify_children i k f nodes ! j) = en_state (nodes ! j)"
    and "en_branch_children (et_modify_children i k f nodes ! j) =
      (if j = i then smap_modify k [] f (en_branch_children (nodes ! i)) else en_branch_children (nodes ! j))"
  using assms by (simp_all add: modify_children_nth)

lemma modify_children_keys [simp]:
  "i < length nodes \<Longrightarrow> en_keys (et_modify_children i k f nodes ! j) =
    (if j = i then insert k (en_keys (nodes ! i)) else en_keys (nodes ! j))"
  by (simp add: en_keys_def keys_smap_modify)

lemma modify_children_parent [simp]:
  "i < length nodes \<Longrightarrow> en_parent (et_modify_children i k f nodes ! j) = en_parent (nodes ! j)"
  by (simp add: modify_children_nth)

lemma nodes_wfI:
  assumes "\<And>i. i < length nodes \<Longrightarrow> smap_ok (en_branch_children (nodes ! i))"
    and "\<And>i k cs c. i < length nodes \<Longrightarrow> (k, cs) \<in> set (en_branch_children (nodes ! i)) \<Longrightarrow> c \<in> set cs \<Longrightarrow>
          en_run_id (nodes ! c) = k \<and> en_parent (nodes ! c) = Some i \<and> i < c \<and> c < length nodes"
    and "\<And>c. et_at nodes c \<Longrightarrow> \<exists>i < length nodes. \<exists>k cs. (k, cs) \<in> set (en_branch_children (nodes ! i)) \<and> c \<in> set cs"
    and "\<And>i k. et_at nodes i \<Longrightarrow> k \<in> en_keys (nodes ! i) \<Longrightarrow> en_run_id (nodes ! i) \<le> k"
    and "\<And>i j r. et_at nodes i \<Longrightarrow> et_at nodes j \<Longrightarrow> et_orig nodes r i \<Longrightarrow> et_orig nodes r j \<Longrightarrow> i = j"
  shows "nodes_wf nodes"
  unfolding nodes_wf_def et_descending_def en_all_children_set using assms by blast

text \<open>
  Where \<open>AddChild\<close> may record: in the run of the cursor or one branched off it, not before any node
  of the run; only the cursor's own children may already be at that point.
\<close>

definition et_safe_add :: "'d enode list \<Rightarrow> nat \<Rightarrow> u32 \<Rightarrow> u32 \<Rightarrow> bool" where
  "et_safe_add nodes c r s =
     (c < length nodes \<and> (c = 0 \<or> en_run_id (nodes ! c) \<le> r)
      \<and> (r \<in> en_keys (nodes ! c) \<or> 0 < c \<and> en_run_id (nodes ! c) = r)
      \<and> (\<forall>m. et_at nodes m \<longrightarrow> en_run_id (nodes ! m) = r \<longrightarrow>
            en_run_seq (nodes ! m) < s \<or> en_run_seq (nodes ! m) = s \<and> en_parent (nodes ! m) = Some c))"

text \<open>The point of the cursor itself, when nothing of its run comes later.\<close>

definition et_tied_add :: "'d enode list \<Rightarrow> nat \<Rightarrow> u32 \<Rightarrow> u32 \<Rightarrow> bool" where
  "et_tied_add nodes c r s =
     (et_at nodes c \<and> en_run_id (nodes ! c) = r \<and> en_run_seq (nodes ! c) = s
      \<and> (\<forall>m. et_at nodes m \<longrightarrow> en_run_id (nodes ! m) = r \<longrightarrow> m \<noteq> c \<longrightarrow>
            en_run_seq (nodes ! m) < s \<or> en_run_seq (nodes ! m) = s \<and> en_parent (nodes ! m) = Some c))"

text \<open>Either way the arena stays well formed, whatever the sequence.\<close>

definition et_placed :: "'d enode list \<Rightarrow> nat \<Rightarrow> u32 \<Rightarrow> bool" where
  "et_placed nodes c r =
     (c < length nodes \<and> (c = 0 \<or> en_run_id (nodes ! c) \<le> r)
      \<and> (r \<in> en_keys (nodes ! c) \<or> 0 < c \<and> en_run_id (nodes ! c) = r))"

lemma et_placedI:
  "et_safe_add nodes c r s \<Longrightarrow> et_placed nodes c r" "et_tied_add nodes c r s \<Longrightarrow> et_placed nodes c r"
  by (auto simp: et_safe_add_def et_tied_add_def et_placed_def et_at_def)

definition nodes_fresh :: "'d enode list \<Rightarrow> u32 \<Rightarrow> bool" where
  "nodes_fresh nodes n =
     (\<forall>m < length nodes. (0 < m \<longrightarrow> en_run_id (nodes ! m) \<noteq> n) \<and> n \<notin> en_keys (nodes ! m))"

lemma nodes_wf_touch:
  assumes wf: "nodes_wf nodes" and fresh: "nodes_fresh nodes n"
    and c: "c < length nodes" "c = 0 \<or> en_run_id (nodes ! c) \<le> n"
  shows "nodes_wf (et_modify_children c n (\<lambda>x. x) nodes)" (is "nodes_wf ?nodes'")
proof (rule nodes_wfI)
  note smap = nodes_wfD(2)[OF wf]
  have none: "map_of (en_branch_children (nodes ! c)) n = None"
    using fresh c(1) by (simp add: nodes_fresh_def en_keys_def map_of_eq_None_iff)
  have mem: "(k, cs) \<in> set (en_branch_children (?nodes' ! i)) \<longleftrightarrow>
      (if i = c \<and> k = n then cs = [] else (k, cs) \<in> set (en_branch_children (nodes ! i)))"
    if "i < length nodes" for i k cs
    using that c(1) smap[OF c(1)] none by (auto simp: smap_modify_in)
  have at: "et_at ?nodes' i = et_at nodes i" for i by (simp add: et_at_def)
  have orig: "et_orig ?nodes' r i \<longleftrightarrow> et_orig nodes r i \<or> i = c \<and> r = n \<and> en_run_id (nodes ! c) \<noteq> n" for r i
    using c(1) by (auto simp: et_orig_def)
  show "i < length ?nodes' \<Longrightarrow> smap_ok (en_branch_children (?nodes' ! i))" for i
    using smap c(1) by (auto intro: smap_ok_modify)
  show "i < length ?nodes' \<Longrightarrow> (k, cs) \<in> set (en_branch_children (?nodes' ! i)) \<Longrightarrow> d \<in> set cs \<Longrightarrow>
      en_run_id (?nodes' ! d) = k \<and> en_parent (?nodes' ! d) = Some i \<and> i < d \<and> d < length ?nodes'" for i k cs d
    using nodes_wfD(3)[OF wf, of i k cs d] mem[of i k cs] c(1) by (auto split: if_splits)
  show "\<exists>i < length ?nodes'. \<exists>k cs. (k, cs) \<in> set (en_branch_children (?nodes' ! i)) \<and> d \<in> set cs"
    if d: "et_at ?nodes' d" for d
  proof -
    obtain i k cs where i: "i < length nodes" "(k, cs) \<in> set (en_branch_children (nodes ! i))" "d \<in> set cs"
      using nodes_wfD(4)[OF wf d[unfolded at]] by (auto simp: en_all_children_set)
    have "(k, cs) \<in> set (en_branch_children (?nodes' ! i))"
      using i none smap[OF c(1)] by (subst mem) (auto simp: smap_in_set)
    then show ?thesis using i by auto
  qed
  show "et_at ?nodes' i \<Longrightarrow> k \<in> en_keys (?nodes' ! i) \<Longrightarrow> en_run_id (?nodes' ! i) \<le> k" for i k
    using nodes_wfD(5)[OF wf, of i k] c at[of i] by (auto simp: et_at_def split: if_splits)
  show "et_at ?nodes' i \<Longrightarrow> et_at ?nodes' j \<Longrightarrow> et_orig ?nodes' r i \<Longrightarrow> et_orig ?nodes' r j \<Longrightarrow> i = j" for i j r
    using nodes_wfD(6)[OF wf, of i j r] fresh unfolding at orig
    by (auto simp: nodes_fresh_def et_orig_def et_at_def)
qed

lemma concat_smap_touch:
  "g (k, []) = [] \<Longrightarrow> concat (map g (smap_modify k [] (\<lambda>x. x) m)) = concat (map g m)"
  by (induction m) auto

lemma touch_children:
  assumes "c < length nodes"
  shows "en_children_upto q (et_modify_children c n (\<lambda>x. x) nodes ! i) = en_children_upto q (nodes ! i)"
    and "en_all_children (et_modify_children c n (\<lambda>x. x) nodes ! i) = en_all_children (nodes ! i)"
  using assms by (simp_all add: en_children_upto_def en_all_children_def concat_smap_touch)

lemma visits_touch:
  assumes "c < length nodes"
  shows "et_visits (et_modify_children c n (\<lambda>x. x) nodes) q i = et_visits nodes q i"
  by (induction "length nodes - i" arbitrary: i rule: less_induct)
    (subst (1 2) et_visits.simps, auto simp: touch_children[OF assms] intro!: arg_cong[of _ _ concat])

lemma visited_touch:
  assumes "c < length nodes"
  shows "et_visited (et_modify_children c n (\<lambda>x. x) nodes) q = et_visited nodes q"
  using assms by (simp add: et_visited_def et_roots_def touch_children visits_touch cong: map_cong)

lemma et_first_cong:
  assumes "\<forall>m\<in>set ns. en_run_id (nodes' ! m) = en_run_id (nodes ! m) \<and> en_run_seq (nodes' ! m) = en_run_seq (nodes ! m)"
  shows "et_first nodes' r s ns n \<longleftrightarrow> et_first nodes r s ns n"
  using assms unfolding et_first_def et_cand_def by (intro iff_exI) auto

lemma touch_result:
  assumes fresh: "nodes_fresh nodes n" and c: "c < length nodes"
  shows "r \<noteq> n \<Longrightarrow> et_result (et_modify_children c n (\<lambda>x. x) nodes) r s x = et_result nodes r s x"
    and "et_result (et_modify_children c n (\<lambda>x. x) nodes) n s (if c = 0 then None else Some c)"
proof -
  let ?nodes' = "et_modify_children c n (\<lambda>x. x) nodes"
  have at: "et_at ?nodes' i = et_at nodes i" for i by (simp add: et_at_def)
  have cand: "et_cand ?nodes' r s i = et_cand nodes r s i" for r s i using c by (simp add: et_cand_def)
  have orig: "et_orig ?nodes' r i \<longleftrightarrow> et_orig nodes r i \<or> i = c \<and> r = n \<and> en_run_id (nodes ! c) \<noteq> n" for r i
    using c by (auto simp: et_orig_def)
  show "r \<noteq> n \<Longrightarrow> et_result ?nodes' r s x = et_result nodes r s x"
    using c et_first_cong[of "et_visited nodes r" ?nodes' nodes r s]
    by (simp add: et_result_def at cand orig visited_touch split: option.split)
  have none: "\<not> et_cand nodes n s m" "\<not> et_orig nodes n m" if "et_at nodes m" for m
    using that fresh by (auto simp: et_cand_def et_orig_def nodes_fresh_def et_at_def)
  have cand': "\<not> et_cand ?nodes' n s m" if "et_at nodes m" for m using none that cand by simp
  have orig': "et_orig ?nodes' n m \<longleftrightarrow> m = c" if "et_at nodes m" for m
    using none[OF that] fresh that c unfolding orig by (auto simp: nodes_fresh_def et_at_def)
  show "et_result ?nodes' n s (if c = 0 then None else Some c)"
    using cand' orig' c by (auto simp: et_result_def at et_at_def)
qed

text \<open>The arena after \<open>AddChild\<close>.\<close>

definition et_added :: "'d \<Rightarrow> u32 \<Rightarrow> u32 \<Rightarrow> u64 \<Rightarrow> nat \<Rightarrow> 'd enode list \<Rightarrow> 'd enode list" where
  "et_added d r s g c nodes =
     et_modify_children c r (\<lambda>x. x @ [length nodes]) (nodes @ [(enode_new d r s g) \<lparr> en_parent := Some c \<rparr>])"

lemma et_add_child_nodes: "et_add_child d r s g t = t \<lparr> et_nodes := et_added d r s g (et_cursor t) (et_nodes t) \<rparr>"
  by (simp add: et_add_child_def et_added_def Let_def)

lemma et_added_simps:
  assumes "c < length nodes"
  shows "length (et_added d r s g c nodes) = Suc (length nodes)"
    and "j < length nodes \<Longrightarrow> en_run_id (et_added d r s g c nodes ! j) = en_run_id (nodes ! j)"
    and "j < length nodes \<Longrightarrow> en_run_seq (et_added d r s g c nodes ! j) = en_run_seq (nodes ! j)"
    and "j < length nodes \<Longrightarrow> en_state (et_added d r s g c nodes ! j) = en_state (nodes ! j)"
    and "j < length nodes \<Longrightarrow> en_keys (et_added d r s g c nodes ! j) =
      (if j = c then insert r (en_keys (nodes ! c)) else en_keys (nodes ! j))"
    and "j < length nodes \<Longrightarrow> en_branch_children (et_added d r s g c nodes ! j) =
      (if j = c then smap_modify r [] (\<lambda>x. x @ [length nodes]) (en_branch_children (nodes ! c))
       else en_branch_children (nodes ! j))"
    and "j < length nodes \<Longrightarrow> en_parent (et_added d r s g c nodes ! j) = en_parent (nodes ! j)"
    and "en_run_id (et_added d r s g c nodes ! length nodes) = r"
    and "en_parent (et_added d r s g c nodes ! length nodes) = Some c"
    and "en_run_seq (et_added d r s g c nodes ! length nodes) = s"
    and "en_state (et_added d r s g c nodes ! length nodes) = d"
    and "en_branch_children (et_added d r s g c nodes ! length nodes) = []"
    and "en_keys (et_added d r s g c nodes ! length nodes) = {}"
  using assms by (simp_all add: et_added_def nth_append enode_new_def en_keys_def[of "\<lparr>en_state = _, en_run_id = _, en_run_seq = _, en_global_seq = _, en_parent = _, en_branch_children = _\<rparr>"])

lemma nodes_wf_added:
  assumes wf: "nodes_wf nodes" and safe: "et_placed nodes c r"
  shows "nodes_wf (et_added d r s g c nodes)" (is "nodes_wf ?nodes'")
proof (rule nodes_wfI)
  let ?N = "length nodes"
  have c: "c < ?N" using safe by (simp add: et_placed_def)
  note sm = et_added_simps[OF c]
  note smap = nodes_wfD(2)[OF wf]
  have mem: "(k, cs) \<in> set (en_branch_children (?nodes' ! i)) \<longleftrightarrow>
      (if i = c \<and> k = r then cs = (case map_of (en_branch_children (nodes ! c)) r of Some v \<Rightarrow> v | None \<Rightarrow> []) @ [?N]
       else i \<noteq> ?N \<and> (k, cs) \<in> set (en_branch_children (nodes ! i)))" if "i \<le> ?N" for i k cs
    using that c smap[OF c] by (cases "i = ?N") (auto simp: sm smap_modify_in)
  have at: "et_at ?nodes' i \<longleftrightarrow> et_at nodes i \<or> i = ?N" for i using c by (auto simp: et_at_def sm)
  have orig: "et_orig ?nodes' q i \<longleftrightarrow> i < ?N \<and> et_orig nodes q i" if "et_at ?nodes' i" for q i
    using that[unfolded at] c safe
    by (cases "i = ?N") (auto simp: et_orig_def sm et_at_def et_placed_def)
  show "i < length ?nodes' \<Longrightarrow> smap_ok (en_branch_children (?nodes' ! i))" for i
    using smap smap_ok_modify[OF smap[OF c]] by (cases "i = ?N") (auto simp: sm)
  show "en_run_id (?nodes' ! e) = k \<and> en_parent (?nodes' ! e) = Some i \<and> i < e \<and> e < length ?nodes'"
    if "i < length ?nodes'" "(k, cs) \<in> set (en_branch_children (?nodes' ! i))" "e \<in> set cs" for i k cs e
  proof -
    have le: "i \<le> ?N" using that(1) sm(1) by simp
    have old: "en_run_id (?nodes' ! e) = k \<and> en_parent (?nodes' ! e) = Some i \<and> i < e \<and> e < length ?nodes'"
      if "i < ?N" "(k, vs) \<in> set (en_branch_children (nodes ! i))" "e \<in> set vs" for vs
      using nodes_wfD(3)[OF wf that] by (auto simp: sm)
    show ?thesis
    proof (cases "i = c \<and> k = r")
      case True
      then have "cs = (case map_of (en_branch_children (nodes ! c)) r of Some v \<Rightarrow> v | None \<Rightarrow> []) @ [?N]"
        using that(2)[unfolded mem[OF le]] by simp
      then show ?thesis
        using True that(3) c old smap[OF c] sm by (auto simp: smap_in_set split: option.splits)
    next
      case False
      then show ?thesis using that(2)[unfolded mem[OF le]] that(3) le old by auto
    qed
  qed
  show "\<exists>i < length ?nodes'. \<exists>k cs. (k, cs) \<in> set (en_branch_children (?nodes' ! i)) \<and> e \<in> set cs"
    if e: "et_at ?nodes' e" for e
  proof (cases "e = ?N")
    case True
    have "(r, (case map_of (en_branch_children (nodes ! c)) r of Some v \<Rightarrow> v | None \<Rightarrow> []) @ [?N])
        \<in> set (en_branch_children (?nodes' ! c))"
      using c by (subst mem) auto
    then show ?thesis using True c sm(1) by (intro exI[of _ c]) fastforce
  next
    case False
    then obtain i k cs where i: "i < ?N" "(k, cs) \<in> set (en_branch_children (nodes ! i))" "e \<in> set cs"
      using nodes_wfD(4)[OF wf, of e] e[unfolded at] by (auto simp: en_all_children_set)
    then have "\<exists>cs'. (k, cs') \<in> set (en_branch_children (?nodes' ! i)) \<and> e \<in> set cs'"
      using c smap[OF c]
      by (intro exI[of _ "if i = c \<and> k = r then cs @ [?N] else cs"]) (auto simp: mem smap_in_set)
    then show ?thesis using i(1) sm(1) by (intro exI[of _ i]) auto
  qed
  show "en_run_id (?nodes' ! i) \<le> k" if "et_at ?nodes' i" "k \<in> en_keys (?nodes' ! i)" for i k
  proof (cases "i = ?N")
    case True
    then show ?thesis using that(2) by (simp add: sm)
  next
    case False
    then have i: "et_at nodes i" using that(1) at by blast
    then have lt: "i < ?N" "0 < i" by (simp_all add: et_at_def)
    show ?thesis
      using that(2) nodes_wfD(5)[OF wf i, of k] safe lt
      unfolding sm(2)[OF lt(1)] sm(5)[OF lt(1)] et_placed_def by (auto split: if_splits)
  qed
  show "i = j" if "et_at ?nodes' i" "et_at ?nodes' j" "et_orig ?nodes' q i" "et_orig ?nodes' q j" for i j q
    using that nodes_wfD(6)[OF wf, of i j q] orig[of i q] orig[of j q] unfolding at by auto
qed

text \<open>Where the new node comes in the order of the visits.\<close>

lemma visits_head: "n < length nodes \<Longrightarrow> \<exists>rest. et_visits nodes r n = n # rest"
  by (subst et_visits.simps) simp

lemma takeWhile_visits:
  assumes "m \<in> set (takeWhile (\<lambda>y. y \<noteq> x) (concat (map (et_visits nodes r) ds)))" "\<forall>d\<in>set ds. d < length nodes"
  shows "\<exists>d\<in>set (takeWhile (\<lambda>y. y \<noteq> x) ds). m \<in> set (takeWhile (\<lambda>y. y \<noteq> x) (et_visits nodes r d))"
  using assms
proof (induction ds)
  case (Cons d ds)
  obtain rest where d: "et_visits nodes r d = d # rest" using Cons.prems(2) visits_head[of d nodes r] by auto
  show ?case
  proof (cases "d = x")
    case True
    then show ?thesis using Cons.prems(1) d by simp
  next
    case False
    show ?thesis
    proof (cases "x \<in> set (et_visits nodes r d)")
      case True
      then have "m \<in> set (takeWhile (\<lambda>y. y \<noteq> x) (et_visits nodes r d))"
        using Cons.prems(1) by (simp add: takeWhile_append1)
      then show ?thesis using False by auto
    next
      case miss: False
      then have "\<forall>y\<in>set (et_visits nodes r d). y \<noteq> x" by blast
      then have "m \<in> set (takeWhile (\<lambda>y. y \<noteq> x) (et_visits nodes r d)) \<or>
          m \<in> set (takeWhile (\<lambda>y. y \<noteq> x) (concat (map (et_visits nodes r) ds)))"
        using Cons.prems(1) by (auto simp: takeWhile_append2 takeWhile_eq_all_conv[THEN iffD2])
      then show ?thesis using False Cons by auto
    qed
  qed
qed simp

lemma visits_before:
  assumes wf: "nodes_wf nodes"
    and children: "\<And>i d. i < length nodes \<Longrightarrow> i \<noteq> x \<Longrightarrow>
      d \<in> set (takeWhile (\<lambda>y. y \<noteq> x) (rev (en_children_upto r (nodes ! i)))) \<Longrightarrow> \<not> Q d"
    and n: "n < length nodes" "\<not> Q n" and m: "m \<in> set (takeWhile (\<lambda>y. y \<noteq> x) (et_visits nodes r n))"
  shows "\<not> Q m"
  using n m
proof (induction "length nodes - n" arbitrary: n rule: less_induct)
  case less
  let ?ds = "rev (en_children_upto r (nodes ! n))"
  have "n \<noteq> x" using less.prems visits_head[of n nodes r] by auto
  moreover have v: "et_visits nodes r n = n # concat (map (et_visits nodes r) ?ds)"
    by (rule et_visits_step[OF nodes_wfD(1)[OF wf] less.prems(1)])
  ultimately consider "m = n" | "m \<in> set (takeWhile (\<lambda>y. y \<noteq> x) (concat (map (et_visits nodes r) ?ds)))"
    using less.prems(3) by auto
  then show ?case
  proof cases
    case 2
    have below: "n < d \<and> d < length nodes" if "d \<in> set ?ds" for d
      using that nodes_wfD(3)[OF wf less.prems(1)] by (auto simp: en_children_upto_set)
    then obtain d where d: "d \<in> set (takeWhile (\<lambda>y. y \<noteq> x) ?ds)" "m \<in> set (takeWhile (\<lambda>y. y \<noteq> x) (et_visits nodes r d))"
      using takeWhile_visits[OF 2] by blast
    then have "n < d" "d < length nodes" "\<not> Q d"
      using below children[OF less.prems(1) \<open>n \<noteq> x\<close>] set_takeWhileD by fast+
    then show ?thesis using less.hyps[of d] d(2) less.prems(1) by simp
  qed (use less.prems in simp)
qed

lemma visited_before:
  assumes wf: "nodes_wf nodes" "nodes \<noteq> []"
    and children: "\<And>i d. i < length nodes \<Longrightarrow> i \<noteq> x \<Longrightarrow>
      d \<in> set (takeWhile (\<lambda>y. y \<noteq> x) (rev (en_children_upto r (nodes ! i)))) \<Longrightarrow> \<not> Q d"
    and roots: "\<And>d. d \<in> set (takeWhile (\<lambda>y. y \<noteq> x) (et_roots nodes)) \<Longrightarrow> \<not> Q d"
    and m: "m \<in> set (takeWhile (\<lambda>y. y \<noteq> x) (et_visited nodes r))"
  shows "\<not> Q m"
proof -
  obtain d where d: "d \<in> set (takeWhile (\<lambda>y. y \<noteq> x) (et_roots nodes))" "m \<in> set (takeWhile (\<lambda>y. y \<noteq> x) (et_visits nodes r d))"
    using takeWhile_visits[OF m[unfolded et_visited_def] et_roots_bound[OF wf]] by blast
  have "d < length nodes" using d(1) et_roots_bound[OF wf] set_takeWhileD by fast
  then show ?thesis
    using visits_before[where Q = Q and x = x and r = r, OF wf(1) _ _ roots[OF d(1)] d(2)] children by blast
qed

lemma smap_append_upto:
  assumes "smap_ok m"
  shows "concat (map (\<lambda>(k, cs). if k \<le> r then cs else []) (smap_modify r [] (\<lambda>x. x @ [N]) m)) =
      concat (map (\<lambda>(k, cs). if k \<le> r then cs else []) m) @ [N]"
proof -
  have above: "concat (map (\<lambda>(k, cs). if k \<le> r then cs else []) m) = []" if "\<forall>x\<in>set m. r < fst x"
    for m :: "('a, 'b list) smap"
    using that by (induction m) (auto simp: split_def leD)
  show ?thesis
    using assms
  proof (induction m)
    case (Cons p m)
    obtain k cs where p: "p = (k, cs)" by (cases p)
    show ?case
    proof (cases "r \<le> k")
      case True
      then have "concat (map (\<lambda>(k, cs). if k \<le> r then cs else []) m) = []" using Cons.prems p by (intro above) auto
      then show ?thesis using True p by (auto simp del: concat_eq_Nil_conv)
    next
      case False
      then show ?thesis using Cons p by (auto simp: not_le)
    qed
  qed simp
qed

lemma smap_append_all:
  assumes "smap_ok m"
  shows "\<exists>G H. concat (map snd (smap_modify r [] (\<lambda>x. x @ [N]) m)) = G @ N # H
      \<and> (\<forall>h\<in>set H. \<exists>k cs. (k, cs) \<in> set m \<and> r < k \<and> h \<in> set cs)"
  using assms
proof (induction m)
  case Nil
  show ?case by (intro exI[of _ "[]"]) simp
next
  case (Cons p m)
  obtain k cs where p: "p = (k, cs)" by (cases p)
  have rest: "\<exists>k cs. (k, cs) \<in> set (p # m) \<and> r < k \<and> h \<in> set cs"
    if "h \<in> set (concat (map snd m))" "r \<le> k" for h
    using that Cons.prems p by force
  consider "r < k" | "r = k" | "k < r" by fastforce
  then show ?case
  proof cases
    case 1
    have "\<exists>k cs. (k, cs) \<in> set (p # m) \<and> r < k \<and> h \<in> set cs" if "h \<in> set (cs @ concat (map snd m))" for h
    proof (cases "h \<in> set cs")
      case True
      then show ?thesis using 1 p by auto
    next
      case False
      then show ?thesis using that 1 by (intro rest) auto
    qed
    then show ?thesis using 1 p by (intro exI[of _ "[]"] exI[of _ "cs @ concat (map snd m)"]) simp
  next
    case 2
    have "\<forall>h\<in>set (concat (map snd m)). \<exists>k cs. (k, cs) \<in> set (p # m) \<and> r < k \<and> h \<in> set cs"
      using rest 2 by blast
    then show ?thesis using 2 p by (intro exI[of _ cs] exI[of _ "concat (map snd m)"]) simp
  next
    case 3
    then obtain G H where GH: "concat (map snd (smap_modify r [] (\<lambda>x. x @ [N]) m)) = G @ N # H"
      "\<forall>h\<in>set H. \<exists>k cs. (k, cs) \<in> set m \<and> r < k \<and> h \<in> set cs"
      using Cons p by auto
    have "concat (map snd (smap_modify r [] (\<lambda>x. x @ [N]) (p # m))) = (cs @ G) @ N # H" using 3 p GH(1) by auto
    moreover have "\<forall>h\<in>set H. \<exists>k cs. (k, cs) \<in> set (p # m) \<and> r < k \<and> h \<in> set cs"
      using GH(2) by (meson list.set_intros(2))
    ultimately show ?thesis by blast
  qed
qed

lemma smap_append_filter:
  assumes "\<forall>(k, cs)\<in>set m. N \<notin> set cs"
  shows "filter (\<lambda>y. y \<noteq> N) (concat (map (\<lambda>(k, cs). if P k then cs else []) (smap_modify r [] (\<lambda>x. x @ [N]) m))) =
    concat (map (\<lambda>(k, cs). if P k then cs else []) m)"
proof -
  have keep: "filter (\<lambda>y. y \<noteq> N) (concat (map (\<lambda>(k, cs). if P k then cs else []) m)) =
      concat (map (\<lambda>(k, cs). if P k then cs else []) m)" if "\<forall>(k, cs)\<in>set m. N \<notin> set cs" for m
    using that by (induction m) (auto simp: filter_id_conv)
  show ?thesis
    using assms
  proof (induction m)
    case (Cons p m)
    then have N: "N \<notin> set (snd p)" "\<forall>(k, cs)\<in>set m. N \<notin> set cs" by auto
    have "filter (\<lambda>y. y \<noteq> N) (snd p) = snd p" using N(1) by (auto simp: filter_id_conv)
    then show ?case using Cons.IH[OF N(2)] keep[OF N(2)] by (cases p) auto
  qed simp
qed

lemma added_children:
  assumes wf: "nodes_wf nodes" and c: "c < length nodes" and i: "i < length nodes"
  shows "filter (\<lambda>y. y \<noteq> length nodes) (en_children_upto q (et_added d r s g c nodes ! i)) = en_children_upto q (nodes ! i)"
    and "filter (\<lambda>y. y \<noteq> length nodes) (en_all_children (et_added d r s g c nodes ! i)) = en_all_children (nodes ! i)"
    and "en_children_upto r (et_added d r s g c nodes ! c) = en_children_upto r (nodes ! c) @ [length nodes]"
proof -
  note sm = et_added_simps[OF c]
  have N: "length nodes \<notin> set cs" if "j < length nodes" "(k, cs) \<in> set (en_branch_children (nodes ! j))" for j k cs
    using nodes_wfD(3)[OF wf that] by blast
  then have N': "\<forall>(k, cs)\<in>set (en_branch_children (nodes ! j)). length nodes \<notin> set cs" if "j < length nodes" for j
    using that by blast
  have old: "length nodes \<notin> set (en_children_upto q (nodes ! i))" "length nodes \<notin> set (en_all_children (nodes ! i))"
    using N[OF i] by (auto simp: en_children_upto_set en_all_children_set)
  show "filter (\<lambda>y. y \<noteq> length nodes) (en_children_upto q (et_added d r s g c nodes ! i)) = en_children_upto q (nodes ! i)"
  proof (cases "i = c")
    case True
    then show ?thesis
      using smap_append_filter[OF N'[OF c], of "\<lambda>k. k \<le> q" r] c by (simp add: en_children_upto_def sm)
  next
    case False
    then have "en_children_upto q (et_added d r s g c nodes ! i) = en_children_upto q (nodes ! i)"
      using i by (simp add: en_children_upto_def sm)
    then show ?thesis using old(1) by (auto simp: filter_id_conv)
  qed
  show "filter (\<lambda>y. y \<noteq> length nodes) (en_all_children (et_added d r s g c nodes ! i)) = en_all_children (nodes ! i)"
  proof (cases "i = c")
    case True
    have "(\<lambda>(k, cs). if True then cs else []) = (snd :: u32 \<times> nat list \<Rightarrow> nat list)" by auto
    then show ?thesis
      using smap_append_filter[OF N'[OF c], of "\<lambda>_. True" r] c True by (simp only: en_all_children_def sm if_True refl)
  next
    case False
    then have "en_all_children (et_added d r s g c nodes ! i) = en_all_children (nodes ! i)"
      using i by (simp add: en_all_children_def sm)
    then show ?thesis using old(2) by (auto simp: filter_id_conv)
  qed
  show "en_children_upto r (et_added d r s g c nodes ! c) = en_children_upto r (nodes ! c) @ [length nodes]"
    using smap_append_upto[OF nodes_wfD(2)[OF wf c]] c by (simp add: en_children_upto_def sm)
qed

lemma filter_concat_map:
  assumes "\<And>x. x \<in> set xs \<Longrightarrow> P x \<Longrightarrow> filter Q (f x) = g x" "\<And>x. x \<in> set xs \<Longrightarrow> \<not> P x \<Longrightarrow> filter Q (f x) = []"
  shows "filter Q (concat (map f xs)) = concat (map g (filter P xs))"
  using assms by (induction xs) auto

lemma added_visits:
  assumes wf: "nodes_wf nodes" and placed: "et_placed nodes c r" and n: "n < length nodes"
  shows "filter (\<lambda>y. y \<noteq> length nodes) (et_visits (et_added d r s g c nodes) q n) = et_visits nodes q n"
  using n
proof (induction "length nodes - n" arbitrary: n rule: less_induct)
  case less
  let ?nodes' = "et_added d r s g c nodes" and ?N = "length nodes"
  have c: "c < ?N" using placed by (simp add: et_placed_def)
  note sm = et_added_simps[OF c]
  note desc = nodes_wfD(1)[OF nodes_wf_added[OF wf placed, of d s g]]
  let ?ds = "rev (en_children_upto q (?nodes' ! n))"
  have n': "n < length ?nodes'" using less.prems by (simp add: sm)
  have new: "et_visits ?nodes' q ?N = [?N]"
    by (subst et_visits.simps) (simp add: sm en_children_upto_def)
  have "filter (\<lambda>y. y \<noteq> ?N) (concat (map (et_visits ?nodes' q) ?ds)) =
      concat (map (et_visits nodes q) (filter (\<lambda>y. y \<noteq> ?N) ?ds))"
  proof (rule filter_concat_map)
    fix x assume "x \<in> set ?ds" "x \<noteq> ?N"
    then have "n < x" "x < ?N" using desc n' sm(1) by (fastforce simp: en_children_upto_set et_descending_def)+
    then show "filter (\<lambda>y. y \<noteq> ?N) (et_visits ?nodes' q x) = et_visits nodes q x" using less by simp
  qed (simp add: new)
  moreover have "filter (\<lambda>y. y \<noteq> ?N) ?ds = rev (en_children_upto q (nodes ! n))"
    using added_children(1)[OF wf c less.prems] by (simp add: rev_filter[symmetric])
  ultimately show ?case
    using less.prems by (simp add: et_visits_step[OF desc n'] et_visits_step[OF nodes_wfD(1)[OF wf]])
qed

lemma added_visited:
  assumes wf: "nodes_wf nodes" and placed: "et_placed nodes c r"
  shows "filter (\<lambda>y. y \<noteq> length nodes) (et_visited (et_added d r s g c nodes) q) = et_visited nodes q"
proof -
  let ?nodes' = "et_added d r s g c nodes" and ?N = "length nodes"
  have c: "c < ?N" using placed by (simp add: et_placed_def)
  note sm = et_added_simps[OF c]
  note wf' = nodes_wf_added[OF wf placed, of d s g]
  have new: "et_visits ?nodes' q ?N = [?N]"
    by (subst et_visits.simps) (simp add: sm en_children_upto_def)
  have bound: "x < Suc ?N" if "x \<in> set (et_roots ?nodes')" for x
    using that et_roots_bound[OF wf'] sm(1) by (metis length_0_conv nat.distinct(1))
  have "filter (\<lambda>y. y \<noteq> ?N) (et_visited ?nodes' q) = concat (map (et_visits nodes q) (filter (\<lambda>y. y \<noteq> ?N) (et_roots ?nodes')))"
    unfolding et_visited_def
  proof (rule filter_concat_map)
    fix x assume "x \<in> set (et_roots ?nodes')" "x \<noteq> ?N"
    then have "x < ?N" using bound by fastforce
    then show "filter (\<lambda>y. y \<noteq> ?N) (et_visits ?nodes' q x) = et_visits nodes q x" by (rule added_visits[OF wf placed])
  qed (simp add: new)
  moreover have "filter (\<lambda>y. y \<noteq> ?N) (et_roots ?nodes') = et_roots nodes"
    using added_children(2)[OF wf c, of 0 d r s g] le_less_trans[OF le0 c] by (simp add: et_roots_def rev_filter[symmetric])
  ultimately show ?thesis by (simp add: et_visited_def)
qed

lemma et_first_filter:
  assumes "et_first nodes r s (filter P ns) n" "\<And>m. m \<in> set ns \<Longrightarrow> et_cand nodes r s m \<Longrightarrow> P m"
  shows "et_first nodes r s ns n"
proof -
  have n: "n \<in> set ns" "et_cand nodes r s n" using et_first_in[OF assms(1)] by auto
  then obtain b where b: "et_first nodes r s ns b"
    using et_tracked_fold(1)[of nodes r s ns] by (auto simp: et_best_ok_def split: option.splits)
  then obtain us vs where v: "ns = us @ b # vs" "et_cand nodes r s b"
    "\<forall>m\<in>set us. et_cand nodes r s m \<longrightarrow> en_run_seq (nodes ! m) < en_run_seq (nodes ! b)"
    "\<forall>m\<in>set vs. et_cand nodes r s m \<longrightarrow> en_run_seq (nodes ! m) \<le> en_run_seq (nodes ! b)"
    unfolding et_first_def by blast
  then have "et_first nodes r s (filter P ns) b"
    unfolding et_first_def using assms(2)[of b]
    by (intro exI[of _ "filter P us"] exI[of _ "filter P vs"]) simp
  then show ?thesis using et_first_unique[OF assms(1)] b by simp
qed

lemma et_firstI:
  assumes "n \<in> set ns" "et_cand nodes r s n"
    and "\<And>m. m \<in> set (takeWhile (\<lambda>y. y \<noteq> n) ns) \<Longrightarrow> et_cand nodes r s m \<Longrightarrow> en_run_seq (nodes ! m) < en_run_seq (nodes ! n)"
    and "\<And>m. m \<in> set ns \<Longrightarrow> et_cand nodes r s m \<Longrightarrow> en_run_seq (nodes ! m) \<le> en_run_seq (nodes ! n)"
  shows "et_first nodes r s ns n"
proof -
  obtain xs ys where ns: "ns = xs @ n # ys" "n \<notin> set xs" using split_list_first[OF assms(1)] by blast
  then have "\<forall>y\<in>set xs. y \<noteq> n" by blast
  then have "takeWhile (\<lambda>y. y \<noteq> n) ns = xs" using ns(1) by (simp add: takeWhile_append2)
  then show ?thesis unfolding et_first_def using assms ns by (intro exI[of _ xs] exI[of _ ys]) auto
qed

text \<open>A point before the new node, or in another run, is looked up as before.\<close>

lemma added_old:
  assumes wf: "nodes_wf nodes" and placed: "et_placed nodes c r" and x: "et_result nodes q t x"
    and old: "q \<noteq> r \<or> t < s"
  shows "et_result (et_added d r s g c nodes) q t x"
proof -
  let ?nodes' = "et_added d r s g c nodes" and ?N = "length nodes"
  have c: "c < ?N" using placed by (simp add: et_placed_def)
  note sm = et_added_simps[OF c]
  have at: "et_at ?nodes' i \<longleftrightarrow> et_at nodes i \<or> i = ?N" for i using c by (auto simp: et_at_def sm)
  have cand: "et_cand ?nodes' q t i \<longleftrightarrow> i \<noteq> ?N \<and> et_cand nodes q t i" if "et_at ?nodes' i" for i
    using that[unfolded at] old by (auto simp: sm et_at_def et_cand_def)
  have orig: "et_orig ?nodes' q i \<longleftrightarrow> i \<noteq> ?N \<and> et_orig nodes q i" if "et_at ?nodes' i" for i
    using that[unfolded at] c placed
    by (cases "i = ?N") (auto simp: et_orig_def sm et_at_def et_placed_def)
  have wf': "nodes_wf ?nodes'" "?nodes' \<noteq> []"
    using nodes_wf_added[OF wf placed, of d s g] sm(1)[of d r s g] by auto
  have first: "et_first ?nodes' q t (et_visited ?nodes' q) n" if "et_first nodes q t (et_visited nodes q) n" for n
  proof (rule et_first_filter)
    have "\<forall>m\<in>set (et_visited nodes q). m < ?N"
      using et_visited_at[OF wf, of _ q] c by (fastforce simp: et_at_def)
    then show "et_first ?nodes' q t (filter (\<lambda>y. y \<noteq> ?N) (et_visited ?nodes' q)) n"
      using that et_first_cong[of "et_visited nodes q" ?nodes' nodes] by (simp add: added_visited[OF wf placed] sm)
    show "m \<noteq> ?N" if "m \<in> set (et_visited ?nodes' q)" "et_cand ?nodes' q t m" for m
      using that cand et_visited_at[OF wf'] by blast
  qed
  have none: "\<forall>m. et_at ?nodes' m \<longrightarrow> \<not> et_cand ?nodes' q t m" if "\<forall>m. et_at nodes m \<longrightarrow> \<not> et_cand nodes q t m"
    using that cand at by blast
  show ?thesis
  proof (cases x)
    case None
    then have "\<forall>m. et_at nodes m \<longrightarrow> \<not> et_cand nodes q t m" "\<forall>m. et_at nodes m \<longrightarrow> \<not> et_orig nodes q m"
      using x by (auto simp: et_result_def)
    then show ?thesis using none orig at None by (auto simp: et_result_def)
  next
    case (Some n)
    then have "et_at ?nodes' n" "n \<noteq> ?N" using x at by (auto simp: et_result_def et_at_def)
    moreover have "et_first nodes q t (et_visited nodes q) n \<or> et_orig nodes q n \<and> (\<forall>m. et_at nodes m \<longrightarrow> \<not> et_cand nodes q t m)"
      using x Some by (simp add: et_result_def)
    ultimately show ?thesis using Some first none orig by (auto simp: et_result_def)
  qed
qed

text \<open>The new node is visited before its older siblings of the run, and after its parent.\<close>

lemma new_before_siblings:
  assumes wf: "nodes_wf nodes" and placed: "et_placed nodes c r"
    and m: "m \<in> set (takeWhile (\<lambda>y. y \<noteq> length nodes) (et_visited (et_added d r s g c nodes) r))"
  shows "\<not> (en_parent (et_added d r s g c nodes ! m) = Some c \<and> en_run_id (et_added d r s g c nodes ! m) = r)"
    (is "\<not> ?Q m")
proof (rule visited_before[OF _ _ _ _ m])
  let ?nodes' = "et_added d r s g c nodes" and ?N = "length nodes"
  have c: "c < ?N" using placed by (simp add: et_placed_def)
  note sm = et_added_simps[OF c]
  show wf': "nodes_wf ?nodes'" "?nodes' \<noteq> []"
    using nodes_wf_added[OF wf placed, of d s g] sm(1)[of d r s g] by auto
  have child: "en_parent (?nodes' ! e) = Some i \<and> en_run_id (?nodes' ! e) = k"
    if "i < length ?nodes'" "(k, cs) \<in> set (en_branch_children (?nodes' ! i))" "e \<in> set cs" for i k cs e
    using nodes_wfD(3)[OF wf'(1) that] by blast
  show "\<not> ?Q e" if i: "i < length ?nodes'" "i \<noteq> ?N"
    and e: "e \<in> set (takeWhile (\<lambda>y. y \<noteq> ?N) (rev (en_children_upto r (?nodes' ! i))))" for i e
  proof (cases "i = c")
    case True
    then show ?thesis using e added_children(3)[OF wf c c, of r d s g] by simp
  next
    case False
    have "e \<in> set (en_children_upto r (?nodes' ! i))" using set_takeWhileD[OF e] by simp
    then show ?thesis using child[OF i(1)] False by (auto simp: en_children_upto_set)
  qed
  show "\<not> ?Q e" if e: "e \<in> set (takeWhile (\<lambda>y. y \<noteq> ?N) (et_roots ?nodes'))" for e
  proof (cases "c = 0")
    case True
    have "en_branch_children (?nodes' ! 0) = smap_modify r [] (\<lambda>x. x @ [?N]) (en_branch_children (nodes ! 0))"
      using sm(6)[OF c, of d r s g] True by simp
    then obtain G H where GH: "en_all_children (?nodes' ! 0) = G @ ?N # H"
      "\<forall>h\<in>set H. \<exists>k cs. (k, cs) \<in> set (en_branch_children (nodes ! 0)) \<and> r < k \<and> h \<in> set cs"
      using smap_append_all[OF nodes_wfD(2)[OF wf c], of r ?N] True by (auto simp: en_all_children_def)
    have "e \<in> set H" using e GH(1) by (auto simp: et_roots_def takeWhile_append split: if_splits dest: set_takeWhileD)
    then obtain k cs where k: "(k, cs) \<in> set (en_branch_children (nodes ! 0))" "r < k" "e \<in> set cs" using GH(2) by blast
    have "0 < ?N" using c by linarith
    from nodes_wfD(3)[OF wf this k(1,3)] have "en_run_id (nodes ! e) = k" "e < ?N" by auto
    then show ?thesis using k(2) by (auto simp: sm)
  next
    case False
    have "e \<in> set (en_all_children (?nodes' ! 0))" using set_takeWhileD[OF e] by (simp add: et_roots_def)
    then show ?thesis using child[of 0] sm(1) False by (auto simp: en_all_children_set)
  qed
qed

lemma parent_before_children:
  assumes wf: "nodes_wf nodes" "nodes \<noteq> []" and c: "0 < c"
    and m: "m \<in> set (takeWhile (\<lambda>y. y \<noteq> c) (et_visited nodes r))"
  shows "en_parent (nodes ! m) \<noteq> Some c"
proof (rule visited_before[OF wf _ _ m])
  show "en_parent (nodes ! e) \<noteq> Some c" if i: "i < length nodes" "i \<noteq> c"
    and e: "e \<in> set (takeWhile (\<lambda>y. y \<noteq> c) (rev (en_children_upto r (nodes ! i))))" for i e
    using set_takeWhileD[OF e] nodes_wfD(3)[OF wf(1) i(1)] i(2) by (fastforce simp: en_children_upto_set)
  show "en_parent (nodes ! e) \<noteq> Some c" if e: "e \<in> set (takeWhile (\<lambda>y. y \<noteq> c) (et_roots nodes))" for e
    using set_takeWhileD[OF e] nodes_wfD(3)[OF wf(1), of 0] wf(2) c by (fastforce simp: et_roots_def en_all_children_set)
qed

text \<open>What \<open>AddChild\<close> changes: the points from the new node on, unless the cursor itself is at its point.\<close>

lemma added_result:
  assumes wf: "nodes_wf nodes" and safe: "et_safe_add nodes c r s" and x: "et_result nodes q t x"
  shows "et_result (et_added d r s g c nodes) q t (if q = r \<and> s \<le> t then Some (length nodes) else x)"
proof (cases "q = r \<and> s \<le> t")
  case True
  let ?nodes' = "et_added d r s g c nodes" and ?N = "length nodes"
  note placed = et_placedI(1)[OF safe]
  have c: "c < ?N" using placed by (simp add: et_placed_def)
  note sm = et_added_simps[OF c]
  have wf': "nodes_wf ?nodes'" "?nodes' \<noteq> []"
    using nodes_wf_added[OF wf placed, of d s g] sm(1)[of d r s g] by auto
  have N: "et_at ?nodes' ?N" "et_cand ?nodes' r t ?N" using c True by (auto simp: et_at_def et_cand_def sm)
  have older: "en_run_seq (?nodes' ! m) < s \<or> en_run_seq (?nodes' ! m) = s \<and> (m = ?N \<or> en_parent (?nodes' ! m) = Some c)"
    if "m \<in> set (et_visited ?nodes' r)" "et_cand ?nodes' r t m" for m
  proof (cases "m = ?N")
    case False
    then have "et_at nodes m" using et_visited_at[OF wf' that(1)] by (simp add: et_at_def sm)
    then show ?thesis using that(2) safe by (auto simp: et_safe_add_def et_cand_def sm et_at_def)
  qed (simp add: sm)
  have "et_first ?nodes' r t (et_visited ?nodes' r) ?N"
  proof (rule et_firstI)
    show "?N \<in> set (et_visited ?nodes' r)" by (rule et_visited_complete[OF wf'(1) N(1)]) (simp add: sm)
    show "en_run_seq (?nodes' ! m) < en_run_seq (?nodes' ! ?N)"
      if m: "m \<in> set (takeWhile (\<lambda>y. y \<noteq> ?N) (et_visited ?nodes' r))" "et_cand ?nodes' r t m" for m
      using older[OF _ m(2)] new_before_siblings[OF wf placed m(1)] set_takeWhileD[OF m(1)] m(2)
      by (auto simp: sm et_cand_def)
    show "en_run_seq (?nodes' ! m) \<le> en_run_seq (?nodes' ! ?N)"
      if "m \<in> set (et_visited ?nodes' r)" "et_cand ?nodes' r t m" for m
      using older[OF that] by (auto simp: sm)
  qed (rule N(2))
  then show ?thesis using True N(1) by (simp add: et_result_def)
next
  case False
  then have "q \<noteq> r \<or> t < s" by auto
  from added_old[OF wf et_placedI(1)[OF safe] x this] show ?thesis using False by auto
qed

lemma tied_result:
  assumes wf: "nodes_wf nodes" and tied: "et_tied_add nodes c r s" and x: "et_result nodes q t x"
  shows "et_result (et_added d r s g c nodes) q t x"
proof (cases "q = r \<and> s \<le> t")
  case True
  let ?nodes' = "et_added d r s g c nodes" and ?N = "length nodes"
  note placed = et_placedI(2)[OF tied]
  have c: "c < ?N" "0 < c" "en_run_id (nodes ! c) = r" "en_run_seq (nodes ! c) = s" "nodes \<noteq> []"
    using tied by (auto simp: et_tied_add_def et_at_def)
  note sm = et_added_simps[OF c(1)]
  have wf': "nodes_wf ?nodes'" "?nodes' \<noteq> []"
    using nodes_wf_added[OF wf placed, of d s g] sm(1)[of d r s g] by auto
  have first: "et_first N r t (et_visited N r) c"
    if N: "nodes_wf N" "N \<noteq> []" "et_at N c" "en_run_id (N ! c) = r" "en_run_seq (N ! c) = s"
      and ties: "\<And>m. et_at N m \<Longrightarrow> en_run_id (N ! m) = r \<Longrightarrow> m \<noteq> c \<Longrightarrow>
        en_run_seq (N ! m) < s \<or> en_run_seq (N ! m) = s \<and> en_parent (N ! m) = Some c" for N :: "'a enode list"
  proof (rule et_firstI)
    show "et_cand N r t c" using N(4,5) True by (simp add: et_cand_def)
    show "c \<in> set (et_visited N r)" by (rule et_visited_complete[OF N(1,3)]) (simp add: N(4))
    show "en_run_seq (N ! m) < en_run_seq (N ! c)"
      if m: "m \<in> set (takeWhile (\<lambda>y. y \<noteq> c) (et_visited N r))" "et_cand N r t m" for m
    proof -
      have "et_at N m" "m \<noteq> c" using et_visited_at[OF N(1,2)] set_takeWhileD[OF m(1)] by auto
      then show ?thesis
        using ties parent_before_children[OF N(1,2) c(2) m(1)] m(2) N(5) by (auto simp: et_cand_def)
    qed
    show "en_run_seq (N ! m) \<le> en_run_seq (N ! c)" if m: "m \<in> set (et_visited N r)" "et_cand N r t m" for m
      using ties[OF et_visited_at[OF N(1,2) m(1)]] m(2) N(5) by (cases "m = c") (auto simp: et_cand_def)
  qed
  have at: "et_at nodes c" "et_at ?nodes' c" using c by (auto simp: et_at_def sm)
  have old: "et_result nodes r t (Some c)"
    using first[OF wf c(5) at(1) c(3,4)] tied at(1) by (auto simp: et_result_def et_tied_add_def)
  have "en_run_seq (?nodes' ! m) < s \<or> en_run_seq (?nodes' ! m) = s \<and> en_parent (?nodes' ! m) = Some c"
    if "et_at ?nodes' m" "en_run_id (?nodes' ! m) = r" "m \<noteq> c" for m
    using that tied c by (cases "m = ?N") (auto simp: et_tied_add_def et_at_def sm)
  then have "et_first ?nodes' r t (et_visited ?nodes' r) c" using c at(2) by (intro first[OF wf']) (auto simp: sm)
  then have "et_result ?nodes' r t (Some c)" using at(2) by (simp add: et_result_def)
  moreover have "x = Some c" using et_result_unique[OF wf _ old] x True by blast
  ultimately show ?thesis using True by simp
next
  case False
  then have "q \<noteq> r \<or> t < s" by auto
  from added_old[OF wf et_placedI(2)[OF tied] x this] show ?thesis .
qed

lemma safe_added:
  assumes safe: "et_safe_add nodes c r s \<or> et_tied_add nodes c r s \<and> s < s'" and s': "s \<le> s'"
  shows "et_safe_add (et_added d r s g c nodes) c r s'"
proof -
  have placed: "et_placed nodes c r" using safe et_placedI by blast
  then have c: "c < length nodes" by (simp add: et_placed_def)
  note sm = et_added_simps[OF c]
  have "en_run_seq (et_added d r s g c nodes ! m) < s' \<or>
      en_run_seq (et_added d r s g c nodes ! m) = s' \<and> en_parent (et_added d r s g c nodes ! m) = Some c"
    if "et_at (et_added d r s g c nodes) m" "en_run_id (et_added d r s g c nodes ! m) = r" for m
  proof (cases "m = length nodes")
    case True
    then show ?thesis using s' by (auto simp: sm)
  next
    case False
    then have m: "et_at nodes m" using that(1) by (simp add: et_at_def sm)
    then have "en_run_seq (nodes ! m) < s \<or> en_run_seq (nodes ! m) = s \<and> (en_parent (nodes ! m) = Some c \<or> s < s')"
      using that(2) safe by (auto simp: et_safe_add_def et_tied_add_def sm et_at_def)
    then show ?thesis using m s' by (auto simp: sm et_at_def)
  qed
  then show ?thesis using placed by (auto simp: et_safe_add_def et_placed_def sm)
qed

section \<open>The tree is fully persistent\<close>

definition et_view :: "'d etree \<Rightarrow> u32 \<Rightarrow> u32 \<Rightarrow> 'd option" where
  "et_view t r s = (case et_get_state r s t of Some x \<Rightarrow> x | None \<Rightarrow> None)"

definition et_writable :: "'d etree \<Rightarrow> u32 \<Rightarrow> u32 \<Rightarrow> bool" where
  "et_writable t r s = et_safe_add (et_nodes t) (et_cursor t) r s"

definition et_fresh :: "'d etree \<Rightarrow> u32 \<Rightarrow> bool" where
  "et_fresh t n = nodes_fresh (et_nodes t) n"

definition et_branch :: "u32 \<Rightarrow> u32 \<Rightarrow> u32 \<Rightarrow> 'd etree \<Rightarrow> 'd etree" where
  "et_branch n p b t = the (et_revert_to_state p b (ucast n) t)"

lemma et_view_result:
  assumes "et_wf t" "et_result (et_nodes t) r s x"
  shows "et_view t r s = map_option (\<lambda>n. en_state (et_nodes t ! n)) x"
    and "et_get_state r s t = Some (map_option (\<lambda>n. en_state (et_nodes t ! n)) x)"
    and "et_find_node r s t = Some x"
proof -
  obtain y where y: "et_find_node r s t = Some y" "et_result (et_nodes t) r s y"
    using et_find_spec[OF assms(1)] by blast
  have "y = x" using assms y(2) by (auto simp: et_wf_def intro: et_result_unique)
  then show "et_view t r s = map_option (\<lambda>n. en_state (et_nodes t ! n)) x"
    "et_get_state r s t = Some (map_option (\<lambda>n. en_state (et_nodes t ! n)) x)" "et_find_node r s t = Some x"
    using y(1) by (auto simp: et_view_def et_get_state_def)
qed

lemma et_result_exists:
  assumes "et_wf t" obtains x where "et_result (et_nodes t) r s x"
  using et_find_spec[OF assms] by blast

lemma et_result_at: "et_result nodes r s (Some n) \<Longrightarrow> et_at nodes n"
  by (simp add: et_result_def)

lemma et_add_child_laws:
  assumes wf: "et_wf t" and w: "et_writable t r s"
  shows "et_wf (et_add_child d r s g t)" "et_view (et_add_child d r s g t) = tl_write r s d (et_view t)"
    and "s \<le> s' \<Longrightarrow> et_writable (et_add_child d r s g t) r s'"
proof -
  let ?t' = "et_add_child d r s g t" and ?c = "et_cursor t" and ?N = "length (et_nodes t)"
  have safe: "et_safe_add (et_nodes t) ?c r s" using w by (simp add: et_writable_def)
  have c: "?c < ?N" using safe by (simp add: et_safe_add_def)
  note sm = et_added_simps[OF c]
  show wf': "et_wf ?t'"
    using wf nodes_wf_added[OF _ et_placedI(1)[OF safe]] c by (auto simp: et_wf_def et_add_child_nodes sm)
  show "et_view ?t' = tl_write r s d (et_view t)"
  proof (intro ext)
    fix q u
    obtain x where x: "et_result (et_nodes t) q u x" by (rule et_result_exists[OF wf])
    from added_result[OF _ safe x, of d g] wf
    have "et_result (et_nodes ?t') q u (if q = r \<and> s \<le> u then Some ?N else x)"
      by (simp add: et_add_child_nodes et_wf_def)
    note et_view_result(1)[OF wf' this] et_view_result(1)[OF wf x]
    moreover have "n < ?N" if "x = Some n" for n using et_result_at x that by (auto simp: et_at_def)
    ultimately show "et_view ?t' q u = tl_write r s d (et_view t) q u"
      by (cases x) (auto simp: tl_write_def et_add_child_nodes sm)
  qed
  show "et_writable ?t' r s'" if "s \<le> s'"
    using safe_added[OF disjI1[OF safe] that] by (simp add: et_writable_def et_add_child_nodes)
qed

text \<open>
  A node added at the cursor's own point is shadowed by the cursor: the tree shows what it showed.
\<close>

definition et_tied :: "'d etree \<Rightarrow> u32 \<Rightarrow> u32 \<Rightarrow> bool" where
  "et_tied t r s = et_tied_add (et_nodes t) (et_cursor t) r s"

lemma et_add_child_tied:
  assumes wf: "et_wf t" and w: "et_tied t r s"
  shows "et_wf (et_add_child d r s g t)" "et_view (et_add_child d r s g t) = et_view t"
    and "s < s' \<Longrightarrow> et_writable (et_add_child d r s g t) r s'"
proof -
  let ?t' = "et_add_child d r s g t" and ?c = "et_cursor t" and ?N = "length (et_nodes t)"
  have tied: "et_tied_add (et_nodes t) ?c r s" using w by (simp add: et_tied_def)
  have c: "?c < ?N" using tied by (simp add: et_tied_add_def et_at_def)
  note sm = et_added_simps[OF c]
  show wf': "et_wf ?t'"
    using wf nodes_wf_added[OF _ et_placedI(2)[OF tied]] c by (auto simp: et_wf_def et_add_child_nodes sm)
  show "et_view ?t' = et_view t"
  proof (intro ext)
    fix q u
    obtain x where x: "et_result (et_nodes t) q u x" by (rule et_result_exists[OF wf])
    from tied_result[OF _ tied x, of d g] wf have "et_result (et_nodes ?t') q u x"
      by (simp add: et_add_child_nodes et_wf_def)
    note et_view_result(1)[OF wf' this] et_view_result(1)[OF wf x]
    moreover have "n < ?N" if "x = Some n" for n using et_result_at x that by (auto simp: et_at_def)
    ultimately show "et_view ?t' q u = et_view t q u" by (cases x) (auto simp: et_add_child_nodes sm)
  qed
  show "et_writable ?t' r s'" if "s < s'"
    using safe_added[of "et_nodes t" ?c r s s'] tied that by (simp add: et_writable_def et_add_child_nodes)
qed

lemma ucast_u64_u32 [simp]: "ucast (ucast (n :: u32) :: u64) = n"
  by (rule bit_word_eqI) (simp add: bit_unsigned_iff)

lemma et_revert_laws:
  assumes wf: "et_wf t" and fresh: "et_fresh t n" and pn: "p < n"
  shows "\<exists>t'. et_revert_to_state p b (ucast n) t = Some t' \<and> et_wf t'
    \<and> et_view t' = tl_branch n p b (et_view t) \<and> et_writable t' n s"
proof -
  let ?nodes = "et_nodes t"
  obtain x where x: "et_result ?nodes p b x" by (rule et_result_exists[OF wf])
  define c where "c = (case x of Some n \<Rightarrow> n | None \<Rightarrow> 0)"
  define t' where "t' = t \<lparr> et_cursor := c, et_nodes := et_modify_children c n (\<lambda>x. x) ?nodes \<rparr>"
  have nwf: "nodes_wf ?nodes" and ne: "?nodes \<noteq> []" using wf by (auto simp: et_wf_def)
  have rev: "et_revert_to_state p b (ucast n) t = Some t'"
    using et_view_result(3)[OF wf x] by (simp add: et_revert_to_state_def t'_def c_def Let_def)
  have nf: "nodes_fresh ?nodes n" using fresh by (simp add: et_fresh_def)
  have x_at: "et_at ?nodes m" if "x = Some m" for m using x that by (auto dest: et_result_at)
  have c: "c < length ?nodes" using x_at ne by (auto simp: c_def et_at_def split: option.split)
  have run_c: "c = 0 \<or> en_run_id (?nodes ! c) \<le> n"
  proof (cases x)
    case (Some m)
    then have "en_run_id (?nodes ! m) \<le> p"
      using x nodes_wfD(5)[OF nwf x_at[OF Some], of p] et_first_in[of ?nodes p b "et_visited ?nodes p" m]
      by (auto simp: et_result_def et_cand_def et_orig_def)
    also note less_imp_le[OF pn]
    finally show ?thesis using Some by (simp add: c_def)
  qed (simp add: c_def)
  have wf': "et_wf t'" using nodes_wf_touch[OF nwf nf c run_c] c by (simp add: et_wf_def t'_def)
  note touch = touch_result[OF nf c]
  have x_c: "(if c = 0 then None else Some c) = x" using x_at by (cases x) (auto simp: c_def et_at_def)
  have "et_view t' r s = tl_branch n p b (et_view t) r s" for r s
  proof (cases "r = n")
    case True
    have "et_result (et_nodes t') n s x" using touch(2)[of s] x_c by (simp add: t'_def)
    from et_view_result(1)[OF wf' this] et_view_result(1)[OF wf x] c True show ?thesis
      by (simp add: tl_branch_def) (simp add: t'_def)
  next
    case False
    obtain y where y: "et_result ?nodes r s y" by (rule et_result_exists[OF wf])
    then have "et_result (et_nodes t') r s y" using touch(1)[OF False] by (simp add: t'_def)
    from et_view_result(1)[OF wf' this] et_view_result(1)[OF wf y] c False show ?thesis
      by (simp add: tl_branch_def) (simp add: t'_def)
  qed
  then have "et_view t' = tl_branch n p b (et_view t)" by (intro ext)
  moreover have "et_writable t' n s"
    using c run_c nf by (auto simp: et_writable_def et_safe_add_def t'_def et_at_def nodes_fresh_def)
  ultimately show ?thesis using rev wf' by blast
qed

lemma et_new_laws:
  "et_wf (et_new d0 d r s g)" "et_view (et_new d0 d r s g) = tl_create r s d"
  "s < s' \<Longrightarrow> et_writable (et_new d0 d r s g) r s'" "et_tied (et_new d0 d r s g) r s"
proof -
  let ?t = "et_new d0 d r s g"
  have at: "et_at (et_nodes ?t) i \<longleftrightarrow> i = Suc 0" for i by (auto simp: et_at_def et_new_def)
  have nth: "et_nodes ?t ! Suc 0 = (enode_new d r s g) \<lparr> en_parent := Some 0 \<rparr>"
    "et_nodes ?t ! 0 = (enode_new d0 0 0 0) \<lparr> en_branch_children := [(r, [1])] \<rparr>" "length (et_nodes ?t) = 2"
    by (simp_all add: et_new_def)
  have two: "i < 2 \<longleftrightarrow> i = 0 \<or> i = Suc 0" for i :: nat by auto
  have visited: "et_visited (et_nodes ?t) q = [Suc 0]" for q
    by (simp add: et_visited_def et_roots_def en_all_children_def nth)
      (subst et_visits.simps, simp add: nth en_children_upto_def enode_new_def)
  have "nodes_wf (et_nodes ?t)"
    by (rule nodes_wfI) (auto simp: at nth two enode_new_def en_keys_def)
  then show wf: "et_wf ?t" by (simp add: et_wf_def et_new_def)
  have "et_result (et_nodes ?t) q u (if q = r \<and> s \<le> u then Some (Suc 0) else None)" for q u
    by (auto simp: et_result_def et_first_def visited at et_cand_def et_orig_def nth en_keys_def enode_new_def
        append_eq_Cons_conv Cons_eq_append_conv)
  from et_view_result(1)[OF wf this] show "et_view ?t = tl_create r s d"
    by (auto simp: fun_eq_iff tl_create_def nth enode_new_def)
  show "s < s' \<Longrightarrow> et_writable ?t r s'"
    by (simp add: et_writable_def et_safe_add_def at nth) (simp add: et_new_def enode_new_def)
  show "et_tied ?t r s"
    by (simp add: et_tied_def et_tied_add_def at nth) (simp add: et_new_def enode_new_def)
qed

lemma nodes_fresh_touch:
  "nodes_fresh nodes k \<Longrightarrow> k \<noteq> n \<Longrightarrow> nodes_fresh (et_modify_children c n f nodes) k"
  by (cases "c < length nodes")
    (auto simp: nodes_fresh_def modify_children_nth et_modify_children_def nth_list_update en_keys_def keys_smap_modify)

lemma et_fresh_laws:
  "et_writable t r s \<or> et_tied t r s \<Longrightarrow> et_fresh t k \<Longrightarrow> k \<noteq> r \<Longrightarrow> et_fresh (et_add_child d r s g t) k"
  "et_revert_to_state p b (ucast n) t = Some t' \<Longrightarrow> et_fresh t k \<Longrightarrow> n \<noteq> k \<Longrightarrow> et_fresh t' k"
  "0 < k \<Longrightarrow> k \<noteq> r \<Longrightarrow> et_fresh (et_new d0 d r s g) k"
proof -
  show "et_fresh (et_add_child d r s g t) k" if "et_writable t r s \<or> et_tied t r s" "et_fresh t k" "k \<noteq> r"
  proof -
    have "et_cursor t < length (et_nodes t)" using that(1)
      by (auto simp: et_writable_def et_safe_add_def et_tied_def et_tied_add_def et_at_def)
    from et_added_simps[OF this] show ?thesis using that(2,3)
      by (auto simp: et_fresh_def nodes_fresh_def et_add_child_nodes less_Suc_eq)
  qed
  show "et_revert_to_state p b (ucast n) t = Some t' \<Longrightarrow> et_fresh t k \<Longrightarrow> n \<noteq> k \<Longrightarrow> et_fresh t' k"
    by (auto simp: et_revert_to_state_def et_fresh_def Let_def intro: nodes_fresh_touch split: bind_splits)
  show "0 < k \<Longrightarrow> k \<noteq> r \<Longrightarrow> et_fresh (et_new d0 d r s g) k"
    by (simp add: et_fresh_def nodes_fresh_def et_new_def enode_new_def en_keys_def less_Suc_eq)
qed

interpretation et: created_history et_wf et_view "\<lambda>r s g d. et_add_child d r s g"
  et_branch et_writable et_fresh "\<lambda>r s g d. et_new d0 d r s g" for d0
proof
  fix t :: "'a etree" and r s s' n p b g and d :: 'a
  show "et_wf (et_new d0 d r s g)" "et_view (et_new d0 d r s g) = tl_create r s d"
    "s < s' \<Longrightarrow> et_writable (et_new d0 d r s g) r s'"
    by (fact et_new_laws)+
  show "r < n \<Longrightarrow> et_fresh (et_new d0 d r s g) n"
    by (rule et_fresh_laws(3)) (auto intro: le_less_trans[OF word_zero_le])
  assume wf: "et_wf t"
  show "et_fresh t n \<Longrightarrow> p < n \<Longrightarrow> et_wf (et_branch n p b t)"
    "et_fresh t n \<Longrightarrow> p < n \<Longrightarrow> et_view (et_branch n p b t) = tl_branch n p b (et_view t)"
    "et_fresh t n \<Longrightarrow> p < n \<Longrightarrow> et_writable (et_branch n p b t) n s"
    using et_revert_laws[OF wf, of n p b] unfolding et_branch_def by force+
  show "et_fresh (et_branch n p b t) k" if "et_fresh t n" "p < n" "et_fresh t k" "n < k" for k
    using et_revert_laws[OF wf that(1,2), of b 0] et_fresh_laws(2)[OF _ that(3), of p b n] that(4) by (auto simp: et_branch_def)
  assume w: "et_writable t r s"
  show "et_wf (et_add_child d r s g t)" "et_view (et_add_child d r s g t) = tl_write r s d (et_view t)"
    using et_add_child_laws[OF wf w] by simp_all
  show "s < s' \<Longrightarrow> et_writable (et_add_child d r s g t) r s'"
    using et_add_child_laws(3)[OF wf w] by simp
  show "et_fresh t n \<Longrightarrow> n \<noteq> r \<Longrightarrow> et_fresh (et_add_child d r s g t) n"
    using et_fresh_laws(1)[of t r s n d g] w by simp
qed

lemma et_exact_visited:
  assumes "nodes_wf nodes" "nodes \<noteq> []"
  shows "filter (et_exact nodes r s) (et_visited nodes r) = [] \<longleftrightarrow> \<not> (\<exists>n. et_at nodes n \<and> et_exact nodes r s n)"
  using et_visited_complete[OF assms(1)] et_visited_at[OF assms]
  by (auto simp: filter_empty_conv et_exact_def)

lemma et_nearest_result:
  assumes "et_wf t"
  shows "\<exists>x. et_result (et_nodes t) r s x
    \<and> et_get_nearest_state r s t = Some (map_option (\<lambda>n. en_state (et_nodes t ! n)) x)"
proof -
  let ?nodes = "et_nodes t"
  have wf: "nodes_wf ?nodes" "?nodes \<noteq> []" using assms by (auto simp: et_wf_def)
  define x where "x = et_pick (fold (et_track ?nodes r s) (et_visited ?nodes r) (None, None))"
  have "et_result ?nodes r s x" unfolding x_def by (rule et_pick_result[OF wf])
  moreover have "et_get_nearest_state r s t = Some (map_option (\<lambda>n. en_state (?nodes ! n)) x)"
    by (simp add: et_get_nearest_state_def et_search_visited[OF wf] visit_all_track Let_def x_def)
  ultimately show ?thesis by blast
qed

lemma et_nearest_view: "et_wf t \<Longrightarrow> et_get_nearest_state r s t = Some (et_view t r s)"
  using et_nearest_result[of t r s] et_view_result(1) by metis

text \<open>
  C21: The searches of the tree return, and they find what they promise.  On a well-formed tree
  FindNode ends and yields the node of the target run with the greatest sequence number at or
  before the target (the first one visited, when several share it), else the node the run branched
  off, else nothing; GetState and
  get_nearest_state give that node's state; GetExactNode and ExactNodeExists answer exactly whether
  a node with the target's run and sequence is in the tree.
\<close>

theorem tree_searches:
  assumes "et_wf t"
  shows "\<exists>x. et_find_node r s t = Some x \<and> et_result (et_nodes t) r s x
    \<and> et_get_state r s t = Some (map_option (\<lambda>n. en_state (et_nodes t ! n)) x)
    \<and> et_get_nearest_state r s t = Some (map_option (\<lambda>n. en_state (et_nodes t ! n)) x)
    \<and> et_exact_node_exists r s t = Some (\<exists>n. et_at (et_nodes t) n \<and> et_exact (et_nodes t) r s n)
    \<and> (case et_get_exact_node r s t of
         Some (Some n) \<Rightarrow> et_at (et_nodes t) n \<and> et_exact (et_nodes t) r s n
       | Some None \<Rightarrow> \<not> (\<exists>n. et_at (et_nodes t) n \<and> et_exact (et_nodes t) r s n)
       | None \<Rightarrow> False)"
proof -
  let ?nodes = "et_nodes t"
  have wf: "nodes_wf ?nodes" "?nodes \<noteq> []" using assms by (auto simp: et_wf_def)
  note search = et_search_visited[OF wf]
  obtain x where x: "et_result ?nodes r s x" and near: "et_get_nearest_state r s t = Some (map_option (\<lambda>n. en_state (?nodes ! n)) x)"
    using et_nearest_result[OF assms] by blast
  define found where "found = filter (et_exact ?nodes r s) (et_visited ?nodes r)"
  have found: "found = [] \<longleftrightarrow> \<not> (\<exists>n. et_at ?nodes n \<and> et_exact ?nodes r s n)"
    unfolding found_def by (rule et_exact_visited[OF wf])
  have pass: "visit_all (\<lambda>n u. if et_exact ?nodes r s n then Inl (f n) else Inr u) (et_visited ?nodes r) () =
      (case found of [] \<Rightarrow> Inr () | n # _ \<Rightarrow> Inl (f n))" for f :: "nat \<Rightarrow> 'b"
    using visit_all_exact[of "et_exact ?nodes r s" f "\<lambda>_ u. u" "et_visited ?nodes r" "()"] by (simp add: found_def split: list.split)
  have ex: "et_exact_node_exists r s t = Some (\<exists>n. et_at ?nodes n \<and> et_exact ?nodes r s n)"
  proof (cases found)
    case Nil
    then have "\<not> (\<exists>n. et_at ?nodes n \<and> et_exact ?nodes r s n)" using found by simp
    then show ?thesis using Nil by (simp add: et_exact_node_exists_def search Let_def pass)
  next
    case (Cons n ns)
    then have "\<exists>n. et_at ?nodes n \<and> et_exact ?nodes r s n" using found by simp
    then show ?thesis using Cons by (simp add: et_exact_node_exists_def search Let_def pass)
  qed
  have node: "case et_get_exact_node r s t of
         Some (Some n) \<Rightarrow> et_at ?nodes n \<and> et_exact ?nodes r s n
       | Some None \<Rightarrow> \<not> (\<exists>n. et_at ?nodes n \<and> et_exact ?nodes r s n)
       | None \<Rightarrow> False"
  proof (cases found)
    case Nil
    then have "\<not> (\<exists>n. et_at ?nodes n \<and> et_exact ?nodes r s n)" using found by simp
    then show ?thesis using Nil by (simp add: et_get_exact_node_def search Let_def pass)
  next
    case (Cons n ns)
    then have "n \<in> set (et_visited ?nodes r)" "et_exact ?nodes r s n"
      unfolding found_def by (auto dest!: filter_eq_ConsD)
    then show ?thesis
      using Cons et_visited_at[OF wf] by (simp add: et_get_exact_node_def search Let_def pass)
  qed
  show ?thesis using et_view_result(2,3)[OF assms x] x near ex node by blast
qed

theorem tree_searches_witness:
  "et_find_node 1 9 (et_add_child ''B'' 1 5 7 (et_new ''?'' ''A'' 1 0 0)) = Some (Some 2)
   \<and> et_exact_node_exists 1 5 (et_add_child ''B'' 1 5 7 (et_new ''?'' ''A'' 1 0 0)) = Some True"
proof -
  let ?first = "et_new ''?'' ''A'' 1 0 0"
  let ?t = "et_add_child ''B'' 1 5 7 ?first"
  have wf: "et_wf ?t" by (rule et.invar_write[OF et.invar_create et.writable_create]) simp
  have nodes: "length (et_nodes ?t) = 3" "en_run_id (et_nodes ?t ! 2) = 1" "en_run_seq (et_nodes ?t ! 2) = 5"
    "en_run_id (et_nodes ?t ! 1) = 1" "en_run_seq (et_nodes ?t ! 1) = 0"
    by (simp_all add: et_add_child_def et_new_def Let_def et_modify_children_def enode_new_def)
  have three: "m = 1 \<or> m = 2" if "et_at (et_nodes ?t) m" for m
    using that nodes(1) unfolding et_at_def by linarith
  obtain x where x: "et_find_node 1 9 ?t = Some x" "et_result (et_nodes ?t) 1 9 x"
    "et_exact_node_exists 1 5 ?t = Some (\<exists>n. et_at (et_nodes ?t) n \<and> et_exact (et_nodes ?t) 1 5 n)"
    using tree_searches[OF wf, of 1 9] tree_searches[OF wf, of 1 5] by blast
  have two: "et_at (et_nodes ?t) 2" "et_cand (et_nodes ?t) 1 9 2"
    using nodes by (simp_all add: et_at_def et_cand_def word_le_nat_alt)
  have "2 \<in> set (et_visited (et_nodes ?t) 1)"
    using wf two nodes by (intro et_visited_complete) (simp_all add: et_wf_def)
  then have "\<not> et_first (et_nodes ?t) 1 9 (et_visited (et_nodes ?t) 1) 1"
    using et_first_max[of "et_nodes ?t" 1 9 "et_visited (et_nodes ?t) 1" 1 2] two(2) nodes
    by (auto simp: word_le_nat_alt simp del: One_nat_def)
  then have "x = Some 2" using x(2) two three unfolding et_result_def by (auto split: option.splits)
  moreover have "\<exists>n. et_at (et_nodes ?t) n \<and> et_exact (et_nodes ?t) 1 5 n"
    using nodes by (intro exI[of _ 2]) (simp add: et_at_def et_exact_def)
  ultimately show ?thesis using x by simp
qed

text \<open>What the user does: go back to a point, record a session in the new run, and so on.\<close>

definition revert_and_record :: "'d run list \<Rightarrow> 'd etree \<Rightarrow> 'd etree option" where
  "revert_and_record = foldM (\<lambda>(n, p, b, ws) t.
     map_option (write_all (\<lambda>r s g d. et_add_child d r s g) n ws) (et_revert_to_state p b (ucast n) t))"

text \<open>
  C2: Reverting is time travel, any number of times.  A user who reverts the tree to points of his
  choice, each time with a new run id, and records a session of AddChild calls in each new run, is
  shown by GetState in every such run the session's last state at or before the sequence asked for,
  and before its first state whatever the point the run branches off showed; runs that were there
  before show what they showed.
\<close>

theorem tree_time_travel:
  assumes "et_wf t" "runs_ok runs" "\<forall>n\<in>fst ` set runs. et_fresh t n"
  shows "\<exists>t'. revert_and_record runs t = Some t' \<and> et_view t' = fold tl_run runs (et_view t)"
proof -
  have "revert_and_record runs t = Some (et.play runs t)"
    using assms
  proof (induction runs arbitrary: t)
    case (Cons x runs)
    obtain n p b ws where x: "x = (n, p, b, ws)" by (cases x)
    have n: "et_fresh t n" "p < n" "session_order ws" "\<forall>k\<in>fst ` set runs. n < k" "runs_ok runs"
      using Cons.prems(2,3) by (auto simp: x runs_ok_def)
    note one = et.play_run[OF Cons.prems(1) n(1-3), where b = b]
    have "et_revert_to_state p b (ucast n) t = Some (et_branch n p b t)"
      using et_revert_laws[OF Cons.prems(1) n(1,2), of b 0] by (auto simp: et_branch_def)
    moreover have "\<forall>k\<in>fst ` set runs. et_fresh (write_all (\<lambda>r s g d. et_add_child d r s g) n ws (et_branch n p b t)) k"
      using one(3) n(4) Cons.prems(3) by simp
    ultimately show ?case using Cons.IH[OF one(1) n(5)] by (simp add: revert_and_record_def et.play_def x)
  qed (simp add: revert_and_record_def et.play_def)
  then show ?thesis using et.lookup_play[OF assms] by simp
qed

theorem tree_time_travel_witness:
  "\<exists>t'. revert_and_record [(2, 1, 3, [(1, 8, ''C'')]), (3, 2, 4, [(6, 9, ''D'')])]
        (et_add_child ''B'' 1 5 7 (et_new ''?'' ''A'' 1 0 0)) = Some t'
    \<and> et_view t' 2 0 = Some ''A'' \<and> et_view t' 1 6 = Some ''B'' \<and> et_view t' 3 5 = Some ''C'' \<and> et_view t' 3 6 = Some ''D''"
proof -
  let ?first = "et_new ''?'' ''A'' 1 0 0"
  let ?t = "et_add_child ''B'' 1 5 7 ?first" and ?runs = "[(2, 1, 3, [(1, 8, ''C'')]), (3, 2, 4, [(6, 9, ''D'')])] :: string run list"
  have w: "et_writable ?first 1 5" by (rule et.writable_create) simp
  have wf: "et_wf ?t" by (rule et.invar_write[OF et.invar_create w])
  have view: "et_view ?t 1 3 = Some ''A''" "et_view ?t 1 6 = Some ''B''"
    by (simp_all add: et.lookup_write[OF et.invar_create w] et.lookup_create tl_write_def tl_create_def word_le_nat_alt)
  have fresh: "et_fresh ?t n" if "1 < n" for n
    using that by (intro et.fresh_write[OF et.invar_create w] et.fresh_create) auto
  have ok: "runs_ok ?runs" by (simp add: runs_ok_def word_less_nat_alt)
  have "\<forall>n\<in>fst ` set ?runs. et_fresh ?t n" using fresh by (simp add: word_less_nat_alt)
  from tree_time_travel[OF wf ok this] show ?thesis
    using view by (auto simp: tl_run_def session_value_def latest_def word_le_nat_alt)
qed

end
