(* ===== verification/Persistent_Region.thy ===== *)
theory Persistent_Region
  imports Persistent_Array
begin

text \<open>
  \<open>src/src/utils/fully_persistent_region.h\<close>: \<open>FatNodeHistory\<close>, the history of one 4096-byte page,
  and \<open>FullyPersistentRegion\<close>, the pages of one memory region.

  Unlike \<open>FullyPersistentArray\<close>, a page history remembers where the active run stands
  (\<open>current_run_id_\<close>, \<open>current_run_idx_\<close>): an update compares with the node under this cursor and
  is dropped when nothing changed.  Reads move the cursor, so every read returns the new history
  too.  \<open>fnh_walk_fat\<close> shows that a read is the lineage walk of \<open>Persistent_Array\<close> plus the move of
  the cursor; \<open>fnh_at\<close> is the condition on the cursor under which an update is safe.
\<close>

abbreviation kPageLineSize :: nat where "kPageLineSize \<equiv> 4096"

type_synonym page_line = "byte list"
type_synonym page_node = "page_line fat_node"

record fat_node_history =
  fnh_branches :: "u32 \<Rightarrow> page_node list option"
  fnh_branch_history :: "u32 \<Rightarrow> (u32 option \<times> u32 option) option"
  fnh_created_run_id :: u32
  fnh_created_run_sequence :: u32
  fnh_current_run_id :: "u32 option"
  fnh_current_run_idx :: "u32 option"

definition fnh_new :: "u32 \<Rightarrow> u32 \<Rightarrow> fat_node_history" where
  "fnh_new run_id run_seq =
     \<lparr> fnh_branches = Map.empty, fnh_branch_history = Map.empty,
       fnh_created_run_id = run_id, fnh_created_run_sequence = run_seq,
       fnh_current_run_id = None, fnh_current_run_idx = None \<rparr>"

definition fnh_set_cursor :: "(u32 \<times> u32) option \<Rightarrow> fat_node_history \<Rightarrow> fat_node_history" where
  "fnh_set_cursor c h = h \<lparr> fnh_current_run_id := map_option fst c, fnh_current_run_idx := map_option snd c \<rparr>"

text \<open>\<open>branch_history_[run_id]\<close>: the subscript inserts a pair of \<open>nullopt\<close> when the key is missing.\<close>

definition fnh_subscript :: "u32 \<Rightarrow> fat_node_history \<Rightarrow> (u32 option \<times> u32 option) \<times> fat_node_history" where
  "fnh_subscript r h =
     (case fnh_branch_history h r of
        Some p \<Rightarrow> (p, h)
      | None \<Rightarrow> ((None, None), h \<lparr> fnh_branch_history := (fnh_branch_history h)(r \<mapsto> (None, None)) \<rparr>))"

text \<open>
  The loop of \<open>get_node_nearest\<close>: the node found and the history after the call.  \<open>at()\<close> throws on
  a run without a vector, \<open>value()\<close> on a pair with a run but no sequence.
\<close>

partial_function (option) fnh_walk ::
    "fat_node_history \<Rightarrow> u32 \<Rightarrow> u32 \<Rightarrow> (page_node option \<times> fat_node_history) option" where
  "fnh_walk h next_run_id next_run_sequence =
     (case fnh_branches h next_run_id of
        None \<Rightarrow> None
      | Some fat_branch \<Rightarrow>
          (let itr = upper_bound next_run_sequence fn_run_seq fat_branch in
           if fat_branch = [] \<or> itr = 0 then
             (let (p, h') = fnh_subscript next_run_id h in
              case fst p of
                None \<Rightarrow> Some (None, fnh_set_cursor None h')
              | Some parent \<Rightarrow>
                  (case snd p of
                     None \<Rightarrow> None
                   | Some seq \<Rightarrow> fnh_walk h' parent seq))
           else Some (Some (fat_branch ! (itr - 1)),
                      fnh_set_cursor (Some (next_run_id, of_nat (itr - 1))) h)))"

definition fnh_before_creation :: "fat_node_history \<Rightarrow> u32 \<Rightarrow> u32 \<Rightarrow> bool" where
  "fnh_before_creation h r s =
     (r < fnh_created_run_id h \<or> r = fnh_created_run_id h \<and> s < fnh_created_run_sequence h)"

definition fnh_get_node_nearest ::
    "u32 \<Rightarrow> u32 \<Rightarrow> fat_node_history \<Rightarrow> (page_node option \<times> fat_node_history) option" where
  "fnh_get_node_nearest target_run_id target_run_sequence h =
     (if fnh_before_creation h target_run_id target_run_sequence then Some (None, fnh_set_cursor None h)
      else if fnh_branches h target_run_id = None then Some (None, fnh_set_cursor None h)
      else fnh_walk h target_run_id target_run_sequence)"

text \<open>
  \<open>update\<close>: dropped when the node under the cursor holds the same bytes.  The subscript of the map
  inserts an empty vector for a missing run, so an index into it is out of range either way.
\<close>

definition fnh_update ::
    "u32 \<Rightarrow> u32 \<Rightarrow> u64 \<Rightarrow> page_line \<Rightarrow> fat_node_history \<Rightarrow> fat_node_history option" where
  "fnh_update run_id run_seq global_seq region_buf h =
     (let push = (\<lambda>h. h \<lparr> fnh_branches := fat_push
             \<lparr> fn_run_id = run_id, fn_run_seq = run_seq, fn_global_seq = global_seq, fn_data = region_buf \<rparr>
             (fnh_branches h) \<rparr>)
      in case fnh_current_run_id h of
           None \<Rightarrow> Some (push (fnh_set_cursor (Some (run_id, 0)) h))
         | Some cur \<Rightarrow>
             do { idx \<leftarrow> fnh_current_run_idx h;
                  nodes \<leftarrow> fnh_branches h cur;
                  previous_node \<leftarrow> list_at nodes (unat idx);
                  Some (if fn_data previous_node = region_buf then h
                        else push (fnh_set_cursor (Some (run_id, if cur = run_id then idx + 1 else 0)) h)) })"

text \<open>\<open>insert\<close> leaves an existing key as it is.\<close>

definition map_insert :: "'k \<Rightarrow> 'v \<Rightarrow> ('k \<Rightarrow> 'v option) \<Rightarrow> ('k \<Rightarrow> 'v option)" where
  "map_insert k v m = (if m k = None then m(k \<mapsto> v) else m)"

definition fnh_make_branch :: "u32 \<Rightarrow> u32 \<Rightarrow> u32 \<Rightarrow> fat_node_history \<Rightarrow> fat_node_history option" where
  "fnh_make_branch from_run_id from_run_sequence to_run_id h =
     do { (node, h) \<leftarrow> fnh_get_node_nearest from_run_id from_run_sequence h;
          Some (h \<lparr> fnh_branch_history := map_insert to_run_id
                      (if node = None then (None, None) else (Some from_run_id, Some from_run_sequence))
                      (fnh_branch_history h),
                    fnh_branches := map_insert to_run_id [] (fnh_branches h) \<rparr>) }"

section \<open>The walk of a page history is the lineage walk\<close>

definition fnh_lineage :: "fat_node_history \<Rightarrow> u32 \<Rightarrow> branch_point option" where
  "fnh_lineage h r =
     (case fnh_branch_history h r of
        Some (Some p, Some b) \<Rightarrow> Some \<lparr> bp_parent_run_id = p, bp_branch_run_seq = b \<rparr>
      | _ \<Rightarrow> None)"

fun fnh_parent_ok :: "(u32 \<Rightarrow> page_node list option) \<Rightarrow> u32 \<Rightarrow> u32 option \<times> u32 option \<Rightarrow> bool" where
  "fnh_parent_ok branches r (None, None) = True"
| "fnh_parent_ok branches r (Some q, Some b) = (q < r \<and> branches q \<noteq> None)"
| "fnh_parent_ok branches r _ = False"

definition fnh_wf :: "fat_node_history \<Rightarrow> bool" where
  "fnh_wf h =
     ((\<forall>r xs. fnh_branches h r = Some xs \<longrightarrow>
          sorted_wrt (<) (map fn_run_seq xs) \<and> (\<forall>x\<in>set xs. fn_run_id x = r))
      \<and> (\<forall>r. case fnh_branch_history h r of None \<Rightarrow> True
              | Some p \<Rightarrow> fnh_branches h r \<noteq> None \<and> fnh_parent_ok (fnh_branches h) r p))"

definition fnh_cursor :: "fat_node_history \<Rightarrow> page_node option \<Rightarrow> bool" where
  "fnh_cursor h node =
     (case node of
        None \<Rightarrow> fnh_current_run_id h = None
      | Some n \<Rightarrow> \<exists>i xs. fnh_current_run_id h = Some (fn_run_id n) \<and> fnh_current_run_idx h = Some i
                 \<and> fnh_branches h (fn_run_id n) = Some xs \<and> unat i < length xs \<and> xs ! unat i = n)"

definition fnh_found :: "fat_node_history \<Rightarrow> u32 \<Rightarrow> u32 \<Rightarrow> page_node option" where
  "fnh_found h r s = the (fat_walk (fnh_branches h) (fnh_lineage h) r s)"

lemma fnh_wf_row:
  "fnh_wf h \<Longrightarrow> fnh_branches h r = Some xs \<Longrightarrow> sorted_wrt (<) (map fn_run_seq xs)"
  "fnh_wf h \<Longrightarrow> fnh_branches h r = Some xs \<Longrightarrow> x \<in> set xs \<Longrightarrow> fn_run_id x = r"
  unfolding fnh_wf_def by blast+

lemma fnh_wf_branch_history:
  assumes "fnh_wf h" "fnh_branch_history h r = Some p"
  shows "fnh_branches h r \<noteq> None" "fnh_parent_ok (fnh_branches h) r p"
proof -
  have "case fnh_branch_history h r of None \<Rightarrow> True
    | Some p \<Rightarrow> fnh_branches h r \<noteq> None \<and> fnh_parent_ok (fnh_branches h) r p"
    using assms(1) unfolding fnh_wf_def by blast
  then show "fnh_branches h r \<noteq> None" "fnh_parent_ok (fnh_branches h) r p" by (simp_all add: assms(2))
qed

lemma fnh_wfI:
  assumes "\<And>r xs. fnh_branches h r = Some xs \<Longrightarrow>
      sorted_wrt (<) (map fn_run_seq xs) \<and> (\<forall>x\<in>set xs. fn_run_id x = r)"
    and "\<And>r p. fnh_branch_history h r = Some p \<Longrightarrow>
      fnh_branches h r \<noteq> None \<and> fnh_parent_ok (fnh_branches h) r p"
  shows "fnh_wf h"
  unfolding fnh_wf_def using assms by (simp split: option.split)

lemma fnh_parent_ok_mono:
  "fnh_parent_ok brs r p \<Longrightarrow> dom brs \<subseteq> dom brs' \<Longrightarrow> fnh_parent_ok brs' r p"
  by (cases "(brs, r, p)" rule: fnh_parent_ok.cases) auto

lemma fnh_lineage_Some:
  assumes "fnh_wf h" "fnh_lineage h r = Some b"
  shows "fnh_branch_history h r = Some (Some (bp_parent_run_id b), Some (bp_branch_run_seq b))"
    and "bp_parent_run_id b < r" "fnh_branches h (bp_parent_run_id b) \<noteq> None"
proof -
  show bh: "fnh_branch_history h r = Some (Some (bp_parent_run_id b), Some (bp_branch_run_seq b))"
    using assms(2) by (auto simp: fnh_lineage_def split: option.splits)
  show "bp_parent_run_id b < r" "fnh_branches h (bp_parent_run_id b) \<noteq> None"
    using fnh_wf_branch_history(2)[OF assms(1) bh] by auto
qed

lemma fnh_wf_sorted: "fnh_wf h \<Longrightarrow> runs_sorted (fnh_branches h)"
  by (auto simp: runs_sorted_def strict_sorted_iff dest: fnh_wf_row)

lemma fnh_wf_lineage: "fnh_wf h \<Longrightarrow> lineage_wf (fnh_lineage h)"
  by (auto simp: lineage_wf_def dest: fnh_lineage_Some)

lemma fnh_found_walk:
  assumes "fnh_wf h"
  shows "fat_walk (fnh_branches h) (fnh_lineage h) r s = Some (fnh_found h r s)"
  using fat_walk_returns[OF fnh_wf_lineage[OF assms], of "fnh_branches h" r s] by (auto simp: fnh_found_def)

text \<open>Strictly increasing sequence numbers bound the index of a node by its sequence number.\<close>

lemma strict_index_bound:
  fixes xs :: "u32 list"
  assumes "sorted_wrt (<) xs" "i < length xs"
  shows "i \<le> unat (xs ! i)"
  using assms(2)
proof (induction i)
  case (Suc i)
  then have "xs ! i < xs ! Suc i" using assms(1) by (simp add: sorted_wrt_nth_less)
  then have "unat (xs ! i) < unat (xs ! Suc i)" by (simp add: word_less_nat_alt)
  with Suc show ?case by simp
qed simp

lemma fnh_index_fits:
  assumes "fnh_wf h" "fnh_branches h r = Some xs" "i < length xs"
  shows "unat (of_nat i :: u32) = i"
proof -
  note fnh_wf_row(1)[OF assms(1,2)]
  from strict_index_bound[OF this, of i] assms(3) have "i \<le> unat (fn_run_seq (xs ! i))" by simp
  also have "\<dots> < 2 ^ 32" using unsigned_less[of "fn_run_seq (xs ! i)"] by simp
  finally show ?thesis by (simp add: unat_of_nat)
qed

definition fnh_same :: "fat_node_history \<Rightarrow> fat_node_history \<Rightarrow> bool" where
  "fnh_same h h' =
     (fnh_branches h' = fnh_branches h \<and> fnh_lineage h' = fnh_lineage h
      \<and> fnh_created_run_id h' = fnh_created_run_id h \<and> fnh_created_run_sequence h' = fnh_created_run_sequence h)"

lemma fnh_set_cursor_simps [simp]:
  "fnh_branches (fnh_set_cursor c h) = fnh_branches h"
  "fnh_branch_history (fnh_set_cursor c h) = fnh_branch_history h"
  "fnh_created_run_id (fnh_set_cursor c h) = fnh_created_run_id h"
  "fnh_created_run_sequence (fnh_set_cursor c h) = fnh_created_run_sequence h"
  "fnh_current_run_id (fnh_set_cursor c h) = map_option fst c"
  "fnh_current_run_idx (fnh_set_cursor c h) = map_option snd c"
  by (simp_all add: fnh_set_cursor_def)

lemma fnh_set_cursor_same: "fnh_same h (fnh_set_cursor c h)" "fnh_wf h \<Longrightarrow> fnh_wf (fnh_set_cursor c h)"
  by (simp_all add: fnh_same_def fnh_wf_def fnh_lineage_def fun_eq_iff cong: option.case_cong)

lemma fnh_subscript_absent:
  assumes "fnh_wf h" "fnh_branches h r \<noteq> None" "fnh_lineage h r = None"
  shows "\<exists>h'. fnh_subscript r h = ((None, None), h') \<and> fnh_same h h' \<and> fnh_wf h'"
proof (cases "fnh_branch_history h r")
  case None
  let ?h' = "h \<lparr> fnh_branch_history := (fnh_branch_history h)(r \<mapsto> (None, None)) \<rparr>"
  have "fnh_wf ?h'"
  proof (rule fnh_wfI)
    fix r' xs assume "fnh_branches ?h' r' = Some xs"
    then show "sorted_wrt (<) (map fn_run_seq xs) \<and> (\<forall>x\<in>set xs. fn_run_id x = r')"
      using fnh_wf_row[OF assms(1)] by simp
  next
    fix r' p assume p: "fnh_branch_history ?h' r' = Some p"
    show "fnh_branches ?h' r' \<noteq> None \<and> fnh_parent_ok (fnh_branches ?h') r' p"
      using p assms(2) fnh_wf_branch_history[OF assms(1), of r' p] by (cases "r' = r") auto
  qed
  moreover have "fnh_same h ?h'" using None by (simp add: fnh_same_def fnh_lineage_def fun_eq_iff)
  ultimately show ?thesis using None by (simp add: fnh_subscript_def)
next
  case (Some p)
  then have "p = (None, None)"
    using fnh_wf_branch_history(2)[OF assms(1) Some] assms(3)
    by (cases "(fnh_branches h, r, p)" rule: fnh_parent_ok.cases) (auto simp: fnh_lineage_def)
  with Some assms show ?thesis by (simp add: fnh_subscript_def fnh_same_def)
qed

lemma fnh_found_step:
  assumes "fnh_wf h"
  shows "fnh_found h r s = (case Option.bind (fnh_branches h r) (latest s fn_run_seq) of
      Some node \<Rightarrow> Some node
    | None \<Rightarrow> (case fnh_lineage h r of None \<Rightarrow> None
              | Some b \<Rightarrow> fnh_found h (bp_parent_run_id b) (bp_branch_run_seq b)))"
  unfolding fnh_found_def
  by (subst fat_walk_step[OF fnh_wf_sorted[OF assms]]) (auto split: option.split)

lemma fnh_walk_fat:
  assumes "fnh_wf h" "fnh_branches h r \<noteq> None"
  shows "\<exists>h'. fnh_walk h r s = Some (fnh_found h r s, h') \<and> fnh_same h h' \<and> fnh_wf h'
    \<and> fnh_cursor h' (fnh_found h r s)"
  using assms(2)
proof (induction r arbitrary: s rule: less_induct)
  case (less r)
  obtain xs where xs: "fnh_branches h r = Some xs" using less.prems by auto
  have sorted: "sorted (map fn_run_seq xs)"
    using fnh_wf_sorted[OF assms(1)] xs by (auto simp: runs_sorted_def)
  let ?itr = "upper_bound s fn_run_seq xs"
  note found = fnh_found_step[OF assms(1), of r s]
  show ?case
  proof (cases "xs = [] \<or> ?itr = 0")
    case True
    then have none: "latest s fn_run_seq xs = None"
      using upper_bound_latest[OF sorted, of s] by auto
    show ?thesis
    proof (cases "fnh_lineage h r")
      case None
      then obtain h' where h': "fnh_subscript r h = ((None, None), h')" "fnh_same h h'" "fnh_wf h'"
        using fnh_subscript_absent[OF assms(1) less.prems] by blast
      then have "fnh_walk h r s = Some (None, fnh_set_cursor None h')"
        using xs True by (subst fnh_walk.simps) simp
      moreover have "fnh_found h r s = None" using found none xs None by simp
      moreover have "fnh_same h (fnh_set_cursor None h')" "fnh_wf (fnh_set_cursor None h')"
        using h' fnh_set_cursor_same[of h' None] by (auto simp: fnh_same_def)
      ultimately show ?thesis by (simp add: fnh_cursor_def)
    next
      case (Some b)
      note bh = fnh_lineage_Some(1)[OF assms(1) Some]
      note IH = less.IH[OF fnh_lineage_Some(2,3)[OF assms(1) Some]]
      have "fnh_walk h r s = fnh_walk h (bp_parent_run_id b) (bp_branch_run_seq b)"
        using xs True bh by (subst fnh_walk.simps) (simp add: fnh_subscript_def)
      moreover have "fnh_found h r s = fnh_found h (bp_parent_run_id b) (bp_branch_run_seq b)"
        using found none xs Some by simp
      ultimately show ?thesis using IH by simp
    qed
  next
    case False
    let ?n = "xs ! (?itr - 1)"
    have lt: "?itr - 1 < length xs" using upper_bound_le_length[OF sorted, of s] False
      by (cases xs) auto
    have "latest s fn_run_seq xs = Some ?n" using upper_bound_latest[OF sorted, of s] False by simp
    then have n: "fnh_found h r s = Some ?n" using found xs by simp
    have id: "fn_run_id ?n = r" using fnh_wf_row(2)[OF assms(1) xs] lt by simp
    have "fnh_walk h r s = Some (Some ?n, fnh_set_cursor (Some (r, of_nat (?itr - 1))) h)"
      using xs False by (subst fnh_walk.simps) (simp add: Let_def)
    then show ?thesis
      using n id lt xs fnh_index_fits[OF assms(1) xs lt] fnh_set_cursor_same assms(1)
      by (auto simp: fnh_cursor_def)
  qed
qed

section \<open>A page history is fully persistent\<close>

definition fnh_view :: "fat_node_history \<Rightarrow> u32 \<Rightarrow> u32 \<Rightarrow> page_line option" where
  "fnh_view h r s = (case fnh_get_node_nearest r s h of Some (Some n, _) \<Rightarrow> Some (fn_data n) | _ \<Rightarrow> None)"

text \<open>The run is registered, (r, s) is past everything written or branched off, and the cursor is at r's tip.\<close>

definition fnh_writable :: "fat_node_history \<Rightarrow> u32 \<Rightarrow> u32 \<Rightarrow> bool" where
  "fnh_writable h r s =
     (fnh_branches h r \<noteq> None \<and> \<not> fnh_before_creation h r s
      \<and> (\<forall>x\<in>set (the (fnh_branches h r)). fn_run_seq x < s)
      \<and> (\<forall>c b. fnh_lineage h c = Some b \<longrightarrow> bp_parent_run_id b = r \<longrightarrow> bp_branch_run_seq b < s)
      \<and> fnh_cursor h (fnh_found h r s))"

definition fnh_fresh :: "fat_node_history \<Rightarrow> u32 \<Rightarrow> bool" where
  "fnh_fresh h n = (fnh_branches h n = None \<and> fnh_created_run_id h < n)"

definition fnh_visible :: "fat_node_history \<Rightarrow> u32 \<Rightarrow> u32 \<Rightarrow> bool" where
  "fnh_visible h r s = (\<not> fnh_before_creation h r s \<and> fnh_branches h r \<noteq> None)"

lemma fnh_get_spec:
  assumes "fnh_wf h"
  shows "\<exists>h'. fnh_get_node_nearest r s h = Some (if fnh_visible h r s then fnh_found h r s else None, h')
    \<and> fnh_same h h' \<and> fnh_wf h' \<and> fnh_cursor h' (if fnh_visible h r s then fnh_found h r s else None)"
proof (cases "fnh_visible h r s")
  case True
  then show ?thesis
    using fnh_walk_fat[OF assms, of r s] by (auto simp: fnh_get_node_nearest_def fnh_visible_def)
next
  case False
  then have "fnh_get_node_nearest r s h = Some (None, fnh_set_cursor None h)"
    by (auto simp: fnh_get_node_nearest_def fnh_visible_def)
  with False show ?thesis using fnh_set_cursor_same assms by (auto simp: fnh_cursor_def)
qed

lemma fnh_view_eq:
  "fnh_wf h \<Longrightarrow> fnh_view h r s = (if fnh_visible h r s then map_option fn_data (fnh_found h r s) else None)"
  using fnh_get_spec[of h r s] by (cases "fnh_visible h r s"; cases "fnh_found h r s") (auto simp: fnh_view_def)

lemma fnh_visible_same: "fnh_same h h' \<Longrightarrow> fnh_visible h' = fnh_visible h"
  by (simp add: fnh_same_def fnh_visible_def fnh_before_creation_def fun_eq_iff)

lemma fnh_found_same: "fnh_same h h' \<Longrightarrow> fnh_found h' = fnh_found h"
  by (intro ext) (simp add: fnh_same_def fnh_found_def)

lemma fnh_writable_fat:
  "fnh_writable h r s \<Longrightarrow> fat_writable (fnh_branches h) (fnh_lineage h) r s"
  by (auto simp: fnh_writable_def fat_writable_def intro: less_imp_le)

text \<open>The node written, and the two cases of an update that returns.\<close>

lemma fnh_update_cases:
  assumes "fnh_wf h" "fnh_writable h r s"
  obtains (same) n where "fnh_found h r s = Some n" "fn_data n = d" "fnh_update r s g d h = Some h"
    | (push) c where "fnh_update r s g d h = Some (fnh_set_cursor c h \<lparr> fnh_branches := fat_push
             \<lparr> fn_run_id = r, fn_run_seq = s, fn_global_seq = g, fn_data = d \<rparr> (fnh_branches h) \<rparr>)"
        "c = Some (r, of_nat (length (the (fnh_branches h r))))"
proof -
  obtain xs where xs: "fnh_branches h r = Some xs" using assms(2) by (auto simp: fnh_writable_def)
  note sorted = fnh_wf_row(1)[OF assms(1) xs]
  have lt: "\<forall>x\<in>set xs. fn_run_seq x < s" using assms(2) xs by (auto simp: fnh_writable_def)
  then have latest: "latest s fn_run_seq xs = (if xs = [] then None else Some (last xs))"
    by (auto simp: latest_def filter_id_conv less_imp_le)
  have cur: "fnh_cursor h (fnh_found h r s)" using assms(2) by (simp add: fnh_writable_def)
  note found = fnh_found_step[OF assms(1), of r s]
  show thesis
  proof (cases "fnh_found h r s")
    case None
    then have "xs = []" using found xs latest by (auto split: if_splits)
    with None cur show thesis
      by (intro push[of "Some (r, 0)"]) (simp_all add: fnh_update_def fnh_cursor_def xs)
  next
    case (Some n)
    then obtain i ys where i: "fnh_current_run_id h = Some (fn_run_id n)" "fnh_current_run_idx h = Some i"
      "fnh_branches h (fn_run_id n) = Some ys" "unat i < length ys" "ys ! unat i = n"
      using cur by (auto simp: fnh_cursor_def)
    show thesis
    proof (cases "fn_data n = d")
      case True
      then show thesis using i by (intro same[OF Some]) (simp_all add: fnh_update_def)
    next
      case False
      have next_idx: "(if fn_run_id n = r then i + 1 else 0) = of_nat (length xs)"
      proof (cases "fn_run_id n = r")
        case True
        then have ys: "ys = xs" using i xs by simp
        then have "latest s fn_run_seq xs = Some (last xs)" using latest i by auto
        then have n: "n = last xs" using found Some xs by simp
        have "unat i = length xs - 1"
        proof (rule ccontr)
          assume "unat i \<noteq> length xs - 1"
          then have "fn_run_seq (xs ! unat i) < fn_run_seq (xs ! (length xs - 1))"
            using sorted i(4) ys by (simp add: sorted_wrt_iff_nth_less)
          moreover have "xs ! (length xs - 1) = xs ! unat i"
            using i n ys by (cases "xs = []") (auto simp: last_conv_nth)
          ultimately show False by simp
        qed
        then have "length xs = unat i + 1" using i(4) ys by simp
        then have "of_nat (length xs) = i + 1" by simp
        with True show ?thesis by simp
      next
        case other: False
        have "xs = []"
        proof (rule ccontr)
          assume ne: "xs \<noteq> []"
          then have "n = last xs" using found Some xs latest by simp
          then have "fn_run_id n = r" using fnh_wf_row(2)[OF assms(1) xs] ne by simp
          with other show False by simp
        qed
        with other show ?thesis by simp
      qed
      show thesis
        using i False
        by (intro push[of "Some (r, of_nat (length xs))"]) (simp_all add: fnh_update_def xs flip: next_idx)
    qed
  qed
qed

text \<open>A push moves the cursor to the new node, which is then the tip of its run.\<close>

lemma fnh_push:
  fixes h r s g d
  defines "node \<equiv> \<lparr> fn_run_id = r, fn_run_seq = s, fn_global_seq = g, fn_data = d \<rparr>"
  defines "h' \<equiv> fnh_set_cursor (Some (r, of_nat (length (the (fnh_branches h r))))) h
    \<lparr> fnh_branches := fat_push node (fnh_branches h) \<rparr>"
  assumes wf: "fnh_wf h" and w: "fnh_writable h r s"
  shows "fnh_wf h'" "fnh_view h' = tl_write r s d (fnh_view h)"
    and "s < s' \<Longrightarrow> fnh_writable h' r s'"
proof -
  obtain xs where xs: "fnh_branches h r = Some xs" using w by (auto simp: fnh_writable_def)
  have lt: "\<forall>x\<in>set xs. fn_run_seq x < s" using w xs by (auto simp: fnh_writable_def)
  have branches: "fnh_branches h' = (fnh_branches h)(r \<mapsto> xs @ [node])"
    by (simp add: h'_def node_def fat_push_def xs)
  have eq: "fnh_branches h' = fat_push node (fnh_branches h)" by (simp add: h'_def)
  have lin: "fnh_lineage h' = fnh_lineage h" by (simp add: h'_def fnh_lineage_def fun_eq_iff)
  show wf': "fnh_wf h'"
  proof (rule fnh_wfI)
    fix r' ys assume "fnh_branches h' r' = Some ys"
    then show "sorted_wrt (<) (map fn_run_seq ys) \<and> (\<forall>x\<in>set ys. fn_run_id x = r')"
      using fnh_wf_row[OF wf] xs lt
      by (auto simp: branches sorted_wrt_append node_def split: if_splits)
  next
    fix r' p assume "fnh_branch_history h' r' = Some p"
    then have "fnh_branch_history h r' = Some p" by (simp add: h'_def)
    from fnh_wf_branch_history[OF wf this]
    show "fnh_branches h' r' \<noteq> None \<and> fnh_parent_ok (fnh_branches h') r' p"
      by (auto simp: branches intro: fnh_parent_ok_mono)
  qed
  have vis: "fnh_visible h' = fnh_visible h"
    by (simp add: fnh_visible_def fnh_before_creation_def branches fun_eq_iff) (simp add: h'_def xs)
  have fw: "fat_writable (fnh_branches h) (fnh_lineage h) (fn_run_id node) (fn_run_seq node)"
    using fnh_writable_fat[OF w] by (simp add: node_def)
  have found: "fnh_found h' r' s' = (if r' = r \<and> s \<le> s' then Some node else fnh_found h r' s')" for r' s'
    using fat_walk_push[OF fnh_wf_sorted[OF wf] fnh_wf_lineage[OF wf] fw, of r' s']
    by (simp add: fnh_found_def lin eq) (simp add: node_def)
  have here: "fnh_visible h r s'" if "s \<le> s'" for s'
    using w that by (auto simp: fnh_writable_def fnh_visible_def fnh_before_creation_def)
  show "fnh_view h' = tl_write r s d (fnh_view h)"
    using here by (auto simp: fnh_view_eq[OF wf] fnh_view_eq[OF wf'] vis found tl_write_def fun_eq_iff node_def)
  assume s': "s < s'"
  have "unat (of_nat (length xs) :: u32) = length xs"
    by (rule fnh_index_fits[OF wf', of r "xs @ [node]"]) (simp_all add: branches)
  then have "fnh_cursor h' (fnh_found h' r s')"
    using s'[THEN less_imp_le] by (simp add: found fnh_cursor_def branches) (simp add: h'_def node_def xs)
  moreover have "\<not> fnh_before_creation h' r s'"
  proof -
    have "fnh_visible h' r s'" unfolding vis using s' by (intro here) simp
    then show ?thesis by (simp add: fnh_visible_def)
  qed
  moreover have "fn_run_seq x < s'" if "x \<in> set (xs @ [node])" for x
    using that lt s' by (auto simp: node_def intro: order.strict_trans[of _ s])
  moreover have "bp_branch_run_seq b < s'" if "fnh_lineage h c = Some b" "bp_parent_run_id b = r" for c b
    using that w s' by (auto simp: fnh_writable_def intro: order.strict_trans[of _ s])
  ultimately show "fnh_writable h' r s'"
    by (simp add: fnh_writable_def lin branches)
qed

lemma fnh_found_tip:
  assumes "fnh_wf h" "fnh_writable h r s" "s \<le> s'"
  shows "fnh_found h r s' = fnh_found h r s"
  using fat_walk_tip[OF fnh_wf_sorted[OF assms(1)] fnh_writable_fat[OF assms(2)] assms(3)]
  by (simp add: fnh_found_def)

lemma fnh_writable_later:
  assumes wf: "fnh_wf h" and w: "fnh_writable h r s" and "s \<le> s'"
  shows "fnh_writable h r s'"
  using assms(3) w fnh_found_tip[OF wf w assms(3)]
  by (auto simp: fnh_writable_def fnh_before_creation_def intro: order.strict_trans2[of _ s])

lemma fnh_update_laws:
  assumes wf: "fnh_wf h" and w: "fnh_writable h r s"
  shows "\<exists>h'. fnh_update r s g d h = Some h' \<and> fnh_wf h' \<and> fnh_view h' = tl_write r s d (fnh_view h)
    \<and> (\<forall>s'. s < s' \<longrightarrow> fnh_writable h' r s')"
  using wf w
proof (cases rule: fnh_update_cases[of h r s d g])
  case (same n)
  have vis: "fnh_visible h r s'" if "s \<le> s'" for s'
    using w that by (auto simp: fnh_writable_def fnh_visible_def fnh_before_creation_def)
  have "fnh_view h = tl_write r s d (fnh_view h)"
  proof (intro ext)
    fix r' s'
    show "fnh_view h r' s' = tl_write r s d (fnh_view h) r' s'"
      using same(1,2) vis[of s'] fnh_found_tip[OF wf w, of s'] by (simp add: fnh_view_eq[OF wf] tl_write_def)
  qed
  then show ?thesis using same(3) wf fnh_writable_later[OF wf w] by auto
next
  case (push c)
  then show ?thesis using fnh_push[OF wf w] by (intro exI[of _ "the (fnh_update r s g d h)"]) simp
qed

lemma fnh_make_branch_laws:
  assumes wf: "fnh_wf h" and fresh: "fnh_fresh h n" and pn: "p < n"
  shows "\<exists>h'. fnh_make_branch p b n h = Some h' \<and> fnh_wf h' \<and> fnh_view h' = tl_branch n p b (fnh_view h)
    \<and> fnh_writable h' n s"
proof -
  define node where "node = (if fnh_visible h p b then fnh_found h p b else None)"
  obtain k where k: "fnh_get_node_nearest p b h = Some (node, k)" "fnh_same h k" "fnh_wf k" "fnh_cursor k node"
    using fnh_get_spec[OF wf, of p b] by (auto simp: node_def)
  have n0: "fnh_branches k n = None" "fnh_created_run_id k < n"
    using fresh k(2) by (auto simp: fnh_same_def fnh_fresh_def)
  have "fnh_branch_history k n = None"
    by (rule ccontr) (use n0 fnh_wf_branch_history(1)[OF k(3), of n] in auto)
  note n = n0(1) this n0(2)
  define h' where "h' = k \<lparr> fnh_branch_history := (fnh_branch_history k)(n \<mapsto>
      (if node = None then (None, None) else (Some p, Some b))), fnh_branches := (fnh_branches k)(n \<mapsto> []) \<rparr>"
  have make: "fnh_make_branch p b n h = Some h'"
    using k(1) n by (simp add: fnh_make_branch_def map_insert_def h'_def)
  have p: "fnh_branches k p \<noteq> None" if "node \<noteq> None"
    using that k(2) by (auto simp: node_def fnh_visible_def fnh_same_def split: if_splits)
  have no_child: "bp_parent_run_id c \<noteq> n" if "fnh_lineage k r = Some c" for r c
    using fnh_lineage_Some(3)[OF k(3) that] n(1) by auto
  show ?thesis
  proof (intro exI conjI)
    show "fnh_make_branch p b n h = Some h'" by (rule make)
    show wf': "fnh_wf h'"
    proof (rule fnh_wfI)
      fix r xs assume "fnh_branches h' r = Some xs"
      then show "sorted_wrt (<) (map fn_run_seq xs) \<and> (\<forall>x\<in>set xs. fn_run_id x = r)"
        using fnh_wf_row[OF k(3)] by (auto simp: h'_def split: if_splits)
    next
      fix r q assume q: "fnh_branch_history h' r = Some q"
      have mono: "dom (fnh_branches k) \<subseteq> dom (fnh_branches h')" by (auto simp: h'_def)
      show "fnh_branches h' r \<noteq> None \<and> fnh_parent_ok (fnh_branches h') r q"
      proof (cases "r = n")
        case True
        then show ?thesis using q p pn by (auto simp: h'_def split: if_splits)
      next
        case False
        then have "fnh_branch_history k r = Some q" using q by (simp add: h'_def)
        from fnh_wf_branch_history[OF k(3) this] False show ?thesis
          using fnh_parent_ok_mono[OF _ mono] by (auto simp: h'_def)
      qed
    qed
    have lin: "fnh_lineage h' = (if node = None then fnh_lineage k
        else (fnh_lineage k)(n \<mapsto> \<lparr> bp_parent_run_id = p, bp_branch_run_seq = b \<rparr>))"
      using n(2) by (auto simp: fnh_lineage_def h'_def fun_eq_iff)
    have fresh_k: "fat_fresh (fnh_branches k) (fnh_lineage k) n"
      using n no_child by (auto simp: fat_fresh_def fnh_lineage_def)
    have swap: "fnh_found h' r s = the (fat_walk (fnh_branches k) (fnh_lineage h') r s)" for r s
      unfolding fnh_found_def
      by (rule arg_cong[of _ _ the], rule fat_walk_cong[OF fnh_wf_lineage[OF wf'] fnh_wf_sorted[OF wf'] fnh_wf_sorted[OF k(3)]])
        (use n in \<open>auto simp: h'_def\<close>)
    have found: "fnh_found h' r s = (if r = n then node else fnh_found h r s)" for r s
    proof (cases "node = None")
      case True
      have "fnh_found k n s = None"
        using n fresh_k by (simp add: fnh_found_step[OF k(3)] fat_fresh_def)
      moreover have "fnh_found h' r s = fnh_found k r s" using True swap lin by (simp add: fnh_found_def)
      ultimately show ?thesis using True fnh_found_same[OF k(2)] by simp
    next
      case False
      then have "node = fnh_found h p b" by (auto simp: node_def split: if_splits)
      moreover have "fnh_found h' r s = (if r = n then fnh_found k p b else fnh_found k r s)"
        using False fat_walk_branch[OF fnh_wf_lineage[OF k(3)] fresh_k pn, of b r s]
        by (cases "r = n") (auto simp: swap lin fnh_found_def[of k])
      ultimately show ?thesis by (simp add: fnh_found_same[OF k(2)])
    qed
    have vis: "fnh_visible h' r s = (r = n \<or> fnh_visible h r s)" for r s
      using n(3) k(2) by (auto simp: fnh_visible_def fnh_before_creation_def h'_def fnh_same_def)
    have notvis: "\<not> fnh_visible h n s" for s
      using fresh by (simp add: fnh_visible_def fnh_fresh_def)
    show "fnh_view h' = tl_branch n p b (fnh_view h)"
      by (auto simp: fnh_view_eq[OF wf] fnh_view_eq[OF wf'] vis notvis found tl_branch_def fun_eq_iff node_def)
    have "fnh_cursor h' node"
      using k(4) n(1) by (auto simp: fnh_cursor_def h'_def split: option.splits)
    then have "fnh_cursor h' (fnh_found h' n s)" by (simp add: found)
    moreover have "\<not> fnh_before_creation h' n s" "fnh_branches h' n = Some []"
      using n(3) by (auto simp: fnh_before_creation_def h'_def)
    moreover have "bp_parent_run_id c \<noteq> n" if "fnh_lineage h' r = Some c" for r c
      using that no_child pn by (auto simp: lin split: if_splits)
    ultimately show "fnh_writable h' n s" by (auto simp: fnh_writable_def)
  qed
qed

text \<open>The constructor as the region uses it: a new history and its first update.\<close>

definition fnh_first :: "u32 \<Rightarrow> u32 \<Rightarrow> u64 \<Rightarrow> page_line \<Rightarrow> fat_node_history option" where
  "fnh_first run_id run_seq global_seq buf = fnh_update run_id run_seq global_seq buf (fnh_new run_id run_seq)"

lemma fnh_first_state:
  "fnh_first r s g d = Some \<lparr> fnh_branches = [r \<mapsto> [\<lparr> fn_run_id = r, fn_run_seq = s, fn_global_seq = g, fn_data = d \<rparr>]],
     fnh_branch_history = Map.empty, fnh_created_run_id = r, fnh_created_run_sequence = s,
     fnh_current_run_id = Some r, fnh_current_run_idx = Some 0 \<rparr>"
  by (simp add: fnh_first_def fnh_update_def fnh_new_def fnh_set_cursor_def fat_push_def)

lemma fnh_first_laws:
  "\<exists>h. fnh_first r s g d = Some h \<and> fnh_wf h \<and> fnh_view h = tl_create r s d
    \<and> (\<forall>s'. s < s' \<longrightarrow> fnh_writable h r s')"
proof -
  let ?n = "\<lparr> fn_run_id = r, fn_run_seq = s, fn_global_seq = g, fn_data = d \<rparr>"
  define h where "h = \<lparr> fnh_branches = [r \<mapsto> [?n]], fnh_branch_history = Map.empty,
     fnh_created_run_id = r, fnh_created_run_sequence = s,
     fnh_current_run_id = Some r, fnh_current_run_idx = Some 0 \<rparr>"
  have wf: "fnh_wf h" by (simp add: fnh_wf_def h_def)
  have lin: "fnh_lineage h = Map.empty" by (simp add: fnh_lineage_def h_def fun_eq_iff)
  have found: "fnh_found h r' s' = (if r' = r \<and> s \<le> s' then Some ?n else None)" for r' s'
    unfolding fnh_found_step[OF wf, of r' s'] lin by (simp add: h_def latest_def)
  have "fnh_view h = tl_create r s d"
    by (auto simp: fnh_view_eq[OF wf] found fnh_visible_def fnh_before_creation_def tl_create_def fun_eq_iff)
      (auto simp: h_def)
  moreover have "fnh_writable h r s'" if "s < s'" for s'
    using that by (simp add: fnh_writable_def found lin) (auto simp: h_def fnh_cursor_def fnh_before_creation_def)
  ultimately show ?thesis using wf fnh_first_state by (auto simp: h_def)
qed

lemma fnh_update_fresh:
  assumes wf: "fnh_wf h" and w: "fnh_writable h r s" and "fnh_fresh h n" "n \<noteq> r" "fnh_update r s g d h = Some h'"
  shows "fnh_fresh h' n"
  using wf w
proof (cases rule: fnh_update_cases[of h r s d g])
  case (same n')
  then show ?thesis using assms(3,5) by simp
next
  case (push c)
  then show ?thesis using assms(3-5) by (auto simp: fnh_fresh_def fat_push_def)
qed

lemma fnh_make_branch_fresh:
  assumes wf: "fnh_wf h" and "fnh_make_branch p b n h = Some h'" "fnh_fresh h k" "k \<noteq> n"
  shows "fnh_fresh h' k"
proof -
  obtain x h1 where "fnh_get_node_nearest p b h = Some (x, h1)" "fnh_same h h1" using fnh_get_spec[OF wf, of p b] by blast
  then show ?thesis using assms(2-4) by (auto simp: fnh_make_branch_def fnh_fresh_def fnh_same_def map_insert_def Let_def split: option.splits)
qed

interpretation fnh: created_history fnh_wf fnh_view "\<lambda>r s g d h. the (fnh_update r s g d h)"
  "\<lambda>n p b h. the (fnh_make_branch p b n h)" fnh_writable fnh_fresh "\<lambda>r s g d. the (fnh_first r s g d)"
proof
  fix h r s s' n p b g and d :: page_line
  show "fnh_wf (the (fnh_first r s g d))" "fnh_view (the (fnh_first r s g d)) = tl_create r s d"
    "s < s' \<Longrightarrow> fnh_writable (the (fnh_first r s g d)) r s'"
    using fnh_first_laws[of r s g d] by auto
  show "r < n \<Longrightarrow> fnh_fresh (the (fnh_first r s g d)) n"
    by (auto simp: fnh_first_state fnh_fresh_def)
  assume wf: "fnh_wf h"
  show "fnh_fresh h n \<Longrightarrow> p < n \<Longrightarrow> fnh_wf (the (fnh_make_branch p b n h))"
    "fnh_fresh h n \<Longrightarrow> p < n \<Longrightarrow> fnh_view (the (fnh_make_branch p b n h)) = tl_branch n p b (fnh_view h)"
    "fnh_fresh h n \<Longrightarrow> p < n \<Longrightarrow> fnh_writable (the (fnh_make_branch p b n h)) n s"
    using fnh_make_branch_laws[OF wf, of n p b] by force+
  show "fnh_fresh (the (fnh_make_branch p b n h)) k" if "fnh_fresh h n" "p < n" "fnh_fresh h k" "n < k" for k
    using fnh_make_branch_laws[OF wf that(1,2), of b 0] fnh_make_branch_fresh[OF wf _ that(3), of p b n] that(4) by auto
  assume w: "fnh_writable h r s"
  show "fnh_wf (the (fnh_update r s g d h))"
    "fnh_view (the (fnh_update r s g d h)) = tl_write r s d (fnh_view h)"
    "s < s' \<Longrightarrow> fnh_writable (the (fnh_update r s g d h)) r s'"
    using fnh_update_laws[OF wf w, of g d] by auto
  show "fnh_fresh h n \<Longrightarrow> n \<noteq> r \<Longrightarrow> fnh_fresh (the (fnh_update r s g d h)) n"
    using fnh_update_fresh[OF wf w] fnh_update_laws[OF wf w, of g d] by auto
qed

section \<open>Regions\<close>

record persistent_region =
  pr_created_run_id :: u32
  pr_created_run_seq :: u32
  pr_created_global_seq :: u64
  pr_region_history :: "fat_node_history list"

definition pr_new :: "u32 \<Rightarrow> u32 \<Rightarrow> u64 \<Rightarrow> persistent_region" where
  "pr_new run_id run_seq global_seq =
     \<lparr> pr_created_run_id = run_id, pr_created_run_seq = run_seq, pr_created_global_seq = global_seq,
       pr_region_history = [] \<rparr>"

text \<open>
  The pages the region and the buffer share are updated, pages past the buffer are left alone, and
  pages past the region get a new history each.
\<close>

definition pr_update :: "u32 \<Rightarrow> u32 \<Rightarrow> u64 \<Rightarrow> byte list \<Rightarrow> persistent_region \<Rightarrow> persistent_region option" where
  "pr_update run_id run_seq global_seq region_buf reg =
     (let pages = chunks kPageLineSize region_buf; hs = pr_region_history reg in
      do { common \<leftarrow> mapM (\<lambda>(h, page). fnh_update run_id run_seq global_seq page h) (zip hs pages);
           extra \<leftarrow> mapM (fnh_first run_id run_seq global_seq) (drop (length hs) pages);
           Some (reg \<lparr> pr_region_history := common @ drop (length pages) hs @ extra \<rparr>) })"

definition pr_make_branch :: "u32 \<Rightarrow> u32 \<Rightarrow> u32 \<Rightarrow> persistent_region \<Rightarrow> persistent_region option" where
  "pr_make_branch from_run_id from_run_sequence to_run_id reg =
     do { hs \<leftarrow> mapM (fnh_make_branch from_run_id from_run_sequence to_run_id) (pr_region_history reg);
          Some (reg \<lparr> pr_region_history := hs \<rparr>) }"

definition pr_read_page ::
    "u32 \<Rightarrow> u32 \<Rightarrow> nat \<Rightarrow> byte list \<times> fat_node_history list \<Rightarrow> (byte list \<times> fat_node_history list) option" where
  "pr_read_page r s i = (\<lambda>(region, hs).
     do { h \<leftarrow> list_at hs i;
          (fat_node, h') \<leftarrow> fnh_get_node_nearest r s h;
          Some (case fat_node of None \<Rightarrow> region
                | Some n \<Rightarrow> memcpy_at (i * kPageLineSize) (fn_data n) region, hs[i := h']) })"

definition pr_get_region_at_time ::
    "u32 \<Rightarrow> u32 \<Rightarrow> u32 \<Rightarrow> persistent_region \<Rightarrow> (byte list \<times> persistent_region) option" where
  "pr_get_region_at_time from_run_id from_run_sequence region_size reg =
     do { (region, hs) \<leftarrow> foldM (pr_read_page from_run_id from_run_sequence)
            [0..<unat region_size div kPageLineSize]
            (replicate (unat region_size) 0, pr_region_history reg);
          Some (region, reg \<lparr> pr_region_history := hs \<rparr>) }"

definition pr_wf :: "persistent_region \<Rightarrow> bool" where
  "pr_wf reg = (\<forall>h\<in>set (pr_region_history reg). fnh_wf h)"

definition pr_sized :: "persistent_region \<Rightarrow> bool" where
  "pr_sized reg = (\<forall>h\<in>set (pr_region_history reg). \<forall>r s d. fnh_view h r s = Some d \<longrightarrow> length d = kPageLineSize)"

definition pr_writable :: "persistent_region \<Rightarrow> u32 \<Rightarrow> u32 \<Rightarrow> bool" where
  "pr_writable reg r s = (\<forall>h\<in>set (pr_region_history reg). fnh_writable h r s)"

text \<open>What a reader sees of page i.\<close>

definition pr_page :: "persistent_region \<Rightarrow> nat \<Rightarrow> page_line timeline" where
  "pr_page reg i = (if i < length (pr_region_history reg) then fnh_view (pr_region_history reg ! i)
                    else (\<lambda>_ _. None))"

definition page_or_zero :: "persistent_region \<Rightarrow> u32 \<Rightarrow> u32 \<Rightarrow> nat \<Rightarrow> page_line" where
  "page_or_zero reg r s i = (case pr_page reg i r s of None \<Rightarrow> replicate kPageLineSize 0 | Some d \<Rightarrow> d)"

lemma pr_sized_page: "pr_sized reg \<Longrightarrow> pr_page reg i r s = Some d \<Longrightarrow> length d = kPageLineSize"
  by (auto simp: pr_sized_def pr_page_def dest: nth_mem split: if_splits)

definition pr_fresh :: "persistent_region \<Rightarrow> u32 \<Rightarrow> bool" where
  "pr_fresh reg n = (\<forall>h\<in>set (pr_region_history reg). fnh_fresh h n)"

text \<open>A read keeps every view: only cursors move.\<close>

definition pr_same :: "fat_node_history list \<Rightarrow> fat_node_history list \<Rightarrow> bool" where
  "pr_same = list_all2 (\<lambda>h h'. fnh_wf h' \<and> fnh_view h' = fnh_view h \<and> fnh_fresh h' = fnh_fresh h)"

lemma fnh_fresh_same: "fnh_same h h' \<Longrightarrow> fnh_fresh h' = fnh_fresh h"
  by (simp add: fnh_same_def fnh_fresh_def fun_eq_iff)

lemma fnh_view_same: "fnh_wf h \<Longrightarrow> fnh_wf h' \<Longrightarrow> fnh_same h h' \<Longrightarrow> fnh_view h' = fnh_view h"
  by (simp add: fnh_view_eq fnh_visible_same fnh_found_same fun_eq_iff)

lemma pr_read_page_spec:
  assumes "pr_same hs0 hs" "\<forall>h\<in>set hs0. fnh_wf h" "i < length hs0"
  shows "\<exists>hs'. pr_read_page r s i (region, hs) =
      Some (case fnh_view (hs0 ! i) r s of None \<Rightarrow> region | Some d \<Rightarrow> memcpy_at (i * kPageLineSize) d region, hs')
    \<and> pr_same hs0 hs'"
proof -
  have len: "length hs = length hs0" using assms(1) by (simp add: pr_same_def list_all2_lengthD)
  have i: "fnh_wf (hs ! i)" "fnh_view (hs ! i) = fnh_view (hs0 ! i)" "fnh_fresh (hs ! i) = fnh_fresh (hs0 ! i)"
    using assms(1,3) by (auto simp: pr_same_def list_all2_conv_all_nth)
  obtain n h' where n: "fnh_get_node_nearest r s (hs ! i) = Some (n, h')" "fnh_same (hs ! i) h'" "fnh_wf h'"
    using fnh_get_spec[OF i(1), of r s] by blast
  have v: "fnh_view (hs ! i) r s = map_option fn_data n" using n(1) by (auto simp: fnh_view_def split: option.split)
  have "fnh_view h' = fnh_view (hs0 ! i)" "fnh_fresh h' = fnh_fresh (hs0 ! i)"
    using fnh_view_same[OF i(1) n(3,2)] fnh_fresh_same[OF n(2)] i(2,3) by simp_all
  then have "pr_same hs0 (hs[i := h'])"
    using assms(1,3) n(3) len by (auto simp: pr_same_def list_all2_conv_all_nth nth_list_update)
  then show ?thesis
    using n(1) v i(2) assms(3) len by (auto simp: pr_read_page_def split: option.splits)
qed

lemma pr_get_region_spec:
  assumes "pr_wf reg" "pr_sized reg" "unat sz div kPageLineSize \<le> length (pr_region_history reg)"
  shows "\<exists>reg'. pr_get_region_at_time r s sz reg =
      Some (concat (map (page_or_zero reg r s) [0..<unat sz div kPageLineSize])
            @ replicate (unat sz mod kPageLineSize) 0, reg')
    \<and> pr_same (pr_region_history reg) (pr_region_history reg')"
proof -
  let ?hs = "pr_region_history reg" and ?m = "unat sz div kPageLineSize"
  let ?step = "\<lambda>i buf. case pr_page reg i r s of None \<Rightarrow> buf | Some d \<Rightarrow> memcpy_at (i * kPageLineSize) d buf"
  have loop: "\<exists>hs'. foldM (pr_read_page r s) [0..<n] (buf, ?hs) = Some (fold ?step [0..<n] buf, hs')
      \<and> pr_same ?hs hs'" if "n \<le> ?m" for n buf
    using that
  proof (induction n)
    case 0
    then show ?case using assms(1) by (auto simp: pr_same_def pr_wf_def list_all2_conv_all_nth)
  next
    case (Suc n)
    then obtain hs' where hs': "foldM (pr_read_page r s) [0..<n] (buf, ?hs) = Some (fold ?step [0..<n] buf, hs')"
      "pr_same ?hs hs'" by auto
    have n: "n < length ?hs" using Suc.prems assms(3) by simp
    have "\<forall>h\<in>set ?hs. fnh_wf h" using assms(1) by (simp add: pr_wf_def)
    from pr_read_page_spec[OF hs'(2) this n, of r s "fold ?step [0..<n] buf"] hs'(1)
    have "\<exists>hs''. foldM (pr_read_page r s) [0..<Suc n] (buf, ?hs) =
        Some (case fnh_view (?hs ! n) r s of None \<Rightarrow> fold ?step [0..<n] buf
              | Some d \<Rightarrow> memcpy_at (n * kPageLineSize) d (fold ?step [0..<n] buf), hs'') \<and> pr_same ?hs hs''"
      by auto
    moreover have "pr_page reg n = fnh_view (?hs ! n)" using n by (simp add: pr_page_def)
    ultimately show ?case by simp
  qed
  have sz_eq: "unat sz = ?m * kPageLineSize + unat sz mod kPageLineSize" by simp
  have fold_app: "fold ?step [0..<n] (buf @ tail) = fold ?step [0..<n] buf @ tail
      \<and> length (fold ?step [0..<n] buf) = length buf"
    if "n \<le> ?m" "length buf = ?m * kPageLineSize" for n buf tail
    using that
  proof (induction n)
    case (Suc n)
    have "memcpy_at (n * kPageLineSize) d (b @ tail) = memcpy_at (n * kPageLineSize) d b @ tail
        \<and> length (memcpy_at (n * kPageLineSize) d b) = length b"
      if "pr_page reg n r s = Some d" "length b = ?m * kPageLineSize" for d b
    proof -
      have "length d = kPageLineSize" using assms(2) that by (auto intro: pr_sized_page)
      moreover have "(n + 1) * kPageLineSize \<le> ?m * kPageLineSize" using Suc.prems(1) by (intro mult_le_mono1) simp
      ultimately show ?thesis using that(2) by (simp add: memcpy_at_def)
    qed
    then show ?case using Suc by (simp split: option.split)
  qed simp
  have zeros: "replicate (unat sz) 0 = replicate (?m * kPageLineSize) 0 @ replicate (unat sz mod kPageLineSize) (0::byte)"
    by (subst sz_eq) (simp only: replicate_add)
  have "fold ?step [0..<?m] (replicate (?m * kPageLineSize) 0) = concat (map (page_or_zero reg r s) [0..<?m])"
    using fold_memcpy_at[of ?m "\<lambda>i. pr_page reg i r s" kPageLineSize ?m 0] pr_sized_page[OF assms(2)]
    by (simp add: page_or_zero_def[abs_def])
  then have "fold ?step [0..<?m] (replicate (unat sz) 0) =
      concat (map (page_or_zero reg r s) [0..<?m]) @ replicate (unat sz mod kPageLineSize) 0"
    unfolding zeros using fold_app[of ?m "replicate (?m * kPageLineSize) 0"] by simp
  with loop[of ?m "replicate (unat sz) 0"] show ?thesis
    by (auto simp: pr_get_region_at_time_def)
qed

lemma tl_create_write: "tl_create r s d = tl_write r s d (\<lambda>_ _. None)"
  by (simp add: tl_create_def tl_write_def fun_eq_iff)

lemma pr_update_spec:
  assumes wf: "pr_wf reg" and w: "pr_writable reg r s"
  shows "\<exists>reg'. pr_update r s g buf reg = Some reg' \<and> pr_wf reg'
    \<and> (\<forall>s'. s < s' \<longrightarrow> pr_writable reg' r s')
    \<and> length (pr_region_history reg') = max (length (pr_region_history reg)) (length buf div kPageLineSize)
    \<and> (\<forall>i. pr_page reg' i = (if i < length buf div kPageLineSize
          then tl_write r s (chunks kPageLineSize buf ! i) (pr_page reg i) else pr_page reg i))"
proof -
  let ?hs = "pr_region_history reg" and ?pages = "chunks kPageLineSize buf"
  let ?R = "\<lambda>h' f. fnh_wf h' \<and> fnh_view h' = f \<and> (\<forall>s'. s < s' \<longrightarrow> fnh_writable h' r s')"
  have "\<exists>h'. (\<lambda>(h, page). fnh_update r s g page h) x = Some h' \<and> ?R h' (tl_write r s (snd x) (fnh_view (fst x)))"
    if "x \<in> set (zip ?hs ?pages)" for x
  proof -
    have "fst x \<in> set ?hs" by (cases x) (use that in \<open>auto dest: set_zip_leftD\<close>)
    then show ?thesis
      using wf w fnh_update_laws[of "fst x" r s g "snd x"] by (cases x) (auto simp: pr_wf_def pr_writable_def)
  qed
  then have "\<exists>ys. mapM (\<lambda>(h, page). fnh_update r s g page h) (zip ?hs ?pages) = Some ys
      \<and> list_all2 (\<lambda>x h'. ?R h' (tl_write r s (snd x) (fnh_view (fst x)))) (zip ?hs ?pages) ys"
    by (rule mapM_each)
  then obtain common where common: "mapM (\<lambda>(h, page). fnh_update r s g page h) (zip ?hs ?pages) = Some common"
    "list_all2 (\<lambda>x h'. ?R h' (tl_write r s (snd x) (fnh_view (fst x)))) (zip ?hs ?pages) common" by blast
  have "\<exists>h. fnh_first r s g d = Some h \<and> ?R h (tl_create r s d)" if "d \<in> set (drop (length ?hs) ?pages)" for d
    by (rule fnh_first_laws)
  then have "\<exists>ys. mapM (fnh_first r s g) (drop (length ?hs) ?pages) = Some ys
      \<and> list_all2 (\<lambda>d h. ?R h (tl_create r s d)) (drop (length ?hs) ?pages) ys"
    by (rule mapM_each)
  then obtain extra where extra: "mapM (fnh_first r s g) (drop (length ?hs) ?pages) = Some extra"
    "list_all2 (\<lambda>d h. ?R h (tl_create r s d)) (drop (length ?hs) ?pages) extra" by blast
  define hs' where "hs' = common @ drop (length ?pages) ?hs @ extra"
  have lens: "length common = min (length ?hs) (length ?pages)" "length extra = length ?pages - length ?hs"
    using common(2) extra(2) by (auto dest!: list_all2_lengthD)
  have nth: "i < length hs' \<Longrightarrow> fnh_wf (hs' ! i) \<and> (\<forall>s'. s < s' \<longrightarrow> fnh_writable (hs' ! i) r s')
      \<and> fnh_view (hs' ! i) = (if i < length ?pages then tl_write r s (?pages ! i) (pr_page reg i) else pr_page reg i)" for i
  proof -
    assume i: "i < length hs'"
    consider (c) "i < length common" | (h) "length common \<le> i" "i < length common + (length ?hs - length ?pages)"
      | (e) "length ?hs \<le> i" "i < length ?pages"
    proof -
      have "length hs' = length common + (length ?hs - length ?pages) + length extra" by (simp add: hs'_def)
      then have "i < length common \<or> length common \<le> i \<and> i < length common + (length ?hs - length ?pages)
          \<or> length ?hs \<le> i \<and> i < length ?pages"
        using i lens by (cases "length ?hs \<le> length ?pages") (auto simp: min_def)
      then show thesis using that by blast
    qed
    then show ?thesis
    proof cases
      case c
      then have "?R (common ! i) (tl_write r s (?pages ! i) (fnh_view (?hs ! i)))"
        using common(2) lens by (auto simp: list_all2_conv_all_nth)
      then show ?thesis using c lens by (simp add: hs'_def nth_append pr_page_def)
    next
      case h
      then have "hs' ! i = ?hs ! i" using lens by (auto simp: hs'_def nth_append min_def split: if_splits)
      moreover have "i < length ?hs" "\<not> i < length ?pages" using h lens by (auto split: if_splits)
      moreover have "fnh_wf (?hs ! i)" "fnh_writable (?hs ! i) r s"
        using wf w calculation(2) by (simp_all add: pr_wf_def pr_writable_def)
      ultimately show ?thesis using fnh_writable_later[of "?hs ! i" r s] by (auto simp: pr_page_def)
    next
      case e
      then have "?R (extra ! (i - length ?hs)) (tl_create r s (?pages ! i))"
        using extra(2) by (auto simp: list_all2_conv_all_nth dest!: spec[of _ "i - length ?hs"])
      then show ?thesis
        using e lens by (simp add: hs'_def nth_append pr_page_def tl_create_write min_def)
    qed
  qed
  have "length hs' = max (length ?hs) (length ?pages)" using lens by (auto simp: hs'_def min_def max_def)
  moreover have "pr_update r s g buf reg = Some (reg \<lparr> pr_region_history := hs' \<rparr>)"
    by (simp add: pr_update_def Let_def common(1) extra(1) hs'_def)
  ultimately show ?thesis
    using nth
    by (intro exI[of _ "reg \<lparr> pr_region_history := hs' \<rparr>"])
      (auto simp: pr_wf_def pr_writable_def in_set_conv_nth pr_page_def)
qed

text \<open>What a read gives, as a function of the views alone.\<close>

definition pr_shows :: "persistent_region \<Rightarrow> u32 \<Rightarrow> u32 \<Rightarrow> u32 \<Rightarrow> byte list option" where
  "pr_shows reg r s sz =
     (if unat sz div kPageLineSize \<le> length (pr_region_history reg)
      then Some (concat (map (page_or_zero reg r s) [0..<unat sz div kPageLineSize])
                 @ replicate (unat sz mod kPageLineSize) 0)
      else None)"

lemma pr_read_short:
  assumes "pr_wf reg" "length (pr_region_history reg) < m"
  shows "foldM (pr_read_page r s) [0..<m] (buf, pr_region_history reg) = None"
proof -
  let ?hs = "pr_region_history reg"
  have one: "length (snd st') = length (snd st)" if "pr_read_page r s x st = Some st'" for x st st'
    using that by (cases st) (auto simp: pr_read_page_def bind_eq_Some_conv)
  have keep: "foldM (pr_read_page r s) xs st = Some st' \<Longrightarrow> length (snd st') = length (snd st)" for xs st st'
  proof (induction xs arbitrary: st)
    case (Cons x xs)
    then obtain st1 where "pr_read_page r s x st = Some st1" "foldM (pr_read_page r s) xs st1 = Some st'"
      by (auto simp: bind_eq_Some_conv)
    then show ?case using Cons.IH one by metis
  qed simp
  have "[0..<m] = [0..<length ?hs] @ length ?hs # [Suc (length ?hs)..<m]"
    using assms(2) by (metis le0 less_imp_le upt_add_eq_append upt_conv_Cons le_add_diff_inverse)
  then show ?thesis
    using keep[of "[0..<length ?hs]" "(buf, ?hs)"] by (auto simp: pr_read_page_def split: bind_split)
qed

lemma pr_get_shows:
  assumes "pr_wf reg" "pr_sized reg"
  shows "map_option fst (pr_get_region_at_time r s sz reg) = pr_shows reg r s sz"
proof (cases "unat sz div kPageLineSize \<le> length (pr_region_history reg)")
  case True
  then show ?thesis using pr_get_region_spec[OF assms True, of r s] by (auto simp: pr_shows_def)
next
  case False
  then show ?thesis
    using pr_read_short[OF assms(1), of "unat sz div kPageLineSize" r s]
    by (simp add: pr_get_region_at_time_def pr_shows_def)
qed

lemma pr_shows_cong:
  "length (pr_region_history reg) = length (pr_region_history reg') \<Longrightarrow>
    (\<And>i. pr_page reg i r s = pr_page reg' i r' s') \<Longrightarrow> pr_shows reg r s sz = pr_shows reg' r' s' sz"
  by (simp add: pr_shows_def page_or_zero_def[abs_def])

lemma pr_make_branch_spec:
  assumes "pr_wf reg" "\<forall>h\<in>set (pr_region_history reg). fnh_fresh h n" "p < n"
  shows "\<exists>reg'. pr_make_branch p b n reg = Some reg' \<and> pr_wf reg'
    \<and> length (pr_region_history reg') = length (pr_region_history reg)
    \<and> (\<forall>i. pr_page reg' i = tl_branch n p b (pr_page reg i)) \<and> (\<forall>s. pr_writable reg' n s)"
proof -
  let ?hs = "pr_region_history reg"
  let ?R = "\<lambda>h h'. fnh_wf h' \<and> fnh_view h' = tl_branch n p b (fnh_view h) \<and> (\<forall>s. fnh_writable h' n s)"
  have "\<exists>h'. fnh_make_branch p b n h = Some h' \<and> ?R h h'" if "h \<in> set ?hs" for h
  proof -
    have wf: "fnh_wf h" "fnh_fresh h n" using that assms by (auto simp: pr_wf_def)
    obtain k where k: "fnh_make_branch p b n h = Some k" "fnh_wf k" "fnh_view k = tl_branch n p b (fnh_view h)"
      using fnh_make_branch_laws[OF wf assms(3), of b] by blast
    have "fnh_writable k n s" for s using fnh_make_branch_laws[OF wf assms(3), of b s] k(1) by simp
    with k show ?thesis by blast
  qed
  then have "\<exists>hs'. mapM (fnh_make_branch p b n) ?hs = Some hs' \<and> list_all2 ?R ?hs hs'" by (rule mapM_each)
  then obtain hs' where hs': "mapM (fnh_make_branch p b n) ?hs = Some hs'" "list_all2 ?R ?hs hs'" by blast
  have len: "length hs' = length ?hs" using hs'(2) by (simp add: list_all2_lengthD)
  have nth: "?R (?hs ! i) (hs' ! i)" if "i < length ?hs" for i using hs'(2) that by (simp add: list_all2_conv_all_nth)
  have "tl_branch n p b (\<lambda>_ _. None) = (\<lambda>_ _. None :: page_line option)" by (simp add: tl_branch_def fun_eq_iff)
  then have "pr_page (reg \<lparr> pr_region_history := hs' \<rparr>) i = tl_branch n p b (pr_page reg i)" for i
    using nth len by (simp add: pr_page_def)
  then show ?thesis
    using hs'(1) nth len
    by (intro exI[of _ "reg \<lparr> pr_region_history := hs' \<rparr>"])
      (auto simp: pr_make_branch_def pr_wf_def pr_writable_def in_set_conv_nth)
qed

lemma pr_update_sized:
  assumes "pr_sized reg" "pr_update r s g buf reg = Some reg'"
    and "\<And>i. pr_page reg' i = (if i < length buf div kPageLineSize
          then tl_write r s (chunks kPageLineSize buf ! i) (pr_page reg i) else pr_page reg i)"
  shows "pr_sized reg'"
proof -
  have pg: "length d = kPageLineSize" if "pr_page reg' i q t = Some d" for i q t d
    using that pr_sized_page[OF assms(1)] unfolding assms(3)
    by (auto simp: tl_write_def length_chunk split: if_splits)
  have "length d = kPageLineSize" if "i < length (pr_region_history reg')"
      "fnh_view (pr_region_history reg' ! i) q t = Some d" for i q t d
    by (rule pg[of i q t]) (simp add: pr_page_def that)
  then show ?thesis by (auto simp: pr_sized_def in_set_conv_nth)
qed

text \<open>
  What a region is updated with at (r, s) is what it shows at that run's time s or later, as long
  as the buffer is whole pages and below 4 GiB (the reader takes a 32-bit size).
\<close>

lemma pr_round_trip:
  assumes "pr_wf reg" "pr_sized reg" "pr_writable reg r s"
    and "length buf < 2 ^ 32" "kPageLineSize dvd length buf"
  shows "\<exists>reg'. pr_update r s g buf reg = Some reg' \<and> pr_wf reg' \<and> pr_sized reg'
    \<and> (\<forall>s'. s \<le> s' \<longrightarrow> pr_shows reg' r s' (of_nat (length buf)) = Some buf)
    \<and> (\<forall>i q t. \<not> (q = r \<and> s \<le> t) \<longrightarrow> pr_page reg' i q t = pr_page reg i q t)
    \<and> length (pr_region_history reg) \<le> length (pr_region_history reg') \<and> (\<forall>s'. s < s' \<longrightarrow> pr_writable reg' r s')"
proof -
  obtain reg' where reg': "pr_update r s g buf reg = Some reg'" "pr_wf reg'" "\<forall>s'. s < s' \<longrightarrow> pr_writable reg' r s'"
    "length (pr_region_history reg') = max (length (pr_region_history reg)) (length buf div kPageLineSize)"
    "\<And>i. pr_page reg' i = (if i < length buf div kPageLineSize
          then tl_write r s (chunks kPageLineSize buf ! i) (pr_page reg i) else pr_page reg i)"
    using pr_update_spec[OF assms(1,3), of g buf] by blast
  have len: "unat (of_nat (length buf) :: u32) = length buf"
    using assms(4) by (simp add: unat_of_nat)
  have "pr_shows reg' r s' (of_nat (length buf)) = Some buf" if "s \<le> s'" for s'
  proof -
    have "page_or_zero reg' r s' i = chunks kPageLineSize buf ! i" if "i < length buf div kPageLineSize" for i
      using that \<open>s \<le> s'\<close> by (simp add: page_or_zero_def reg'(5) tl_write_def)
    then have "concat (map (page_or_zero reg' r s') [0..<length buf div kPageLineSize]) = concat (chunks kPageLineSize buf)"
      by (intro arg_cong[of _ _ concat] nth_equalityI) auto
    also have "\<dots> = buf" using assms(5) by (simp add: concat_chunks)
    finally show ?thesis using reg'(4) assms(5) by (auto simp: pr_shows_def len)
  qed
  then show ?thesis using reg'(1,2,3) pr_update_sized[OF assms(2) reg'(1,5)] by (auto simp: reg'(4,5) tl_write_def)
qed

lemma mapM_origin: "mapM f xs = Some ys \<Longrightarrow> y \<in> set ys \<Longrightarrow> \<exists>x\<in>set xs. f x = Some y"
  unfolding mapM_iff by (induction rule: list_all2_induct) auto

lemma pr_update_fresh:
  assumes "pr_wf reg" "pr_writable reg r s" "pr_update r s g buf reg = Some reg'" "pr_fresh reg n" "r < n"
  shows "pr_fresh reg' n"
proof -
  let ?hs = "pr_region_history reg" and ?pages = "chunks kPageLineSize buf"
  obtain common extra where parts: "mapM (\<lambda>(h, page). fnh_update r s g page h) (zip ?hs ?pages) = Some common"
    "mapM (fnh_first r s g) (drop (length ?hs) ?pages) = Some extra"
    "pr_region_history reg' = common @ drop (length ?pages) ?hs @ extra"
    using assms(3) by (auto simp: pr_update_def Let_def split: bind_splits)
  have hs: "fnh_wf h" "fnh_writable h r s" "fnh_fresh h n" if "h \<in> set ?hs" for h
    using that assms(1,2,4) by (auto simp: pr_wf_def pr_writable_def pr_fresh_def)
  have "fnh_fresh y n" if y: "y \<in> set common" for y
  proof -
    obtain h page where "h \<in> set ?hs" "fnh_update r s g page h = Some y"
      using mapM_origin[OF parts(1) y] by (auto dest: set_zip_leftD)
    then show ?thesis using fnh_update_fresh[OF hs(1,2)] hs(3) assms(5) by blast
  qed
  moreover have "fnh_fresh y n" if "y \<in> set extra" for y
    using mapM_origin[OF parts(2) that] assms(5) by (auto simp: fnh_first_state fnh_fresh_def)
  ultimately show ?thesis using hs(3) by (auto simp: pr_fresh_def parts(3) dest: in_set_dropD)
qed

lemma pr_make_branch_fresh:
  assumes "pr_wf reg" "pr_make_branch p b n reg = Some reg'" "pr_fresh reg k" "k \<noteq> n"
  shows "pr_fresh reg' k"
proof -
  obtain hs where hs: "mapM (fnh_make_branch p b n) (pr_region_history reg) = Some hs" "pr_region_history reg' = hs"
    using assms(2) by (auto simp: pr_make_branch_def split: bind_splits)
  have "fnh_fresh y k" if "y \<in> set hs" for y
    using mapM_origin[OF hs(1) that] fnh_make_branch_fresh assms(1,3,4) by (auto simp: pr_wf_def pr_fresh_def)
  then show ?thesis by (simp add: pr_fresh_def hs(2))
qed

end
