(* ===== verification/Region_History.thy ===== *)
theory Region_History
  imports Machine Execution_Tree Persistent_Region
begin

text \<open>
  The memory histories of \<open>src/src/utils/memory/\<close>: \<open>RegionHistory\<close> (a tree of region states beside
  the page histories of the region), \<open>AllocationRegion\<close> (the regions of one allocation) and
  \<open>ProcessMemoryHistory\<close> (all allocations).  Reads move the cursors of the page histories, so every
  read returns the history as well.
\<close>

record region_info =
  ri_current_mbi :: mbi
  ri_current_memory :: "byte list"

record region_hist =
  rh_base_address :: addr
  rh_mbi_history :: "mbi etree"
  rh_memory_history :: persistent_region

definition rh_new :: "mbi \<Rightarrow> byte list \<Rightarrow> u32 \<Rightarrow> u32 \<Rightarrow> u64 \<Rightarrow> region_hist option" where
  "rh_new m region_buf run_id run_seq global_seq =
     do { mem \<leftarrow> pr_update run_id run_seq global_seq region_buf (pr_new run_id run_seq global_seq);
          Some \<lparr> rh_base_address = mbi_BaseAddress m,
                 rh_mbi_history = et_new mbi_zero m run_id run_seq global_seq,
                 rh_memory_history = mem \<rparr> }"

text \<open>\<open>RegionSize\<close> is 64 bits and is cut to the 32 bits of the reader's parameter.\<close>

definition rh_get_current_region_info :: "u32 \<Rightarrow> u32 \<Rightarrow> region_hist \<Rightarrow> (region_info option \<times> region_hist) option" where
  "rh_get_current_region_info r s h =
     do { state \<leftarrow> et_get_state r s (rh_mbi_history h);
          (case state of
             None \<Rightarrow> Some (None, h)
           | Some m \<Rightarrow>
               if mbi_State m = MEM_COMMIT then
                 do { (mem, mh) \<leftarrow> pr_get_region_at_time r s (ucast (mbi_RegionSize m)) (rh_memory_history h);
                      Some (Some \<lparr> ri_current_mbi = m, ri_current_memory = mem \<rparr>, h \<lparr> rh_memory_history := mh \<rparr>) }
               else Some (Some \<lparr> ri_current_mbi = m, ri_current_memory = [] \<rparr>, h)) }"

definition rh_update :: "u32 \<Rightarrow> u32 \<Rightarrow> u64 \<Rightarrow> mbi \<Rightarrow> byte list \<Rightarrow> region_hist \<Rightarrow> region_hist option" where
  "rh_update run_id run_seq global_seq m region_buf h =
     do { mem \<leftarrow> pr_update run_id run_seq global_seq region_buf (rh_memory_history h);
          Some (h \<lparr> rh_memory_history := mem,
                    rh_mbi_history := et_add_child m run_id run_seq global_seq (rh_mbi_history h) \<rparr>) }"

definition rh_make_branch :: "u32 \<Rightarrow> u32 \<Rightarrow> u32 \<Rightarrow> region_hist \<Rightarrow> region_hist option" where
  "rh_make_branch from_run_id from_run_sequence to_run_id h =
     do { mem \<leftarrow> pr_make_branch from_run_id from_run_sequence to_run_id (rh_memory_history h);
          tree \<leftarrow> et_revert_to_state from_run_id from_run_sequence (ucast to_run_id) (rh_mbi_history h);
          Some (h \<lparr> rh_memory_history := mem, rh_mbi_history := tree \<rparr>) }"

section \<open>\<open>AllocationRegion\<close>\<close>

record allocation_region =
  ar_allocation_base :: addr
  ar_regions_history :: "region_hist list"
  ar_seen_base_addresses :: "addr list"

definition ar_new :: "mbi \<Rightarrow> byte list \<Rightarrow> u32 \<Rightarrow> u32 \<Rightarrow> u64 \<Rightarrow> allocation_region option" where
  "ar_new m region_memory run_id run_seq global_seq =
     do { initial_region \<leftarrow> rh_new m region_memory run_id run_seq global_seq;
          Some \<lparr> ar_allocation_base = mbi_AllocationBase m, ar_regions_history = [initial_region],
                 ar_seen_base_addresses = [] \<rparr> }"

fun find_index :: "('a \<Rightarrow> bool) \<Rightarrow> 'a list \<Rightarrow> nat option" where
  "find_index P [] = None"
| "find_index P (x # xs) = (if P x then Some 0 else map_option Suc (find_index P xs))"

definition ar_update :: "mbi \<Rightarrow> byte list \<Rightarrow> u32 \<Rightarrow> u32 \<Rightarrow> u64 \<Rightarrow> allocation_region \<Rightarrow> allocation_region option" where
  "ar_update m region_memory run_id run_seq global_seq a0 =
     (let a = a0 \<lparr> ar_seen_base_addresses := ar_seen_base_addresses a0 @ [mbi_BaseAddress m] \<rparr>;
          hs = ar_regions_history a
      in case find_index (\<lambda>h. rh_base_address h = mbi_BaseAddress m) hs of
           None \<Rightarrow>
             do { new_history \<leftarrow> rh_new m region_memory run_id run_seq global_seq;
                  Some (a \<lparr> ar_regions_history := hs @ [new_history] \<rparr>) }
         | Some index \<Rightarrow>
             do { h \<leftarrow> rh_update run_id run_seq global_seq m region_memory (hs ! index);
                  Some (a \<lparr> ar_regions_history := hs[index := h] \<rparr>) })"

text \<open>A loop over a vector that may rewrite its elements and collects results.\<close>

primrec collectM :: "('a \<Rightarrow> ('b option \<times> 'a) option) \<Rightarrow> 'a list \<Rightarrow> ('b list \<times> 'a list) option" where
  "collectM f [] = Some ([], [])"
| "collectM f (x # xs) =
     do { (r, x') \<leftarrow> f x;
          (rs, xs') \<leftarrow> collectM f xs;
          Some (case r of None \<Rightarrow> rs | Some y \<Rightarrow> y # rs, x' # xs') }"

definition ar_get_current_regions :: "u32 \<Rightarrow> u32 \<Rightarrow> allocation_region \<Rightarrow> (region_info list \<times> allocation_region) option" where
  "ar_get_current_regions r s a =
     do { (regions, hs) \<leftarrow> collectM (\<lambda>h. do {
              (info, h') \<leftarrow> rh_get_current_region_info r s h;
              Some (case info of
                      None \<Rightarrow> None
                    | Some i \<Rightarrow> if mbi_State (ri_current_mbi i) = MEM_FREE then None else Some i, h') })
            (ar_regions_history a);
          Some (regions, a \<lparr> ar_regions_history := hs \<rparr>) }"

definition ar_update_stale_regions :: "u32 \<Rightarrow> u32 \<Rightarrow> u64 \<Rightarrow> allocation_region \<Rightarrow> allocation_region option" where
  "ar_update_stale_regions run_id run_seq global_seq a =
     (if length (ar_regions_history a) = length (ar_seen_base_addresses a)
      then Some (a \<lparr> ar_seen_base_addresses := [] \<rparr>)
      else do { hs \<leftarrow> mapM (\<lambda>h. if rh_base_address h \<in> set (ar_seen_base_addresses a) then Some h
                      else rh_update run_id run_seq global_seq (mbi_zero \<lparr> mbi_State := MEM_FREE \<rparr>) [] h)
                  (ar_regions_history a);
                Some (a \<lparr> ar_regions_history := hs, ar_seen_base_addresses := [] \<rparr>) })"

definition ar_make_branch :: "u32 \<Rightarrow> u32 \<Rightarrow> u32 \<Rightarrow> allocation_region \<Rightarrow> allocation_region option" where
  "ar_make_branch from_run_id from_run_seq to_run_id a =
     do { hs \<leftarrow> mapM (rh_make_branch from_run_id from_run_seq to_run_id) (ar_regions_history a);
          Some (a \<lparr> ar_regions_history := hs \<rparr>) }"

definition ar_is_allocation_freed :: "u32 \<Rightarrow> u32 \<Rightarrow> allocation_region \<Rightarrow> (bool \<times> allocation_region) option" where
  "ar_is_allocation_freed r s a =
     do { h \<leftarrow> list_at (ar_regions_history a) 0;
          (info, h') \<leftarrow> rh_get_current_region_info r s h;
          Some (case info of None \<Rightarrow> True | Some i \<Rightarrow> mbi_State (ri_current_mbi i) = MEM_FREE,
                a \<lparr> ar_regions_history := (ar_regions_history a)[0 := h'] \<rparr>) }"

section \<open>\<open>ProcessMemoryHistory\<close>\<close>

text \<open>
  \<open>process_history_\<close> is an \<open>std::unordered_map\<close>: an association list in its iteration order, which
  the standard leaves open; a new key is put at the end.
\<close>

record allocation_info =
  ai_allocation_base :: addr
  ai_all_regions :: "region_info list"

type_synonym process_memory_history = "(addr \<times> allocation_region) list"

definition pmh_get_current_allocation_regions ::
    "u32 \<Rightarrow> u32 \<Rightarrow> process_memory_history \<Rightarrow> (allocation_info list \<times> process_memory_history) option" where
  "pmh_get_current_allocation_regions r s =
     collectM (\<lambda>(alloc_base, a). do {
       (freed, a) \<leftarrow> ar_is_allocation_freed r s a;
       if freed then Some (None, (alloc_base, a))
       else do { (regions, a) \<leftarrow> ar_get_current_regions r s a;
                 Some (Some \<lparr> ai_allocation_base = alloc_base, ai_all_regions = regions \<rparr>, (alloc_base, a)) } })"

definition pmh_update ::
    "mbi \<Rightarrow> byte list \<Rightarrow> u32 \<Rightarrow> u32 \<Rightarrow> u64 \<Rightarrow> process_memory_history \<Rightarrow> process_memory_history option" where
  "pmh_update m region_memory run_id run_seq global_seq h =
     (case find_index (\<lambda>(k, a). k = mbi_AllocationBase m) h of
        None \<Rightarrow> do { a \<leftarrow> ar_new m region_memory run_id run_seq global_seq;
                     Some (h @ [(mbi_AllocationBase m, a)]) }
      | Some i \<Rightarrow> do { a \<leftarrow> ar_update m region_memory run_id run_seq global_seq (snd (h ! i));
                       Some (h[i := (mbi_AllocationBase m, a)]) })"

definition pmh_update_stale_regions ::
    "u32 \<Rightarrow> u32 \<Rightarrow> u64 \<Rightarrow> process_memory_history \<Rightarrow> process_memory_history option" where
  "pmh_update_stale_regions run_id run_seq global_seq =
     mapM (\<lambda>(k, a). map_option (Pair k) (ar_update_stale_regions run_id run_seq global_seq a))"

definition pmh_make_branch :: "u32 \<Rightarrow> u32 \<Rightarrow> u32 \<Rightarrow> process_memory_history \<Rightarrow> process_memory_history option" where
  "pmh_make_branch from_run_id from_run_seq to_run_id =
     mapM (\<lambda>(k, a). map_option (Pair k) (ar_make_branch from_run_id from_run_seq to_run_id a))"

section \<open>What a region history shows\<close>

text \<open>
  The tree of states and each page history are kept side by side: they are updated and branched
  together, so they stay defined at the same points.
\<close>

interpretation state_and_page: history_pair et_wf et_view "\<lambda>r s g d. et_add_child d r s g" et_branch et_writable et_fresh
  fnh_wf fnh_view "\<lambda>r s g d h. the (fnh_update r s g d h)" "\<lambda>n p b h. the (fnh_make_branch p b n h)"
  fnh_writable fnh_fresh
  by unfold_locales

definition rh_wf :: "region_hist \<Rightarrow> bool" where
  "rh_wf h = (et_wf (rh_mbi_history h) \<and> pr_wf (rh_memory_history h) \<and> pr_sized (rh_memory_history h))"

definition rh_writable :: "region_hist \<Rightarrow> u32 \<Rightarrow> u32 \<Rightarrow> bool" where
  "rh_writable h r s = (et_writable (rh_mbi_history h) r s \<and> pr_writable (rh_memory_history h) r s)"

definition rh_fresh :: "region_hist \<Rightarrow> u32 \<Rightarrow> bool" where
  "rh_fresh h n = (et_fresh (rh_mbi_history h) n \<and> pr_fresh (rh_memory_history h) n)"

text \<open>The answer of \<open>get_current_region_info\<close> without the moves of the cursors.\<close>

definition rh_shows :: "region_hist \<Rightarrow> u32 \<Rightarrow> u32 \<Rightarrow> region_info option option" where
  "rh_shows h r s = map_option fst (rh_get_current_region_info r s h)"

lemma et_get_state_view: "et_wf t \<Longrightarrow> et_get_state r s t = Some (et_view t r s)"
  using et_find_spec[of t r s] et_view_result(2) et_view_result(1) by metis

lemma rh_shows_eq:
  assumes "rh_wf h"
  shows "rh_shows h r s = (case et_view (rh_mbi_history h) r s of
      None \<Rightarrow> Some None
    | Some m \<Rightarrow> if mbi_State m = MEM_COMMIT
        then map_option (\<lambda>mem. Some \<lparr> ri_current_mbi = m, ri_current_memory = mem \<rparr>)
               (pr_shows (rh_memory_history h) r s (ucast (mbi_RegionSize m)))
        else Some (Some \<lparr> ri_current_mbi = m, ri_current_memory = [] \<rparr>))"
proof -
  have wf: "et_wf (rh_mbi_history h)" "pr_wf (rh_memory_history h)" "pr_sized (rh_memory_history h)"
    using assms by (simp_all add: rh_wf_def)
  show ?thesis
    unfolding pr_get_shows[OF wf(2,3), symmetric]
    by (auto simp: rh_shows_def rh_get_current_region_info_def et_get_state_view[OF wf(1)] map_option_case
        split: option.split bind_split)
qed

text \<open>A reserved region as it is first seen: a state and no pages.\<close>

definition reserved_region :: "mbi \<Rightarrow> u32 \<Rightarrow> region_hist" where
  "reserved_region m r = \<lparr> rh_base_address = mbi_BaseAddress m, rh_mbi_history = et_new mbi_zero m r 0 0,
     rh_memory_history = pr_new r 0 0 \<rparr>"

lemma reserved_region_new: "rh_new m [] r 0 0 = Some (reserved_region m r)"
  by (simp add: rh_new_def reserved_region_def pr_update_def pr_new_def chunks_def)

lemma reserved_region_wf:
  "rh_wf (reserved_region m r)" "0 < s \<Longrightarrow> rh_writable (reserved_region m r) r s"
  "r < n \<Longrightarrow> rh_fresh (reserved_region m r) n"
proof -
  show "rh_wf (reserved_region m r)"
    by (simp add: rh_wf_def reserved_region_def et_new_laws(1) pr_wf_def pr_sized_def pr_new_def)
  show "0 < s \<Longrightarrow> rh_writable (reserved_region m r) r s"
    using et_new_laws(3)[of 0 s mbi_zero m r 0]
    by (simp add: rh_writable_def reserved_region_def pr_writable_def pr_new_def)
  show "r < n \<Longrightarrow> rh_fresh (reserved_region m r) n"
    by (auto simp: rh_fresh_def pr_fresh_def reserved_region_def pr_new_def et_fresh_def nodes_fresh_def et_new_def
        enode_new_def en_keys_def nth_Cons split: nat.split)
qed

text \<open>
  The bytes that belong to a state: those of a committed region, in whole pages and below 4 GiB
  (\<open>RegionSize\<close> is cut to 32 bits on the way to the reader), and none for any other region.
\<close>

definition buffer_ok :: "mbi \<Rightarrow> byte list \<Rightarrow> bool" where
  "buffer_ok m buf =
     (if mbi_State m = MEM_COMMIT
      then unat (mbi_RegionSize m) = length buf \<and> length buf < 2 ^ 32 \<and> 4096 dvd length buf else buf = [])"

lemma rh_shows_latest:
  assumes "rh_wf h" "et_view (rh_mbi_history h) r s = Some m" "buffer_ok m buf"
    and "pr_shows (rh_memory_history h) r s (of_nat (length buf)) = Some buf"
  shows "rh_shows h r s = Some (Some \<lparr> ri_current_mbi = m, ri_current_memory = buf \<rparr>)"
proof (cases "mbi_State m = MEM_COMMIT")
  case True
  then have "ucast (mbi_RegionSize m) = (of_nat (length buf) :: u32)"
    using assms(3) unfolding buffer_ok_def by (metis of_nat_unat)
  then show ?thesis using True assms(4) by (simp add: rh_shows_eq[OF assms(1)] assms(2))
next
  case False
  then show ?thesis using assms(3) by (simp add: rh_shows_eq[OF assms(1)] assms(2) buffer_ok_def)
qed

lemma rh_shows_frame:
  assumes "rh_wf h" "rh_wf h'" "et_view (rh_mbi_history h') q t = et_view (rh_mbi_history h) q t"
    and "\<And>i. pr_page (rh_memory_history h') i q t = pr_page (rh_memory_history h) i q t"
    and "length (pr_region_history (rh_memory_history h)) \<le> length (pr_region_history (rh_memory_history h'))"
    and "rh_shows h q t \<noteq> None"
  shows "rh_shows h' q t = rh_shows h q t"
proof -
  have "pr_shows (rh_memory_history h') q t sz = pr_shows (rh_memory_history h) q t sz"
    if "pr_shows (rh_memory_history h) q t sz \<noteq> None" for sz
    using that assms(4,5) by (auto simp: pr_shows_def page_or_zero_def[abs_def] split: if_splits)
  then show ?thesis
    using assms(6) by (auto simp: rh_shows_eq[OF assms(1)] rh_shows_eq[OF assms(2)] assms(3) split: option.splits if_splits)
qed

lemma rh_update_spec:
  assumes "rh_wf h" "rh_writable h r s" "buffer_ok m buf"
  shows "\<exists>h'. rh_update r s g m buf h = Some h' \<and> rh_wf h' \<and> rh_base_address h' = rh_base_address h
    \<and> (\<forall>s'. s \<le> s' \<longrightarrow> rh_shows h' r s' = Some (Some \<lparr> ri_current_mbi = m, ri_current_memory = buf \<rparr>))
    \<and> (\<forall>q t. \<not> (q = r \<and> s \<le> t) \<longrightarrow> et_view (rh_mbi_history h') q t = et_view (rh_mbi_history h) q t)
    \<and> (\<forall>q t. \<not> (q = r \<and> s \<le> t) \<longrightarrow> rh_shows h q t \<noteq> None \<longrightarrow> rh_shows h' q t = rh_shows h q t)
    \<and> (\<forall>s'. s < s' \<longrightarrow> rh_writable h' r s')"
proof -
  have wf: "et_wf (rh_mbi_history h)" "pr_wf (rh_memory_history h)" "pr_sized (rh_memory_history h)"
    and w: "et_writable (rh_mbi_history h) r s" "pr_writable (rh_memory_history h) r s"
    using assms by (simp_all add: rh_wf_def rh_writable_def)
  have buf: "length buf < 2 ^ 32" "kPageLineSize dvd length buf" using assms(3) by (auto simp: buffer_ok_def split: if_splits)
  obtain mem where mem: "pr_update r s g buf (rh_memory_history h) = Some mem" "pr_wf mem" "pr_sized mem"
    "\<forall>s'. s \<le> s' \<longrightarrow> pr_shows mem r s' (of_nat (length buf)) = Some buf"
    "\<forall>i q t. \<not> (q = r \<and> s \<le> t) \<longrightarrow> pr_page mem i q t = pr_page (rh_memory_history h) i q t"
    "length (pr_region_history (rh_memory_history h)) \<le> length (pr_region_history mem)" "\<forall>s'. s < s' \<longrightarrow> pr_writable mem r s'"
    using pr_round_trip[OF wf(2,3) w(2) buf, of g] by blast
  let ?h' = "h \<lparr> rh_memory_history := mem, rh_mbi_history := et_add_child m r s g (rh_mbi_history h) \<rparr>"
  have upd: "rh_update r s g m buf h = Some ?h'" by (simp add: rh_update_def mem(1))
  have wf': "rh_wf ?h'" using et.invar_write[OF wf(1) w(1)] mem(2,3) by (simp add: rh_wf_def)
  have view: "et_view (et_add_child m r s g (rh_mbi_history h)) = tl_write r s m (et_view (rh_mbi_history h))"
    by (rule et.lookup_write[OF wf(1) w(1)])
  have "rh_shows ?h' r s' = Some (Some \<lparr> ri_current_mbi = m, ri_current_memory = buf \<rparr>)" if "s \<le> s'" for s'
    using that mem(4) by (intro rh_shows_latest[OF wf' _ assms(3)]) (simp_all add: view tl_write_def)
  moreover have "rh_shows ?h' q t = rh_shows h q t" if "\<not> (q = r \<and> s \<le> t)" "rh_shows h q t \<noteq> None" for q t
    using that mem(5,6) by (intro rh_shows_frame[OF assms(1) wf']) (auto simp: view tl_write_def)
  moreover have "rh_writable ?h' r s'" if "s < s'" for s'
    using that mem(7) et.writable_write[OF wf(1) w(1)] by (simp add: rh_writable_def)
  ultimately show ?thesis using upd view wf' by (intro exI[of _ ?h']) (auto simp: tl_write_def)
qed

lemma region_update_spec:
  assumes "rh_wf h" "rh_writable h r s" "mbi_State m = MEM_COMMIT"
    and "unat (mbi_RegionSize m) = length buf" "length buf < 2 ^ 32" "4096 dvd length buf"
  shows "\<exists>h'. rh_update r s g m buf h = Some h' \<and> rh_wf h'
    \<and> (\<forall>s'. s \<le> s' \<longrightarrow> rh_shows h' r s' = Some (Some \<lparr> ri_current_mbi = m, ri_current_memory = buf \<rparr>))
    \<and> (\<forall>q t. \<not> (q = r \<and> s \<le> t) \<longrightarrow> et_view (rh_mbi_history h') q t = et_view (rh_mbi_history h) q t)"
proof -
  have "buffer_ok m buf" using assms(3-) by (simp add: buffer_ok_def)
  from rh_update_spec[OF assms(1,2) this] show ?thesis by blast
qed

text \<open>
  C22: A region that is updated with a committed state and its bytes at (r, s) is given back with
  exactly that state and those bytes by get_current_region_info at (r, s) and at every later point
  of the run, when the buffer is RegionSize bytes, whole pages, and below 4 GiB (RegionSize is cut
  to 32 bits on the way to the reader); the other runs and the earlier points keep their states.
\<close>

theorem region_update_reads_back:
  assumes "rh_wf h" "rh_writable h r s" "mbi_State m = MEM_COMMIT"
    and "unat (mbi_RegionSize m) = length buf" "length buf < 2 ^ 32" "4096 dvd length buf"
  shows "\<exists>h'. rh_update r s g m buf h = Some h'
    \<and> (\<forall>s'. s \<le> s' \<longrightarrow> rh_shows h' r s' = Some (Some \<lparr> ri_current_mbi = m, ri_current_memory = buf \<rparr>))
    \<and> (\<forall>q t. \<not> (q = r \<and> s \<le> t) \<longrightarrow> et_view (rh_mbi_history h') q t = et_view (rh_mbi_history h) q t)"
  using region_update_spec[OF assms] by blast

theorem region_update_reads_back_witness:
  "let m = mbi_zero \<lparr> mbi_State := MEM_COMMIT, mbi_RegionSize := 4096 \<rparr>; buf = replicate 4096 65
   in \<exists>h'. rh_update 1 5 3 m buf (reserved_region mbi_zero 1) = Some h'
     \<and> rh_shows h' 1 6 = Some (Some \<lparr> ri_current_mbi = m, ri_current_memory = buf \<rparr>)"
proof -
  let ?m = "mbi_zero \<lparr> mbi_State := MEM_COMMIT, mbi_RegionSize := 4096 \<rparr>" and ?buf = "replicate 4096 65"
  have "\<exists>h'. rh_update 1 5 3 ?m ?buf (reserved_region mbi_zero 1) = Some h'
    \<and> (\<forall>s'. 5 \<le> s' \<longrightarrow> rh_shows h' 1 s' = Some (Some \<lparr> ri_current_mbi = ?m, ri_current_memory = ?buf \<rparr>))
    \<and> (\<forall>q t. \<not> (q = 1 \<and> 5 \<le> t) \<longrightarrow> et_view (rh_mbi_history h') q t
          = et_view (rh_mbi_history (reserved_region mbi_zero 1)) q t)"
    by (rule region_update_reads_back) (simp_all add: reserved_region_wf)
  then obtain h' where h': "rh_update 1 5 3 ?m ?buf (reserved_region mbi_zero 1) = Some h'"
    "\<And>s'. 5 \<le> s' \<Longrightarrow> rh_shows h' 1 s' = Some (Some \<lparr> ri_current_mbi = ?m, ri_current_memory = ?buf \<rparr>)" by blast
  have "rh_shows h' 1 6 = Some (Some \<lparr> ri_current_mbi = ?m, ri_current_memory = ?buf \<rparr>)"
    by (rule h'(2)) (simp add: word_le_nat_alt)
  with h'(1) show ?thesis unfolding Let_def by blast
qed

lemma rh_branch_spec:
  assumes "rh_wf h" "rh_fresh h n" "p < n"
  shows "\<exists>h'. rh_make_branch p b n h = Some h' \<and> rh_wf h'
    \<and> (\<forall>r s. rh_shows h' r s = (if r = n then rh_shows h p b else rh_shows h r s))
    \<and> (\<forall>s. rh_writable h' n s)"
proof -
  have wf: "et_wf (rh_mbi_history h)" "pr_wf (rh_memory_history h)" "pr_sized (rh_memory_history h)"
    and fr: "et_fresh (rh_mbi_history h) n" "\<forall>p\<in>set (pr_region_history (rh_memory_history h)). fnh_fresh p n"
    using assms by (simp_all add: rh_wf_def rh_fresh_def pr_fresh_def)
  obtain mem where mem: "pr_make_branch p b n (rh_memory_history h) = Some mem" "pr_wf mem"
    "length (pr_region_history mem) = length (pr_region_history (rh_memory_history h))"
    "\<And>i. pr_page mem i = tl_branch n p b (pr_page (rh_memory_history h) i)" "\<And>s. pr_writable mem n s"
    using pr_make_branch_spec[OF wf(2) fr(2) assms(3), of b] by blast
  obtain t where t: "et_revert_to_state p b (ucast n) (rh_mbi_history h) = Some t" "et_wf t"
    "et_view t = tl_branch n p b (et_view (rh_mbi_history h))"
    using et_revert_laws[OF wf(1) fr(1) assms(3), of b] by blast
  have tw: "et_writable t n s" for s
    using et_revert_laws[OF wf(1) fr(1) assms(3), of b s] t(1) by auto
  let ?h' = "h \<lparr> rh_memory_history := mem, rh_mbi_history := t \<rparr>"
  have "length d = kPageLineSize" if "pr_page mem i r s = Some d" for i r s d
    using that pr_sized_page[OF wf(3)] by (auto simp: mem(4) tl_branch_def split: if_splits)
  then have "length d = kPageLineSize" if "i < length (pr_region_history mem)"
      "fnh_view (pr_region_history mem ! i) r s = Some d" for i r s d
    using that by (metis (no_types, lifting) pr_page_def)
  then have sized: "pr_sized mem" by (auto simp: pr_sized_def in_set_conv_nth)
  have wf': "rh_wf ?h'" using t(2) mem(2) sized by (simp add: rh_wf_def)
  have "pr_shows mem r s sz = (if r = n then pr_shows (rh_memory_history h) p b sz
      else pr_shows (rh_memory_history h) r s sz)" for r s sz
    using mem(3) by (auto simp: mem(4) tl_branch_def intro: pr_shows_cong)
  then have "rh_shows ?h' r s = (if r = n then rh_shows h p b else rh_shows h r s)" for r s
    by (simp add: rh_shows_eq[OF wf'] rh_shows_eq[OF assms(1)] t(3) tl_branch_def split: option.split)
  moreover have "rh_writable ?h' n s" for s using tw mem(5) by (simp add: rh_writable_def)
  ultimately show ?thesis using mem(1) t(1) wf' by (intro exI[of _ ?h']) (simp add: rh_make_branch_def)
qed

text \<open>
  C4: Branching a region history is time travel: right after make_branch(p, b, n) the new run shows
  at every sequence what (p, b) showed, state and bytes, every other point shows what it showed,
  and the new run may be written from any sequence on.
\<close>

theorem region_branch_shows_origin:
  assumes "rh_wf h" "rh_fresh h n" "p < n"
  shows "\<exists>h'. rh_make_branch p b n h = Some h' \<and> rh_wf h'
    \<and> (\<forall>r s. rh_shows h' r s = (if r = n then rh_shows h p b else rh_shows h r s))
    \<and> (\<forall>s. rh_writable h' n s)"
  by (rule rh_branch_spec[OF assms])

theorem region_branch_shows_origin_witness:
  "\<exists>h'. rh_make_branch 1 4 2 (reserved_region (mbi_zero \<lparr> mbi_State := MEM_RESERVE \<rparr>) 1) = Some h'
    \<and> rh_shows h' 2 0 = rh_shows (reserved_region (mbi_zero \<lparr> mbi_State := MEM_RESERVE \<rparr>) 1) 1 4"
proof -
  let ?h = "reserved_region (mbi_zero \<lparr> mbi_State := MEM_RESERVE \<rparr>) 1"
  have "rh_fresh ?h 2" by (rule reserved_region_wf(3)) simp
  from region_branch_shows_origin[OF reserved_region_wf(1) this, of 1 4] show ?thesis by auto
qed

section \<open>Queries do not change what is shown\<close>

lemma pr_same_laws:
  assumes "pr_same (pr_region_history p) (pr_region_history p')" "pr_sized p"
  shows "pr_wf p'" "pr_sized p'" "pr_shows p' r s sz = pr_shows p r s sz" "pr_fresh p' n = pr_fresh p n"
proof -
  have all: "\<And>i. i < length (pr_region_history p) \<Longrightarrow> fnh_wf (pr_region_history p' ! i)
      \<and> fnh_view (pr_region_history p' ! i) = fnh_view (pr_region_history p ! i)
      \<and> fnh_fresh (pr_region_history p' ! i) = fnh_fresh (pr_region_history p ! i)"
    and len: "length (pr_region_history p') = length (pr_region_history p)"
    using assms(1) by (auto simp: pr_same_def list_all2_conv_all_nth)
  show "pr_wf p'" using all len by (auto simp: pr_wf_def in_set_conv_nth)
  show "pr_fresh p' n = pr_fresh p n" using all len by (simp add: pr_fresh_def all_set_conv_all_nth)
  have "length d = kPageLineSize" if "i < length (pr_region_history p')" "fnh_view (pr_region_history p' ! i) r s = Some d"
    for i r s d
  proof -
    have i: "i < length (pr_region_history p)" using that(1) len by simp
    then show ?thesis using assms(2) that(2) all[OF i] nth_mem[OF i] unfolding pr_sized_def by metis
  qed
  then show "pr_sized p'" by (auto simp: pr_sized_def in_set_conv_nth)
  show "pr_shows p' r s sz = pr_shows p r s sz"
    using all len by (intro pr_shows_cong) (auto simp: pr_page_def)
qed

lemma pr_get_keeps:
  assumes "pr_wf p" "pr_sized p" "pr_get_region_at_time r s sz p = Some (mem, p')"
  shows "pr_same (pr_region_history p) (pr_region_history p')"
proof -
  have "pr_shows p r s sz \<noteq> None" unfolding pr_get_shows[OF assms(1,2), symmetric] assms(3) by simp
  then have "unat sz div kPageLineSize \<le> length (pr_region_history p)" by (auto simp: pr_shows_def split: if_splits)
  from pr_get_region_spec[OF assms(1,2) this, of r s] assms(3) show ?thesis by auto
qed

text \<open>Two histories of a region that show the same everywhere.\<close>

definition rh_same :: "region_hist \<Rightarrow> region_hist \<Rightarrow> bool" where
  "rh_same h h' = (rh_wf h' \<and> rh_base_address h' = rh_base_address h \<and> (\<forall>r s. rh_shows h' r s = rh_shows h r s)
     \<and> (\<forall>n. rh_fresh h' n = rh_fresh h n))"

lemma rh_same_refl: "rh_wf h \<Longrightarrow> rh_same h h"
  by (simp add: rh_same_def)

lemma rh_same_trans: "rh_same h h' \<Longrightarrow> rh_same h' h'' \<Longrightarrow> rh_same h h''"
  by (simp add: rh_same_def)

lemma rh_get_keeps:
  assumes "rh_wf h" "rh_get_current_region_info r s h = Some (info, h')"
  shows "rh_same h h'"
proof -
  have wf: "et_wf (rh_mbi_history h)" "pr_wf (rh_memory_history h)" "pr_sized (rh_memory_history h)"
    using assms(1) by (simp_all add: rh_wf_def)
  have "h' = h \<or> (\<exists>(m :: mbi) mem p. h' = h \<lparr> rh_memory_history := p \<rparr> \<and>
      pr_get_region_at_time r s (ucast (mbi_RegionSize m)) (rh_memory_history h) = Some (mem, p))"
  proof (cases "\<exists>m. et_view (rh_mbi_history h) r s = Some m \<and> mbi_State m = MEM_COMMIT")
    case True
    then obtain m where m: "et_view (rh_mbi_history h) r s = Some m" "mbi_State m = MEM_COMMIT" by blast
    then obtain mem p where "pr_get_region_at_time r s (ucast (mbi_RegionSize m)) (rh_memory_history h) = Some (mem, p)"
      "h' = h \<lparr> rh_memory_history := p \<rparr>"
      using assms(2) by (auto simp: rh_get_current_region_info_def et_get_state_view[OF wf(1)] bind_eq_Some_conv)
    then show ?thesis by blast
  next
    case False
    then show ?thesis
      using assms(2) by (auto simp: rh_get_current_region_info_def et_get_state_view[OF wf(1)] split: option.splits)
  qed
  then consider "h' = h" | m :: mbi and mem p where "h' = h \<lparr> rh_memory_history := p \<rparr>"
    "pr_get_region_at_time r s (ucast (mbi_RegionSize m)) (rh_memory_history h) = Some (mem, p)" by blast
  then show ?thesis
  proof cases
    case 1
    then show ?thesis using assms(1) by (simp add: rh_same_refl)
  next
    case 2
    have same: "pr_same (pr_region_history (rh_memory_history h)) (pr_region_history p)"
      by (rule pr_get_keeps[OF wf(2,3) 2(2)])
    have wf': "rh_wf h'" using wf(1) pr_same_laws(1,2)[OF same wf(3)] by (simp add: rh_wf_def 2(1))
    have "rh_shows h' q t = rh_shows h q t" for q t
      unfolding rh_shows_eq[OF wf'] rh_shows_eq[OF assms(1)]
      by (simp add: 2(1) pr_same_laws(3)[OF same wf(3)] split: option.split)
    moreover have "rh_fresh h' n = rh_fresh h n" for n by (simp add: rh_fresh_def 2(1) pr_same_laws(4)[OF same wf(3)])
    ultimately show ?thesis using wf' by (simp add: rh_same_def 2(1))
  qed
qed

lemma rh_get_total:
  assumes "rh_wf h" "rh_shows h r s = Some info"
  shows "\<exists>h'. rh_get_current_region_info r s h = Some (info, h') \<and> rh_same h h'"
  using assms rh_get_keeps[OF assms(1)] by (auto simp: rh_shows_def)

lemma collectM_each:
  assumes "\<And>x. x \<in> set xs \<Longrightarrow> \<exists>x'. f x = Some (g x, x') \<and> R x x'"
  shows "\<exists>xs'. collectM f xs = Some (List.map_filter g xs, xs') \<and> list_all2 R xs xs'"
  using assms
proof (induction xs)
  case (Cons x xs)
  obtain x' where "f x = Some (g x, x')" "R x x'" using Cons.prems by auto
  moreover obtain xs' where "collectM f xs = Some (List.map_filter g xs, xs')" "list_all2 R xs xs'" using Cons by auto
  ultimately show ?case by (auto simp: map_filter_simps split: option.split)
qed (simp add: map_filter_simps)

text \<open>What an allocation and the whole history show at a point.\<close>

definition live_info :: "u32 \<Rightarrow> u32 \<Rightarrow> region_hist \<Rightarrow> region_info option" where
  "live_info r s h =
     (case rh_shows h r s of
        Some (Some i) \<Rightarrow> if mbi_State (ri_current_mbi i) = MEM_FREE then None else Some i
      | _ \<Rightarrow> None)"

definition ar_shows :: "allocation_region \<Rightarrow> u32 \<Rightarrow> u32 \<Rightarrow> region_info list" where
  "ar_shows a r s = List.map_filter (live_info r s) (ar_regions_history a)"

definition ar_readable :: "u32 \<Rightarrow> u32 \<Rightarrow> allocation_region \<Rightarrow> bool" where
  "ar_readable r s a =
     (ar_regions_history a \<noteq> [] \<and> (\<forall>h\<in>set (ar_regions_history a). rh_wf h \<and> rh_shows h r s \<noteq> None))"

definition ar_same :: "allocation_region \<Rightarrow> allocation_region \<Rightarrow> bool" where
  "ar_same a a' = (ar_allocation_base a' = ar_allocation_base a \<and> ar_seen_base_addresses a' = ar_seen_base_addresses a
     \<and> list_all2 rh_same (ar_regions_history a) (ar_regions_history a'))"

lemma live_info_same: "rh_same h h' \<Longrightarrow> live_info r s h' = live_info r s h"
  by (simp add: live_info_def rh_same_def)

lemma map_filter_same: "list_all2 rh_same hs hs' \<Longrightarrow> List.map_filter (live_info r s) hs' = List.map_filter (live_info r s) hs"
  by (induction rule: list_all2_induct) (simp_all add: map_filter_simps live_info_same split: option.split)

lemma ar_same_shows: "ar_same a a' \<Longrightarrow> ar_shows a' r s = ar_shows a r s"
  by (simp add: ar_same_def ar_shows_def map_filter_same)

lemma ar_same_readable:
  assumes "ar_same a a'" "ar_readable r s a"
  shows "ar_readable r s a'"
proof -
  have "list_all2 rh_same (ar_regions_history a) (ar_regions_history a')" using assms(1) by (simp add: ar_same_def)
  then have all: "length (ar_regions_history a') = length (ar_regions_history a)"
    "\<And>i. i < length (ar_regions_history a) \<Longrightarrow> rh_same (ar_regions_history a ! i) (ar_regions_history a' ! i)"
    by (simp_all add: list_all2_conv_all_nth)
  have "rh_wf (ar_regions_history a' ! i) \<and> rh_shows (ar_regions_history a' ! i) r s \<noteq> None"
    if "i < length (ar_regions_history a)" for i
    using all(2)[OF that] assms(2) nth_mem[OF that] by (auto simp: rh_same_def ar_readable_def)
  then show ?thesis using assms(2) all(1) by (auto simp: ar_readable_def in_set_conv_nth)
qed

lemma ar_same_trans: "ar_same a b \<Longrightarrow> ar_same b c \<Longrightarrow> ar_same a c"
  by (auto simp: ar_same_def intro: list_all2_trans[OF rh_same_trans])

lemma ar_get_spec:
  assumes "ar_readable r s a"
  shows "\<exists>a'. ar_get_current_regions r s a = Some (ar_shows a r s, a') \<and> ar_same a a'"
proof -
  let ?f = "\<lambda>h. do { (info, h') \<leftarrow> rh_get_current_region_info r s h;
              Some (case info of
                      None \<Rightarrow> None
                    | Some i \<Rightarrow> if mbi_State (ri_current_mbi i) = MEM_FREE then None else Some i, h') }"
  have "\<exists>h'. ?f h = Some (live_info r s h, h') \<and> rh_same h h'" if h: "h \<in> set (ar_regions_history a)" for h
  proof -
    obtain info where info: "rh_shows h r s = Some info" and "rh_wf h" using assms h by (auto simp: ar_readable_def)
    from rh_get_total[OF this(2,1)] show ?thesis by (auto simp: live_info_def info split: option.split)
  qed
  from collectM_each[where f = ?f and R = rh_same, OF this] obtain hs where
    "collectM ?f (ar_regions_history a) = Some (ar_shows a r s, hs)" "list_all2 rh_same (ar_regions_history a) hs"
    by (auto simp: ar_shows_def)
  then show ?thesis by (auto simp: ar_get_current_regions_def ar_same_def)
qed

definition ar_freed :: "u32 \<Rightarrow> u32 \<Rightarrow> allocation_region \<Rightarrow> bool" where
  "ar_freed r s a = (live_info r s (hd (ar_regions_history a)) = None)"

lemma ar_freed_spec:
  assumes "ar_readable r s a"
  shows "\<exists>a'. ar_is_allocation_freed r s a = Some (ar_freed r s a, a') \<and> ar_same a a'"
proof -
  obtain h hs where a: "ar_regions_history a = h # hs" using assms by (cases "ar_regions_history a") (auto simp: ar_readable_def)
  obtain info where info: "rh_shows h r s = Some info" and wf: "rh_wf h" "\<forall>x\<in>set hs. rh_wf x"
    using assms by (auto simp: ar_readable_def a)
  obtain h' where "rh_get_current_region_info r s h = Some (info, h')" "rh_same h h'" using rh_get_total[OF wf(1) info] by blast
  then show ?thesis using wf(2)
    by (auto simp: ar_is_allocation_freed_def a list_at_def ar_same_def ar_freed_def live_info_def info
        list_all2_same rh_same_refl split: option.split)
qed

definition pmh_shows :: "process_memory_history \<Rightarrow> u32 \<Rightarrow> u32 \<Rightarrow> allocation_info list" where
  "pmh_shows h r s = List.map_filter (\<lambda>(k, a). if ar_freed r s a then None
     else Some \<lparr> ai_allocation_base = k, ai_all_regions = ar_shows a r s \<rparr>) h"

definition pmh_readable :: "u32 \<Rightarrow> u32 \<Rightarrow> process_memory_history \<Rightarrow> bool" where
  "pmh_readable r s h = (\<forall>(k, a)\<in>set h. ar_readable r s a)"

definition pmh_same :: "process_memory_history \<Rightarrow> process_memory_history \<Rightarrow> bool" where
  "pmh_same = list_all2 (\<lambda>(k, a) (k', a'). k' = k \<and> ar_same a a')"

lemma ar_same_freed: "ar_readable r s a \<Longrightarrow> ar_same a a' \<Longrightarrow> ar_freed q t a' = ar_freed q t a"
  by (cases "ar_regions_history a"; cases "ar_regions_history a'")
    (auto simp: ar_same_def ar_readable_def ar_freed_def live_info_same)

lemma pmh_same_shows: "pmh_same h h' \<Longrightarrow> pmh_readable r s h \<Longrightarrow> pmh_shows h' q t = pmh_shows h q t"
  unfolding pmh_same_def
proof (induction rule: list_all2_induct)
  case (Cons x xs y ys)
  then show ?case
    by (cases x; cases y) (auto simp: pmh_shows_def pmh_readable_def map_filter_simps ar_same_freed ar_same_shows)
qed simp

lemma pmh_shows_nonempty:
  assumes "pmh_readable r s h" "ai \<in> set (pmh_shows h r s)"
  shows "ai_all_regions ai \<noteq> []"
proof -
  obtain k a where a: "(k, a) \<in> set h" "\<not> ar_freed r s a" "ai_all_regions ai = ar_shows a r s"
    using assms(2) by (auto simp: pmh_shows_def map_filter_def split: if_splits)
  then obtain x hs where "ar_regions_history a = x # hs"
    using assms(1) by (cases "ar_regions_history a") (auto simp: pmh_readable_def ar_readable_def)
  then show ?thesis using a(2,3) by (auto simp: ar_freed_def ar_shows_def map_filter_simps)
qed

lemma pmh_query:
  assumes "pmh_readable r s h"
  shows "\<exists>h'. pmh_get_current_allocation_regions r s h = Some (pmh_shows h r s, h')
    \<and> (\<forall>ai\<in>set (pmh_shows h r s). ai_all_regions ai \<noteq> [])
    \<and> (\<forall>q t. pmh_shows h' q t = pmh_shows h q t) \<and> pmh_readable r s h' \<and> pmh_same h h'"
proof -
  let ?f = "\<lambda>(alloc_base, a). do {
       (freed, a) \<leftarrow> ar_is_allocation_freed r s a;
       if freed then Some (None, (alloc_base, a))
       else do { (regions, a) \<leftarrow> ar_get_current_regions r s a;
                 Some (Some \<lparr> ai_allocation_base = alloc_base, ai_all_regions = regions \<rparr>, (alloc_base, a)) } }"
  let ?g = "\<lambda>(k, a). if ar_freed r s a then None
     else Some \<lparr> ai_allocation_base = k, ai_all_regions = ar_shows a r s \<rparr>"
  let ?R = "\<lambda>(k, a) (k', a'). k' = k \<and> ar_same a a'"
  have "\<exists>x'. ?f x = Some (?g x, x') \<and> ?R x x'" if x: "x \<in> set h" for x
  proof -
    obtain k a where [simp]: "x = (k, a)" by (cases x)
    have a: "ar_readable r s a" using assms x by (auto simp: pmh_readable_def)
    obtain a1 where a1: "ar_is_allocation_freed r s a = Some (ar_freed r s a, a1)" "ar_same a a1"
      using ar_freed_spec[OF a] by blast
    obtain a2 where a2: "ar_get_current_regions r s a1 = Some (ar_shows a1 r s, a2)" "ar_same a1 a2"
      using ar_get_spec[OF ar_same_readable[OF a1(2) a]] by blast
    show ?thesis
      using a1 a2 ar_same_trans[OF a1(2) a2(2)] by (simp add: ar_same_shows[OF a1(2)])
  qed
  from collectM_each[where f = ?f and R = ?R, OF this]
  obtain h' where h': "pmh_get_current_allocation_regions r s h = Some (pmh_shows h r s, h')" "pmh_same h h'"
    by (auto simp: pmh_get_current_allocation_regions_def pmh_shows_def pmh_same_def)
  have "pmh_readable r s h'"
    using h'(2) assms unfolding pmh_same_def
    by (induction rule: list_all2_induct) (auto simp: pmh_readable_def dest: ar_same_readable)
  then show ?thesis
    using h' pmh_same_shows[OF h'(2) assms] pmh_shows_nonempty[OF assms] by blast
qed

text \<open>Branching the whole history.\<close>

definition pmh_branchable :: "process_memory_history \<Rightarrow> u32 \<Rightarrow> bool" where
  "pmh_branchable h n = (\<forall>(k, a)\<in>set h. ar_regions_history a \<noteq> []
     \<and> (\<forall>x\<in>set (ar_regions_history a). rh_wf x \<and> rh_fresh x n))"

lemma live_info_branch:
  "\<forall>r s. rh_shows h' r s = (if r = n then rh_shows h p b else rh_shows h r s) \<Longrightarrow>
    live_info r s h' = (if r = n then live_info p b h else live_info r s h)"
  by (simp add: live_info_def)

lemma pmh_branch_spec:
  assumes "pmh_branchable h n" "p < n"
  shows "\<exists>h'. pmh_make_branch p b n h = Some h'
    \<and> (\<forall>r s. pmh_shows h' r s = (if r = n then pmh_shows h p b else pmh_shows h r s))"
proof -
  let ?at = "\<lambda>r s. if r = n then (p, b) else (r, s)"
  have one: "\<exists>y. map_option (Pair k) (ar_make_branch p b n a) = Some y \<and> fst y = k
      \<and> (\<forall>r s. ar_freed r s (snd y) = (if r = n then ar_freed p b a else ar_freed r s a)
           \<and> ar_shows (snd y) r s = (if r = n then ar_shows a p b else ar_shows a r s))"
    if "(k, a) \<in> set h" for k a
  proof -
    have a: "ar_regions_history a \<noteq> []" "\<And>x. x \<in> set (ar_regions_history a) \<Longrightarrow> rh_wf x \<and> rh_fresh x n"
      using assms(1) that by (auto simp: pmh_branchable_def)
    let ?R = "\<lambda>x y. \<forall>r s. live_info r s y = (if r = n then live_info p b x else live_info r s x)"
    have "\<exists>y. rh_make_branch p b n x = Some y \<and> ?R x y" if "x \<in> set (ar_regions_history a)" for x
      using rh_branch_spec[of x n p b] a(2)[OF that] assms(2) live_info_branch by blast
    from mapM_each[where f = "rh_make_branch p b n" and R = ?R, OF this]
    obtain hs where hs: "mapM (rh_make_branch p b n) (ar_regions_history a) = Some hs" "list_all2 ?R (ar_regions_history a) hs"
      by blast
    have "List.map_filter (live_info r s) hs =
        (if r = n then List.map_filter (live_info p b) (ar_regions_history a) else List.map_filter (live_info r s) (ar_regions_history a))" for r s
      using hs(2) by (cases "r = n"; induction rule: list_all2_induct) (simp_all add: map_filter_simps split: option.split)
    moreover have "live_info r s (hd hs) =
        (if r = n then live_info p b (hd (ar_regions_history a)) else live_info r s (hd (ar_regions_history a)))" for r s
      using hs(2) a(1) by (cases "ar_regions_history a"; cases hs) auto
    ultimately show ?thesis by (simp add: ar_make_branch_def hs(1) ar_shows_def ar_freed_def)
  qed
  let ?S = "\<lambda>x y. fst y = fst x \<and> (\<forall>r s. ar_freed r s (snd y) = (if r = n then ar_freed p b (snd x) else ar_freed r s (snd x))
           \<and> ar_shows (snd y) r s = (if r = n then ar_shows (snd x) p b else ar_shows (snd x) r s))"
  have "\<exists>y. (\<lambda>(k, a). map_option (Pair k) (ar_make_branch p b n a)) x = Some y \<and> ?S x y" if "x \<in> set h" for x
    using one[of "fst x" "snd x"] that by (cases x) simp
  from mapM_each[where f = "\<lambda>(k, a). map_option (Pair k) (ar_make_branch p b n a)" and R = ?S, OF this]
  obtain h' where h': "pmh_make_branch p b n h = Some h'" "list_all2 ?S h h'" by (auto simp: pmh_make_branch_def)
  have "pmh_shows h' r s = (if r = n then pmh_shows h p b else pmh_shows h r s)" for r s
    using h'(2)
  proof (induction rule: list_all2_induct)
    case (Cons x xs y ys)
    then show ?case
      by (cases x; cases y; cases "r = n") (simp_all add: pmh_shows_def map_filter_simps)
  qed (simp add: pmh_shows_def map_filter_simps)
  then show ?thesis using h'(1) by blast
qed

text \<open>
  Looking at a point of the memory history changes nothing.  When every region can be shown at a
  point, get_current_allocation_regions returns, for each allocation whose first region is not free
  there, exactly its regions that are not free, in order and never none; the history it leaves
  behind, whose cursors have moved, shows the same as before at every point of every run.
\<close>

theorem history_query_repeatable:
  assumes "pmh_readable r s h"
  shows "\<exists>h'. pmh_get_current_allocation_regions r s h = Some (pmh_shows h r s, h')
    \<and> (\<forall>ai\<in>set (pmh_shows h r s). ai_all_regions ai \<noteq> [])
    \<and> (\<forall>q t. pmh_shows h' q t = pmh_shows h q t) \<and> pmh_readable r s h'"
  using pmh_query[OF assms] by blast

text \<open>A history with one allocation, whose only region is a committed page holding 65 everywhere.\<close>

definition page_mbi :: mbi where
  "page_mbi = mbi_zero \<lparr> mbi_State := MEM_COMMIT, mbi_RegionSize := 4096 \<rparr>"

definition page_info :: region_info where
  "page_info = \<lparr> ri_current_mbi = page_mbi, ri_current_memory = replicate 4096 65 \<rparr>"

definition page_history :: process_memory_history where
  "page_history = [(0, \<lparr> ar_allocation_base = 0,
     ar_regions_history = [the (rh_update 1 5 3 page_mbi (replicate 4096 65) (reserved_region mbi_zero 1))],
     ar_seen_base_addresses = [] \<rparr>)]"

lemma page_history_shows:
  "pmh_readable 1 6 page_history"
  "pmh_shows page_history 1 6 = [\<lparr> ai_allocation_base = 0, ai_all_regions = [page_info] \<rparr>]"
proof -
  have "\<exists>h'. rh_update 1 5 3 page_mbi (replicate 4096 65) (reserved_region mbi_zero 1) = Some h' \<and> rh_wf h'
    \<and> (\<forall>s'. 5 \<le> s' \<longrightarrow> rh_shows h' 1 s' = Some (Some \<lparr> ri_current_mbi = page_mbi, ri_current_memory = replicate 4096 65 \<rparr>))
    \<and> (\<forall>q t. \<not> (q = 1 \<and> 5 \<le> t) \<longrightarrow> et_view (rh_mbi_history h') q t
          = et_view (rh_mbi_history (reserved_region mbi_zero 1)) q t)"
    by (rule region_update_spec) (simp_all add: reserved_region_wf page_mbi_def)
  then obtain h' where h': "rh_update 1 5 3 page_mbi (replicate 4096 65) (reserved_region mbi_zero 1) = Some h'" "rh_wf h'"
    "rh_shows h' 1 6 = Some (Some page_info)"
    unfolding page_info_def by (auto simp: word_le_nat_alt)
  have st: "mbi_State page_mbi \<noteq> MEM_FREE" by (simp add: page_mbi_def)
  show "pmh_readable 1 6 page_history" using h' by (simp add: pmh_readable_def page_history_def ar_readable_def)
  show "pmh_shows page_history 1 6 = [\<lparr> ai_allocation_base = 0, ai_all_regions = [page_info] \<rparr>]"
    using h' st by (simp add: pmh_shows_def page_history_def ar_freed_def ar_shows_def live_info_def map_filter_simps page_info_def)
qed

theorem history_query_repeatable_witness:
  "\<exists>h'. pmh_get_current_allocation_regions 1 6 page_history =
      Some ([\<lparr> ai_allocation_base = 0, ai_all_regions = [page_info] \<rparr>], h')
    \<and> pmh_shows h' 1 6 = [\<lparr> ai_allocation_base = 0, ai_all_regions = [page_info] \<rparr>]"
  using history_query_repeatable[OF page_history_shows(1)] page_history_shows(2) by auto

end
