(* ===== verification/Thread_Utils.thy ===== *)
theory Thread_Utils
  imports Machine
begin

text \<open>
  \<open>src/src/utils/thread_utils.cpp\<close>: the table of thread handles and TEB addresses, the accesses to
  thread contexts, suspension, and the thread-local-storage slots the branch counter lives in.
  \<open>tls_alloc\<close> and \<open>RunRemoteThreadPumped\<close>, which need the breakpoint table, are in
  \<open>Remote_Thread\<close>.

  A subscript \<open>thread_id_to_meta[id]\<close> inserts a zero entry when the thread is unknown; the model
  keeps that.
\<close>

datatype tls_kind = BranchCounter | BranchTarget

record thread_meta =
  tm_handle :: handle
  tm_teb_address :: addr

definition thread_meta_zero :: thread_meta where
  "thread_meta_zero = \<lparr> tm_handle = 0, tm_teb_address = 0 \<rparr>"

record 'w threads = "'w machine" +
  tu_thread_id_to_meta :: "(thread_id, thread_meta) smap"
  tu_tls_indexes :: "tls_kind \<Rightarrow> u32 option"

text \<open>\<open>thread_id_to_meta[thread_id]\<close> as a value, and the table after the subscript.\<close>

definition meta_of :: "thread_id \<Rightarrow> ('w, 'z) threads_scheme \<Rightarrow> thread_meta" where
  "meta_of tid m = (case map_of (tu_thread_id_to_meta m) tid of Some t \<Rightarrow> t | None \<Rightarrow> thread_meta_zero)"

definition meta_subscript :: "thread_id \<Rightarrow> ('w, 'z) threads_scheme \<Rightarrow> ('w, 'z) threads_scheme" where
  "meta_subscript tid m =
     m \<lparr> tu_thread_id_to_meta := smap_modify tid thread_meta_zero (\<lambda>t. t) (tu_thread_id_to_meta m) \<rparr>"

definition get_teb_address :: "'w win32 \<Rightarrow> handle \<Rightarrow> ('w, 'z) machine_scheme \<Rightarrow> addr" where
  "get_teb_address W h m = (case w_teb_address W (m_world m) h of Some a \<Rightarrow> a | None \<Rightarrow> 0)"

definition get_thread_handle :: "'w win32 \<Rightarrow> thread_id \<Rightarrow> ('w, 'z) threads_scheme \<Rightarrow> handle \<times> ('w, 'z) threads_scheme" where
  "get_thread_handle W tid m0 =
     (let m = meta_subscript tid m0 in
      if tm_handle (meta_of tid m) = 0 then
        (let (h, w) = w_open_thread W (m_world m) tid;
             m' = m \<lparr> m_world := w \<rparr>;
             meta = \<lparr> tm_handle = h, tm_teb_address = get_teb_address W h m' \<rparr>
         in (h, m' \<lparr> tu_thread_id_to_meta :=
                   smap_modify tid thread_meta_zero (\<lambda>_. meta) (tu_thread_id_to_meta m') \<rparr>))
      else (tm_handle (meta_of tid m), m))"

definition close_handle_for_thread :: "'w win32 \<Rightarrow> thread_id \<Rightarrow> handle \<Rightarrow> ('w, 'z) threads_scheme \<Rightarrow> ('w, 'z) threads_scheme" where
  "close_handle_for_thread W tid h m =
     m \<lparr> m_world := w_close_handle W (m_world m) h,
         tu_thread_id_to_meta := smap_erase tid (tu_thread_id_to_meta m) \<rparr>"

section \<open>Contexts\<close>

definition get_rip_address :: "'w win32 \<Rightarrow> thread_id \<Rightarrow> ('w, 'z) threads_scheme \<Rightarrow> u64 \<times> ('w, 'z) threads_scheme" where
  "get_rip_address W tid m =
     (let (h, m) = get_thread_handle W tid m in (ctx_Rip (w_get_context W (m_world m) h), m))"

text \<open>Fetch the context, change it, set it; the changed context is the result.\<close>

definition change_context ::
    "'w win32 \<Rightarrow> thread_id \<Rightarrow> (cpu_context \<Rightarrow> cpu_context) \<Rightarrow> ('w, 'z) threads_scheme \<Rightarrow> cpu_context \<times> ('w, 'z) threads_scheme" where
  "change_context W tid f m =
     (let (h, m) = get_thread_handle W tid m;
          ctx = f (w_get_context W (m_world m) h)
      in (ctx, m \<lparr> m_world := snd (w_set_context W (m_world m) h ctx) \<rparr>))"

definition roll_back_instruction_pointer ::
    "'w win32 \<Rightarrow> thread_id \<Rightarrow> ('w, 'z) threads_scheme \<Rightarrow> cpu_context \<times> ('w, 'z) threads_scheme" where
  "roll_back_instruction_pointer W tid = change_context W tid (\<lambda>c. c \<lparr> ctx_Rip := ctx_Rip c - 1 \<rparr>)"

definition set_rip_address ::
    "'w win32 \<Rightarrow> thread_id \<Rightarrow> addr \<Rightarrow> ('w, 'z) threads_scheme \<Rightarrow> cpu_context \<times> ('w, 'z) threads_scheme" where
  "set_rip_address W tid new_rip_address = change_context W tid (\<lambda>c. c \<lparr> ctx_Rip := new_rip_address \<rparr>)"

definition get_thread_context_from_id ::
    "'w win32 \<Rightarrow> thread_id \<Rightarrow> ('w, 'z) threads_scheme \<Rightarrow> cpu_context \<times> ('w, 'z) threads_scheme" where
  "get_thread_context_from_id W tid m =
     (let (h, m) = get_thread_handle W tid m in (w_get_context W (m_world m) h, m))"

definition set_trap_flag :: "'w win32 \<Rightarrow> thread_id \<Rightarrow> ('w, 'z) threads_scheme \<Rightarrow> ('w, 'z) threads_scheme" where
  "set_trap_flag W tid m = snd (change_context W tid (\<lambda>c. c \<lparr> ctx_EFlags := or (ctx_EFlags c) 0x100 \<rparr>) m)"

definition replace_thread_context :: "'w win32 \<Rightarrow> thread_id \<Rightarrow> cpu_context \<Rightarrow> ('w, 'z) threads_scheme \<Rightarrow> ('w, 'z) threads_scheme" where
  "replace_thread_context W tid ctx m =
     (let (h, m) = get_thread_handle W tid m in m \<lparr> m_world := snd (w_set_context W (m_world m) h ctx) \<rparr>)"

section \<open>Suspension\<close>

definition suspend_all_threads :: "'w win32 \<Rightarrow> ('w, 'z) threads_scheme \<Rightarrow> ('w, 'z) threads_scheme" where
  "suspend_all_threads W m =
     fold (\<lambda>(tid, t) m. m \<lparr> m_world := w_suspend_thread W (m_world m) (tm_handle t) \<rparr>) (tu_thread_id_to_meta m) m"

definition suspend_all_threads_except_current ::
    "'w win32 \<Rightarrow> thread_id \<Rightarrow> ('w, 'z) threads_scheme \<Rightarrow> ('w, 'z) threads_scheme" where
  "suspend_all_threads_except_current W current_thread_id m =
     fold (\<lambda>(tid, t) m. if tid \<noteq> current_thread_id
             then m \<lparr> m_world := w_suspend_thread W (m_world m) (tm_handle t) \<rparr> else m)
       (tu_thread_id_to_meta m) m"

definition suspend_thread_id :: "'w win32 \<Rightarrow> thread_id \<Rightarrow> ('w, 'z) threads_scheme \<Rightarrow> ('w, 'z) threads_scheme" where
  "suspend_thread_id W tid m =
     (let (h, m) = get_thread_handle W tid m in m \<lparr> m_world := w_suspend_thread W (m_world m) h \<rparr>)"

definition resume_all_threads :: "'w win32 \<Rightarrow> ('w, 'z) threads_scheme \<Rightarrow> ('w, 'z) threads_scheme" where
  "resume_all_threads W m =
     fold (\<lambda>(tid, t) m. m \<lparr> m_world := w_resume_thread W (m_world m) (tm_handle t) \<rparr>) (tu_thread_id_to_meta m) m"

definition resume_thread_id :: "'w win32 \<Rightarrow> thread_id \<Rightarrow> ('w, 'z) threads_scheme \<Rightarrow> ('w, 'z) threads_scheme" where
  "resume_thread_id W tid m0 =
     (let m = meta_subscript tid m0
      in m \<lparr> m_world := w_resume_thread W (m_world m) (tm_handle (meta_of tid m)) \<rparr>)"

section \<open>Thread-local storage\<close>

text \<open>\<open>offsetof(TEB, TlsSlots)\<close> on 64-bit Windows.\<close>

definition tls_slots_offset :: u32 where "tls_slots_offset = 0x1480"

text \<open>\<open>tls_indexes_[kind]\<close>: the subscript inserts index 0 for a slot that was never allocated.\<close>

definition tls_subscript :: "tls_kind \<Rightarrow> ('w, 'z) threads_scheme \<Rightarrow> u32 \<times> ('w, 'z) threads_scheme" where
  "tls_subscript kind m =
     (case tu_tls_indexes m kind of
        Some i \<Rightarrow> (i, m)
      | None \<Rightarrow> (0, m \<lparr> tu_tls_indexes := (tu_tls_indexes m)(kind \<mapsto> 0) \<rparr>))"

text \<open>The slot of an index below 64, relative to the TEB; the expansion slots are not handled.\<close>

definition tls_offset :: "u32 \<Rightarrow> u32 option" where
  "tls_offset tls_index = (if tls_index < 64 then Some (tls_slots_offset + 8 * tls_index) else None)"

definition read_thread_tls_index :: "'w win32 \<Rightarrow> thread_id \<Rightarrow> u32 \<Rightarrow> ('w, 'z) threads_scheme \<Rightarrow> u64 \<times> ('w, 'z) threads_scheme" where
  "read_thread_tls_index W tid tls_index m =
     (case tls_offset tls_index of
        None \<Rightarrow> (0, m)
      | Some off \<Rightarrow>
          (let m = meta_subscript tid m
           in (le_word (read_uninit W (tm_teb_address (meta_of tid m) + ucast off) 8 m), m)))"

definition read_thread_tls :: "'w win32 \<Rightarrow> thread_id \<Rightarrow> tls_kind \<Rightarrow> ('w, 'z) threads_scheme \<Rightarrow> u64 \<times> ('w, 'z) threads_scheme" where
  "read_thread_tls W tid kind m0 =
     (let (tls_index, m) = tls_subscript kind m0 in
      case tls_offset tls_index of
        None \<Rightarrow> (0, m)
      | Some off \<Rightarrow>
          (let m = meta_subscript tid m
           in (le_word (read_uninit W (tm_teb_address (meta_of tid m) + ucast off) 8 m), m)))"

definition update_thread_tls :: "'w win32 \<Rightarrow> thread_id \<Rightarrow> tls_kind \<Rightarrow> u64 \<Rightarrow> ('w, 'z) threads_scheme \<Rightarrow> ('w, 'z) threads_scheme" where
  "update_thread_tls W tid kind value m0 =
     (let (tls_index, m) = tls_subscript kind m0 in
      case tls_offset tls_index of
        None \<Rightarrow> m
      | Some off \<Rightarrow>
          (let m = meta_subscript tid m
           in snd (write_mem W (tm_teb_address (meta_of tid m) + ucast off) (word_le value) m)))"

definition update_all_thread_tls :: "'w win32 \<Rightarrow> tls_kind \<Rightarrow> u64 \<Rightarrow> ('w, 'z) threads_scheme \<Rightarrow> ('w, 'z) threads_scheme" where
  "update_all_thread_tls W kind value m =
     fold (\<lambda>(tid, t). update_thread_tls W tid kind value) (tu_thread_id_to_meta m) m"

section \<open>A slot holds what was stored in it\<close>

definition tls_slot :: "thread_id \<Rightarrow> u32 \<Rightarrow> ('w, 'z) threads_scheme \<Rightarrow> addr" where
  "tls_slot tid i m = tm_teb_address (meta_of tid m) + ucast (tls_slots_offset + 8 * i)"

lemma meta_of_subscript [simp]: "smap_ok (tu_thread_id_to_meta m) \<Longrightarrow> meta_of t (meta_subscript tid m) = meta_of t m"
  by (simp add: meta_of_def meta_subscript_def map_of_smap_modify split: option.split)

lemma meta_subscript_simps [simp]:
  "m_world (meta_subscript tid m) = m_world m"
  "tu_tls_indexes (meta_subscript tid m) = tu_tls_indexes m"
  "smap_ok (tu_thread_id_to_meta m) \<Longrightarrow> smap_ok (tu_thread_id_to_meta (meta_subscript tid m))"
  by (simp_all add: meta_subscript_def smap_ok_modify)

lemma tls_subscript_known [simp]: "tu_tls_indexes m kind = Some i \<Longrightarrow> tls_subscript kind m = (i, m)"
  by (simp add: tls_subscript_def)

lemma write_mem_simps [simp]:
  "m_world (snd (write_mem W a bs m)) = snd (w_write W (m_world m) a bs)"
  "tu_tls_indexes (snd (write_mem W a bs m)) = tu_tls_indexes m"
  "tu_thread_id_to_meta (snd (write_mem W a bs m)) = tu_thread_id_to_meta m"
  by (simp_all add: write_mem_def split: prod.split)

lemma update_thread_tls_state:
  assumes "smap_ok (tu_thread_id_to_meta m)" "tu_tls_indexes m kind = Some i" "i < 64"
  shows "m_world (update_thread_tls W tid kind v m) = snd (w_write W (m_world m) (tls_slot tid i m) (word_le v))"
    and "tu_tls_indexes (update_thread_tls W tid kind v m) = tu_tls_indexes m"
    and "meta_of t (update_thread_tls W tid kind v m) = meta_of t m"
    and "smap_ok (tu_thread_id_to_meta (update_thread_tls W tid kind v m))"
proof -
  have "update_thread_tls W tid kind v m =
      snd (write_mem W (tls_slot tid i m) (word_le v) (meta_subscript tid m))"
    using assms by (simp add: update_thread_tls_def tls_offset_def tls_slot_def Let_def)
  moreover have "meta_of t (snd (write_mem W a bs (meta_subscript tid m))) = meta_of t (meta_subscript tid m)" for a bs
    by (simp add: meta_of_def)
  ultimately show "m_world (update_thread_tls W tid kind v m) = snd (w_write W (m_world m) (tls_slot tid i m) (word_le v))"
    "tu_tls_indexes (update_thread_tls W tid kind v m) = tu_tls_indexes m"
    "meta_of t (update_thread_tls W tid kind v m) = meta_of t m"
    "smap_ok (tu_thread_id_to_meta (update_thread_tls W tid kind v m))"
    using assms(1) by simp_all
qed

lemma read_thread_tls_value:
  assumes "smap_ok (tu_thread_id_to_meta m)" "tu_tls_indexes m kind = Some i" "i < 64"
  shows "fst (read_thread_tls W tid kind m) =
    le_word (snd (w_read W (m_world m) (tls_slot tid i m) (w_indeterminate W 8)))"
  using assms by (simp add: read_thread_tls_def tls_offset_def tls_slot_def Let_def read_uninit_def)

text \<open>
  C33: A thread's branch counter can be set and read back.  For an allocated slot below 64, storing a
  value in a thread's slot and reading the slot of that thread gives the value, and the eight bytes
  of the slot are the only bytes of the debuggee that change; an index of 64 or more is refused:
  nothing is written and the read gives 0.
\<close>

theorem tls_slot_round_trip:
  assumes "w_bytes_ok W mem" "smap_ok (tu_thread_id_to_meta m)" "tu_tls_indexes m kind = Some i"
  shows "(i < 64 \<longrightarrow> fst (read_thread_tls W tid kind (update_thread_tls W tid kind v m)) = v
      \<and> (\<forall>x. x \<notin> set (span (tls_slot tid i m) 8) \<longrightarrow>
            mem (m_world (update_thread_tls W tid kind v m)) x = mem (m_world m) x))
    \<and> (64 \<le> i \<longrightarrow> update_thread_tls W tid kind v m = m \<and> fst (read_thread_tls W tid kind m) = 0)"
proof (intro conjI impI)
  assume i: "i < 64"
  let ?m' = "update_thread_tls W tid kind v m"
  note st = update_thread_tls_state[OF assms(2,3) i, where W = W and tid = tid and v = v]
  have slot: "tls_slot tid i ?m' = tls_slot tid i m" by (simp add: tls_slot_def st(3))
  have idx: "tu_tls_indexes ?m' kind = Some i" using assms(3) by (simp add: st(2))
  have len: "length (w_indeterminate W 8) = length (word_le v)" using assms(1) by (simp add: w_bytes_ok_def)
  show "fst (read_thread_tls W tid kind ?m') = v"
    unfolding read_thread_tls_value[OF st(4) idx i] slot st(1)
    by (subst write_read_back[OF assms(1) _ len]) simp_all
  show "\<forall>x. x \<notin> set (span (tls_slot tid i m) 8) \<longrightarrow> mem (m_world ?m') x = mem (m_world m) x"
    using assms(1) by (simp add: st(1) w_bytes_ok_def store_bytes_outside)
next
  assume i: "64 \<le> i"
  then have "tls_offset i = None" by (simp add: tls_offset_def)
  then show "update_thread_tls W tid kind v m = m" "fst (read_thread_tls W tid kind m) = 0"
    using assms(3) by (simp_all add: update_thread_tls_def read_thread_tls_def)
qed

definition threads_init :: "'w \<Rightarrow> (thread_id, thread_meta) smap \<Rightarrow> (tls_kind \<Rightarrow> u32 option) \<Rightarrow> 'w threads" where
  "threads_init w metas slots = machine.extend (machine_init w)
     \<lparr> tu_thread_id_to_meta = metas, tu_tls_indexes = slots \<rparr>"

theorem tls_slot_round_trip_witness:
  "let m = threads_init (\<lambda>_. 0) [(7, \<lparr> tm_handle = 1, tm_teb_address = 0x1000 \<rparr>)] [BranchCounter \<mapsto> 5]
   in fst (read_thread_tls flat_win32 7 BranchCounter (update_thread_tls flat_win32 7 BranchCounter 77 m)) = 77"
proof -
  let ?m = "threads_init (\<lambda>_. 0) [(7, \<lparr> tm_handle = 1, tm_teb_address = 0x1000 \<rparr>)] [BranchCounter \<mapsto> 5]
    :: (addr \<Rightarrow> byte) threads"
  have "smap_ok (tu_thread_id_to_meta ?m)" "tu_tls_indexes ?m BranchCounter = Some 5"
    by (simp_all add: threads_init_def machine.extend_def)
  from tls_slot_round_trip[OF flat_win32_ok this, where tid = 7 and v = 77] show ?thesis
    by (simp add: word_less_nat_alt)
qed

end
