(* ===== verification/Trampoline.thy ===== *)
theory Trampoline
  imports Thread_Utils
begin

text \<open>
  \<open>src/src/utils/trampoline.cpp\<close>: a copy of the first instruction of a function, followed by a jump
  back behind it, so that the function can keep a permanent breakpoint on its first byte.

  The instruction decoder (Zydis) is not part of the repository: it is the argument \<open>decode\<close>, which
  gives the length of the first instruction of a buffer, or nothing.  An x86 instruction has at
  most 15 bytes, which is the hypothesis \<open>decode_ok\<close>.
\<close>

record 'w trampolines = "'w threads" +
  tr_region :: "byte list list"
  tr_locations :: "(addr, addr) smap"
  tr_address :: addr
  tr_size :: u64

abbreviation (input) kInstructionRegionSize :: nat where "kInstructionRegionSize \<equiv> 32"

definition create_trampoline_region :: "'w win32 \<Rightarrow> u64 \<Rightarrow> ('w, 'z) trampolines_scheme \<Rightarrow> ('w, 'z) trampolines_scheme" where
  "create_trampoline_region W region_size m =
     (let (a, w) = w_virtual_alloc W (m_world m) 0 region_size (or MEM_COMMIT MEM_RESERVE) PAGE_EXECUTE_READWRITE
      in m \<lparr> m_world := w, tr_address := a, tr_size := region_size \<rparr>)"

text \<open>\<open>JMP [RIP+0]\<close> and the address behind it.\<close>

definition jmp_absolute :: "addr \<Rightarrow> byte list" where
  "jmp_absolute target = [0xFF, 0x25, 0, 0, 0, 0] @ word_le target"

definition create_trampoline ::
    "'w win32 \<Rightarrow> (byte list \<Rightarrow> nat option) \<Rightarrow> addr \<Rightarrow> ('w, 'z) trampolines_scheme \<Rightarrow> addr \<times> ('w, 'z) trampolines_scheme" where
  "create_trampoline W decode address m =
     (let buffer = read_zeroed W address kInstructionRegionSize m in
      case decode buffer of
        None \<Rightarrow> (0, m)
      | Some len \<Rightarrow>
          (let return_address = address + of_nat len;
               buffer' = memcpy_at len (jmp_absolute return_address) buffer;
               new_trampoline_address = tr_address m + of_nat (length (tr_region m) * kInstructionRegionSize)
           in (new_trampoline_address,
               m \<lparr> tr_locations := smap_modify address 0 (\<lambda>_. new_trampoline_address) (tr_locations m),
                   tr_region := tr_region m @ [buffer'] \<rparr>)))"

definition finalize_trampoline_region :: "'w win32 \<Rightarrow> ('w, 'z) trampolines_scheme \<Rightarrow> addr \<times> ('w, 'z) trampolines_scheme" where
  "finalize_trampoline_region W m =
     (let bytes = concat (tr_region m);
          m = snd (write_mem W (tr_address m) bytes m);
          m = flush_icache W (tr_address m) (length bytes) m
      in (tr_address m, m))"

definition destroy_trampoline_region :: "'w win32 \<Rightarrow> ('w, 'z) trampolines_scheme \<Rightarrow> ('w, 'z) trampolines_scheme" where
  "destroy_trampoline_region W m =
     m \<lparr> m_world := snd (w_virtual_free W (m_world m) (tr_address m) (tr_size m) MEM_RELEASE) \<rparr>"

definition get_trampoline_address :: "addr \<Rightarrow> ('w, 'z) trampolines_scheme \<Rightarrow> addr \<times> ('w, 'z) trampolines_scheme" where
  "get_trampoline_address address m =
     (case map_of (tr_locations m) address of Some a \<Rightarrow> a | None \<Rightarrow> 0,
      m \<lparr> tr_locations := smap_modify address 0 (\<lambda>a. a) (tr_locations m) \<rparr>)"

text \<open>The context returned for an address without a trampoline is uninitialised: no value.\<close>

definition redirect_to_trampoline ::
    "'w win32 \<Rightarrow> addr \<Rightarrow> thread_id \<Rightarrow> ('w, 'z) trampolines_scheme \<Rightarrow> cpu_context option \<times> ('w, 'z) trampolines_scheme" where
  "redirect_to_trampoline W address tid m =
     (case map_of (tr_locations m) address of
        None \<Rightarrow> (None, m)
      | Some a \<Rightarrow> (let (ctx, m) = set_rip_address W tid a m in (Some ctx, m)))"

section \<open>The layout of a trampoline\<close>

definition decode_ok :: "(byte list \<Rightarrow> nat option) \<Rightarrow> bool" where
  "decode_ok decode = (\<forall>bs n. decode bs = Some n \<longrightarrow> 0 < n \<and> n \<le> 15)"

definition tr_wf :: "('w, 'z) trampolines_scheme \<Rightarrow> bool" where
  "tr_wf m = (smap_ok (tr_locations m) \<and> (\<forall>r\<in>set (tr_region m). length r = kInstructionRegionSize))"

lemma length_jmp_absolute [simp]: "length (jmp_absolute a) = 14"
  by (simp add: jmp_absolute_def)

lemma read_zeroed_ok: "w_bytes_ok W mem \<Longrightarrow> read_zeroed W a n m = bytes_at (mem (m_world m)) a n"
  by (simp add: read_zeroed_def w_bytes_ok_def)

lemma create_trampoline_wf:
  assumes "w_bytes_ok W mem" "decode_ok decode" "tr_wf m"
  shows "tr_wf (snd (create_trampoline W decode address m))"
proof (cases "decode (bytes_at (mem (m_world m)) address 32)")
  case None
  then show ?thesis using assms(3) by (simp add: create_trampoline_def read_zeroed_ok[OF assms(1)])
next
  case (Some n)
  then have "n \<le> 15" using assms(2) by (auto simp: decode_ok_def)
  then show ?thesis
    using assms(3) Some by (auto simp: create_trampoline_def read_zeroed_ok[OF assms(1)] tr_wf_def Let_def smap_ok_modify)
qed

lemma nth_region_slice:
  assumes "\<forall>r\<in>set rs. length r = k" "i < length rs"
  shows "take k (drop (i * k) (concat rs)) = rs ! i"
  using assms
proof (induction rs arbitrary: i)
  case (Cons r rs)
  then show ?case by (cases i) auto
qed simp

text \<open>
  A trampoline runs the displaced instruction and jumps back behind it.  After CreateTrampoline
  for an address whose first instruction has n bytes and FinalizeTrampolineRegion, the 32 bytes at
  the address returned, which is the one GetTrampolineAddress gives, are the n bytes of the
  instruction, an absolute jump to the address plus n, and the rest of the bytes read; all
  trampolines made before keep their own 32-byte cells.
\<close>

theorem trampoline_layout:
  assumes "w_bytes_ok W mem" "decode_ok decode" "tr_wf m"
    and "decode (bytes_at (mem (m_world m)) address 32) = Some n"
    and "length (tr_region m) < 1000"
    and "create_trampoline W decode address m = (loc, m1)" "finalize_trampoline_region W m1 = (start, m2)"
  shows "bytes_at (mem (m_world m2)) loc 32 =
      bytes_at (mem (m_world m)) address n @ [0xFF, 0x25, 0, 0, 0, 0] @ word_le (address + of_nat n)
      @ drop (n + 14) (bytes_at (mem (m_world m)) address 32)
    \<and> fst (get_trampoline_address address m2) = loc
    \<and> (\<forall>i < length (tr_region m). bytes_at (mem (m_world m2)) (start + of_nat (i * 32)) 32 = tr_region m ! i)"
proof -
  let ?orig = "bytes_at (mem (m_world m)) address 32"
  let ?buf = "memcpy_at n (jmp_absolute (address + of_nat n)) ?orig"
  have n: "n \<le> 15" using assms(2,4) by (auto simp: decode_ok_def)
  have m1: "loc = tr_address m + of_nat (length (tr_region m) * 32)" "tr_region m1 = tr_region m @ [?buf]"
    "tr_address m1 = tr_address m" "m_world m1 = m_world m"
    "tr_locations m1 = smap_modify address 0 (\<lambda>_. loc) (tr_locations m)"
    using assms(4,6) by (auto simp: create_trampoline_def read_zeroed_ok[OF assms(1)] Let_def)
  let ?bytes = "concat (tr_region m1)"
  have sized: "\<forall>r\<in>set (tr_region m1). length r = 32" using assms(3) n by (auto simp: tr_wf_def m1(2))
  have len: "length ?bytes = (length (tr_region m) + 1) * 32"
    using length_concat_const[of "tr_region m1" 32] sized by (simp add: m1(2))
  have small: "length ?bytes < 2 ^ 64" using assms(5) by (simp add: len)
  have m2: "start = tr_address m" "tr_locations m2 = tr_locations m1"
    "mem (m_world m2) = store_bytes (tr_address m) ?bytes (mem (m_world m))"
    using assms(1,7) m1(3,4)
    by (auto simp: finalize_trampoline_region_def Let_def write_mem_eq flush_icache_def w_bytes_okD[OF assms(1)])
  have cell: "bytes_at (mem (m_world m2)) (tr_address m + of_nat (i * 32)) 32 = tr_region m1 ! i"
    if "i < length (tr_region m1)" for i
  proof -
    have "i * 32 + 32 \<le> length ?bytes" unfolding len using that m1(2) by simp
    then have "bytes_at (mem (m_world m2)) (tr_address m + of_nat (i * 32)) 32 = take 32 (drop (i * 32) ?bytes)"
      using bytes_at_slice[of "i * 32" 32 "length ?bytes" "mem (m_world m2)" "tr_address m"]
        bytes_at_store[OF small, of "tr_address m" "mem (m_world m)"] by (simp add: m2(3))
    then show ?thesis using nth_region_slice[OF sized that] by simp
  qed
  have "bytes_at (mem (m_world m2)) loc 32 = ?buf"
    using cell[of "length (tr_region m)"] m1(1,2) by simp
  moreover have "take n ?orig = bytes_at (mem (m_world m)) address n"
    using n by (simp add: bytes_at_take)
  ultimately have "bytes_at (mem (m_world m2)) loc 32 =
      bytes_at (mem (m_world m)) address n @ jmp_absolute (address + of_nat n) @ drop (n + 14) ?orig"
    by (simp add: memcpy_at_def)
  moreover have "fst (get_trampoline_address address m2) = loc"
    using assms(3) by (simp add: get_trampoline_address_def m2(2) m1(5) tr_wf_def map_of_smap_modify)
  moreover have "bytes_at (mem (m_world m2)) (start + of_nat (i * 32)) 32 = tr_region m ! i"
    if "i < length (tr_region m)" for i
    using cell[of i] that by (simp add: m2(1) m1(2) nth_append)
  ultimately show ?thesis by (simp add: jmp_absolute_def)
qed

theorem trampoline_layout_witness:
  "let m = threads.extend (threads_init (\<lambda>a. if a = 0x5000 then 0x4C else 0x8B) [] Map.empty)
        \<lparr> tr_region = [], tr_locations = [], tr_address = 0x9000, tr_size = 4096 \<rparr>;
       (loc, m1) = create_trampoline flat_win32 (\<lambda>_. Some 3) 0x5000 m;
       (start, m2) = finalize_trampoline_region flat_win32 m1
   in take 17 (bytes_at (m_world m2) loc 32) = [0x4C, 0x8B, 0x8B, 0xFF, 0x25, 0, 0, 0, 0] @ word_le 0x5003"
proof -
  let ?m = "threads.extend (threads_init (\<lambda>a. if a = 0x5000 then 0x4C else 0x8B) [] Map.empty)
        \<lparr> tr_region = [], tr_locations = [], tr_address = 0x9000, tr_size = 4096 \<rparr> :: (addr \<Rightarrow> byte) trampolines"
  obtain loc m1 where 1: "create_trampoline flat_win32 (\<lambda>_. Some 3) 0x5000 ?m = (loc, m1)" by force
  obtain start m2 where 2: "finalize_trampoline_region flat_win32 m1 = (start, m2)" by force
  have w: "m_world ?m = (\<lambda>a. if a = 0x5000 then 0x4C else 0x8B)"
    by (simp add: threads.extend_def threads_init_def machine.extend_def machine_init_def)
  have "tr_wf ?m" "length (tr_region ?m) < 1000" by (simp_all add: tr_wf_def threads.extend_def)
  from trampoline_layout[OF flat_win32_ok _ this(1) _ this(2) 1 2, of 3]
  have "bytes_at (m_world m2) loc 32 = bytes_at (m_world ?m) 0x5000 3 @ [0xFF, 0x25, 0, 0, 0, 0]
      @ word_le 0x5003 @ drop 17 (bytes_at (m_world ?m) 0x5000 32)"
    by (simp add: decode_ok_def)
  moreover have "bytes_at (m_world ?m) 0x5000 3 = [0x4C, 0x8B, 0x8B]"
    by (simp add: w bytes_at_Suc numeral_3_eq_3 bytes_at_def[of _ _ 0])
  ultimately show ?thesis using 1 2 by (simp add: Let_def)
qed

end
