(* ===== verification/Text_Utils.thy ===== *)
theory Text_Utils
  imports Prelude "HOL-Library.List_Lexorder" "HOL-Library.Char_ord"
begin

text \<open>
  The string helpers of \<open>src/src/utils/misc.cpp\<close> and \<open>src/src/utils/language_extensions.cpp\<close>.
  \<open>std::views::split\<close> of an empty string has no parts; otherwise there is one part more than there
  are delimiters, a trailing delimiter giving a last empty part.
\<close>

fun split_nonempty :: "char \<Rightarrow> string \<Rightarrow> string list" where
  "split_nonempty d [] = [[]]"
| "split_nonempty d (c # cs) =
     (if c = d then [] # split_nonempty d cs
      else (case split_nonempty d cs of p # ps \<Rightarrow> (c # p) # ps | [] \<Rightarrow> [[c]]))"

definition split_string :: "string \<Rightarrow> char \<Rightarrow> string list" where
  "split_string s d = (if s = [] then [] else split_nonempty d s)"

fun join_with :: "char \<Rightarrow> string list \<Rightarrow> string" where
  "join_with d [] = []"
| "join_with d [p] = p"
| "join_with d (p # q # ps) = p @ d # join_with d (q # ps)"

definition get_language_from_ext :: "string \<Rightarrow> string option" where
  "get_language_from_ext extension =
     map_of [(''cpp'', ''cpp''), (''c++'', ''cpp''), (''cxx'', ''cpp''), (''cc'', ''cpp''), (''C'', ''cpp''),
             (''c'', ''c''), (''py'', ''python'')] extension"

section \<open>Numbers as text\<close>

definition digit_char :: "nat \<Rightarrow> char" where
  "digit_char n = char_of (if n < 10 then 48 + n else 87 + n)"

fun show_base :: "nat \<Rightarrow> nat \<Rightarrow> string" where
  "show_base b n = (if n < b \<or> b < 2 then [digit_char n] else show_base b (n div b) @ [digit_char (n mod b)])"

declare show_base.simps [simp del]

definition show_dec :: "nat \<Rightarrow> string" where "show_dec n = show_base 10 n"

text \<open>The formatter \<open>{:p}\<close> of an address.\<close>

definition show_ptr :: "64 word \<Rightarrow> string" where "show_ptr a = ''0x'' @ show_base 16 (unat a)"

definition show_bool :: "bool \<Rightarrow> string" where "show_bool b = (if b then ''true'' else ''false'')"

section \<open>Splitting\<close>

lemma split_nonempty_ne: "split_nonempty d s \<noteq> []"
  by (induction d s rule: split_nonempty.induct) (auto split: list.split)

lemma join_split_nonempty: "join_with d (split_nonempty d s) = s"
proof (induction d s rule: split_nonempty.induct)
  case (2 d c cs)
  obtain p ps where p: "split_nonempty d cs = p # ps" using split_nonempty_ne by (cases "split_nonempty d cs") auto
  show ?case
  proof (cases "c = d")
    case True
    then show ?thesis using 2(1) p by simp
  next
    case False
    then show ?thesis using 2(2) p by (cases ps) auto
  qed
qed simp

lemma split_nonempty_no_delim: "p \<in> set (split_nonempty d s) \<Longrightarrow> d \<notin> set p"
proof (induction d s arbitrary: p rule: split_nonempty.induct)
  case (2 d c cs)
  obtain q qs where q: "split_nonempty d cs = q # qs" using split_nonempty_ne by (cases "split_nonempty d cs") auto
  show ?case using 2 q by (cases "c = d") (auto split: list.splits)
qed simp

lemma split_nonempty_append: "d \<notin> set p \<Longrightarrow> split_nonempty d (p @ d # s) = p # split_nonempty d s"
  by (induction p) auto

lemma split_nonempty_one: "d \<notin> set p \<Longrightarrow> split_nonempty d p = [p]"
  by (induction p) auto

lemma split_join: "ps \<noteq> [] \<Longrightarrow> \<forall>p\<in>set ps. d \<notin> set p \<Longrightarrow> split_nonempty d (join_with d ps) = ps"
  by (induction d ps rule: join_with.induct) (auto simp: split_nonempty_one split_nonempty_append)

text \<open>
  split_string and joining with the delimiter are inverse.  Joining the parts of any non-empty
  string gives the string back, no part contains the delimiter, and any list of at least two
  delimiter-free parts (a plugin's list of languages) is recovered from its joined form.
\<close>

theorem split_string_round_trip:
  "s \<noteq> [] \<Longrightarrow> join_with d (split_string s d) = s \<and> (\<forall>p\<in>set (split_string s d). d \<notin> set p)
   \<and> (\<forall>ps. 2 \<le> length ps \<longrightarrow> (\<forall>p\<in>set ps. d \<notin> set p) \<longrightarrow> split_string (join_with d ps) d = ps)"
proof -
  assume "s \<noteq> []"
  moreover have "join_with d ps \<noteq> []" if "2 \<le> length ps" for ps
    using that by (cases "(d, ps)" rule: join_with.cases) auto
  ultimately show ?thesis
    by (auto simp: split_string_def join_split_nonempty split_nonempty_no_delim intro!: split_join)
qed

theorem split_string_round_trip_witness:
  "join_with CHR '';'' (split_string ''cpp;c++;c'' CHR '';'') = ''cpp;c++;c''"
  using split_string_round_trip[of "''cpp;c++;c''" "CHR '';''"] by simp

end
