(* ===== verification/Plugin_Manager.thy ===== *)
theory Plugin_Manager
  imports Trampoline Text_Utils
begin

text \<open>
  \<open>src/src/managers/plugin_manager.cpp\<close> and the types of \<open>src/plugins/base_breakpoint_plugin.h\<close>: the
  table of loaded language plugins and the calls through it.

  A plugin is a library loaded at run time; its exported functions are the fields of the record
  \<open>plugin_api\<close>, over the same world as the operating system.  Output parameters (a pointer and a
  size) are lists: the call takes the buffer and gives the buffer back, with the number of entries
  it has to report.  \<open>plugin_apis[language]\<close> of a language without a plugin yields null function
  pointers, so every call through it has no result (\<open>None\<close>).
\<close>

datatype process_information_type =
  PI_Register | PI_AllRegisters | PI_ScopedVariables | PI_Stack | PI_AllStacks | PI_Thread | PI_AllThreads | PI_Lines

datatype step_mode = Step_Line | Step_Into

datatype reverse_step_mode = Reverse_Instruction | Reverse_Line | Reverse_Into

datatype step_breakpoint_kind = SB_Line | SB_Call | SB_IndirectJump | SB_Return

record step_breakpoint =
  sb_original_address :: addr
  sb_true_address :: addr
  sb_step_kind :: step_breakpoint_kind
  sb_has_source_info :: bool

record source_location =
  sl_file_name :: string
  sl_line_number :: u64
  sl_code_address :: addr
  sl_statement_beginning :: bool

record function_bounds =
  fb_start :: addr
  fb_end :: addr

record return_address =
  ra_original_address :: addr
  ra_has_symbols :: bool

record potential_predecessor =
  pp_true_address :: addr
  pp_branch_counter :: u64
  pp_is_block_leader :: bool

record 'w plugin_api =
  pl_languages :: "'w \<Rightarrow> string"
  pl_initialize_plugin :: "'w \<Rightarrow> u32 \<Rightarrow> string \<Rightarrow> string \<Rightarrow> bool \<times> 'w"
  pl_uninitialize_plugin :: "'w \<Rightarrow> 'w"
  pl_get_source_info_for_address :: "'w \<Rightarrow> addr \<Rightarrow> source_location \<times> 'w"
  pl_create_conditional_expression :: "'w \<Rightarrow> addr \<Rightarrow> string \<Rightarrow> bool \<times> 'w"
  pl_reached_breakpoint :: "'w \<Rightarrow> addr \<Rightarrow> thread_id \<Rightarrow> bool \<times> 'w"
  pl_print_process_info :: "'w \<Rightarrow> addr \<Rightarrow> thread_id \<Rightarrow> process_information_type \<Rightarrow> string list \<times> 'w"
  pl_get_address_from_name :: "'w \<Rightarrow> string \<Rightarrow> string \<Rightarrow> addr \<times> 'w"
  pl_get_function_bounds :: "'w \<Rightarrow> addr \<Rightarrow> function_bounds \<times> 'w"
  pl_add_branch_instrumentation :: "'w \<Rightarrow> u32 \<Rightarrow> u32 \<Rightarrow> bool \<times> 'w"
  pl_get_true_address :: "'w \<Rightarrow> addr \<Rightarrow> addr \<times> 'w"
  pl_get_original_address :: "'w \<Rightarrow> addr \<Rightarrow> addr \<times> 'w"
  pl_get_address_predecessors ::
    "'w \<Rightarrow> addr \<Rightarrow> u64 \<Rightarrow> reverse_step_mode \<Rightarrow> potential_predecessor list \<Rightarrow> (nat \<times> potential_predecessor list) \<times> 'w"
  pl_print_stack :: "'w \<Rightarrow> thread_id \<Rightarrow> string list \<times> 'w"
  pl_print_registers :: "'w \<Rightarrow> thread_id \<Rightarrow> string list \<times> 'w"
  pl_print_lines :: "'w \<Rightarrow> addr \<Rightarrow> u16 \<Rightarrow> u16 \<Rightarrow> string list \<times> 'w"
  pl_get_frame_return_address :: "'w \<Rightarrow> thread_id \<Rightarrow> addr \<times> 'w"
  pl_get_breakpoints_for_step :: "'w \<Rightarrow> addr \<Rightarrow> u32 \<Rightarrow> step_breakpoint list \<Rightarrow> (nat \<times> step_breakpoint list) \<times> 'w"
  pl_get_branch_target :: "'w \<Rightarrow> addr \<Rightarrow> u64 \<Rightarrow> u64 \<times> 'w"
  pl_get_all_frame_return_addresses :: "'w \<Rightarrow> thread_id \<Rightarrow> return_address list \<Rightarrow> (nat \<times> return_address list) \<times> 'w"
  pl_print_object_type :: "'w \<Rightarrow> string \<Rightarrow> string \<Rightarrow> addr \<Rightarrow> string list \<times> 'w"

record 'w plugins = "'w trampolines" +
  pm_plugin_apis :: "(string, 'w plugin_api) smap"
  pm_all_apis :: "'w plugin_api list"

section \<open>Loading\<close>

definition plugin_exports :: "string list" where
  "plugin_exports =
     [''get_metadata'', ''initialize_plugin'', ''uninitialize_plugin'', ''get_source_info_for_address'',
      ''create_conditional_expression'', ''reached_breakpoint'', ''print_process_info'', ''get_address_from_name'',
      ''get_function_bounds'', ''add_branch_instrumentation'', ''get_true_address'', ''get_original_address'',
      ''get_address_predecessors'', ''print_stack'', ''print_registers'', ''print_lines'',
      ''get_frame_return_address'', ''get_breakpoints_for_step'', ''get_branch_target'',
      ''get_all_frame_return_addresses'', ''print_object_type'']"

text \<open>\<open>valid_api\<close>: every pointer that \<open>GetProcAddress\<close> looked up was found.\<close>

definition valid_api :: "string list \<Rightarrow> bool" where
  "valid_api found = list_all (\<lambda>name. name \<in> set found) plugin_exports"

text \<open>
  An entry of the working directory: its extension and, when \<open>LoadLibrary\<close> succeeds, the names the
  module exports and the functions behind them.
\<close>

record 'w dir_entry =
  de_extension :: string
  de_module :: "(string list \<times> 'w plugin_api) option"

definition load_plugin :: "'w dir_entry \<Rightarrow> ('w, 'z) plugins_scheme \<Rightarrow> ('w, 'z) plugins_scheme" where
  "load_plugin entry m =
     (if de_extension entry \<noteq> ''.dll'' then m
      else case de_module entry of
        None \<Rightarrow> m
      | Some (found, api) \<Rightarrow>
          if \<not> valid_api found then m
          else
            (let (_, w) = pl_initialize_plugin api (m_world m) (g_process_id m) ''simple_cpp.exe''
                   ''C:/Users/zlowe/Desktop/_dev/chronoporia/build/bin/test_scripts/simple_cpp.pdb'';
                 languages = split_string (pl_languages api w) CHR '';''
             in m \<lparr> m_world := w,
                    pm_plugin_apis := fold (\<lambda>language. smap_modify language api (\<lambda>_. api)) languages (pm_plugin_apis m),
                    pm_all_apis := pm_all_apis m @ [api] \<rparr>))"

definition load_and_initialize_all_plugins :: "'w dir_entry list \<Rightarrow> ('w, 'z) plugins_scheme \<Rightarrow> ('w, 'z) plugins_scheme" where
  "load_and_initialize_all_plugins entries = fold load_plugin entries"

definition unitialize_all_plugins :: "('w, 'z) plugins_scheme \<Rightarrow> ('w, 'z) plugins_scheme" where
  "unitialize_all_plugins m =
     fold (\<lambda>api m. m \<lparr> m_world := pl_uninitialize_plugin api (m_world m) \<rparr>) (pm_all_apis m) m"

section \<open>Calls through the table\<close>

definition call_plugin ::
    "string \<Rightarrow> ('w plugin_api \<Rightarrow> 'w \<Rightarrow> 'r \<times> 'w) \<Rightarrow> ('w, 'z) plugins_scheme \<Rightarrow> ('r \<times> ('w, 'z) plugins_scheme) option" where
  "call_plugin language f m =
     (case map_of (pm_plugin_apis m) language of
        None \<Rightarrow> None
      | Some api \<Rightarrow> (let (r, w) = f api (m_world m) in Some (r, m \<lparr> m_world := w \<rparr>)))"

definition create_conditional_breakpoint where
  "create_conditional_breakpoint language original_address expression =
     call_plugin language (\<lambda>api w. pl_create_conditional_expression api w original_address expression)"

definition reached_breakpoint where
  "reached_breakpoint language true_address tid = call_plugin language (\<lambda>api w. pl_reached_breakpoint api w true_address tid)"

definition get_address_from_name_type where
  "get_address_from_name_type language name symbol_type =
     call_plugin language (\<lambda>api w. pl_get_address_from_name api w name symbol_type)"

definition get_true_address where
  "get_true_address language original_address = call_plugin language (\<lambda>api w. pl_get_true_address api w original_address)"

definition get_original_address where
  "get_original_address language true_address = call_plugin language (\<lambda>api w. pl_get_original_address api w true_address)"

definition get_frame_return_address where
  "get_frame_return_address language tid = call_plugin language (\<lambda>api w. pl_get_frame_return_address api w tid)"

definition get_source_info_for_address where
  "get_source_info_for_address language original_address =
     call_plugin language (\<lambda>api w. pl_get_source_info_for_address api w original_address)"

text \<open>\<open>vector.resize(n)\<close>: cut, or filled up with value-initialised entries.\<close>

definition resize :: "nat \<Rightarrow> 'a \<Rightarrow> 'a list \<Rightarrow> 'a list" where
  "resize n d xs = take n xs @ replicate (n - length xs) d"

definition return_address_zero :: return_address where
  "return_address_zero = \<lparr> ra_original_address = 0, ra_has_symbols = False \<rparr>"

definition predecessor_zero :: potential_predecessor where
  "predecessor_zero = \<lparr> pp_true_address = 0, pp_branch_counter = 0, pp_is_block_leader = False \<rparr>"

definition step_breakpoint_zero :: step_breakpoint where
  "step_breakpoint_zero =
     \<lparr> sb_original_address = 0, sb_true_address = 0, sb_step_kind = SB_Line, sb_has_source_info = False \<rparr>"

definition get_all_frame_return_addresses ::
    "string \<Rightarrow> thread_id \<Rightarrow> ('w, 'z) plugins_scheme \<Rightarrow> (return_address list \<times> ('w, 'z) plugins_scheme) option" where
  "get_all_frame_return_addresses language tid m =
     do { ((new_size, buf), m) \<leftarrow> call_plugin language
            (\<lambda>api w. pl_get_all_frame_return_addresses api w tid (replicate 64 return_address_zero)) m;
          if new_size \<noteq> 0 then
            do { ((_, buf), m) \<leftarrow> call_plugin language
                   (\<lambda>api w. pl_get_all_frame_return_addresses api w tid (resize new_size return_address_zero buf)) m;
                 Some (resize new_size return_address_zero buf, m) }
          else Some (resize new_size return_address_zero buf, m) }"

definition get_address_predecessors ::
    "'w win32 \<Rightarrow> string \<Rightarrow> addr \<Rightarrow> reverse_step_mode \<Rightarrow> thread_id \<Rightarrow> ('w, 'z) plugins_scheme \<Rightarrow>
      (potential_predecessor list \<times> ('w, 'z) plugins_scheme) option" where
  "get_address_predecessors W language true_address mode tid m0 =
     (let (tls_counter, m) = read_thread_tls W tid BranchCounter m0 in
      do { ((new_size, buf), m) \<leftarrow> call_plugin language
             (\<lambda>api w. pl_get_address_predecessors api w true_address tls_counter mode (replicate 5 predecessor_zero)) m;
           if new_size > length buf then
             do { ((_, buf), m) \<leftarrow> call_plugin language
                    (\<lambda>api w. pl_get_address_predecessors api w true_address tls_counter mode
                        (resize new_size predecessor_zero buf)) m;
                  Some (resize new_size predecessor_zero buf, m) }
           else Some (resize new_size predecessor_zero buf, m) })"

definition get_branch_target ::
    "'w win32 \<Rightarrow> string \<Rightarrow> addr \<Rightarrow> thread_id \<Rightarrow> ('w, 'z) plugins_scheme \<Rightarrow> (u64 \<times> ('w, 'z) plugins_scheme) option" where
  "get_branch_target W language true_address tid m0 =
     (let (tls_counter, m) = read_thread_tls W tid BranchCounter m0
      in call_plugin language (\<lambda>api w. pl_get_branch_target api w true_address tls_counter) m)"

fun step_mode_code :: "step_mode \<Rightarrow> u32" where
  "step_mode_code Step_Line = 0"
| "step_mode_code Step_Into = 1"

definition get_breakpoints_for_step ::
    "string \<Rightarrow> addr \<Rightarrow> step_mode \<Rightarrow> ('w, 'z) plugins_scheme \<Rightarrow> (step_breakpoint list \<times> ('w, 'z) plugins_scheme) option" where
  "get_breakpoints_for_step language true_address mode m =
     do { ((needed, buf), m) \<leftarrow> call_plugin language
            (\<lambda>api w. pl_get_breakpoints_for_step api w true_address (step_mode_code mode)
                (replicate 8 step_breakpoint_zero)) m;
          if needed > length buf then
            do { ((needed, buf), m) \<leftarrow> call_plugin language
                   (\<lambda>api w. pl_get_breakpoints_for_step api w true_address (step_mode_code mode)
                       (resize needed step_breakpoint_zero buf)) m;
                 Some (resize needed step_breakpoint_zero buf, m) }
          else Some (resize needed step_breakpoint_zero buf, m) }"

section \<open>Printing\<close>

definition put_lines :: "string list \<Rightarrow> ('w, 'z) machine_scheme \<Rightarrow> ('w, 'z) machine_scheme" where
  "put_lines ls m = m \<lparr> g_stdout := g_stdout m @ ls \<rparr>"

definition print_loaded_plugins :: "('w, 'z) plugins_scheme \<Rightarrow> ('w, 'z) plugins_scheme" where
  "print_loaded_plugins m =
     put_lines (''Current plugins loaded:'' # map (\<lambda>(language, _). ''    '' @ language) (pm_plugin_apis m)) m"

definition print_all_scoped_variables :: "addr \<Rightarrow> thread_id \<Rightarrow> ('w, 'z) plugins_scheme \<Rightarrow> ('w, 'z) plugins_scheme" where
  "print_all_scoped_variables original_address tid m =
     fold (\<lambda>(language, api) m.
       (let m = put_line (''All scoped variables for '' @ language) m;
            (ls, w) = pl_print_process_info api (m_world m) original_address tid PI_ScopedVariables
        in put_lines ls (m \<lparr> m_world := w \<rparr>))) (pm_plugin_apis m) m"

definition call_printer where
  "call_printer language f m = map_option (\<lambda>(ls, m). put_lines ls m) (call_plugin language f m)"

definition print_stack where
  "print_stack language tid = call_printer language (\<lambda>api w. pl_print_stack api w tid)"

definition print_registers where
  "print_registers language tid = call_printer language (\<lambda>api w. pl_print_registers api w tid)"

text \<open>
  The range of line offsets: a lone count means that many lines from the current one, forwards or
  backwards; two values are the range.  The values are \<open>int16_t\<close>, the arithmetic is on \<open>int\<close> and
  the result is cut to 16 bits.
\<close>

definition line_offsets :: "u16 list \<Rightarrow> (u16 \<times> u16) option" where
  "line_offsets lines =
     (case lines of
        [] \<Rightarrow> None
      | [n] \<Rightarrow> if 0 < sint n then Some (0, n - 1) else Some (n + 1, 0)
      | s # e # _ \<Rightarrow> Some (s, e))"

definition print_lines :: "string \<Rightarrow> addr \<Rightarrow> u16 list \<Rightarrow> ('w, 'z) plugins_scheme \<Rightarrow> ('w, 'z) plugins_scheme option" where
  "print_lines language original_address lines m =
     (case line_offsets lines of
        None \<Rightarrow> Some m
      | Some (s, e) \<Rightarrow> call_printer language (\<lambda>api w. pl_print_lines api w original_address s e) m)"

definition print_object_type where
  "print_object_type language object_type pdb_file data_address =
     call_printer language (\<lambda>api w. pl_print_object_type api w object_type pdb_file data_address)"

definition any_plugins_loaded :: "('w, 'z) plugins_scheme \<Rightarrow> bool" where
  "any_plugins_loaded m = (pm_plugin_apis m \<noteq> [])"

definition plugin_loaded :: "string \<Rightarrow> ('w, 'z) plugins_scheme \<Rightarrow> bool" where
  "plugin_loaded language m = (map_of (pm_plugin_apis m) language \<noteq> None)"

section \<open>Properties\<close>

text \<open>
  The contract of an output buffer: whatever its size, the plugin reports how many entries there
  are and fills in as many as fit.
\<close>

definition fills :: "('w \<Rightarrow> 'b list \<Rightarrow> (nat \<times> 'b list) \<times> 'w) \<Rightarrow> 'b list \<Rightarrow> bool" where
  "fills f items = (\<forall>w buf. fst (f w buf) = (length items, take (length buf) items @ drop (length items) buf))"

lemma fills_call:
  assumes "fills f items"
  obtains w' where "f w buf = ((length items, take (length buf) items @ drop (length items) buf), w')"
  using assms unfolding fills_def by (metis prod.collapse)

lemma length_resize [simp]: "length (resize n d xs) = n"
  by (simp add: resize_def)

lemma resize_filled: "n = length items \<Longrightarrow> n \<le> length buf \<Longrightarrow>
    resize n d (take (length buf) items @ drop (length items) buf) = items"
  by (simp add: resize_def)

text \<open>
  The two-call protocol of the output buffers loses nothing.  When the plugin reports the number
  of its entries and fills what fits, the manager returns exactly the plugin's step breakpoints,
  predecessors and return addresses, however many there are and whatever its first buffer held.
\<close>

theorem plugin_buffers_complete:
  assumes "map_of (pm_plugin_apis m) language = Some api"
    and "fills (\<lambda>w. pl_get_breakpoints_for_step api w a (step_mode_code mode)) steps"
    and "fills (\<lambda>w. pl_get_address_predecessors api w a (fst (read_thread_tls W tid BranchCounter m)) rmode) preds"
    and "fills (\<lambda>w. pl_get_all_frame_return_addresses api w tid) frames"
    and "pm_plugin_apis (snd (read_thread_tls W tid BranchCounter m)) = pm_plugin_apis m"
  shows "map_option fst (get_breakpoints_for_step language a mode m) = Some steps
    \<and> map_option fst (get_address_predecessors W language a rmode tid m) = Some preds
    \<and> map_option fst (get_all_frame_return_addresses language tid m) = Some frames"
proof (intro conjI)
  obtain w1 where s1: "pl_get_breakpoints_for_step api (m_world m) a (step_mode_code mode) (replicate 8 step_breakpoint_zero)
      = ((length steps, take 8 steps @ drop (length steps) (replicate 8 step_breakpoint_zero)), w1)"
    using fills_call[OF assms(2)] by (metis length_replicate)
  let ?b1 = "resize (length steps) step_breakpoint_zero (take 8 steps @ drop (length steps) (replicate 8 step_breakpoint_zero))"
  obtain w2 where s2: "pl_get_breakpoints_for_step api w1 a (step_mode_code mode) ?b1
      = ((length steps, take (length steps) steps @ drop (length steps) ?b1), w2)"
    using fills_call[OF assms(2)] by (metis length_resize)
  show "map_option fst (get_breakpoints_for_step language a mode m) = Some steps"
    using assms(1) s1 s2 resize_filled[of "length steps" steps "replicate 8 step_breakpoint_zero"]
    by (auto simp: get_breakpoints_for_step_def call_plugin_def resize_def split: bind_split)
next
  obtain c m0 where c: "read_thread_tls W tid BranchCounter m = (c, m0)" by force
  then have api: "map_of (pm_plugin_apis m0) language = Some api" using assms(1,5) by simp
  have f: "fills (\<lambda>w. pl_get_address_predecessors api w a c rmode) preds" using assms(3) c by simp
  obtain w1 where s1: "pl_get_address_predecessors api (m_world m0) a c rmode (replicate 5 predecessor_zero)
      = ((length preds, take 5 preds @ drop (length preds) (replicate 5 predecessor_zero)), w1)"
    using fills_call[OF f] by (metis length_replicate)
  let ?b1 = "resize (length preds) predecessor_zero (take 5 preds @ drop (length preds) (replicate 5 predecessor_zero))"
  obtain w2 where s2: "pl_get_address_predecessors api w1 a c rmode ?b1
      = ((length preds, take (length preds) preds @ drop (length preds) ?b1), w2)"
    using fills_call[OF f] by (metis length_resize)
  show "map_option fst (get_address_predecessors W language a rmode tid m) = Some preds"
    using api c s1 s2 resize_filled[of "length preds" preds "replicate 5 predecessor_zero"]
    by (auto simp: get_address_predecessors_def call_plugin_def resize_def split: bind_split)
next
  obtain w1 where s1: "pl_get_all_frame_return_addresses api (m_world m) tid (replicate 64 return_address_zero)
      = ((length frames, take 64 frames @ drop (length frames) (replicate 64 return_address_zero)), w1)"
    using fills_call[OF assms(4)] by (metis length_replicate)
  let ?b1 = "resize (length frames) return_address_zero (take 64 frames @ drop (length frames) (replicate 64 return_address_zero))"
  obtain w2 where s2: "pl_get_all_frame_return_addresses api w1 tid ?b1
      = ((length frames, take (length frames) frames @ drop (length frames) ?b1), w2)"
    using fills_call[OF assms(4)] by (metis length_resize)
  show "map_option fst (get_all_frame_return_addresses language tid m) = Some frames"
    using assms(1) s1 s2
    by (auto simp: get_all_frame_return_addresses_def call_plugin_def resize_def split: bind_split)
qed

lemma sint_u16_pred: "0 < sint n \<Longrightarrow> sint (n - 1) = sint n - 1" for n :: u16
  using sint_lt[of n] by (simp add: sint_word_ariths signed_take_bit_int_eq_self)

text \<open>
  A lone count prints that many lines with the current one at the end of the range.  For a count
  n other than zero the offsets run from s to e with s at most 0 and e at least 0, one of them 0,
  and e - s + 1 is the absolute value of n; two values are passed on as they are; no value prints
  nothing.
\<close>

theorem line_offsets_count:
  "line_offsets [] = None \<and> (\<forall>s e rest. line_offsets (s # e # rest) = Some (s, e))
   \<and> (\<forall>n. sint n \<noteq> 0 \<longrightarrow> (\<exists>s e. line_offsets [n] = Some (s, e) \<and> sint s \<le> 0 \<and> 0 \<le> sint e
        \<and> (s = 0 \<or> e = 0) \<and> sint e - sint s + 1 = \<bar>sint n\<bar>))"
proof -
  have "\<exists>s e. line_offsets [n] = Some (s, e) \<and> sint s \<le> 0 \<and> 0 \<le> sint e
      \<and> (s = 0 \<or> e = 0) \<and> sint e - sint s + 1 = \<bar>sint n\<bar>" if "sint n \<noteq> 0" for n
  proof (cases "0 < sint n")
    case True
    then show ?thesis using sint_u16_pred[OF True] by (simp add: line_offsets_def)
  next
    case False
    then have neg: "sint n < 0" using that by simp
    have "sint (n + 1) = sint n + 1"
      using neg sint_ge[of n] by (simp add: sint_word_ariths signed_take_bit_int_eq_self)
    then show ?thesis using neg by (simp add: line_offsets_def)
  qed
  then show ?thesis by (simp add: line_offsets_def)
qed

theorem line_offsets_count_witness:
  "\<exists>s e. line_offsets [3] = Some (s, e) \<and> sint e - sint s + 1 = 3"
  using line_offsets_count[THEN conjunct2, THEN conjunct2, rule_format, of 3] by auto

text \<open>A plugin that reports fixed lists and maps every address to itself.\<close>

definition listing_plugin ::
    "step_breakpoint list \<Rightarrow> potential_predecessor list \<Rightarrow> return_address list \<Rightarrow> 'w plugin_api" where
  "listing_plugin steps preds frames =
     \<lparr> pl_languages = (\<lambda>w. ''cpp''), pl_initialize_plugin = (\<lambda>w p d q. (True, w)), pl_uninitialize_plugin = (\<lambda>w. w),
       pl_get_source_info_for_address = (\<lambda>w a. (\<lparr> sl_file_name = [], sl_line_number = 1, sl_code_address = a,
          sl_statement_beginning = True \<rparr>, w)),
       pl_create_conditional_expression = (\<lambda>w a e. (True, w)), pl_reached_breakpoint = (\<lambda>w a t. (True, w)),
       pl_print_process_info = (\<lambda>w a t i. ([], w)), pl_get_address_from_name = (\<lambda>w n t. (0, w)),
       pl_get_function_bounds = (\<lambda>w a. (\<lparr> fb_start = a, fb_end = a \<rparr>, w)),
       pl_add_branch_instrumentation = (\<lambda>w i j. (True, w)), pl_get_true_address = (\<lambda>w a. (a, w)),
       pl_get_original_address = (\<lambda>w a. (a, w)),
       pl_get_address_predecessors = (\<lambda>w a c r buf. ((length preds, take (length buf) preds @ drop (length preds) buf), w)),
       pl_print_stack = (\<lambda>w t. ([], w)), pl_print_registers = (\<lambda>w t. ([], w)), pl_print_lines = (\<lambda>w a s e. ([], w)),
       pl_get_frame_return_address = (\<lambda>w t. (0, w)),
       pl_get_breakpoints_for_step = (\<lambda>w a c buf. ((length steps, take (length buf) steps @ drop (length steps) buf), w)),
       pl_get_branch_target = (\<lambda>w a c. (0, w)),
       pl_get_all_frame_return_addresses = (\<lambda>w t buf. ((length frames, take (length buf) frames @ drop (length frames) buf), w)),
       pl_print_object_type = (\<lambda>w t p a. ([], w)) \<rparr>"

definition plugins_init :: "'w threads \<Rightarrow> (string, 'w plugin_api) smap \<Rightarrow> 'w plugins" where
  "plugins_init t apis = trampolines.extend
     (threads.extend t \<lparr> tr_region = [], tr_locations = [], tr_address = 0, tr_size = 0 \<rparr>)
     \<lparr> pm_plugin_apis = apis, pm_all_apis = map snd apis \<rparr>"

theorem plugin_buffers_complete_witness:
  "let preds = replicate 7 \<lparr> pp_true_address = 16, pp_branch_counter = 3, pp_is_block_leader = True \<rparr>;
       m = plugins_init (threads_init (\<lambda>_. 0) [] [BranchCounter \<mapsto> 5]) [(''cpp'', listing_plugin [] preds [])]
   in map_option fst (get_address_predecessors flat_win32 ''cpp'' 64 Reverse_Line 9 m) = Some preds"
proof -
  let ?preds = "replicate 7 \<lparr> pp_true_address = 16, pp_branch_counter = 3, pp_is_block_leader = True \<rparr>"
  let ?api = "listing_plugin [] ?preds [] :: (addr \<Rightarrow> byte) plugin_api"
  let ?m = "plugins_init (threads_init (\<lambda>_. 0) [] [BranchCounter \<mapsto> 5]) [(''cpp'', ?api)]"
  have 1: "map_of (pm_plugin_apis ?m) ''cpp'' = Some ?api"
    by (simp add: plugins_init_def trampolines.extend_def)
  have 2: "pm_plugin_apis (snd (read_thread_tls flat_win32 9 BranchCounter ?m)) = pm_plugin_apis ?m"
    by (simp add: read_thread_tls_def tls_subscript_def meta_subscript_def Let_def split: option.split)
  have 3: "fills (\<lambda>w. pl_get_breakpoints_for_step ?api w 64 (step_mode_code Step_Line)) []"
    "fills (\<lambda>w. pl_get_address_predecessors ?api w 64 c Reverse_Line) ?preds"
    "fills (\<lambda>w. pl_get_all_frame_return_addresses ?api w 9) []" for c
    by (simp_all add: fills_def listing_plugin_def)
  from plugin_buffers_complete[OF 1 3(1) 3(2) 3(3) 2] show ?thesis by (simp add: Let_def)
qed

end
