(* ===== verification/Patches.thy ===== *)
theory Patches
  imports Machine
begin

text \<open>
  The contract of temporary patches of the debuggee's code.  A provider can put a breakpoint byte at
  a free address, remembering the byte that was there, and clear it again; the client puts any
  number of them and clears them in any order, and is left with the code it found.  The
  interpretations, on the breakpoint table of the debugger, are in \<open>Breakpoints\<close>.
\<close>

locale code_patches =
  fixes ok :: "'s \<Rightarrow> bool"
    and bytes :: "'s \<Rightarrow> addr \<Rightarrow> byte"
    and free :: "'s \<Rightarrow> addr \<Rightarrow> bool"
    and saved :: "'s \<Rightarrow> addr \<Rightarrow> byte option"
    and plant :: "addr \<Rightarrow> 's \<Rightarrow> 's"
    and clear :: "addr \<Rightarrow> 's \<Rightarrow> 's"
    and mark :: byte
  assumes ok_plant: "ok s \<Longrightarrow> free s a \<Longrightarrow> ok (plant a s)"
    and bytes_plant: "ok s \<Longrightarrow> free s a \<Longrightarrow> bytes (plant a s) = (bytes s)(a := mark)"
    and free_plant: "ok s \<Longrightarrow> free s a \<Longrightarrow> free (plant a s) b \<longleftrightarrow> free s b \<and> b \<noteq> a"
    and saved_plant: "ok s \<Longrightarrow> free s a \<Longrightarrow> saved (plant a s) = (saved s)(a \<mapsto> bytes s a)"
    and ok_clear: "ok s \<Longrightarrow> saved s a = Some v \<Longrightarrow> ok (clear a s)"
    and bytes_clear: "ok s \<Longrightarrow> saved s a = Some v \<Longrightarrow> bytes (clear a s) = (bytes s)(a := v)"
    and free_clear: "ok s \<Longrightarrow> saved s a = Some v \<Longrightarrow> free (clear a s) b \<longleftrightarrow> free s b \<or> b = a"
    and saved_clear: "ok s \<Longrightarrow> saved s a = Some v \<Longrightarrow> saved (clear a s) = (saved s)(a := None)"
begin

text \<open>The state after planting a set A of addresses in s.\<close>

definition planted :: "'s \<Rightarrow> addr set \<Rightarrow> 's \<Rightarrow> bool" where
  "planted s A s' =
     (ok s' \<and> bytes s' = (\<lambda>x. if x \<in> A then mark else bytes s x)
      \<and> (\<forall>x. free s' x \<longleftrightarrow> free s x \<and> x \<notin> A)
      \<and> (\<forall>x. x \<in> A \<longrightarrow> saved s' x = Some (bytes s x)))"

lemma planted_plant:
  assumes "planted s A s'" "free s a" "a \<notin> A"
  shows "planted s (insert a A) (plant a s')"
proof -
  have st: "ok s'" "free s' a" using assms by (auto simp: planted_def)
  show ?thesis
    using assms by (auto simp: planted_def ok_plant[OF st] bytes_plant[OF st] free_plant[OF st] saved_plant[OF st])
qed

lemma planted_clear:
  assumes "planted s A s'" "\<forall>x\<in>A. free s x" "a \<in> A"
  shows "planted s (A - {a}) (clear a s')"
proof -
  have st: "ok s'" "saved s' a = Some (bytes s a)" using assms by (auto simp: planted_def)
  show ?thesis
    using assms by (auto simp: planted_def ok_clear[OF st] bytes_clear[OF st] free_clear[OF st] saved_clear[OF st])
qed

lemma plant_all:
  assumes "planted s A s'" "distinct as" "\<forall>a\<in>set as. free s a \<and> a \<notin> A"
  shows "planted s (A \<union> set as) (fold plant as s')"
  using assms
proof (induction as arbitrary: A s')
  case (Cons a as)
  have "planted s (insert a A) (plant a s')" using Cons.prems by (intro planted_plant) auto
  then have "planted s (insert a A \<union> set as) (fold plant as (plant a s'))"
    using Cons.prems by (intro Cons.IH) auto
  then show ?case by simp
qed simp

lemma clear_all:
  assumes "planted s A s'" "distinct bs" "set bs \<subseteq> A" "\<forall>x\<in>A. free s x"
  shows "planted s (A - set bs) (fold clear bs s')"
  using assms
proof (induction bs arbitrary: A s')
  case (Cons b bs)
  have "planted s (A - {b}) (clear b s')" using Cons.prems by (intro planted_clear) auto
  then have "planted s (A - {b} - set bs) (fold clear bs (clear b s'))"
    using Cons.prems by (intro Cons.IH) auto
  moreover have "A - {b} - set bs = A - set (b # bs)" by auto
  ultimately show ?case by simp
qed simp

text \<open>Plant at distinct free addresses, clear the same addresses in any order: nothing is left.\<close>

lemma no_trace:
  assumes "ok s" "distinct as" "distinct bs" "set bs = set as" "\<forall>a\<in>set as. free s a"
  shows "bytes (fold clear bs (fold plant as s)) = bytes s"
    and "free (fold clear bs (fold plant as s)) x = free s x"
    and "bytes (fold plant as s) = (\<lambda>x. if x \<in> set as then mark else bytes s x)"
proof -
  have "planted s {} s" using assms(1) by (simp add: planted_def)
  then have 1: "planted s (set as) (fold plant as s)" using plant_all[of s "{}" s as] assms by simp
  then have "planted s (set as - set bs) (fold clear bs (fold plant as s))"
    using assms by (intro clear_all) auto
  then show "bytes (fold clear bs (fold plant as s)) = bytes s"
    "free (fold clear bs (fold plant as s)) x = free s x"
    using assms(4) by (simp_all add: planted_def)
  show "bytes (fold plant as s) = (\<lambda>x. if x \<in> set as then mark else bytes s x)"
    using 1 by (simp add: planted_def)
qed

end

end
