(* ===== verification/Breakpoints.thy ===== *)
theory Breakpoints
  imports Plugin_Manager Patches
begin

text \<open>
  \<open>src/src/managers/breakpoint_manager.cpp\<close>: the tables of software breakpoints and the bytes they
  patch, and \<open>src/src/managers/trampoline_manager.cpp\<close>, which sets the four permanent ones.

  The three tables are \<open>std::unordered_map\<close>s: the one that is only looked up is a function, the two
  that are iterated are association lists (the iteration order, which the standard leaves open, is
  taken ascending).  Calls that go through the language plugin have no result when the plugin for
  "cpp" is not loaded.
\<close>

datatype breakpoint_type =
  BP_Permanent | BP_Return | BP_Entry | BP_ShellCode | BP_SpinLock | BP_User | BP_Reverse | BP_Step

record breakpoint =
  bp_saved_byte :: byte
  bp_kind :: breakpoint_type
  bp_count :: u64
  bp_address :: addr
  bp_holding_threads :: "thread_id list"

record user_breakpoint =
  ub_saved_byte :: byte
  ub_active :: bool
  ub_original_addr :: addr
  ub_true_addr :: addr
  ub_line_number :: u64
  ub_length :: u64
  ub_file_name :: string
  ub_condition :: string

record 'w breakpoints = "'w plugins" +
  bm_address_to_bp :: "addr \<Rightarrow> breakpoint option"
  bm_permanent_bp_to_trampoline :: "(addr, addr) smap"
  bm_user_breakpoints :: "(addr, user_breakpoint) smap"

definition int3 :: byte where "int3 = 0xCC"

definition read_byte :: "'w win32 \<Rightarrow> addr \<Rightarrow> ('w, 'z) machine_scheme \<Rightarrow> byte" where
  "read_byte W a m = hd (read_uninit W a 1 m)"

text \<open>Write one byte and flush it; the flush is skipped when the write fails.\<close>

definition patch_byte :: "'w win32 \<Rightarrow> addr \<Rightarrow> byte \<Rightarrow> ('w, 'z) machine_scheme \<Rightarrow> bool \<times> ('w, 'z) machine_scheme" where
  "patch_byte W a b m =
     (let (ok, m') = write_mem W a [b] m in if ok then (True, flush_icache W a 1 m') else (False, m'))"

text \<open>Write \<open>int3\<close> and flush it, without a look at the result.\<close>

definition plant_int3 :: "'w win32 \<Rightarrow> addr \<Rightarrow> ('w, 'z) machine_scheme \<Rightarrow> ('w, 'z) machine_scheme" where
  "plant_int3 W a m = flush_icache W a 1 (snd (write_mem W a [int3] m))"

definition write_breakpoint :: "'w win32 \<Rightarrow> addr \<Rightarrow> breakpoint_type \<Rightarrow> ('w, 'z) breakpoints_scheme \<Rightarrow> ('w, 'z) breakpoints_scheme" where
  "write_breakpoint W address bp_type m =
     (let original = read_byte W address m;
          m = plant_int3 W address m
      in m \<lparr> bm_address_to_bp := (bm_address_to_bp m)(address \<mapsto>
               \<lparr> bp_saved_byte = original, bp_kind = bp_type, bp_count = 1, bp_address = address,
                 bp_holding_threads = [] \<rparr>) \<rparr>)"

definition restore_memory :: "'w win32 \<Rightarrow> breakpoint \<Rightarrow> ('w, 'z) breakpoints_scheme \<Rightarrow> bool \<times> ('w, 'z) breakpoints_scheme" where
  "restore_memory W bp m = patch_byte W (bp_address bp) (bp_saved_byte bp) m"

definition create_user_breakpoint ::
    "'w win32 \<Rightarrow> addr \<Rightarrow> string \<Rightarrow> ('w, 'z) breakpoints_scheme \<Rightarrow> ('w, 'z) breakpoints_scheme option" where
  "create_user_breakpoint W address condition m =
     do { (true_address, m) \<leftarrow> get_true_address ''cpp'' address m;
          let original = read_byte W true_address m;
          let m = plant_int3 W true_address m;
          let bp = \<lparr> ub_saved_byte = original, ub_active = True, ub_original_addr = address,
                    ub_true_addr = true_address, ub_line_number = 0, ub_length = 0, ub_file_name = [],
                    ub_condition = condition \<rparr>;
          Some (m \<lparr> bm_user_breakpoints := smap_modify true_address bp (\<lambda>_. bp) (bm_user_breakpoints m) \<rparr>) }"

definition create_permanent_breakpoint ::
    "'w win32 \<Rightarrow> (byte list \<Rightarrow> nat option) \<Rightarrow> addr \<Rightarrow> ('w, 'z) breakpoints_scheme \<Rightarrow> ('w, 'z) breakpoints_scheme" where
  "create_permanent_breakpoint W decode address m =
     (let (trampoline_address, m) = create_trampoline W decode address m;
          m = write_breakpoint W address BP_Permanent m
      in m \<lparr> bm_permanent_bp_to_trampoline :=
               smap_modify address 0 (\<lambda>_. trampoline_address) (bm_permanent_bp_to_trampoline m) \<rparr>)"

definition hold_breakpoint :: "addr \<Rightarrow> thread_id \<Rightarrow> u64 \<Rightarrow> ('w, 'z) breakpoints_scheme \<Rightarrow> ('w, 'z) breakpoints_scheme" where
  "hold_breakpoint address tid n m =
     m \<lparr> bm_address_to_bp := (bm_address_to_bp m)(address :=
           map_option (\<lambda>bp. bp \<lparr> bp_holding_threads := bp_holding_threads bp @ [tid], bp_count := bp_count bp + n \<rparr>)
             (bm_address_to_bp m address)) \<rparr>"

definition create_return_breakpoint ::
    "'w win32 \<Rightarrow> addr \<Rightarrow> thread_id \<Rightarrow> ('w, 'z) breakpoints_scheme \<Rightarrow> ('w, 'z) breakpoints_scheme" where
  "create_return_breakpoint W address tid m =
     (if bm_address_to_bp m address \<noteq> None then hold_breakpoint address tid 1 m
      else hold_breakpoint address tid 0 (write_breakpoint W address BP_Return m))"

definition create_step_breakpoint ::
    "'w win32 \<Rightarrow> addr \<Rightarrow> thread_id \<Rightarrow> ('w, 'z) breakpoints_scheme \<Rightarrow> ('w, 'z) breakpoints_scheme" where
  "create_step_breakpoint W address tid m =
     (if bm_address_to_bp m address \<noteq> None then hold_breakpoint address tid 1 m
      else hold_breakpoint address tid 0 (write_breakpoint W address BP_Step m))"

definition create_reverse_breakpoint ::
    "'w win32 \<Rightarrow> addr \<Rightarrow> thread_id \<Rightarrow> ('w, 'z) breakpoints_scheme \<Rightarrow> ('w, 'z) breakpoints_scheme option" where
  "create_reverse_breakpoint W address tid m =
     do { (true_address, m) \<leftarrow> get_true_address ''cpp'' address m;
          Some (hold_breakpoint true_address tid 0 (write_breakpoint W true_address BP_Reverse m)) }"

definition track_shell_code_breakpoint :: "addr \<Rightarrow> ('w, 'z) breakpoints_scheme \<Rightarrow> ('w, 'z) breakpoints_scheme" where
  "track_shell_code_breakpoint address m =
     m \<lparr> bm_address_to_bp := (bm_address_to_bp m)(address \<mapsto>
           \<lparr> bp_saved_byte = 0, bp_kind = BP_ShellCode, bp_count = 0, bp_address = address, bp_holding_threads = [] \<rparr>) \<rparr>"

definition remove_user_breakpoint ::
    "'w win32 \<Rightarrow> addr \<Rightarrow> ('w, 'z) breakpoints_scheme \<Rightarrow> (bool \<times> ('w, 'z) breakpoints_scheme) option" where
  "remove_user_breakpoint W address m =
     do { (true_address, m) \<leftarrow> get_true_address ''cpp'' address m;
          (case map_of (bm_user_breakpoints m) true_address of
             None \<Rightarrow> Some (False, m)
           | Some bp \<Rightarrow>
               let (ok, m) = patch_byte W (ub_true_addr bp) (ub_saved_byte bp) m in
               if ok then Some (True, m \<lparr> bm_user_breakpoints := smap_erase true_address (bm_user_breakpoints m) \<rparr>)
               else Some (False, m)) }"

text \<open>The original byte is written back before the count is looked at.\<close>

definition remove_breakpoint ::
    "'w win32 \<Rightarrow> addr \<Rightarrow> thread_id \<Rightarrow> ('w, 'z) breakpoints_scheme \<Rightarrow> (bool \<times> ('w, 'z) breakpoints_scheme) option" where
  "remove_breakpoint W address tid m =
     (if map_of (bm_permanent_bp_to_trampoline m) address \<noteq> None then Some (False, m)
      else case bm_address_to_bp m address of
        Some bp \<Rightarrow>
          if tid \<notin> set (bp_holding_threads bp) then Some (False, m)
          else
            (let (_, m) = restore_memory W bp m in
             Some (True, m \<lparr> bm_address_to_bp := (bm_address_to_bp m)(address :=
                 (if bp_count bp - 1 = 0 then None
                  else Some (bp \<lparr> bp_count := bp_count bp - 1,
                                  bp_holding_threads := remove1 tid (bp_holding_threads bp) \<rparr>))) \<rparr>))
      | None \<Rightarrow>
          if map_of (bm_user_breakpoints m) address \<noteq> None then remove_user_breakpoint W address m
          else Some (False, m))"

definition remove_permanent_breakpoint ::
    "'w win32 \<Rightarrow> addr \<Rightarrow> ('w, 'z) breakpoints_scheme \<Rightarrow> bool \<times> ('w, 'z) breakpoints_scheme" where
  "remove_permanent_breakpoint W address m =
     (case bm_address_to_bp m address of
        None \<Rightarrow> (False, m)
      | Some bp \<Rightarrow>
          let (bp_removed, m) = restore_memory W bp m in
          if bp_removed then
            (True, m \<lparr> bm_address_to_bp := (bm_address_to_bp m)(address := None),
                       bm_permanent_bp_to_trampoline := smap_erase address (bm_permanent_bp_to_trampoline m) \<rparr>)
          else (False, m))"

fun remove_permanent_breakpoints ::
    "'w win32 \<Rightarrow> addr list \<Rightarrow> ('w, 'z) breakpoints_scheme \<Rightarrow> bool \<times> ('w, 'z) breakpoints_scheme" where
  "remove_permanent_breakpoints W [] m = (True, m)"
| "remove_permanent_breakpoints W (a # as) m =
     (let (bp_removed, m) = remove_permanent_breakpoint W a m in
      if \<not> bp_removed then (False, m) else remove_permanent_breakpoints W as m)"

definition remove_all_permanent_breakpoints ::
    "'w win32 \<Rightarrow> ('w, 'z) breakpoints_scheme \<Rightarrow> bool \<times> ('w, 'z) breakpoints_scheme" where
  "remove_all_permanent_breakpoints W m =
     remove_permanent_breakpoints W (map fst (bm_permanent_bp_to_trampoline m)) m"

section \<open>Queries\<close>

definition get_breakpoint_type :: "addr \<Rightarrow> thread_id \<Rightarrow> ('w, 'z) breakpoints_scheme \<Rightarrow> breakpoint_type option" where
  "get_breakpoint_type address tid m =
     (if map_of (bm_user_breakpoints m) address \<noteq> None then Some BP_User
      else if map_of (bm_permanent_bp_to_trampoline m) address \<noteq> None then Some BP_Permanent
      else case bm_address_to_bp m address of
        Some bp \<Rightarrow>
          if bp_kind bp = BP_ShellCode then Some BP_ShellCode
          else if tid \<notin> set (bp_holding_threads bp) then Some BP_SpinLock
          else Some (bp_kind bp)
      | None \<Rightarrow> None)"

definition is_breakpoint_type_step :: "addr \<Rightarrow> thread_id \<Rightarrow> ('w, 'z) breakpoints_scheme \<Rightarrow> bool" where
  "is_breakpoint_type_step address tid m =
     (case bm_address_to_bp m address of
        None \<Rightarrow> False
      | Some bp \<Rightarrow> if tid \<notin> set (bp_holding_threads bp) then False else bp_kind bp = BP_Step)"

definition user_breakpoint_line :: "addr \<Rightarrow> user_breakpoint \<Rightarrow> string" where
  "user_breakpoint_line address bp =
     ''[active='' @ show_bool (ub_active bp) @ ''; address='' @ show_ptr address @ '';  line='' @
     show_dec (unat (ub_line_number bp)) @ '';  file='' @ ub_file_name bp @ ''; condition='' @ ub_condition bp @ '']''"

definition print_all_user_breakpoints :: "('w, 'z) breakpoints_scheme \<Rightarrow> ('w, 'z) breakpoints_scheme" where
  "print_all_user_breakpoints m = put_lines (map (\<lambda>(a, bp). user_breakpoint_line a bp) (bm_user_breakpoints m)) m"

definition print_user_breakpoint :: "addr \<Rightarrow> ('w, 'z) breakpoints_scheme \<Rightarrow> ('w, 'z) breakpoints_scheme option" where
  "print_user_breakpoint address m =
     do { (true_address, m) \<leftarrow> get_true_address ''cpp'' address m;
          Some (case map_of (bm_user_breakpoints m) true_address of
                  None \<Rightarrow> m | Some bp \<Rightarrow> put_line (user_breakpoint_line address bp) m) }"

definition get_user_breakpoint ::
    "addr \<Rightarrow> ('w, 'z) breakpoints_scheme \<Rightarrow> (user_breakpoint option \<times> ('w, 'z) breakpoints_scheme) option" where
  "get_user_breakpoint address m =
     do { (true_address, m) \<leftarrow> get_true_address ''cpp'' address m;
          Some (map_of (bm_user_breakpoints m) true_address, m) }"

definition is_user_breakpoint_conditional ::
    "addr \<Rightarrow> ('w, 'z) breakpoints_scheme \<Rightarrow> (bool \<times> ('w, 'z) breakpoints_scheme) option" where
  "is_user_breakpoint_conditional address m =
     do { (true_address, m) \<leftarrow> get_true_address ''cpp'' address m;
          Some (case map_of (bm_user_breakpoints m) true_address of
                  None \<Rightarrow> False | Some bp \<Rightarrow> ub_condition bp \<noteq> [], m) }"

section \<open>Disabling and enabling\<close>

definition disable_user_breakpoint ::
    "'w win32 \<Rightarrow> addr \<Rightarrow> ('w, 'z) breakpoints_scheme \<Rightarrow> (bool \<times> ('w, 'z) breakpoints_scheme) option" where
  "disable_user_breakpoint W address m =
     do { (true_address, m) \<leftarrow> get_true_address ''cpp'' address m;
          Some (case map_of (bm_user_breakpoints m) true_address of
                  None \<Rightarrow> (False, m) | Some bp \<Rightarrow> patch_byte W (ub_true_addr bp) (ub_saved_byte bp) m) }"

definition enable_user_breakpoint ::
    "'w win32 \<Rightarrow> addr \<Rightarrow> ('w, 'z) breakpoints_scheme \<Rightarrow> (bool \<times> ('w, 'z) breakpoints_scheme) option" where
  "enable_user_breakpoint W address m =
     do { (true_address, m) \<leftarrow> get_true_address ''cpp'' address m;
          Some (case map_of (bm_user_breakpoints m) true_address of
                  None \<Rightarrow> (False, m) | Some bp \<Rightarrow> patch_byte W (ub_true_addr bp) int3 m) }"

definition disable_breakpoint ::
    "'w win32 \<Rightarrow> addr \<Rightarrow> ('w, 'z) breakpoints_scheme \<Rightarrow> (bool \<times> ('w, 'z) breakpoints_scheme) option" where
  "disable_breakpoint W address m =
     do { (true_address, m) \<leftarrow> get_true_address ''cpp'' address m;
          Some (case bm_address_to_bp m true_address of
                  None \<Rightarrow> (False, m) | Some bp \<Rightarrow> patch_byte W (bp_address bp) (bp_saved_byte bp) m) }"

definition enable_breakpoint ::
    "'w win32 \<Rightarrow> addr \<Rightarrow> ('w, 'z) breakpoints_scheme \<Rightarrow> (bool \<times> ('w, 'z) breakpoints_scheme) option" where
  "enable_breakpoint W address m =
     do { (true_address, m) \<leftarrow> get_true_address ''cpp'' address m;
          Some (case bm_address_to_bp m true_address of
                  None \<Rightarrow> (False, m) | Some bp \<Rightarrow> patch_byte W (bp_address bp) int3 m) }"

section \<open>Breakpoints leave no trace\<close>

lemma read_byte_ok: "w_bytes_ok W mem \<Longrightarrow> read_byte W a m = mem (m_world m) a"
  by (simp add: read_byte_def read_uninit_def w_bytes_okD bytes_at_Suc)

lemma plant_int3_ok:
  "w_bytes_ok W mem \<Longrightarrow> mem (m_world (plant_int3 W a m)) = (mem (m_world m))(a := int3)"
  by (simp add: plant_int3_def flush_icache_def write_mem_eq w_bytes_okD fun_eq_iff)

lemma plant_int3_simps [simp]:
  "bm_address_to_bp (plant_int3 W a m) = bm_address_to_bp m"
  "bm_permanent_bp_to_trampoline (plant_int3 W a m) = bm_permanent_bp_to_trampoline m"
  "bm_user_breakpoints (plant_int3 W a m) = bm_user_breakpoints m"
  by (simp_all add: plant_int3_def flush_icache_def write_mem_eq)

lemma patch_byte_ok:
  assumes "w_bytes_ok W mem"
  shows "fst (patch_byte W a b m)"
    and "mem (m_world (snd (patch_byte W a b m))) = (mem (m_world m))(a := b)"
  using w_bytes_okD(2)[OF assms, of "m_world m" a "[b]"] w_bytes_okD(3)[OF assms, of "m_world m" a "[b]"]
  by (simp_all add: patch_byte_def write_mem_eq flush_icache_def w_bytes_okD(4)[OF assms])

lemma patch_byte_simps [simp]:
  "bm_address_to_bp (snd (patch_byte W a b m)) = bm_address_to_bp m"
  "bm_permanent_bp_to_trampoline (snd (patch_byte W a b m)) = bm_permanent_bp_to_trampoline m"
  "bm_user_breakpoints (snd (patch_byte W a b m)) = bm_user_breakpoints m"
  by (simp_all add: patch_byte_def flush_icache_def write_mem_eq)

definition bp_free :: "('w, 'z) breakpoints_scheme \<Rightarrow> addr \<Rightarrow> bool" where
  "bp_free m a = (bm_address_to_bp m a = None \<and> map_of (bm_permanent_bp_to_trampoline m) a = None)"

text \<open>The byte saved at an address that only the thread holds.\<close>

definition bp_saved :: "thread_id \<Rightarrow> ('w, 'z) breakpoints_scheme \<Rightarrow> addr \<Rightarrow> byte option" where
  "bp_saved tid m a =
     (case bm_address_to_bp m a of
        None \<Rightarrow> None
      | Some bp \<Rightarrow> if bp_holding_threads bp = [tid] \<and> bp_count bp = 1 \<and> bp_address bp = a
            \<and> map_of (bm_permanent_bp_to_trampoline m) a = None
          then Some (bp_saved_byte bp) else None)"

definition bp_remove :: "'w win32 \<Rightarrow> thread_id \<Rightarrow> addr \<Rightarrow> ('w, 'z) breakpoints_scheme \<Rightarrow> ('w, 'z) breakpoints_scheme" where
  "bp_remove W tid a m = snd (the (remove_breakpoint W a tid m))"

lemma create_step_free:
  assumes "bp_free m a"
  shows "create_step_breakpoint W a tid m = hold_breakpoint a tid 0 (write_breakpoint W a BP_Step m)"
    and "create_return_breakpoint W a tid m = hold_breakpoint a tid 0 (write_breakpoint W a BP_Return m)"
  using assms by (simp_all add: create_step_breakpoint_def create_return_breakpoint_def bp_free_def)

lemma hold_write_laws:
  fixes m :: "('w, 'z) breakpoints_scheme" and kind :: breakpoint_type and tid :: thread_id
  assumes ok: "w_bytes_ok W mem" and free: "bp_free m a"
  defines "m' \<equiv> hold_breakpoint a tid 0 (write_breakpoint W a kind m)"
  shows "mem (m_world m') = (mem (m_world m))(a := int3)"
    and "bp_free m' b \<longleftrightarrow> bp_free m b \<and> b \<noteq> a"
    and "bp_saved tid m' = (bp_saved tid m)(a \<mapsto> mem (m_world m) a)"
proof -
  show "mem (m_world m') = (mem (m_world m))(a := int3)"
    by (simp add: m'_def hold_breakpoint_def write_breakpoint_def Let_def plant_int3_ok[OF ok])
  show "bp_free m' b \<longleftrightarrow> bp_free m b \<and> b \<noteq> a"
    by (auto simp: m'_def bp_free_def hold_breakpoint_def write_breakpoint_def Let_def)
  show "bp_saved tid m' = (bp_saved tid m)(a \<mapsto> mem (m_world m) a)"
  proof
    fix x
    have "bp_saved tid m' x = (if x = a then Some (read_byte W a m) else bp_saved tid m x)"
      using free
      by (simp add: m'_def bp_saved_def bp_free_def hold_breakpoint_def write_breakpoint_def Let_def split: option.split)
    then show "bp_saved tid m' x = ((bp_saved tid m)(a \<mapsto> mem (m_world m) a)) x"
      by (simp add: read_byte_ok[OF ok])
  qed
qed

lemma remove_laws:
  assumes ok: "w_bytes_ok W mem" and saved: "bp_saved tid m a = Some v"
  shows "mem (m_world (bp_remove W tid a m)) = (mem (m_world m))(a := v)"
    and "bp_free (bp_remove W tid a m) b \<longleftrightarrow> bp_free m b \<or> b = a"
    and "bp_saved tid (bp_remove W tid a m) = (bp_saved tid m)(a := None)"
proof -
  obtain bp where bp: "bm_address_to_bp m a = Some bp" "bp_holding_threads bp = [tid]" "bp_count bp = 1"
    "bp_address bp = a" "map_of (bm_permanent_bp_to_trampoline m) a = None" "bp_saved_byte bp = v"
    using saved by (auto simp: bp_saved_def split: option.splits if_splits)
  let ?m = "snd (patch_byte W a v m)"
  have eq: "bp_remove W tid a m = ?m \<lparr> bm_address_to_bp := (bm_address_to_bp ?m)(a := None) \<rparr>"
    using bp patch_byte_simps(1)[of W a v m]
    by (cases "patch_byte W a v m") (simp add: bp_remove_def remove_breakpoint_def restore_memory_def Let_def)
  show "mem (m_world (bp_remove W tid a m)) = (mem (m_world m))(a := v)"
    by (simp add: eq patch_byte_ok[OF ok])
  show "bp_free (bp_remove W tid a m) b \<longleftrightarrow> bp_free m b \<or> b = a"
    using bp(5) by (auto simp: eq bp_free_def)
  show "bp_saved tid (bp_remove W tid a m) = (bp_saved tid m)(a := None)"
    by (auto simp: eq bp_saved_def fun_eq_iff split: option.splits)
qed

interpretation step_bps: code_patches "\<lambda>m. w_bytes_ok W mem" "\<lambda>m. mem (m_world m)" bp_free "bp_saved tid"
  "\<lambda>a. create_step_breakpoint W a tid" "bp_remove W tid" int3 for W mem tid
  by unfold_locales (simp_all add: create_step_free hold_write_laws remove_laws fun_upd_def)

interpretation return_bps: code_patches "\<lambda>m. w_bytes_ok W mem" "\<lambda>m. mem (m_world m)" bp_free "bp_saved tid"
  "\<lambda>a. create_return_breakpoint W a tid" "bp_remove W tid" int3 for W mem tid
  by unfold_locales (simp_all add: create_step_free hold_write_laws remove_laws fun_upd_def)

text \<open>
  C31: Step breakpoints leave no trace.  A thread that sets step breakpoints at distinct addresses
  that carry none, and later removes them in any order, finds the debuggee's memory byte for byte
  as it was and the addresses free again; in between exactly those addresses hold int3.
\<close>

theorem step_breakpoints_leave_no_trace:
  assumes "w_bytes_ok W mem" "distinct as" "distinct bs" "set bs = set as" "\<forall>a\<in>set as. bp_free m a"
  shows "mem (m_world (fold (bp_remove W tid) bs (fold (\<lambda>a. create_step_breakpoint W a tid) as m))) = mem (m_world m)
    \<and> (\<forall>x. bp_free (fold (bp_remove W tid) bs (fold (\<lambda>a. create_step_breakpoint W a tid) as m)) x = bp_free m x)
    \<and> mem (m_world (fold (\<lambda>a. create_step_breakpoint W a tid) as m)) =
        (\<lambda>x. if x \<in> set as then int3 else mem (m_world m) x)"
  using step_bps.no_trace[OF assms] by blast

definition breakpoints_init :: "'w plugins \<Rightarrow> 'w breakpoints" where
  "breakpoints_init p = plugins.extend p
     \<lparr> bm_address_to_bp = Map.empty, bm_permanent_bp_to_trampoline = [], bm_user_breakpoints = [] \<rparr>"

definition flat_breakpoints :: "(addr \<Rightarrow> byte) \<Rightarrow> (addr \<Rightarrow> byte) breakpoints" where
  "flat_breakpoints code = breakpoints_init (plugins_init (threads_init code [] Map.empty)
     [(''cpp'', listing_plugin [] [] [])])"

lemma flat_breakpoints_free: "bp_free (flat_breakpoints code) a"
  by (simp add: bp_free_def flat_breakpoints_def breakpoints_init_def plugins.extend_def)

lemma flat_breakpoints_world [simp]: "m_world (flat_breakpoints code) = code"
  by (simp add: flat_breakpoints_def breakpoints_init_def plugins.extend_def plugins_init_def trampolines.extend_def
      threads.extend_def threads_init_def machine.extend_def machine_init_def)

theorem step_breakpoints_leave_no_trace_witness:
  "m_world (fold (bp_remove flat_win32 4) [16, 32] (fold (\<lambda>a. create_step_breakpoint flat_win32 a 4) [32, 16]
     (flat_breakpoints (\<lambda>a. ucast a)))) = (\<lambda>a. ucast a)"
  using step_breakpoints_leave_no_trace[OF flat_win32_ok, of "[32, 16]" "[16, 32]" "flat_breakpoints (\<lambda>a. ucast a)" 4]
    flat_breakpoints_free by auto

text \<open>
  C37: RemoveBreakpoint takes the int3 away from the other holders.  When two threads hold the same
  step breakpoint and one of them removes it, the original byte is written back at once, although
  the entry stays in the table with the other thread as its holder: that thread still owns a
  breakpoint that can no longer be hit.
\<close>

theorem shared_breakpoint_uncovered:
  assumes "w_bytes_ok W mem" "bp_free m a" "t \<noteq> u"
  shows "\<exists>m'. remove_breakpoint W a t (create_step_breakpoint W a u (create_step_breakpoint W a t m)) = Some (True, m')
    \<and> mem (m_world m') a = mem (m_world m) a
    \<and> get_breakpoint_type a u m' = (if map_of (bm_user_breakpoints m) a \<noteq> None then Some BP_User else Some BP_Step)"
proof -
  let ?m1 = "create_step_breakpoint W a t m"
  have 1: "bm_address_to_bp ?m1 a = Some \<lparr> bp_saved_byte = mem (m_world m) a, bp_kind = BP_Step, bp_count = 1,
      bp_address = a, bp_holding_threads = [t] \<rparr>"
    using assms(2) by (simp add: create_step_free hold_breakpoint_def write_breakpoint_def Let_def read_byte_ok[OF assms(1)])
  have tables: "bm_permanent_bp_to_trampoline ?m1 = bm_permanent_bp_to_trampoline m"
    "bm_user_breakpoints ?m1 = bm_user_breakpoints m"
    using assms(2) by (simp_all add: create_step_free hold_breakpoint_def write_breakpoint_def Let_def)
  define m2 where "m2 = create_step_breakpoint W a u ?m1"
  have 2: "bm_address_to_bp m2 a = Some \<lparr> bp_saved_byte = mem (m_world m) a, bp_kind = BP_Step, bp_count = 2,
      bp_address = a, bp_holding_threads = [t, u] \<rparr>" "bm_permanent_bp_to_trampoline m2 = bm_permanent_bp_to_trampoline m"
    "bm_user_breakpoints m2 = bm_user_breakpoints m"
    using 1 tables by (simp_all add: m2_def create_step_breakpoint_def hold_breakpoint_def)
  have perm: "map_of (bm_permanent_bp_to_trampoline m) a = None" using assms(2) by (simp add: bp_free_def)
  let ?p = "snd (patch_byte W a (mem (m_world m) a) m2)"
  let ?left = "\<lparr> bp_saved_byte = mem (m_world m) a, bp_kind = BP_Step, bp_count = 1, bp_address = a,
      bp_holding_threads = [u] \<rparr>"
  let ?m3 = "?p \<lparr> bm_address_to_bp := (bm_address_to_bp ?p)(a \<mapsto> ?left) \<rparr>"
  have "remove_breakpoint W a t m2 = Some (True, ?m3)"
    using 2 perm assms(3) patch_byte_simps(1)[of W a "mem (m_world m) a" m2]
    by (cases "patch_byte W a (mem (m_world m) a) m2") (simp add: remove_breakpoint_def restore_memory_def Let_def)
  moreover have "mem (m_world ?m3) a = mem (m_world m) a" by (simp add: patch_byte_ok[OF assms(1)])
  moreover have "get_breakpoint_type a u ?m3 = (if map_of (bm_user_breakpoints m) a \<noteq> None then Some BP_User else Some BP_Step)"
    using 2 perm by (simp add: get_breakpoint_type_def)
  ultimately show ?thesis unfolding m2_def[symmetric] by blast
qed

theorem shared_breakpoint_uncovered_witness:
  "\<exists>m'. remove_breakpoint flat_win32 16 4 (create_step_breakpoint flat_win32 16 8
       (create_step_breakpoint flat_win32 16 4 (flat_breakpoints (\<lambda>a. ucast a)))) = Some (True, m')
    \<and> m_world m' 16 = 16"
  using shared_breakpoint_uncovered[OF flat_win32_ok flat_breakpoints_free, of 4 8 16 "\<lambda>a. ucast a"] by force

end
