(* ===== verification/Memory_Manager.thy ===== *)
theory Memory_Manager
  imports Region_History Breakpoints
begin

text \<open>
  \<open>src/src/managers/memory_manager.cpp\<close>: recording the debuggee's memory and putting a recorded
  state back; and \<open>src/src/managers/trampoline_manager.cpp\<close>.

  Both walk the address space with \<open>VirtualQueryEx\<close> until it fails.  \<open>vq_loop\<close> is that walk, with
  the loop body as an argument; whether it ends depends on the system, so it is a partial function,
  and \<open>vq_loop_total\<close> shows that it ends under the documented behaviour of the call.
\<close>

record 'w memories = "'w breakpoints" +
  mm_history :: process_memory_history
  mm_blacklist :: "addr list"

text \<open>
  The variable \<open>m\<close> of the sources keeps the last region that was found; it is uninitialised until
  the first call succeeds.
\<close>

partial_function (option) vq_loop ::
    "'w win32 \<Rightarrow> (addr \<Rightarrow> mbi \<Rightarrow> ('w, 'z) machine_scheme \<Rightarrow> ('w, 'z) machine_scheme option) \<Rightarrow>
      addr \<Rightarrow> mbi option \<Rightarrow> ('w, 'z) machine_scheme \<Rightarrow> (mbi option \<times> ('w, 'z) machine_scheme) option" where
  "vq_loop W body address seen m =
     (case w_virtual_query W (m_world m) address of
        None \<Rightarrow> Some (seen, m)
      | Some i \<Rightarrow> do { m \<leftarrow> body address i m; vq_loop W body (mbi_BaseAddress i + mbi_RegionSize i) (Some i) m })"

text \<open>What every pass keeps, the walk keeps.\<close>

lemma vq_loop_invariant:
  assumes "vq_loop W body a seen m = Some (x, m')" "I m"
    and body: "\<And>a i m m'. I m \<Longrightarrow> body a i m = Some m' \<Longrightarrow> I m'"
  shows "I m'"
proof -
  have "I m \<longrightarrow> I (snd (x, m'))"
  proof (rule vq_loop.raw_induct[where P = "\<lambda>W' b a seen m y. b = body \<longrightarrow> I m \<longrightarrow> I (snd y)", OF _ assms(1), THEN mp, OF _ refl],
      goal_cases)
    case (1 loop W' b a seen m y)
    show ?case
    proof (intro impI)
      assume b: "b = body" and m: "I m"
      show "I (snd y)"
      proof (cases "w_virtual_query W' (m_world m) a")
        case None
        then show ?thesis using 1(2) m by auto
      next
        case (Some i)
        then obtain m2 where "b a i m = Some m2" "loop W' b (mbi_BaseAddress i + mbi_RegionSize i) (Some i) m2 = Some y"
          using 1(2) by (auto simp: bind_eq_Some_conv)
        then show ?thesis using 1(1) body m b by blast
      qed
    qed
  qed
  then show ?thesis using assms(2) by simp
qed

section \<open>Recording\<close>

definition in_shared_data :: "addr \<Rightarrow> bool" where
  "in_shared_data a = (kUserSharedDataBaseAddress \<le> a \<and> a \<le> kUserSharedDataEndAddress)"

definition snapshot_region ::
    "'w win32 \<Rightarrow> u64 \<Rightarrow> u32 \<Rightarrow> u32 \<Rightarrow> addr \<Rightarrow> mbi \<Rightarrow> ('w, 'z) memories_scheme \<Rightarrow> ('w, 'z) memories_scheme option" where
  "snapshot_region W global_sequence run_id run_sequence address i m =
     (let current_address = mbi_BaseAddress i in
      if in_shared_data current_address then Some m
      else if current_address \<in> set (mm_blacklist m) then Some m
      else
        (let region_memory = if mbi_State i = MEM_COMMIT
               then read_zeroed W current_address (unat (mbi_RegionSize i)) m else []
         in do { h \<leftarrow> pmh_update i region_memory run_id run_sequence global_sequence (mm_history m);
                 Some (m \<lparr> mm_history := h \<rparr>) }))"

definition snapshot_memory ::
    "'w win32 \<Rightarrow> u64 \<Rightarrow> u32 \<Rightarrow> u32 \<Rightarrow> ('w, 'z) memories_scheme \<Rightarrow> ('w, 'z) memories_scheme option" where
  "snapshot_memory W global_sequence run_id run_sequence m =
     do { (_, m) \<leftarrow> vq_loop W (snapshot_region W global_sequence run_id run_sequence) 0 None m;
          h \<leftarrow> pmh_update_stale_regions run_id run_sequence global_sequence (mm_history m);
          Some (m \<lparr> mm_history := h \<rparr>) }"

section \<open>Restoring\<close>

definition free_region :: "'w win32 \<Rightarrow> addr \<Rightarrow> mbi \<Rightarrow> ('w, 'z) memories_scheme \<Rightarrow> ('w, 'z) memories_scheme option" where
  "free_region W address i m =
     (if mbi_State i = MEM_FREE \<or> mbi_Type i = MEM_IMAGE \<or> mbi_Type i = MEM_MAPPED then Some m
      else if in_shared_data address then Some m
      else if mbi_AllocationBase i \<in> set (mm_blacklist m) then Some m
      else Some (virtual_free W (mbi_AllocationBase i) m))"

definition restore_sub_region ::
    "'w win32 \<Rightarrow> bool \<Rightarrow> region_info \<Rightarrow> ('w, 'z) machine_scheme \<Rightarrow> ('w, 'z) machine_scheme" where
  "restore_sub_region W overwriting_existing sub m =
     (let i = ri_current_mbi sub;
          region_size = mbi_RegionSize i;
          base_address = mbi_BaseAddress i;
          protect = mbi_Protect i
      in if mbi_State i \<noteq> MEM_COMMIT then m
         else
           (let m = (if \<not> overwriting_existing then virtual_alloc_full_permissions W base_address region_size m
                     else if and protect PAGE_GUARD \<noteq> 0
                       then snd (virtual_protect W base_address region_size (and protect (not PAGE_GUARD)) m)
                     else if mbi_Type i = MEM_IMAGE
                       then snd (virtual_protect W base_address region_size PAGE_EXECUTE_WRITECOPY m)
                     else m);
                m = virtual_write W base_address (ri_current_memory sub) m
            in snd (virtual_protect W base_address region_size protect m)))"

text \<open>A failed query leaves the last region in the variable.\<close>

definition restore_allocation ::
    "'w win32 \<Rightarrow> allocation_info \<Rightarrow> mbi option \<times> ('w, 'z) machine_scheme \<Rightarrow> (mbi option \<times> ('w, 'z) machine_scheme) option" where
  "restore_allocation W allocation_region s0 =
     (let (seen, m) = s0;
          subs = ai_all_regions allocation_region;
          total_region_size = foldl (\<lambda>sum r. sum + mbi_RegionSize (ri_current_mbi r)) 0 subs;
          allocation_base = ai_allocation_base allocation_region;
          found = (case w_virtual_query W (m_world m) allocation_base of Some i \<Rightarrow> Some i | None \<Rightarrow> seen)
      in do { i \<leftarrow> found;
              let overwriting_existing = (mbi_State i \<noteq> MEM_FREE);
              m \<leftarrow> (if overwriting_existing then Some m
                    else do { first \<leftarrow> list_at subs 0;
                              Some (virtual_reserve_memory W allocation_base total_region_size
                                (mbi_AllocationProtect (ri_current_mbi first)) m) });
              Some (Some i, fold (restore_sub_region W overwriting_existing) subs m) })"

definition restore_memory_at_sequence ::
    "'w win32 \<Rightarrow> u32 \<Rightarrow> u32 \<Rightarrow> ('w, 'z) memories_scheme \<Rightarrow> ('w, 'z) memories_scheme option" where
  "restore_memory_at_sequence W target_run_id target_run_sequence m =
     do { (seen, m) \<leftarrow> vq_loop W (free_region W) 0 None m;
          (allocations, h) \<leftarrow> pmh_get_current_allocation_regions target_run_id target_run_sequence (mm_history m);
          let m = m \<lparr> mm_history := h \<rparr>;
          (_, m) \<leftarrow> foldM (restore_allocation W) allocations (seen, m);
          Some m }"

definition add_blacklist_address :: "addr \<Rightarrow> ('w, 'z) memories_scheme \<Rightarrow> ('w, 'z) memories_scheme" where
  "add_blacklist_address address m = m \<lparr> mm_blacklist := mm_blacklist m @ [address] \<rparr>"

definition create_memory_history_branch ::
    "u32 \<Rightarrow> u32 \<Rightarrow> u32 \<Rightarrow> ('w, 'z) memories_scheme \<Rightarrow> ('w, 'z) memories_scheme option" where
  "create_memory_history_branch from_run_id from_run_seq to_run_id m =
     do { h \<leftarrow> pmh_make_branch from_run_id from_run_seq to_run_id (mm_history m);
          Some (m \<lparr> mm_history := h \<rparr>) }"

section \<open>\<open>trampoline_manager.cpp\<close>\<close>

definition trampoline_functions :: "string list" where
  "trampoline_functions = [''NtCreateThreadEx'', ''NtTerminateThread'', ''LdrLoadDll'', ''LdrUnloadDll'']"

text \<open>\<open>CreateTrampolineRegion\<close> is called with its default size, one page.\<close>

definition load_trampoline ::
    "'w win32 \<Rightarrow> (byte list \<Rightarrow> nat option) \<Rightarrow> ('w, 'z) memories_scheme \<Rightarrow> ('w, 'z) memories_scheme" where
  "load_trampoline W decode m =
     (let m = create_trampoline_region W 0x1000 m;
          m = fold (\<lambda>name. create_permanent_breakpoint W decode (w_proc_address W name)) trampoline_functions m;
          (trampoline_address, m) = finalize_trampoline_region W m
      in add_blacklist_address trampoline_address m)"

definition unload_trampoline :: "'w win32 \<Rightarrow> ('w, 'z) memories_scheme \<Rightarrow> ('w, 'z) memories_scheme" where
  "unload_trampoline W m = destroy_trampoline_region W (snd (remove_all_permanent_breakpoints W m))"

section \<open>The walk ends\<close>

text \<open>
  Documented behaviour of \<open>VirtualQueryEx\<close>: the address is rounded down to a page and the region it
  begins has a positive number of whole pages and ends below the top of the address space; page 0
  can always be queried.
\<close>

definition vq_ok :: "'w win32 \<Rightarrow> bool" where
  "vq_ok W =
     ((\<forall>w a i. w_virtual_query W w a = Some i \<longrightarrow>
         unat (mbi_BaseAddress i) = unat a div 4096 * 4096 \<and> 0 < unat (mbi_RegionSize i)
         \<and> 4096 dvd unat (mbi_RegionSize i) \<and> unat (mbi_BaseAddress i) + unat (mbi_RegionSize i) < 2 ^ 64)
      \<and> (\<forall>w. w_virtual_query W w 0 \<noteq> None))"

lemma vq_ok_next:
  assumes "vq_ok W" "w_virtual_query W w a = Some i"
  shows "unat (mbi_BaseAddress i + mbi_RegionSize i) = unat (mbi_BaseAddress i) + unat (mbi_RegionSize i)"
    and "unat a < unat (mbi_BaseAddress i) + unat (mbi_RegionSize i)"
    and "4096 dvd unat (mbi_BaseAddress i + mbi_RegionSize i)"
    and "4096 dvd unat a \<Longrightarrow> mbi_BaseAddress i = a"
proof -
  have i: "unat (mbi_BaseAddress i) = unat a div 4096 * 4096" "0 < unat (mbi_RegionSize i)"
    "4096 dvd unat (mbi_RegionSize i)" "unat (mbi_BaseAddress i) + unat (mbi_RegionSize i) < 2 ^ 64"
    using assms unfolding vq_ok_def by blast+
  then show sum: "unat (mbi_BaseAddress i + mbi_RegionSize i) = unat (mbi_BaseAddress i) + unat (mbi_RegionSize i)"
    by (simp add: unat_word_ariths take_bit_eq_mod)
  show "unat a < unat (mbi_BaseAddress i) + unat (mbi_RegionSize i)"
  proof -
    have "4096 \<le> unat (mbi_RegionSize i)" using i(2,3) by (simp add: dvd_imp_le)
    moreover have "unat a < unat a div 4096 * 4096 + 4096" by (simp add: div_mod_decomp_int dividend_less_div_times)
    ultimately show ?thesis using i(1) by linarith
  qed
  show "4096 dvd unat (mbi_BaseAddress i + mbi_RegionSize i)" using i(1,3) by (simp add: sum)
  show "4096 dvd unat a \<Longrightarrow> mbi_BaseAddress i = a" using i(1) by (simp add: word_unat_eq_iff)
qed

lemma vq_loop_total:
  assumes "vq_ok W" "Inv m" "\<And>a i m. Inv m \<Longrightarrow> \<exists>m'. body a i m = Some m' \<and> Inv m'"
  shows "\<exists>seen' m'. vq_loop W body a seen m = Some (seen', m') \<and> Inv m' \<and> (seen \<noteq> None \<longrightarrow> seen' \<noteq> None)"
  using assms(2)
proof (induction "2 ^ 64 - unat a" arbitrary: a seen m rule: less_induct)
  case less
  show ?case
  proof (cases "w_virtual_query W (m_world m) a")
    case None
    then show ?thesis using less.prems by (subst vq_loop.simps) simp
  next
    case (Some i)
    obtain m1 where m1: "body a i m = Some m1" "Inv m1" using assms(3)[OF less.prems] by blast
    have "unat a < unat (mbi_BaseAddress i + mbi_RegionSize i)" using vq_ok_next(1,2)[OF assms(1) Some] by simp
    moreover have "unat a < 2 ^ 64" using unsigned_less[of a] by simp
    ultimately have "2 ^ 64 - unat (mbi_BaseAddress i + mbi_RegionSize i) < 2 ^ 64 - unat a" by linarith
    from less.hyps[OF this m1(2), of "Some i"] show ?thesis
      by (subst vq_loop.simps) (auto simp: Some m1(1))
  qed
qed

section \<open>The walk covers the address space\<close>

text \<open>Regions that follow each other without gaps from address a to address e.\<close>

fun adjacent :: "addr \<Rightarrow> mbi list \<Rightarrow> addr \<Rightarrow> bool" where
  "adjacent a [] e = (a = e)"
| "adjacent a (i # is) e =
     (mbi_BaseAddress i = a \<and> unat a < unat (a + mbi_RegionSize i) \<and> adjacent (a + mbi_RegionSize i) is e)"

definition in_region :: "addr \<Rightarrow> mbi \<Rightarrow> bool" where
  "in_region a i = (mbi_BaseAddress i \<le> a \<and> a < mbi_BaseAddress i + mbi_RegionSize i)"

lemma adjacent_cover:
  assumes "adjacent a is e" "a \<le> x" "x < e"
  shows "\<exists>!k. k < length is \<and> in_region x (is ! k)"
  using assms
proof (induction "is" arbitrary: a)
  case (Cons i "is")
  let ?b = "a + mbi_RegionSize i"
  have st: "mbi_BaseAddress i = a" "a < ?b" "adjacent ?b is e" using Cons.prems(1) by (simp_all add: word_less_nat_alt)
  have later: "?b \<le> mbi_BaseAddress j" if "j \<in> set is" for j
    using st(3) that
  proof (induction "is" arbitrary: a i)
    case (Cons k ks)
    then show ?case
      by (cases "j = k") (auto simp: word_le_nat_alt intro: order.trans[OF less_imp_le_nat])
  qed simp
  show ?case
  proof (cases "x < ?b")
    case True
    have "k = 0" if "k < length (i # is)" "in_region x ((i # is) ! k)" for k
    proof (rule ccontr)
      assume "k \<noteq> 0"
      then have "?b \<le> mbi_BaseAddress ((i # is) ! k)" using that(1) later by (cases k) auto
      then show False using that(2) True by (auto simp: in_region_def)
    qed
    moreover have "in_region x ((i # is) ! 0)" using True st Cons.prems(2) by (simp add: in_region_def)
    ultimately show ?thesis by (intro ex1I[of _ 0]) auto
  next
    case False
    then obtain k where k: "k < length is" "in_region x (is ! k)"
      "\<And>k'. k' < length is \<Longrightarrow> in_region x (is ! k') \<Longrightarrow> k' = k"
      using Cons.IH[OF st(3)] Cons.prems(3) by (metis leI)
    have "k' = Suc k" if "k' < length (i # is)" "in_region x ((i # is) ! k')" for k'
      using that k(3) False st(1) by (cases k') (auto simp: in_region_def)
    then show ?thesis using k(1,2) by (intro ex1I[of _ "Suc k"]) auto
  qed
qed auto

lemma down: "unat a < unat b \<Longrightarrow> 2 ^ 64 - unat b < 2 ^ 64 - unat a" for a b :: addr
  using unsigned_less[of b, where 'a = nat] by simp

lemma vq_list:
  assumes "vq_ok W" "4096 dvd unat a"
  shows "\<exists>is e. adjacent a is e \<and> w_virtual_query W w e = None
    \<and> (\<forall>i\<in>set is. w_virtual_query W w (mbi_BaseAddress i) = Some i)"
  using assms(2)
proof (induction "2 ^ 64 - unat a" arbitrary: a rule: less_induct)
  case less
  show ?case
  proof (cases "w_virtual_query W w a")
    case None
    then show ?thesis by (intro exI[of _ "[]"] exI[of _ a]) simp
  next
    case (Some i)
    note i = vq_ok_next[OF assms(1) Some]
    have "mbi_BaseAddress i = a" using i(4) less.prems by simp
    moreover have "unat a < unat (mbi_BaseAddress i + mbi_RegionSize i)" using i(1,2) by simp
    moreover have "2 ^ 64 - unat (mbi_BaseAddress i + mbi_RegionSize i) < 2 ^ 64 - unat a"
      using down[OF calculation(2)] .
    ultimately show ?thesis
      using less.hyps[OF _ i(3)] Some by (metis adjacent.simps(2) set_ConsD)
  qed
qed

lemma vq_loop_regions:
  assumes "vq_ok W" "4096 dvd unat a" "\<And>x i m m'. body x i m = Some m' \<Longrightarrow> m_world m' = m_world m"
  shows "\<exists>is e. adjacent a is e \<and> w_virtual_query W (m_world m) e = None
    \<and> (\<forall>i\<in>set is. w_virtual_query W (m_world m) (mbi_BaseAddress i) = Some i)
    \<and> map_option snd (vq_loop W body a seen m) = foldM (\<lambda>i. body (mbi_BaseAddress i) i) is m"
  using assms(2)
proof (induction "2 ^ 64 - unat a" arbitrary: a seen m rule: less_induct)
  case less
  show ?case
  proof (cases "w_virtual_query W (m_world m) a")
    case None
    then show ?thesis by (intro exI[of _ "[]"] exI[of _ a]) (simp add: vq_loop.simps)
  next
    case (Some i)
    let ?b = "mbi_BaseAddress i + mbi_RegionSize i"
    note i = vq_ok_next[OF assms(1) Some]
    have base: "mbi_BaseAddress i = a" and up: "unat a < unat ?b" using i(1,2,4) less.prems by simp_all
    show ?thesis
    proof (cases "body a i m")
      case None
      have "\<exists>is e. adjacent ?b is e \<and> w_virtual_query W (m_world m) e = None
        \<and> (\<forall>i\<in>set is. w_virtual_query W (m_world m) (mbi_BaseAddress i) = Some i)"
        using vq_list[OF assms(1) i(3)] by blast
      then obtain "is" e where ie: "adjacent ?b is e" "w_virtual_query W (m_world m) e = None"
        "\<forall>i\<in>set is. w_virtual_query W (m_world m) (mbi_BaseAddress i) = Some i" by blast
      have "map_option snd (vq_loop W body a seen m) = None" by (subst vq_loop.simps) (simp add: Some None)
      then show ?thesis using ie up Some None base by (intro exI[of _ "i # is"] exI[of _ e]) simp
    next
      case (Some m1)
      have w: "m_world m1 = m_world m" by (rule assms(3)[OF Some])
      have "2 ^ 64 - unat ?b < 2 ^ 64 - unat a" using down[OF up] .
      from less.hyps[OF this i(3), of m1 "Some i"] obtain "is" e where ie: "adjacent ?b is e"
        "w_virtual_query W (m_world m) e = None"
        "\<forall>i\<in>set is. w_virtual_query W (m_world m) (mbi_BaseAddress i) = Some i"
        "map_option snd (vq_loop W body ?b (Some i) m1) = foldM (\<lambda>i. body (mbi_BaseAddress i) i) is m1"
        unfolding w by blast
      then show ?thesis using up Some \<open>w_virtual_query W (m_world m) a = Some i\<close> base
        by (intro exI[of _ "i # is"] exI[of _ e]) (simp add: vq_loop.simps[of W body a])
    qed
  qed
qed

text \<open>What one region adds to the history.\<close>

definition recorded :: "(addr \<Rightarrow> byte) \<Rightarrow> mbi \<Rightarrow> byte list" where
  "recorded f i = (if mbi_State i = MEM_COMMIT then bytes_at f (mbi_BaseAddress i) (unat (mbi_RegionSize i)) else [])"

definition skipped :: "addr list \<Rightarrow> mbi \<Rightarrow> bool" where
  "skipped blacklist i = (in_shared_data (mbi_BaseAddress i) \<or> mbi_BaseAddress i \<in> set blacklist)"

lemma snapshot_region_eq:
  assumes "w_bytes_ok W mem"
  shows "snapshot_region W g r s a i m =
    (if skipped (mm_blacklist m) i then Some m
     else map_option (\<lambda>h. m \<lparr> mm_history := h \<rparr>)
            (pmh_update i (recorded (mem (m_world m)) i) r s g (mm_history m)))"
  by (simp add: snapshot_region_def skipped_def recorded_def Let_def read_zeroed_ok[OF assms] map_option_case
      split: option.split bind_split)

lemma snapshot_region_world: "snapshot_region W g r s a i m = Some m' \<Longrightarrow> m_world m' = m_world m"
  by (auto simp: snapshot_region_def Let_def split: if_splits bind_splits)

lemma snapshot_regions:
  assumes "w_bytes_ok W mem"
  shows "foldM (\<lambda>i. snapshot_region W g r s (mbi_BaseAddress i) i) is m =
    map_option (\<lambda>h. m \<lparr> mm_history := h \<rparr>)
      (foldM (\<lambda>i. pmh_update i (recorded (mem (m_world m)) i) r s g) (filter (\<lambda>i. \<not> skipped (mm_blacklist m) i) is)
        (mm_history m))"
proof (induction "is" arbitrary: m)
  case (Cons i "is")
  then show ?case
    by (cases "pmh_update i (recorded (mem (m_world m)) i) r s g (mm_history m)")
      (simp_all add: snapshot_region_eq[OF assms] option.map_comp comp_def)
qed simp

lemma snapshot_memory_spec:
  assumes "vq_ok W" "w_bytes_ok W mem"
  shows "\<exists>is e. adjacent 0 is e \<and> w_virtual_query W (m_world m) e = None
    \<and> (\<forall>i\<in>set is. w_virtual_query W (m_world m) (mbi_BaseAddress i) = Some i)
    \<and> snapshot_memory W g r s m =
        do { h \<leftarrow> foldM (\<lambda>i. pmh_update i (recorded (mem (m_world m)) i) r s g)
                    (filter (\<lambda>i. \<not> skipped (mm_blacklist m) i) is) (mm_history m);
             h \<leftarrow> pmh_update_stale_regions r s g h;
             Some (m \<lparr> mm_history := h \<rparr>) }"
proof -
  let ?body = "snapshot_region W g r s"
  obtain "is" e where ie: "adjacent 0 is e" "w_virtual_query W (m_world m) e = None"
    "\<forall>i\<in>set is. w_virtual_query W (m_world m) (mbi_BaseAddress i) = Some i"
    "map_option snd (vq_loop W ?body 0 None m) = foldM (\<lambda>i. ?body (mbi_BaseAddress i) i) is m"
  proof -
    have "4096 dvd unat (0 :: addr)" by simp
    from vq_loop_regions[OF assms(1) this, of ?body m None] show ?thesis
      using that by (auto dest: snapshot_region_world)
  qed
  let ?finish = "\<lambda>m. map_option (\<lambda>h. m \<lparr> mm_history := h \<rparr>) (pmh_update_stale_regions r s g (mm_history m))"
  have "snapshot_memory W g r s m = Option.bind (map_option snd (vq_loop W ?body 0 None m)) ?finish"
    by (cases "vq_loop W ?body 0 None m") (auto simp: snapshot_memory_def map_option_case bind_eq_None_conv split: option.split)
  also have "\<dots> = do { h \<leftarrow> foldM (\<lambda>i. pmh_update i (recorded (mem (m_world m)) i) r s g)
                    (filter (\<lambda>i. \<not> skipped (mm_blacklist m) i) is) (mm_history m);
             h \<leftarrow> pmh_update_stale_regions r s g h;
             Some (m \<lparr> mm_history := h \<rparr>) }"
    unfolding ie(4) snapshot_regions[OF assms(2)]
    by (cases "foldM (\<lambda>i. pmh_update i (recorded (mem (m_world m)) i) r s g)
          (filter (\<lambda>i. \<not> skipped (mm_blacklist m) i) is) (mm_history m)") (simp_all add: map_option_case split: option.split)
  finally have "snapshot_memory W g r s m = do { h \<leftarrow> foldM (\<lambda>i. pmh_update i (recorded (mem (m_world m)) i) r s g)
                    (filter (\<lambda>i. \<not> skipped (mm_blacklist m) i) is) (mm_history m);
             h \<leftarrow> pmh_update_stale_regions r s g h;
             Some (m \<lparr> mm_history := h \<rparr>) }" .
  then show ?thesis using ie(1-3) by auto
qed


definition memories_init :: "'w breakpoints \<Rightarrow> 'w memories" where
  "memories_init b = breakpoints.extend b \<lparr> mm_history = [], mm_blacklist = [] \<rparr>"

lemma memories_init_world [simp]: "m_world (memories_init b) = m_world b"
  by (simp add: memories_init_def breakpoints.extend_def)

text \<open>A system with one committed region of 64 KiB at address 0.\<close>

definition one_region :: "addr \<Rightarrow> mbi" where
  "one_region a = mbi_zero \<lparr> mbi_State := MEM_COMMIT, mbi_BaseAddress := a, mbi_RegionSize := 0x10000 - a \<rparr>"

definition paged_win32 :: "(addr \<Rightarrow> byte) win32" where
  "paged_win32 = flat_win32 \<lparr> w_virtual_query :=
     (\<lambda>w a. if a < 0x10000 then Some (one_region (a div 4096 * 4096)) else None) \<rparr>"

lemma paged_win32_ok: "w_bytes_ok paged_win32 (\<lambda>w. w)"
  by (simp add: w_bytes_ok_def flat_win32_def paged_win32_def)

lemma paged_win32_vq: "vq_ok paged_win32"
proof -
  have P: "unat (a div 4096 * 4096) = unat a div 4096 * 4096 \<and> unat (0x10000 - a div 4096 * 4096) = 0x10000 - unat a div 4096 * 4096
      \<and> unat a div 4096 * 4096 < 0x10000 \<and> unat a div 4096 * 4096 + unat (0x10000 - a div 4096 * 4096) < 2 ^ 64"
    if "a < 0x10000" for a :: addr
  proof -
    have a: "unat a < 0x10000" using that by (simp add: word_less_nat_alt)
    then have lt: "unat a div 4096 * 4096 < 0x10000" by (metis div_times_less_eq_dividend le_less_trans)
    have 1: "unat (a div 4096 * 4096) = unat a div 4096 * 4096"
      using lt by (simp add: unat_word_ariths unat_div take_bit_eq_mod)
    then have "a div 4096 * 4096 \<le> 0x10000" using lt by (simp add: word_le_nat_alt)
    then show ?thesis using 1 lt by (simp add: unat_sub)
  qed
  have dvd: "4096 dvd (0x10000::nat) - n * 4096" for n by (rule dvd_diff_nat) simp_all
  have "unat (mbi_BaseAddress i) = unat a div 4096 * 4096 \<and> 0 < unat (mbi_RegionSize i)
      \<and> 4096 dvd unat (mbi_RegionSize i) \<and> unat (mbi_BaseAddress i) + unat (mbi_RegionSize i) < 2 ^ 64"
    if "w_virtual_query paged_win32 w a = Some i" for w a i
  proof -
    have a: "a < 0x10000" and i: "i = one_region (a div 4096 * 4096)"
      using that by (simp_all add: paged_win32_def split: if_splits)
    have "0 < unat (0x10000 - a div 4096 * 4096)" using P[OF a] by linarith
    moreover have "4096 dvd unat (0x10000 - a div 4096 * 4096)" using P[OF a] dvd by metis
    moreover have "mbi_BaseAddress i = a div 4096 * 4096" "mbi_RegionSize i = 0x10000 - a div 4096 * 4096"
      by (simp_all add: i one_region_def)
    ultimately show ?thesis using P[OF a] by metis
  qed
  moreover have "w_virtual_query paged_win32 w 0 \<noteq> None" for w by (simp add: paged_win32_def)
  ultimately show ?thesis unfolding vq_ok_def by blast
qed


section \<open>Restoring rebuilds the recorded bytes\<close>

text \<open>
  Documented behaviour of the address-space calls: reserving and protecting change no byte, and
  committing changes none outside the range.
\<close>

definition w_vm_ok :: "'w win32 \<Rightarrow> ('w \<Rightarrow> addr \<Rightarrow> byte) \<Rightarrow> bool" where
  "w_vm_ok W mem =
     ((\<forall>w a n p. mem (snd (w_virtual_alloc W w a n MEM_RESERVE p)) = mem w)
      \<and> (\<forall>w a n p x. x \<notin> set (span a (unat n)) \<longrightarrow> mem (snd (w_virtual_alloc W w a n MEM_COMMIT p)) x = mem w x)
      \<and> (\<forall>w a n p. mem (snd (w_virtual_protect W w a n p)) = mem w))"

definition committed :: "region_info \<Rightarrow> bool" where
  "committed r = (mbi_State (ri_current_mbi r) = MEM_COMMIT)"

definition sub_span :: "region_info \<Rightarrow> addr set" where
  "sub_span r = (if committed r
     then set (span (mbi_BaseAddress (ri_current_mbi r)) (unat (mbi_RegionSize (ri_current_mbi r)))) else {})"

definition sub_ok :: "region_info \<Rightarrow> bool" where
  "sub_ok r = (committed r \<longrightarrow> length (ri_current_memory r) = unat (mbi_RegionSize (ri_current_mbi r)))"

fun apart :: "region_info list \<Rightarrow> bool" where
  "apart [] = True"
| "apart (r # rs) = ((\<forall>q\<in>set rs. sub_span r \<inter> sub_span q = {}) \<and> apart rs)"

lemma apart_append: "apart (rs @ qs) \<longleftrightarrow> apart rs \<and> apart qs \<and> (\<forall>r\<in>set rs. \<forall>q\<in>set qs. sub_span r \<inter> sub_span q = {})"
  by (induction rs) auto

text \<open>What the recorded bytes of a region are in the debuggee.\<close>

definition holds_bytes :: "('w \<Rightarrow> addr \<Rightarrow> byte) \<Rightarrow> 'w \<Rightarrow> region_info \<Rightarrow> bool" where
  "holds_bytes mem w r = (committed r \<longrightarrow>
     bytes_at (mem w) (mbi_BaseAddress (ri_current_mbi r)) (unat (mbi_RegionSize (ri_current_mbi r))) = ri_current_memory r)"

lemma bytes_at_cong: "(\<And>x. x \<in> set (span a n) \<Longrightarrow> f x = g x) \<Longrightarrow> bytes_at f a n = bytes_at g a n"
  by (simp add: bytes_at_def)

lemma holds_bytes_cong:
  "(\<And>x. x \<in> sub_span r \<Longrightarrow> mem w x = mem w' x) \<Longrightarrow> holds_bytes mem w r = holds_bytes mem w' r"
  by (auto simp: holds_bytes_def sub_span_def cong: bytes_at_cong)

lemma vm_simps:
  assumes "w_bytes_ok W mem" "w_vm_ok W mem"
  shows "mem (m_world (snd (virtual_protect W a n p m))) = mem (m_world m)"
    and "mem (m_world (virtual_write W a bs m)) = store_bytes a bs (mem (m_world m))"
    and "mem (m_world (virtual_reserve_memory W a n p m)) = mem (m_world m)"
    and "x \<notin> set (span a (unat n)) \<Longrightarrow> mem (m_world (virtual_alloc_full_permissions W a n m)) x = mem (m_world m) x"
  using assms by (simp_all add: virtual_protect_def virtual_write_def virtual_reserve_memory_def write_mem_eq
      virtual_alloc_full_permissions_def w_vm_ok_def w_bytes_okD(3) split: prod.split)
    (metis snd_conv)

lemma restore_sub_region_mem:
  assumes "w_bytes_ok W mem" "w_vm_ok W mem" "sub_ok r"
  shows "x \<notin> sub_span r \<Longrightarrow> mem (m_world (restore_sub_region W ov r m)) x = mem (m_world m) x"
    and "holds_bytes mem (m_world (restore_sub_region W ov r m)) r"
proof -
  let ?a = "mbi_BaseAddress (ri_current_mbi r)" and ?n = "mbi_RegionSize (ri_current_mbi r)"
  define m0 where "m0 = (if \<not> ov then virtual_alloc_full_permissions W ?a ?n m
       else if and (mbi_Protect (ri_current_mbi r)) PAGE_GUARD \<noteq> 0
         then snd (virtual_protect W ?a ?n (and (mbi_Protect (ri_current_mbi r)) (not PAGE_GUARD)) m)
       else if mbi_Type (ri_current_mbi r) = MEM_IMAGE
         then snd (virtual_protect W ?a ?n PAGE_EXECUTE_WRITECOPY m) else m)"
  have m0: "\<forall>x. x \<notin> set (span ?a (unat ?n)) \<longrightarrow> mem (m_world m0) x = mem (m_world m) x"
    "committed r \<Longrightarrow> mem (m_world (restore_sub_region W ov r m)) = store_bytes ?a (ri_current_memory r) (mem (m_world m0))"
    "\<not> committed r \<Longrightarrow> restore_sub_region W ov r m = m"
    by (simp_all add: m0_def restore_sub_region_def committed_def Let_def vm_simps[OF assms(1,2)])
  have len: "length (ri_current_memory r) = unat ?n" if "committed r" using assms(3) that by (simp add: sub_ok_def)
  show "mem (m_world (restore_sub_region W ov r m)) x = mem (m_world m) x" if x: "x \<notin> sub_span r"
  proof (cases "committed r")
    case True
    then have out: "x \<notin> set (span ?a (unat ?n))" using x by (simp add: sub_span_def)
    then have "store_bytes ?a (ri_current_memory r) (mem (m_world m0)) x = mem (m_world m0) x"
      by (intro store_bytes_outside) (simp add: len[OF True])
    then show ?thesis using m0(1) out by (simp add: m0(2)[OF True])
  next
    case False
    then show ?thesis by (simp add: m0(3))
  qed
  show "holds_bytes mem (m_world (restore_sub_region W ov r m)) r"
  proof (cases "committed r")
    case True
    have "length (ri_current_memory r) < 2 ^ 64"
      using unsigned_less[of ?n, where 'a = nat] by (simp add: len[OF True])
    from bytes_at_store[OF this, of ?a "mem (m_world m0)"] show ?thesis
      by (simp add: holds_bytes_def m0(2)[OF True] len[OF True])
  next
    case False
    then show ?thesis by (simp add: holds_bytes_def)
  qed
qed

lemma restore_sub_regions_mem:
  assumes "w_bytes_ok W mem" "w_vm_ok W mem" "\<forall>r\<in>set rs. sub_ok r" "apart rs"
  shows "(\<forall>x. x \<notin> \<Union>(sub_span ` set rs) \<longrightarrow> mem (m_world (fold (restore_sub_region W ov) rs m)) x = mem (m_world m) x)
    \<and> (\<forall>r\<in>set rs. holds_bytes mem (m_world (fold (restore_sub_region W ov) rs m)) r)"
  using assms(3,4)
proof (induction rs arbitrary: m)
  case (Cons r rs)
  let ?m1 = "restore_sub_region W ov r m"
  have ok: "sub_ok r" using Cons.prems(1) by simp
  have out: "mem (m_world ?m1) x = mem (m_world m) x" if "x \<notin> sub_span r" for x
    by (rule restore_sub_region_mem(1)[OF assms(1,2) ok that])
  have in_r: "holds_bytes mem (m_world ?m1) r" by (rule restore_sub_region_mem(2)[OF assms(1,2) ok])
  have IH: "\<forall>x. x \<notin> \<Union>(sub_span ` set rs) \<longrightarrow> mem (m_world (fold (restore_sub_region W ov) rs ?m1)) x = mem (m_world ?m1) x"
    "\<forall>q\<in>set rs. holds_bytes mem (m_world (fold (restore_sub_region W ov) rs ?m1)) q"
    using Cons.IH[of ?m1] Cons.prems by auto
  have "holds_bytes mem (m_world (fold (restore_sub_region W ov) rs ?m1)) r = holds_bytes mem (m_world ?m1) r"
    using IH(1) Cons.prems(2) by (intro holds_bytes_cong) auto
  then show ?case using IH out in_r by simp
qed simp

lemma restore_allocation_mem:
  assumes "w_bytes_ok W mem" "w_vm_ok W mem" "\<forall>r\<in>set (ai_all_regions a). sub_ok r" "apart (ai_all_regions a)"
    and "ai_all_regions a \<noteq> []" "seen \<noteq> None"
  shows "\<exists>i m'. restore_allocation W a (seen, m) = Some (Some i, m')
    \<and> (\<forall>x. x \<notin> \<Union>(sub_span ` set (ai_all_regions a)) \<longrightarrow> mem (m_world m') x = mem (m_world m) x)
    \<and> (\<forall>r\<in>set (ai_all_regions a). holds_bytes mem (m_world m') r)"
proof -
  obtain i where i: "(case w_virtual_query W (m_world m) (ai_allocation_base a) of Some i \<Rightarrow> Some i | None \<Rightarrow> seen) = Some i"
    using assms(6) by (cases "w_virtual_query W (m_world m) (ai_allocation_base a)") auto
  obtain f where f: "list_at (ai_all_regions a) 0 = Some f" using assms(5) by (cases "ai_all_regions a") (auto simp: list_at_def)
  let ?ov = "mbi_State i \<noteq> MEM_FREE"
  let ?m1 = "if ?ov then m else virtual_reserve_memory W (ai_allocation_base a)
    (foldl (\<lambda>sum r. sum + mbi_RegionSize (ri_current_mbi r)) 0 (ai_all_regions a)) (mbi_AllocationProtect (ri_current_mbi f)) m"
  have "restore_allocation W a (seen, m) = Some (Some i, fold (restore_sub_region W ?ov) (ai_all_regions a) ?m1)"
    unfolding restore_allocation_def using i f by (simp add: Let_def)
  moreover have "mem (m_world ?m1) = mem (m_world m)" by (simp add: vm_simps[OF assms(1,2)])
  ultimately show ?thesis using restore_sub_regions_mem[OF assms(1-4), of ?ov ?m1] by auto
qed

lemma restore_allocations_mem:
  assumes "w_bytes_ok W mem" "w_vm_ok W mem" "\<forall>a\<in>set as. ai_all_regions a \<noteq> []"
    and "\<forall>r\<in>set (concat (map ai_all_regions as)). sub_ok r" "apart (concat (map ai_all_regions as))" "seen \<noteq> None"
  shows "\<exists>seen' m'. foldM (restore_allocation W) as (seen, m) = Some (seen', m')
    \<and> (\<forall>x. x \<notin> \<Union>(sub_span ` set (concat (map ai_all_regions as))) \<longrightarrow> mem (m_world m') x = mem (m_world m) x)
    \<and> (\<forall>r\<in>set (concat (map ai_all_regions as)). holds_bytes mem (m_world m') r)"
  using assms(3-6)
proof (induction "as" arbitrary: seen m)
  case (Cons a "as")
  let ?rest = "concat (map ai_all_regions as)"
  obtain i m1 where 1: "restore_allocation W a (seen, m) = Some (Some i, m1)"
    "\<forall>x. x \<notin> \<Union>(sub_span ` set (ai_all_regions a)) \<longrightarrow> mem (m_world m1) x = mem (m_world m) x"
    "\<forall>r\<in>set (ai_all_regions a). holds_bytes mem (m_world m1) r"
    using restore_allocation_mem[OF assms(1,2), of a seen m] Cons.prems by (auto simp: apart_append)
  obtain seen' m' where 2: "foldM (restore_allocation W) as (Some i, m1) = Some (seen', m')"
    "\<forall>x. x \<notin> \<Union>(sub_span ` set ?rest) \<longrightarrow> mem (m_world m') x = mem (m_world m1) x"
    "\<forall>r\<in>set ?rest. holds_bytes mem (m_world m') r"
    using Cons.IH[of "Some i" m1] Cons.prems by (auto simp: apart_append)
  have "holds_bytes mem (m_world m') r" if "r \<in> set (ai_all_regions a)" for r
  proof -
    have "sub_span r \<inter> \<Union>(sub_span ` set ?rest) = {}"
      using Cons.prems(3) that by (fastforce simp: apart_append)
    then have "holds_bytes mem (m_world m') r = holds_bytes mem (m_world m1) r"
      using 2(2) by (intro holds_bytes_cong) blast
    then show ?thesis using 1(3) that by blast
  qed
  then show ?case using 1(1,2) 2 by (intro exI[of _ seen'] exI[of _ m']) auto
qed simp

lemma restore_simps [simp]:
  "mm_history (restore_sub_region W ov r m) = mm_history m"
  by (simp add: restore_sub_region_def Let_def virtual_write_def virtual_protect_def write_mem_eq
      virtual_alloc_full_permissions_def split: prod.split)

lemma restore_sub_regions_history [simp]: "mm_history (fold (restore_sub_region W ov) rs m) = mm_history m"
  by (induction rs arbitrary: m) simp_all

lemma restore_allocation_history:
  "restore_allocation W a (seen, m) = Some (seen', m') \<Longrightarrow> mm_history m' = mm_history m"
  by (auto simp: restore_allocation_def Let_def virtual_reserve_memory_def split: bind_splits if_splits)

lemma restore_allocations_history:
  "foldM (restore_allocation W) as (seen, m) = Some (seen', m') \<Longrightarrow> mm_history m' = mm_history m"
  by (induction "as" arbitrary: seen m) (auto split: bind_splits dest: restore_allocation_history)

lemma free_region_history: "\<exists>m'. free_region W a i m = Some m' \<and> mm_history m' = mm_history m"
  by (simp add: free_region_def virtual_free_def)

text \<open>Restoring changes nothing but the debuggee and the cursors of the history.\<close>

definition same_but_memory :: "('w, 'z) memories_scheme \<Rightarrow> ('w, 'z) memories_scheme \<Rightarrow> bool" where
  "same_but_memory m m' = (\<exists>w h. m' = m \<lparr> m_world := w, mm_history := h \<rparr>)"

lemma same_but_memory_laws [intro]:
  "same_but_memory m m" "same_but_memory m (m \<lparr> m_world := w \<rparr>)" "same_but_memory m (m \<lparr> mm_history := h \<rparr>)"
proof -
  show "same_but_memory m m"
    unfolding same_but_memory_def by (intro exI[of _ "m_world m"] exI[of _ "mm_history m"]) simp
  show "same_but_memory m (m \<lparr> m_world := w \<rparr>)"
    unfolding same_but_memory_def by (intro exI[of _ w] exI[of _ "mm_history m"]) simp
  show "same_but_memory m (m \<lparr> mm_history := h \<rparr>)"
    unfolding same_but_memory_def by (intro exI[of _ "m_world m"] exI[of _ h]) simp
qed

lemma same_but_memory_trans [trans]: "same_but_memory m n \<Longrightarrow> same_but_memory n k \<Longrightarrow> same_but_memory m k"
  unfolding same_but_memory_def
proof (elim exE)
  fix w h v g
  assume "n = m \<lparr> m_world := w, mm_history := h \<rparr>" "k = n \<lparr> m_world := v, mm_history := g \<rparr>"
  then have "k = m \<lparr> m_world := v, mm_history := g \<rparr>" by simp
  then show "\<exists>w h. k = m \<lparr> m_world := w, mm_history := h \<rparr>" by blast
qed

lemma restore_sub_region_world: "restore_sub_region W ov r m = m \<lparr> m_world := m_world (restore_sub_region W ov r m) \<rparr>"
  by (simp add: restore_sub_region_def Let_def virtual_write_def virtual_protect_def write_mem_eq
      virtual_alloc_full_permissions_def split: prod.split)

lemma restore_sub_regions_same: "same_but_memory m (fold (restore_sub_region W ov) rs m)"
proof (induction rs arbitrary: m)
  case (Cons r rs)
  have "same_but_memory m (restore_sub_region W ov r m)" by (subst restore_sub_region_world) blast
  then show ?case using Cons same_but_memory_trans by fastforce
qed auto

lemma restore_allocations_same:
  "foldM (restore_allocation W) as (seen, m) = Some (seen', m') \<Longrightarrow> same_but_memory m m'"
proof (induction "as" arbitrary: seen m)
  case (Cons a as)
  then obtain seen1 m1 where 1: "restore_allocation W a (seen, m) = Some (seen1, m1)"
    and 2: "foldM (restore_allocation W) as (seen1, m1) = Some (seen', m')" by (auto split: bind_splits)
  have "same_but_memory m m1"
    using 1 restore_sub_regions_same[of m] same_but_memory_trans[OF same_but_memory_laws(2) restore_sub_regions_same]
    by (auto simp: restore_allocation_def Let_def virtual_reserve_memory_def split: bind_splits if_splits)
  then show ?case using Cons.IH[OF 2] same_but_memory_trans by blast
qed auto

lemma restore_memory_same:
  assumes "restore_memory_at_sequence W r s m = Some m'"
  shows "same_but_memory m m'"
proof -
  obtain seen m1 allocs h x where 1: "vq_loop W (free_region W) 0 None m = Some (seen, m1)"
    and 2: "foldM (restore_allocation W) allocs (seen, m1 \<lparr> mm_history := h \<rparr>) = Some (x, m')"
    using assms by (auto simp: restore_memory_at_sequence_def split: bind_splits)
  have "same_but_memory m m1"
    using 1
  proof (rule vq_loop_invariant)
    show "same_but_memory m n'" if "same_but_memory m n" "free_region W a i n = Some n'" for a i n n'
      using that same_but_memory_trans[OF that(1)] by (auto simp: free_region_def virtual_free_def split: if_splits)
  qed blast
  also have "same_but_memory m1 (m1 \<lparr> mm_history := h \<rparr>)" by blast
  also have "same_but_memory \<dots> m'" by (rule restore_allocations_same[OF 2])
  finally show ?thesis .
qed

lemma restore_memory_spec:
  assumes "vq_ok W" "w_bytes_ok W mem" "w_vm_ok W mem" "pmh_readable r s (mm_history m)"
    and "\<forall>sub\<in>set (concat (map ai_all_regions (pmh_shows (mm_history m) r s))). sub_ok sub"
    and "apart (concat (map ai_all_regions (pmh_shows (mm_history m) r s)))"
  shows "\<exists>m'. restore_memory_at_sequence W r s m = Some m'
    \<and> (\<forall>a\<in>set (pmh_shows (mm_history m) r s). \<forall>sub\<in>set (ai_all_regions a). holds_bytes mem (m_world m') sub)
    \<and> (\<forall>q t. pmh_shows (mm_history m') q t = pmh_shows (mm_history m) q t)"
proof -
  let ?allocs = "pmh_shows (mm_history m) r s"
  have "w_virtual_query W (m_world m) 0 \<noteq> None" using assms(1) by (simp add: vq_ok_def)
  then obtain i where i: "w_virtual_query W (m_world m) 0 = Some i" by blast
  obtain m0 where m0: "free_region W 0 i m = Some m0" "mm_history m0 = mm_history m" using free_region_history by blast
  obtain seen m1 where m1: "vq_loop W (free_region W) (mbi_BaseAddress i + mbi_RegionSize i) (Some i) m0 = Some (seen, m1)"
    "mm_history m1 = mm_history m" "seen \<noteq> None"
    using vq_loop_total[OF assms(1), of "\<lambda>x. mm_history x = mm_history m" m0 "free_region W"
        "mbi_BaseAddress i + mbi_RegionSize i" "Some i"] m0(2) free_region_history by fastforce
  have 1: "vq_loop W (free_region W) 0 None m = Some (seen, m1)"
    by (subst vq_loop.simps) (simp add: i m0(1) m1(1))
  obtain h where h: "pmh_get_current_allocation_regions r s (mm_history m) = Some (?allocs, h)"
    "\<forall>ai\<in>set ?allocs. ai_all_regions ai \<noteq> []" "\<forall>q t. pmh_shows h q t = pmh_shows (mm_history m) q t"
    using pmh_query[OF assms(4)] by blast
  obtain seen' m2 where m2: "foldM (restore_allocation W) ?allocs (seen, m1 \<lparr> mm_history := h \<rparr>) = Some (seen', m2)"
    "\<forall>sub\<in>set (concat (map ai_all_regions ?allocs)). holds_bytes mem (m_world m2) sub"
    using restore_allocations_mem[OF assms(2,3) h(2) assms(5,6) m1(3), of "m1 \<lparr> mm_history := h \<rparr>"] by blast
  have "restore_memory_at_sequence W r s m = Some m2"
    using 1 m1(2) h(1) m2(1) by (simp add: restore_memory_at_sequence_def)
  moreover have "mm_history m2 = h" using restore_allocations_history[OF m2(1)] by simp
  ultimately show ?thesis using m2(2) h(3) by auto
qed


lemma paged_win32_vm: "w_vm_ok paged_win32 (\<lambda>w. w)"
  by (simp add: w_vm_ok_def paged_win32_def flat_win32_def)


end
