(* ===== verification/Memory_Time_Travel.thy ===== *)
theory Memory_Time_Travel
  imports Memory_Manager
begin

text \<open>
  Recording and restoring composed.  A session takes snapshots while the debuggee changes its memory, and
  returns to earlier points, each of which starts a new run.  The lemmas follow one region through a
  snapshot, then the walk over all regions and the marking of those that are gone, then a whole
  snapshot, a branch and a restore; \<open>session_refines\<close> puts them together over a \<open>timeline\<close> of worlds.
\<close>

section \<open>One region\<close>

text \<open>
  Between snapshots of run r: the history can be read at every point, and nothing has been recorded in runs after r.
\<close>

definition rh_ok :: "u32 \<Rightarrow> region_hist \<Rightarrow> bool" where
  "rh_ok r h = (rh_wf h \<and> (\<forall>q t. rh_shows h q t \<noteq> None) \<and> (\<forall>n. r < n \<longrightarrow> rh_fresh h n))"

definition rh_ready :: "u32 \<Rightarrow> u32 \<Rightarrow> region_hist \<Rightarrow> bool" where
  "rh_ready r s h = (rh_ok r h \<and> (\<forall>t. s \<le> t \<longrightarrow> rh_writable h r t))"

definition rh_now :: "u32 \<Rightarrow> u32 \<Rightarrow> mbi \<Rightarrow> byte list \<Rightarrow> region_hist \<Rightarrow> bool" where
  "rh_now r s i bs h =
     (rh_ok r h \<and> (\<forall>t. s \<le> t \<longrightarrow> rh_shows h r t = Some (Some \<lparr> ri_current_mbi = i, ri_current_memory = bs \<rparr>))
      \<and> (\<forall>t. s < t \<longrightarrow> rh_writable h r t))"

text \<open>Points before (r, s), and all of the other runs, keep what they show.\<close>

definition earlier :: "u32 \<Rightarrow> u32 \<Rightarrow> u32 \<Rightarrow> u32 \<Rightarrow> bool" where
  "earlier r s q t = (\<not> (q = r \<and> s \<le> t))"

definition rh_ext :: "u32 \<Rightarrow> u32 \<Rightarrow> region_hist \<Rightarrow> region_hist \<Rightarrow> bool" where
  "rh_ext r s h h' =
     (rh_base_address h' = rh_base_address h
      \<and> (\<forall>q t. earlier r s q t \<longrightarrow> rh_shows h q t \<noteq> None \<longrightarrow> rh_shows h' q t = rh_shows h q t))"

lemma rh_ext_refl [simp, intro]: "rh_ext r s h h"
  by (simp add: rh_ext_def)

lemma rh_ext_trans: "rh_ext r s a b \<Longrightarrow> rh_ext r s b c \<Longrightarrow> rh_ext r s a c"
  by (simp add: rh_ext_def)

lemma rh_ready_update:
  assumes "rh_ready r s h" "buffer_ok m buf"
  shows "\<exists>h'. rh_update r s g m buf h = Some h' \<and> rh_now r s m buf h' \<and> rh_ext r s h h'"
proof -
  have h: "rh_wf h" "rh_writable h r s" and full: "\<And>q t. rh_shows h q t \<noteq> None" and fresh: "\<And>n. r < n \<Longrightarrow> rh_fresh h n"
    using assms(1) by (auto simp: rh_ready_def rh_ok_def)
  obtain h' where h': "rh_update r s g m buf h = Some h'" "rh_wf h'" "rh_base_address h' = rh_base_address h"
    "\<forall>s'. s \<le> s' \<longrightarrow> rh_shows h' r s' = Some (Some \<lparr> ri_current_mbi = m, ri_current_memory = buf \<rparr>)"
    "\<forall>q t. \<not> (q = r \<and> s \<le> t) \<longrightarrow> rh_shows h q t \<noteq> None \<longrightarrow> rh_shows h' q t = rh_shows h q t"
    "\<forall>s'. s < s' \<longrightarrow> rh_writable h' r s'"
    using rh_update_spec[OF h assms(2), of g] by blast
  have "rh_shows h' q t \<noteq> None" for q t using full h'(4,5) by (cases "q = r \<and> s \<le> t") auto
  moreover have "rh_fresh h' n" if "r < n" for n
  proof -
    obtain mem where "pr_update r s g buf (rh_memory_history h) = Some mem"
      "h' = h \<lparr> rh_memory_history := mem, rh_mbi_history := et_add_child m r s g (rh_mbi_history h) \<rparr>"
      using h'(1) by (auto simp: rh_update_def split: bind_splits)
    then show ?thesis
      using fresh[OF that] that h pr_update_fresh[of "rh_memory_history h" r s g buf mem n]
        et_fresh_laws(1)[of "rh_mbi_history h" r s n m g]
      by (auto simp: rh_fresh_def rh_wf_def rh_writable_def)
  qed
  ultimately show ?thesis using h' by (auto simp: rh_now_def rh_ok_def rh_ext_def earlier_def)
qed

text \<open>A region seen for the first time shows nothing at earlier points.\<close>

lemma rh_new_spec:
  assumes "buffer_ok m buf"
  shows "\<exists>h. rh_new m buf r s g = Some h \<and> rh_now r s m buf h \<and> rh_base_address h = mbi_BaseAddress m
    \<and> (\<forall>q t. earlier r s q t \<longrightarrow> rh_shows h q t = Some None) \<and> et_tied (rh_mbi_history h) r s"
proof -
  have buf: "length buf < 2 ^ 32" "kPageLineSize dvd length buf" using assms by (auto simp: buffer_ok_def split: if_splits)
  have new: "pr_wf (pr_new r s g)" "pr_sized (pr_new r s g)" "pr_writable (pr_new r s g) r s" "pr_fresh (pr_new r s g) n" for n
    by (simp_all add: pr_wf_def pr_sized_def pr_writable_def pr_new_def pr_fresh_def)
  from pr_round_trip[OF new(1-3) buf, of g] obtain mem where mem: "pr_update r s g buf (pr_new r s g) = Some mem" "pr_wf mem"
    "pr_sized mem" "\<forall>s'. s \<le> s' \<longrightarrow> pr_shows mem r s' (of_nat (length buf)) = Some buf" "\<forall>s'. s < s' \<longrightarrow> pr_writable mem r s'"
    by blast
  let ?t = "et_new mbi_zero m r s g"
  let ?h = "\<lparr> rh_base_address = mbi_BaseAddress m, rh_mbi_history = ?t, rh_memory_history = mem \<rparr>"
  have wf: "rh_wf ?h" using mem(2,3) by (simp add: rh_wf_def et_new_laws(1))
  have now: "rh_shows ?h r t = Some (Some \<lparr> ri_current_mbi = m, ri_current_memory = buf \<rparr>)" if "s \<le> t" for t
    using that mem(4) by (intro rh_shows_latest[OF wf _ assms]) (simp_all add: et_new_laws(2) tl_create_def)
  moreover have "rh_writable ?h r t" if "s < t" for t
    using that mem(5) et_new_laws(3) by (simp add: rh_writable_def)
  moreover have none: "rh_shows ?h q t = Some None" if "earlier r s q t" for q t
    using that by (simp add: rh_shows_eq[OF wf] et_new_laws(2) tl_create_def earlier_def)
  have "rh_shows ?h q t \<noteq> None" for q t using now none by (cases "earlier r s q t") (auto simp: earlier_def)
  moreover have "rh_fresh ?h n" if "r < n" for n
    using that pr_update_fresh[OF new(1,3) mem(1) new(4)] et_fresh_laws(3)[of n r mbi_zero m s g]
    by (auto simp: rh_fresh_def intro: le_less_trans[OF word_zero_le])
  ultimately show ?thesis
    using mem(1) wf et_new_laws(4) none by (intro exI[of _ ?h]) (auto simp: rh_new_def rh_now_def rh_ok_def)
qed

text \<open>
  The first region of a new allocation is marked free in the very snapshot that found it, because the
  constructor does not count it as seen.  The mark has the coordinates of the state it should replace,
  and is shadowed by it.
\<close>

lemma rh_update_tied:
  assumes "rh_now r s i bs h" "et_tied (rh_mbi_history h) r s"
  shows "\<exists>h'. rh_update r s g m [] h = Some h' \<and> rh_now r s i bs h' \<and> rh_ext r s h h'"
proof -
  have wf: "et_wf (rh_mbi_history h)" and h: "rh_wf h" and w: "\<And>t. s < t \<Longrightarrow> rh_writable h r t"
    using assms(1) by (auto simp: rh_now_def rh_wf_def rh_ok_def)
  let ?h' = "h \<lparr> rh_mbi_history := et_add_child m r s g (rh_mbi_history h) \<rparr>"
  note tied = et_add_child_tied[OF wf assms(2), where d = m and g = g]
  have upd: "rh_update r s g m [] h = Some ?h'" by (simp add: rh_update_def pr_update_def chunks_def)
  have wf': "rh_wf ?h'" using h tied(1) by (simp add: rh_wf_def)
  have same: "rh_shows ?h' q t = rh_shows h q t" for q t
    unfolding rh_shows_eq[OF wf'] rh_shows_eq[OF h] by (simp add: tied(2) split: option.split)
  have "rh_writable ?h' r t" if "s < t" for t
    using w[OF that] tied(3)[OF that] by (simp add: rh_writable_def)
  moreover have "rh_fresh ?h' n" if "r < n" "rh_fresh h n" for n
    using that et_fresh_laws(1)[OF disjI2[OF assms(2)], of n m g] by (simp add: rh_fresh_def)
  ultimately show ?thesis using upd wf' same assms(1) by (auto simp: rh_now_def rh_ext_def rh_ok_def)
qed

section \<open>Lists that are extended\<close>

text \<open>The old elements in their places, each related to what it was, and new ones behind them.\<close>

definition list_ext :: "('a \<Rightarrow> 'a \<Rightarrow> bool) \<Rightarrow> ('a \<Rightarrow> bool) \<Rightarrow> 'a list \<Rightarrow> 'a list \<Rightarrow> bool" where
  "list_ext R N xs ys = (\<exists>us vs. ys = us @ vs \<and> list_all2 R xs us \<and> (\<forall>v\<in>set vs. N v))"

lemma list_ext_all2: "list_all2 R xs ys \<Longrightarrow> list_ext R N xs ys"
  unfolding list_ext_def by (intro exI[of _ ys] exI[of _ "[]"]) simp

lemma list_ext_refl: "(\<And>x. R x x) \<Longrightarrow> list_ext R N xs xs"
  by (intro list_ext_all2) (simp add: list_all2_same)

lemma list_ext_snoc: "(\<And>x. R x x) \<Longrightarrow> N y \<Longrightarrow> list_ext R N xs (xs @ [y])"
  unfolding list_ext_def by (intro exI[of _ xs] exI[of _ "[y]"]) (simp add: list_all2_same)

lemma list_ext_update: "(\<And>x. R x x) \<Longrightarrow> R (xs ! i) y \<Longrightarrow> list_ext R N xs (xs[i := y])"
proof (intro list_ext_all2 list_all2_all_nthI)
  fix n
  assume "\<And>x. R x x" "R (xs ! i) y" "n < length xs"
  then show "R (xs ! n) (xs[i := y] ! n)" by (cases "n = i") simp_all
qed simp

lemma list_all2_keeps:
  "list_all2 R xs ys \<Longrightarrow> \<forall>x\<in>set xs. N x \<Longrightarrow> (\<And>a b. N a \<Longrightarrow> R a b \<Longrightarrow> N b) \<Longrightarrow> \<forall>y\<in>set ys. N y"
  by (induction rule: list_all2_induct) auto

lemma list_ext_trans:
  assumes "\<And>a b c. R a b \<Longrightarrow> R b c \<Longrightarrow> R a c" "\<And>a b. N a \<Longrightarrow> R a b \<Longrightarrow> N b"
    and "list_ext R N xs ys" "list_ext R N ys zs"
  shows "list_ext R N xs zs"
proof -
  obtain us vs where 1: "ys = us @ vs" "list_all2 R xs us" "\<forall>v\<in>set vs. N v" using assms(3) by (auto simp: list_ext_def)
  obtain us' ws where 2: "zs = us' @ ws" "list_all2 R ys us'" "\<forall>v\<in>set ws. N v" using assms(4) by (auto simp: list_ext_def)
  obtain us1 us2 where 3: "us' = us1 @ us2" "list_all2 R us us1" "list_all2 R vs us2"
    using 2(2) by (auto simp: 1(1) list_all2_append1)
  have "\<forall>v\<in>set us2. N v" using 3(3) 1(3) assms(2) by (rule list_all2_keeps)
  moreover have "list_all2 R xs us1" by (rule list_all2_trans[OF assms(1) 1(2) 3(2)])
  ultimately show ?thesis using 2(1,3) 3(1) unfolding list_ext_def by (intro exI[of _ us1] exI[of _ "us2 @ ws"]) auto
qed

definition rh_hidden :: "u32 \<Rightarrow> u32 \<Rightarrow> region_hist \<Rightarrow> bool" where
  "rh_hidden r s h = (\<forall>q t. earlier r s q t \<longrightarrow> rh_shows h q t = Some None)"

definition ar_ext :: "u32 \<Rightarrow> u32 \<Rightarrow> allocation_region \<Rightarrow> allocation_region \<Rightarrow> bool" where
  "ar_ext r s a a' = list_ext (rh_ext r s) (rh_hidden r s) (ar_regions_history a) (ar_regions_history a')"

definition pmh_ext :: "u32 \<Rightarrow> u32 \<Rightarrow> process_memory_history \<Rightarrow> process_memory_history \<Rightarrow> bool" where
  "pmh_ext r s = list_ext (\<lambda>(k, a) (k', a'). k' = k \<and> ar_ext r s a a')
     (\<lambda>(k, a). ar_regions_history a \<noteq> [] \<and> (\<forall>x\<in>set (ar_regions_history a). rh_hidden r s x))"

lemma rh_hidden_ext: "rh_hidden r s a \<Longrightarrow> rh_ext r s a b \<Longrightarrow> rh_hidden r s b"
  by (simp add: rh_hidden_def rh_ext_def)

lemma ar_ext_refl [simp]: "ar_ext r s a a"
  by (simp add: ar_ext_def list_ext_refl)

lemma ar_ext_trans: "ar_ext r s a b \<Longrightarrow> ar_ext r s b c \<Longrightarrow> ar_ext r s a c"
  unfolding ar_ext_def by (rule list_ext_trans[OF rh_ext_trans rh_hidden_ext])

lemma ar_ext_hidden:
  assumes "\<forall>x\<in>set (ar_regions_history a). rh_hidden r s x" "ar_ext r s a b"
  shows "\<forall>x\<in>set (ar_regions_history b). rh_hidden r s x"
    and "ar_regions_history a \<noteq> [] \<Longrightarrow> ar_regions_history b \<noteq> []"
proof -
  obtain us vs where uv: "ar_regions_history b = us @ vs" "list_all2 (rh_ext r s) (ar_regions_history a) us"
    "\<forall>v\<in>set vs. rh_hidden r s v"
    using assms(2) by (auto simp: ar_ext_def list_ext_def)
  show "\<forall>x\<in>set (ar_regions_history b). rh_hidden r s x" using list_all2_keeps[OF uv(2) assms(1) rh_hidden_ext] uv(1,3) by auto
  show "ar_regions_history a \<noteq> [] \<Longrightarrow> ar_regions_history b \<noteq> []" using uv(1,2) by auto
qed

lemma pmh_ext_refl [simp]: "pmh_ext r s h h"
  unfolding pmh_ext_def by (rule list_ext_refl) auto

lemma pmh_ext_trans: "pmh_ext r s a b \<Longrightarrow> pmh_ext r s b c \<Longrightarrow> pmh_ext r s a c"
  unfolding pmh_ext_def
proof (rule list_ext_trans, goal_cases)
  case (1 x y z)
  then show ?case by (cases x; cases y; cases z) (auto intro: ar_ext_trans)
next
  case (2 x y)
  then show ?case using ar_ext_hidden[of "snd x" r s "snd y"] by (simp add: case_prod_beta)
qed

lemma ar_ext_bases:
  assumes "ar_ext r s a b"
  shows "rh_base_address ` set (ar_regions_history a) \<subseteq> rh_base_address ` set (ar_regions_history b)"
proof -
  obtain us vs where uv: "ar_regions_history b = us @ vs" "list_all2 (rh_ext r s) (ar_regions_history a) us"
    using assms by (auto simp: ar_ext_def list_ext_def)
  have "map rh_base_address us = map rh_base_address (ar_regions_history a)"
    using uv(2) by (induction rule: list_all2_induct) (simp_all add: rh_ext_def)
  then have "rh_base_address ` set us = rh_base_address ` set (ar_regions_history a)" by (metis list.set_map)
  then show ?thesis by (auto simp: uv(1))
qed

lemma ar_ext_shows:
  assumes "ar_ext r s a a'" "earlier r s q t" "\<forall>x\<in>set (ar_regions_history a). rh_shows x q t \<noteq> None"
  shows "ar_shows a' q t = ar_shows a q t"
    and "ar_regions_history a \<noteq> [] \<Longrightarrow> ar_freed q t a' = ar_freed q t a"
    and "\<forall>x\<in>set (ar_regions_history a'). rh_shows x q t \<noteq> None"
proof -
  obtain us vs where uv: "ar_regions_history a' = us @ vs" "list_all2 (rh_ext r s) (ar_regions_history a) us"
    "\<forall>v\<in>set vs. rh_hidden r s v"
    using assms(1) by (auto simp: ar_ext_def list_ext_def)
  have one: "rh_shows y q t = rh_shows x q t" if "rh_ext r s x y" "rh_shows x q t \<noteq> None" for x y
    using that assms(2) by (simp add: rh_ext_def)
  have hid: "live_info q t v = None" "rh_shows v q t \<noteq> None" if "v \<in> set vs" for v
    using that uv(3) assms(2) by (simp_all add: live_info_def rh_hidden_def)
  have same: "list_all2 (\<lambda>x y. live_info q t y = live_info q t x \<and> rh_shows y q t \<noteq> None) (ar_regions_history a) us"
    using uv(2) by (rule list.rel_mono_strong) (use assms(3) one in \<open>auto simp: live_info_def\<close>)
  have "List.map_filter (live_info q t) us = List.map_filter (live_info q t) (ar_regions_history a)"
    using same by (induction rule: list_all2_induct) (simp_all add: map_filter_simps split: option.split)
  moreover have "List.map_filter (live_info q t) vs = []" using hid(1) by (simp add: map_filter_def filter_empty_conv)
  ultimately show "ar_shows a' q t = ar_shows a q t"
    by (simp add: ar_shows_def uv(1) map_filter_def)
  show "ar_freed q t a' = ar_freed q t a" if "ar_regions_history a \<noteq> []"
    using that same by (cases "ar_regions_history a"; cases us) (simp_all add: ar_freed_def uv(1))
  have "\<forall>y\<in>set us. rh_shows y q t \<noteq> None" using same by (induction rule: list_all2_induct) simp_all
  then show "\<forall>x\<in>set (ar_regions_history a'). rh_shows x q t \<noteq> None" using hid(2) by (auto simp: uv(1))
qed

lemma pmh_ext_shows:
  assumes "pmh_ext r s h h'" "earlier r s q t" "pmh_readable q t h"
  shows "pmh_shows h' q t = pmh_shows h q t"
proof -
  obtain us vs where uv: "h' = us @ vs" "list_all2 (\<lambda>(k, a) (k', a'). k' = k \<and> ar_ext r s a a') h us"
    "\<forall>(k, a)\<in>set vs. ar_regions_history a \<noteq> [] \<and> (\<forall>x\<in>set (ar_regions_history a). rh_hidden r s x)"
    using assms(1) by (auto simp: pmh_ext_def list_ext_def)
  have readable: "\<forall>x\<in>set h. ar_regions_history (snd x) \<noteq> [] \<and> (\<forall>y\<in>set (ar_regions_history (snd x)). rh_shows y q t \<noteq> None)"
    using assms(3) by (auto simp: pmh_readable_def ar_readable_def)
  have "pmh_shows us q t = pmh_shows h q t"
    using uv(2) readable
  proof (induction rule: list_all2_induct)
    case (Cons x xs y ys)
    obtain k a a' where xy: "x = (k, a)" "y = (k, a')" "ar_ext r s a a'" using Cons.hyps(1) by (cases x; cases y) auto
    have a: "ar_regions_history a \<noteq> []" "\<forall>x\<in>set (ar_regions_history a). rh_shows x q t \<noteq> None"
      using Cons.prems by (simp_all add: xy(1))
    have "pmh_shows ys q t = pmh_shows xs q t" using Cons.IH Cons.prems by simp
    then show ?case
      using ar_ext_shows(1)[OF xy(3) assms(2) a(2)] ar_ext_shows(2)[OF xy(3) assms(2) a(2,1)]
      by (simp add: pmh_shows_def xy(1,2) map_filter_simps)
  qed simp
  moreover have "ar_freed q t a" if "(k, a) \<in> set vs" for k a
    using bspec[OF uv(3) that] hd_in_set[of "ar_regions_history a"] assms(2)
    by (simp add: ar_freed_def live_info_def rh_hidden_def)
  then have "pmh_shows vs q t = []" by (auto simp: pmh_shows_def map_filter_def filter_empty_conv)
  ultimately show ?thesis by (simp add: uv(1) pmh_shows_def map_filter_def)
qed

section \<open>One allocation in the walk\<close>

text \<open>
  While the walk goes on, \<open>ds\<close> are the regions it has passed.  The histories of those hold their new
  state; they are counted as seen, but for the first region of a new allocation.  All others are as they were.
\<close>

definition hit :: "mbi list \<Rightarrow> addr \<Rightarrow> addr \<Rightarrow> mbi \<Rightarrow> bool" where
  "hit ds k b i = (i \<in> set ds \<and> mbi_AllocationBase i = k \<and> mbi_BaseAddress i = b)"

definition rh_walk :: "u32 \<Rightarrow> u32 \<Rightarrow> (addr \<Rightarrow> byte) \<Rightarrow> mbi list \<Rightarrow> addr \<Rightarrow> addr set \<Rightarrow> region_hist \<Rightarrow> bool" where
  "rh_walk r s f ds k seen x =
     ((\<exists>i. hit ds k (rh_base_address x) i \<and> rh_now r s i (recorded f i) x
         \<and> (rh_base_address x \<in> seen \<or> et_tied (rh_mbi_history x) r s))
      \<or> (\<forall>i. \<not> hit ds k (rh_base_address x) i) \<and> rh_base_address x \<notin> seen \<and> rh_ready r s x)"

definition ar_shape :: "addr \<Rightarrow> allocation_region \<Rightarrow> bool" where
  "ar_shape k a =
     (ar_regions_history a \<noteq> [] \<and> rh_base_address (hd (ar_regions_history a)) = k
      \<and> distinct (map rh_base_address (ar_regions_history a)))"

lemma ar_shape_bases:
  "map rh_base_address (ar_regions_history a') = map rh_base_address (ar_regions_history a) \<Longrightarrow> ar_shape k a' = ar_shape k a"
  by (cases "ar_regions_history a"; cases "ar_regions_history a'") (auto simp: ar_shape_def)

definition ar_walk :: "u32 \<Rightarrow> u32 \<Rightarrow> (addr \<Rightarrow> byte) \<Rightarrow> mbi list \<Rightarrow> addr \<Rightarrow> allocation_region \<Rightarrow> bool" where
  "ar_walk r s f ds k a =
     (ar_shape k a \<and> distinct (ar_seen_base_addresses a)
      \<and> set (ar_seen_base_addresses a) \<subseteq> rh_base_address ` set (ar_regions_history a)
      \<and> (\<forall>x\<in>set (ar_regions_history a). rh_walk r s f ds k (set (ar_seen_base_addresses a)) x))"

lemma find_index_Some: "find_index P xs = Some j \<Longrightarrow> j < length xs \<and> P (xs ! j)"
  by (induction xs arbitrary: j) (auto split: if_splits)

lemma find_index_None: "find_index P xs = None \<longleftrightarrow> (\<forall>x\<in>set xs. \<not> P x)"
  by (induction xs) auto

lemma hit_snoc: "hit (ds @ [i]) k b j \<longleftrightarrow> hit ds k b j \<or> j = i \<and> mbi_AllocationBase i = k \<and> mbi_BaseAddress i = b"
  by (auto simp: hit_def)

lemma rh_walk_other:
  assumes "rh_walk r s f ds k S x" "mbi_AllocationBase i \<noteq> k \<or> mbi_BaseAddress i \<noteq> rh_base_address x"
  shows "rh_walk r s f (ds @ [i]) k S x" "mbi_BaseAddress i \<noteq> rh_base_address x \<Longrightarrow> rh_walk r s f (ds @ [i]) k (insert (mbi_BaseAddress i) S) x"
  using assms by (auto simp: rh_walk_def hit_snoc)

lemma ar_walk_other:
  "mbi_AllocationBase i \<noteq> k \<Longrightarrow> ar_walk r s f ds k a \<Longrightarrow> ar_walk r s f (ds @ [i]) k a"
  by (auto simp: ar_walk_def intro: rh_walk_other(1))

lemma ar_walk_new:
  assumes "buffer_ok i (recorded f i)" "mbi_BaseAddress i = mbi_AllocationBase i"
  shows "\<exists>a. ar_new i (recorded f i) r s g = Some a \<and> ar_walk r s f (ds @ [i]) (mbi_AllocationBase i) a
    \<and> (\<forall>x\<in>set (ar_regions_history a). rh_hidden r s x) \<and> mbi_BaseAddress i \<in> rh_base_address ` set (ar_regions_history a)"
proof -
  obtain x where x: "rh_new i (recorded f i) r s g = Some x" "rh_now r s i (recorded f i) x"
    "rh_base_address x = mbi_BaseAddress i" "rh_hidden r s x" "et_tied (rh_mbi_history x) r s"
    using rh_new_spec[OF assms(1), of r s g] by (auto simp: rh_hidden_def)
  show ?thesis
    using x assms(2) by (auto simp: ar_new_def ar_walk_def ar_shape_def rh_walk_def hit_def)
qed

lemma ar_walk_step:
  assumes a: "ar_walk r s f ds k a" and buf: "buffer_ok i (recorded f i)" and k: "mbi_AllocationBase i = k"
    and new: "\<forall>j\<in>set ds. mbi_BaseAddress j \<noteq> mbi_BaseAddress i"
  shows "\<exists>a'. ar_update i (recorded f i) r s g a = Some a' \<and> ar_walk r s f (ds @ [i]) k a' \<and> ar_ext r s a a'
    \<and> mbi_BaseAddress i \<in> rh_base_address ` set (ar_regions_history a')"
proof -
  let ?hs = "ar_regions_history a" and ?b = "mbi_BaseAddress i" and ?S = "ar_seen_base_addresses a"
  have shape: "?hs \<noteq> []" "rh_base_address (hd ?hs) = k" "distinct (map rh_base_address ?hs)"
    and seen: "distinct ?S" "set ?S \<subseteq> rh_base_address ` set ?hs"
    and hs: "\<And>x. x \<in> set ?hs \<Longrightarrow> rh_walk r s f ds k (set ?S) x"
    using a by (auto simp: ar_walk_def ar_shape_def)
  show ?thesis
  proof (cases "find_index (\<lambda>h. rh_base_address h = ?b) ?hs")
    case None
    then have nb: "?b \<notin> rh_base_address ` set ?hs" by (auto simp: find_index_None)
    obtain x where x: "rh_new i (recorded f i) r s g = Some x" "rh_now r s i (recorded f i) x"
      "rh_base_address x = ?b" "rh_hidden r s x"
      using rh_new_spec[OF buf, of r s g] by (auto simp: rh_hidden_def)
    let ?a' = "a \<lparr> ar_regions_history := ?hs @ [x], ar_seen_base_addresses := ?S @ [?b] \<rparr>"
    have upd: "ar_update i (recorded f i) r s g a = Some ?a'" using None x(1) by (simp add: ar_update_def Let_def)
    have "rh_walk r s f (ds @ [i]) k (insert ?b (set ?S)) y" if "y \<in> set ?hs" for y
      using hs[OF that] nb that by (intro rh_walk_other(2)) auto
    moreover have "rh_walk r s f (ds @ [i]) k (insert ?b (set ?S)) x" using x(2,3) k by (auto simp: rh_walk_def hit_snoc)
    ultimately have "ar_walk r s f (ds @ [i]) k ?a'"
      using shape seen nb x(3) by (auto simp: ar_walk_def ar_shape_def)
    moreover have "ar_ext r s a ?a'" using x(4) by (simp add: ar_ext_def list_ext_snoc)
    ultimately show ?thesis using upd x(3) by auto
  next
    case (Some n)
    then have n: "n < length ?hs" "rh_base_address (?hs ! n) = ?b" using find_index_Some by fastforce+
    have "\<not> hit ds k ?b j" for j using new by (auto simp: hit_def)
    then have old: "rh_ready r s (?hs ! n)" "?b \<notin> set ?S" using hs[of "?hs ! n"] n by (auto simp: rh_walk_def)
    obtain x where x: "rh_update r s g i (recorded f i) (?hs ! n) = Some x" "rh_now r s i (recorded f i) x"
      "rh_ext r s (?hs ! n) x"
      using rh_ready_update[OF old(1) buf, of g] by blast
    have xb: "rh_base_address x = ?b" using x(3) n(2) by (simp add: rh_ext_def)
    let ?hs' = "?hs[n := x]"
    let ?a' = "a \<lparr> ar_regions_history := ?hs', ar_seen_base_addresses := ?S @ [?b] \<rparr>"
    have upd: "ar_update i (recorded f i) r s g a = Some ?a'" using Some x(1) by (simp add: ar_update_def Let_def)
    have bases: "map rh_base_address ?hs' = map rh_base_address ?hs"
      using n xb by (metis list_update_id map_update nth_map)
    have "rh_walk r s f (ds @ [i]) k (insert ?b (set ?S)) y" if "y \<in> set ?hs'" for y
    proof (cases "y = x")
      case True
      then show ?thesis using x(2) xb k by (auto simp: rh_walk_def hit_snoc)
    next
      case False
      from \<open>y \<in> set ?hs'\<close> obtain m where "m < length ?hs" "y = ?hs' ! m" by (auto simp: in_set_conv_nth)
      then have m: "m < length ?hs" "m \<noteq> n" "y = ?hs ! m" using False n(1) by (cases "m = n"; simp)+
      then have "rh_base_address y \<noteq> ?b" using nth_eq_iff_index_eq[OF shape(3), of m n] n by simp
      then show ?thesis using hs[of y] m(1,3) by (intro rh_walk_other(2)) auto
    qed
    moreover have "hd ?hs' = (if n = 0 then x else hd ?hs)" using shape(1) by (cases ?hs; cases n) auto
    then have "rh_base_address (hd ?hs') = k" using shape(1,2) n(2) xb by (cases "n = 0") (simp_all add: hd_conv_nth)
    moreover have "rh_base_address ` set ?hs' = rh_base_address ` set ?hs" using bases by (metis list.set_map)
    ultimately have "ar_walk r s f (ds @ [i]) k ?a'"
      using shape(1,3) seen old(2) bases n by (auto simp: ar_walk_def ar_shape_def image_iff) (metis nth_mem)
    moreover have "ar_ext r s a ?a'" using x(3) by (simp add: ar_ext_def list_ext_update)
    moreover have "?b \<in> rh_base_address ` set ?hs'"
      using xb n(1) by (metis image_eqI set_update_memI)
    ultimately show ?thesis using upd by auto
  qed
qed

text \<open>The end of the walk: what was not seen is marked free.\<close>

definition rh_done :: "u32 \<Rightarrow> u32 \<Rightarrow> (addr \<Rightarrow> byte) \<Rightarrow> mbi list \<Rightarrow> addr \<Rightarrow> region_hist \<Rightarrow> bool" where
  "rh_done r s f ds k x =
     ((\<exists>i. hit ds k (rh_base_address x) i \<and> rh_now r s i (recorded f i) x)
      \<or> (\<forall>i. \<not> hit ds k (rh_base_address x) i) \<and> (\<exists>i. mbi_State i = MEM_FREE \<and> rh_now r s i [] x))"

definition ar_done :: "u32 \<Rightarrow> u32 \<Rightarrow> (addr \<Rightarrow> byte) \<Rightarrow> mbi list \<Rightarrow> addr \<Rightarrow> allocation_region \<Rightarrow> bool" where
  "ar_done r s f ds k a =
     (ar_shape k a \<and> ar_seen_base_addresses a = [] \<and> (\<forall>x\<in>set (ar_regions_history a). rh_done r s f ds k x))"

lemma rh_walk_stale:
  assumes "rh_walk r s f ds k S x"
  shows "\<exists>y. (if rh_base_address x \<in> S then Some x else rh_update r s g (mbi_zero \<lparr> mbi_State := MEM_FREE \<rparr>) [] x) = Some y
    \<and> rh_done r s f ds k y \<and> rh_ext r s x y"
proof -
  let ?free = "mbi_zero \<lparr> mbi_State := MEM_FREE \<rparr>"
  have base: "rh_base_address y = rh_base_address x" if "rh_ext r s x y" for y using that by (simp add: rh_ext_def)
  consider (seen) i where "hit ds k (rh_base_address x) i" "rh_now r s i (recorded f i) x" "rh_base_address x \<in> S"
    | (tied) i where "hit ds k (rh_base_address x) i" "rh_now r s i (recorded f i) x" "et_tied (rh_mbi_history x) r s" "rh_base_address x \<notin> S"
    | (stale) "\<forall>i. \<not> hit ds k (rh_base_address x) i" "rh_base_address x \<notin> S" "rh_ready r s x"
    using assms by (auto simp: rh_walk_def)
  then show ?thesis
  proof cases
    case seen
    then have "rh_done r s f ds k x" unfolding rh_done_def by blast
    then show ?thesis using seen(3) by (intro exI[of _ x]) simp
  next
    case tied
    obtain y where y: "rh_update r s g ?free [] x = Some y" "rh_now r s i (recorded f i) y" "rh_ext r s x y"
      using rh_update_tied[OF tied(2,3)] by blast
    have "rh_done r s f ds k y" unfolding rh_done_def base[OF y(3)] using tied(1) y(2) by blast
    then show ?thesis using tied(4) y(1,3) by (intro exI[of _ y]) simp
  next
    case stale
    have "buffer_ok ?free []" by (simp add: buffer_ok_def)
    from rh_ready_update[OF stale(3) this, of g] obtain y where y:
      "rh_update r s g ?free [] x = Some y" "rh_now r s ?free [] y" "rh_ext r s x y" by blast
    have "mbi_State ?free = MEM_FREE" by simp
    then have "rh_done r s f ds k y" unfolding rh_done_def base[OF y(3)] using stale(1) y(2) by blast
    then show ?thesis using stale(2) y(1,3) by (intro exI[of _ y]) simp
  qed
qed

lemma ar_walk_stale:
  assumes "ar_walk r s f ds k a"
  shows "\<exists>a'. ar_update_stale_regions r s g a = Some a' \<and> ar_done r s f ds k a' \<and> ar_ext r s a a'
    \<and> rh_base_address ` set (ar_regions_history a') = rh_base_address ` set (ar_regions_history a)"
proof -
  let ?hs = "ar_regions_history a" and ?S = "ar_seen_base_addresses a"
  let ?f = "\<lambda>h. if rh_base_address h \<in> set ?S then Some h else rh_update r s g (mbi_zero \<lparr> mbi_State := MEM_FREE \<rparr>) [] h"
  have shape: "ar_shape k a" and seen: "distinct ?S" "set ?S \<subseteq> rh_base_address ` set ?hs"
    and hs: "\<And>x. x \<in> set ?hs \<Longrightarrow> rh_walk r s f ds k (set ?S) x"
    using assms by (auto simp: ar_walk_def)
  show ?thesis
  proof (cases "length ?hs = length ?S")
    case True
    have "card (rh_base_address ` set ?hs) = length ?hs"
      using shape distinct_card[of "map rh_base_address ?hs"] by (simp add: ar_shape_def)
    then have "set ?S = rh_base_address ` set ?hs"
      using True seen distinct_card[OF seen(1)] by (intro card_subset_eq) auto
    then have "rh_done r s f ds k x" if "x \<in> set ?hs" for x
      using hs[OF that] that by (auto simp: rh_walk_def rh_done_def)
    then show ?thesis using True shape
      by (intro exI[of _ "a \<lparr> ar_seen_base_addresses := [] \<rparr>"])
        (auto simp: ar_update_stale_regions_def ar_done_def ar_shape_def ar_ext_def list_ext_refl)
  next
    case False
    have "\<exists>ys. mapM ?f ?hs = Some ys \<and> list_all2 (\<lambda>x y. rh_done r s f ds k y \<and> rh_ext r s x y) ?hs ys"
      by (rule mapM_each) (use rh_walk_stale hs in blast)
    then obtain ys where ys: "mapM ?f ?hs = Some ys" "list_all2 (\<lambda>x y. rh_done r s f ds k y \<and> rh_ext r s x y) ?hs ys" by blast
    have "map rh_base_address ys = map rh_base_address ?hs"
      using ys(2) by (induction rule: list_all2_induct) (simp_all add: rh_ext_def)
    moreover have "\<forall>y\<in>set ys. rh_done r s f ds k y" using ys(2) by (induction rule: list_all2_induct) simp_all
    moreover have "list_all2 (rh_ext r s) ?hs ys" using ys(2) by (rule list.rel_mono_strong) simp
    moreover have "rh_base_address ` set ys = rh_base_address ` set ?hs" using calculation(1) by (metis list.set_map)
    ultimately show ?thesis using False ys(1) shape ar_shape_bases[of "a \<lparr> ar_regions_history := ys, ar_seen_base_addresses := [] \<rparr>" a k]
      by (intro exI[of _ "a \<lparr> ar_regions_history := ys, ar_seen_base_addresses := [] \<rparr>"])
        (simp add: ar_update_stale_regions_def ar_done_def ar_ext_def list_ext_all2)
  qed
qed

section \<open>All allocations in the walk\<close>

definition pmh_walk :: "u32 \<Rightarrow> u32 \<Rightarrow> (addr \<Rightarrow> byte) \<Rightarrow> mbi list \<Rightarrow> process_memory_history \<Rightarrow> bool" where
  "pmh_walk r s f ds h =
     (distinct (map fst h) \<and> (\<forall>(k, a)\<in>set h. ar_walk r s f ds k a)
      \<and> (\<forall>i\<in>set ds. \<exists>a. (mbi_AllocationBase i, a) \<in> set h \<and> mbi_BaseAddress i \<in> rh_base_address ` set (ar_regions_history a)))"

definition pmh_ready :: "u32 \<Rightarrow> u32 \<Rightarrow> process_memory_history \<Rightarrow> bool" where
  "pmh_ready r s h =
     (distinct (map fst h)
      \<and> (\<forall>(k, a)\<in>set h. ar_shape k a \<and> ar_seen_base_addresses a = [] \<and> (\<forall>x\<in>set (ar_regions_history a). rh_ready r s x)))"

lemma pmh_ready_walk: "pmh_ready r s h \<Longrightarrow> pmh_walk r s f [] h"
  by (fastforce simp: pmh_ready_def pmh_walk_def ar_walk_def rh_walk_def hit_def)

text \<open>
  What the walk of a system's address space looks like: the regions are in address order; each belongs
  to an allocation that begins with a region of its own, and the two are free or not together; a
  committed region is whole pages and below 4 GiB.
\<close>

definition layout_ok :: "mbi list \<Rightarrow> bool" where
  "layout_ok is =
     (sorted_wrt (<) (map mbi_BaseAddress is)
      \<and> (\<forall>i\<in>set is. mbi_AllocationBase i \<le> mbi_BaseAddress i
           \<and> (mbi_State i = MEM_COMMIT \<longrightarrow> unat (mbi_RegionSize i) < 2 ^ 32 \<and> 4096 dvd unat (mbi_RegionSize i))
           \<and> (\<exists>j\<in>set is. mbi_BaseAddress j = mbi_AllocationBase i \<and> mbi_AllocationBase j = mbi_AllocationBase i
                \<and> (mbi_State j = MEM_FREE) = (mbi_State i = MEM_FREE))))"

lemma recorded_ok:
  "(mbi_State i = MEM_COMMIT \<longrightarrow> unat (mbi_RegionSize i) < 2 ^ 32 \<and> 4096 dvd unat (mbi_RegionSize i)) \<Longrightarrow> buffer_ok i (recorded f i)"
  by (simp add: buffer_ok_def recorded_def)

lemma pmh_walk_step:
  assumes h: "pmh_walk r s f ds h" and buf: "buffer_ok i (recorded f i)"
    and new: "\<forall>j\<in>set ds. mbi_BaseAddress j \<noteq> mbi_BaseAddress i"
    and first: "mbi_AllocationBase i \<notin> fst ` set h \<Longrightarrow> mbi_BaseAddress i = mbi_AllocationBase i"
  shows "\<exists>h'. pmh_update i (recorded f i) r s g h = Some h' \<and> pmh_walk r s f (ds @ [i]) h' \<and> pmh_ext r s h h'"
proof -
  let ?k = "mbi_AllocationBase i"
  have dist: "distinct (map fst h)" and as: "\<And>k a. (k, a) \<in> set h \<Longrightarrow> ar_walk r s f ds k a"
    and old: "\<And>j. j \<in> set ds \<Longrightarrow> \<exists>a. (mbi_AllocationBase j, a) \<in> set h \<and> mbi_BaseAddress j \<in> rh_base_address ` set (ar_regions_history a)"
    using h by (auto simp: pmh_walk_def)
  show ?thesis
  proof (cases "find_index (\<lambda>(k, a). k = ?k) h")
    case None
    then have nk: "?k \<notin> fst ` set h" by (auto simp: find_index_None)
    obtain a where a: "ar_new i (recorded f i) r s g = Some a" "ar_walk r s f (ds @ [i]) ?k a"
      "\<forall>x\<in>set (ar_regions_history a). rh_hidden r s x" "mbi_BaseAddress i \<in> rh_base_address ` set (ar_regions_history a)"
      using ar_walk_new[OF buf first[OF nk]] by blast
    have "pmh_update i (recorded f i) r s g h = Some (h @ [(?k, a)])" using None a(1) by (simp add: pmh_update_def)
    moreover have "ar_walk r s f (ds @ [i]) k b" if "(k, b) \<in> set h" for k b
      using as[OF that] nk that by (intro ar_walk_other) force+
    then have "pmh_walk r s f (ds @ [i]) (h @ [(?k, a)])"
      using dist nk a(2,4) old by (fastforce simp: pmh_walk_def)
    moreover have "ar_regions_history a \<noteq> []" using a(2) by (simp add: ar_walk_def ar_shape_def)
    then have "pmh_ext r s h (h @ [(?k, a)])" using a(3) unfolding pmh_ext_def by (intro list_ext_snoc) auto
    ultimately show ?thesis by blast
  next
    case (Some n)
    then obtain a where n: "n < length h" "h ! n = (?k, a)" using find_index_Some[OF Some] by (cases "h ! n") auto
    then have "(?k, a) \<in> set h" by (metis nth_mem)
    from ar_walk_step[OF as[OF this] buf refl new, of g] obtain a' where a': "ar_update i (recorded f i) r s g a = Some a'"
      "ar_walk r s f (ds @ [i]) ?k a'" "ar_ext r s a a'" "mbi_BaseAddress i \<in> rh_base_address ` set (ar_regions_history a')" by blast
    let ?h' = "h[n := (?k, a')]"
    have upd: "pmh_update i (recorded f i) r s g h = Some ?h'" using Some n(2) a'(1) by (simp add: pmh_update_def)
    have keys: "map fst ?h' = map fst h" using n by (metis fst_conv list_update_id map_update)
    have mem: "(k, b) \<in> set ?h' \<longleftrightarrow> (k = ?k \<and> b = a') \<or> (k \<noteq> ?k \<and> (k, b) \<in> set h)" for k b
    proof -
      have "distinct h" using dist by (simp add: distinct_map)
      then have "set ?h' = insert (?k, a') (set h - {(?k, a)})" using n by (metis set_update_distinct)
      moreover have "b = a" if "(?k, b) \<in> set h" for b
        using that \<open>(?k, a) \<in> set h\<close> dist by (metis eq_key_imp_eq_value)
      ultimately show ?thesis by auto
    qed
    have "ar_walk r s f (ds @ [i]) k b" if "(k, b) \<in> set ?h'" for k b
      using that as a'(2) by (auto simp: mem intro: ar_walk_other)
    moreover have "\<exists>b. (mbi_AllocationBase j, b) \<in> set ?h' \<and> mbi_BaseAddress j \<in> rh_base_address ` set (ar_regions_history b)"
      if "j \<in> set ds" for j
    proof -
      obtain b where b: "(mbi_AllocationBase j, b) \<in> set h" "mbi_BaseAddress j \<in> rh_base_address ` set (ar_regions_history b)"
        using old[OF \<open>j \<in> set ds\<close>] by blast
      show ?thesis
      proof (cases "mbi_AllocationBase j = ?k")
        case True
        then have "b = a" using b(1) \<open>(?k, a) \<in> set h\<close> dist by (metis eq_key_imp_eq_value)
        moreover have "rh_base_address ` set (ar_regions_history a) \<subseteq> rh_base_address ` set (ar_regions_history a')"
          by (rule ar_ext_bases[OF a'(3)])
        ultimately show ?thesis using True b(2) by (auto simp: mem)
      next
        case False
        then show ?thesis using b by (auto simp: mem)
      qed
    qed
    ultimately have "pmh_walk r s f (ds @ [i]) ?h'" using dist a'(4) by (auto simp: pmh_walk_def keys mem)
    moreover have "pmh_ext r s h ?h'" using n a'(3) unfolding pmh_ext_def by (intro list_ext_update) auto
    ultimately show ?thesis using upd by blast
  qed
qed

lemma pmh_walk_all:
  assumes "layout_ok (ds @ is)" "pmh_walk r s f ds h"
  shows "\<exists>h'. foldM (\<lambda>i. pmh_update i (recorded f i) r s g) is h = Some h' \<and> pmh_walk r s f (ds @ is) h' \<and> pmh_ext r s h h'"
  using assms
proof (induction "is" arbitrary: ds h)
  case (Cons i "is")
  let ?L = "ds @ i # is"
  have order: "\<forall>j\<in>set ds. mbi_BaseAddress j < mbi_BaseAddress i" "\<forall>j\<in>set is. mbi_BaseAddress i < mbi_BaseAddress j"
    using Cons.prems(1) by (auto simp: layout_ok_def sorted_wrt_append)
  have i: "mbi_AllocationBase i \<le> mbi_BaseAddress i" "buffer_ok i (recorded f i)"
    using Cons.prems(1) by (auto simp: layout_ok_def intro: recorded_ok)
  obtain j where j: "j \<in> set ?L" "mbi_BaseAddress j = mbi_AllocationBase i" "mbi_AllocationBase j = mbi_AllocationBase i"
    using Cons.prems(1) by (auto simp: layout_ok_def)
  have "mbi_BaseAddress i = mbi_AllocationBase i" if "mbi_AllocationBase i \<notin> fst ` set h"
  proof -
    have "j \<notin> set ds"
      using that Cons.prems(2) j(3) unfolding pmh_walk_def by (metis fst_conv image_eqI)
    then have "mbi_BaseAddress i \<le> mbi_BaseAddress j" using j(1) order(2) by auto
    then show ?thesis using i(1) j(2) by simp
  qed
  from pmh_walk_step[OF Cons.prems(2) i(2) _ this, of g] order(1) obtain h1 where
    h1: "pmh_update i (recorded f i) r s g h = Some h1" "pmh_walk r s f (ds @ [i]) h1" "pmh_ext r s h h1" by fastforce
  have "layout_ok ((ds @ [i]) @ is)" using Cons.prems(1) by simp
  from Cons.IH[OF this h1(2)] show ?case using h1 pmh_ext_trans by fastforce
qed (auto)

section \<open>What the history shows after the walk\<close>

definition pmh_done :: "u32 \<Rightarrow> u32 \<Rightarrow> (addr \<Rightarrow> byte) \<Rightarrow> mbi list \<Rightarrow> process_memory_history \<Rightarrow> bool" where
  "pmh_done r s f ds h =
     (distinct (map fst h) \<and> (\<forall>(k, a)\<in>set h. ar_done r s f ds k a)
      \<and> (\<forall>i\<in>set ds. \<exists>a. (mbi_AllocationBase i, a) \<in> set h \<and> mbi_BaseAddress i \<in> rh_base_address ` set (ar_regions_history a)))"

lemma pmh_walk_stale:
  assumes "pmh_walk r s f ds h"
  shows "\<exists>h'. pmh_update_stale_regions r s g h = Some h' \<and> pmh_done r s f ds h' \<and> pmh_ext r s h h'"
proof -
  let ?f = "\<lambda>(k, a). map_option (Pair k) (ar_update_stale_regions r s g a)"
  let ?R = "\<lambda>(k, a) (k', a'). k' = k \<and> ar_done r s f ds k a' \<and> ar_ext r s a a'
    \<and> rh_base_address ` set (ar_regions_history a') = rh_base_address ` set (ar_regions_history a)"
  have "\<exists>y. ?f x = Some y \<and> ?R x y" if "x \<in> set h" for x
  proof -
    obtain k a where x: "x = (k, a)" by (cases x)
    have "ar_walk r s f ds k a" using assms that by (auto simp: pmh_walk_def x)
    from ar_walk_stale[OF this, of g] show ?thesis by (auto simp: x)
  qed
  then have "\<exists>ys. mapM ?f h = Some ys \<and> list_all2 ?R h ys" by (rule mapM_each)
  then obtain h' where h': "mapM ?f h = Some h'" "list_all2 ?R h h'" by blast
  have keys: "map fst h' = map fst h" using h'(2) by (induction rule: list_all2_induct) auto
  have "\<forall>(k, a)\<in>set h'. ar_done r s f ds k a" using h'(2) by (induction rule: list_all2_induct) auto
  moreover have "\<exists>a'. (k, a') \<in> set h' \<and> rh_base_address ` set (ar_regions_history a') = rh_base_address ` set (ar_regions_history a)"
    if "(k, a) \<in> set h" for k a
    using h'(2) that by (induction rule: list_all2_induct) auto
  then have "\<exists>a'. (mbi_AllocationBase i, a') \<in> set h' \<and> mbi_BaseAddress i \<in> rh_base_address ` set (ar_regions_history a')"
    if "i \<in> set ds" for i
    using that assms unfolding pmh_walk_def by metis
  moreover have "list_all2 (\<lambda>(k, a) (k', a'). k' = k \<and> ar_ext r s a a') h h'"
    using h'(2) by (rule list.rel_mono_strong) auto
  then have "pmh_ext r s h h'" unfolding pmh_ext_def by (rule list_ext_all2)
  ultimately show ?thesis using h'(1) keys assms by (auto simp: pmh_update_stale_regions_def pmh_done_def pmh_walk_def)
qed

lemma rh_now_ready: "rh_now r s i bs x \<Longrightarrow> s < t \<Longrightarrow> rh_ready r t x"
  by (auto simp: rh_now_def rh_ready_def)

lemma rh_done_ready: "rh_done r s f ds k x \<Longrightarrow> s < t \<Longrightarrow> rh_ready r t x"
  by (auto simp: rh_done_def intro: rh_now_ready)

lemma pmh_done_ready: "pmh_done r s f ds h \<Longrightarrow> s < t \<Longrightarrow> pmh_ready r t h"
  by (fastforce simp: pmh_done_def pmh_ready_def ar_done_def intro: rh_done_ready)

lemma rh_done_shows:
  assumes "rh_done r s f ds k x" "s \<le> t"
  shows "rh_wf x" "rh_shows x r t \<noteq> None"
    and "live_info r t x = Some q \<Longrightarrow>
      \<exists>i. hit ds k (rh_base_address x) i \<and> mbi_State i \<noteq> MEM_FREE \<and> q = \<lparr> ri_current_mbi = i, ri_current_memory = recorded f i \<rparr>"
    and "hit ds k (rh_base_address x) i \<Longrightarrow> sorted_wrt (<) (map mbi_BaseAddress ds) \<Longrightarrow> mbi_State i \<noteq> MEM_FREE \<Longrightarrow>
      live_info r t x = Some \<lparr> ri_current_mbi = i, ri_current_memory = recorded f i \<rparr>"
proof -
  consider (hit) j where "hit ds k (rh_base_address x) j" "rh_now r s j (recorded f j) x"
    | (free) j where "\<forall>i. \<not> hit ds k (rh_base_address x) i" "mbi_State j = MEM_FREE" "rh_now r s j [] x"
    using assms(1) by (auto simp: rh_done_def)
  note cases = this
  show "rh_wf x" using cases by cases (simp_all add: rh_now_def rh_ok_def)
  show "rh_shows x r t \<noteq> None" using cases by cases (use assms(2) in \<open>simp_all add: rh_now_def\<close>)
  show "\<exists>i. hit ds k (rh_base_address x) i \<and> mbi_State i \<noteq> MEM_FREE \<and> q = \<lparr> ri_current_mbi = i, ri_current_memory = recorded f i \<rparr>"
    if "live_info r t x = Some q"
    using cases by cases (use that assms(2) in \<open>auto simp: rh_now_def live_info_def split: if_splits\<close>)
  show "live_info r t x = Some \<lparr> ri_current_mbi = i, ri_current_memory = recorded f i \<rparr>"
    if i: "hit ds k (rh_base_address x) i" "sorted_wrt (<) (map mbi_BaseAddress ds)" "mbi_State i \<noteq> MEM_FREE"
    using cases
  proof cases
    case (hit j)
    have "distinct (map mbi_BaseAddress ds)" using i(2) strict_sorted_iff by blast
    then have "j = i" using hit(1) i(1) by (auto simp: hit_def distinct_map inj_on_def)
    then show ?thesis using hit(2) i(3) assms(2) by (simp add: rh_now_def live_info_def)
  next
    case (free j)
    then show ?thesis using i(1) by blast
  qed
qed

lemma pmh_done_readable: "pmh_done r s f ds h \<Longrightarrow> s \<le> t \<Longrightarrow> pmh_readable r t h"
  unfolding pmh_done_def pmh_readable_def ar_done_def ar_readable_def ar_shape_def
  using rh_done_shows(1,2) by fast

lemma in_map_filter: "y \<in> set (List.map_filter f xs) \<longleftrightarrow> (\<exists>x\<in>set xs. f x = Some y)"
  by (force simp: map_filter_def)

text \<open>Exactly the regions of the walk that are not free are shown.\<close>

lemma pmh_done_shows:
  assumes "pmh_done r s f ds h" "layout_ok ds" "s \<le> t" "i \<in> set ds" "mbi_State i \<noteq> MEM_FREE"
  shows "\<exists>ai\<in>set (pmh_shows h r t). \<lparr> ri_current_mbi = i, ri_current_memory = recorded f i \<rparr> \<in> set (ai_all_regions ai)"
proof -
  let ?k = "mbi_AllocationBase i"
  have sorted: "sorted_wrt (<) (map mbi_BaseAddress ds)" using assms(2) by (simp add: layout_ok_def)
  obtain a x where a: "(?k, a) \<in> set h" "x \<in> set (ar_regions_history a)" "rh_base_address x = mbi_BaseAddress i"
    using assms(1,4) by (fastforce simp: pmh_done_def)
  have "ar_done r s f ds ?k a" using assms(1) a(1) by (auto simp: pmh_done_def)
  then have shape: "ar_regions_history a \<noteq> []" "rh_base_address (hd (ar_regions_history a)) = ?k"
    and all: "\<And>x. x \<in> set (ar_regions_history a) \<Longrightarrow> rh_done r s f ds ?k x" by (auto simp: ar_done_def ar_shape_def)
  obtain j where j: "j \<in> set ds" "mbi_BaseAddress j = ?k" "mbi_AllocationBase j = ?k" "mbi_State j \<noteq> MEM_FREE"
    using assms(2,4,5) by (fastforce simp: layout_ok_def)
  have "hit ds ?k (rh_base_address (hd (ar_regions_history a))) j" using j shape(2) by (simp add: hit_def)
  from rh_done_shows(4)[OF all assms(3) this sorted j(4)] shape(1) have "\<not> ar_freed r t a"
    by (simp add: ar_freed_def)
  moreover have "hit ds ?k (rh_base_address x) i" using a(3) assms(4) by (simp add: hit_def)
  from rh_done_shows(4)[OF all[OF a(2)] assms(3) this sorted assms(5)]
  have "\<lparr> ri_current_mbi = i, ri_current_memory = recorded f i \<rparr> \<in> set (ar_shows a r t)"
    using a(2) by (force simp: ar_shows_def in_map_filter)
  ultimately show ?thesis using a(1) by (force simp: pmh_shows_def in_map_filter)
qed

lemma ar_done_shows:
  assumes "ar_done r s f ds k a" "s \<le> t" "q \<in> set (ar_shows a r t)"
  shows "ri_current_mbi q \<in> set ds" "mbi_AllocationBase (ri_current_mbi q) = k" "ri_current_memory q = recorded f (ri_current_mbi q)"
proof -
  obtain x where "x \<in> set (ar_regions_history a)" "live_info r t x = Some q"
    using assms(3) by (auto simp: ar_shows_def in_map_filter)
  then have "\<exists>i. hit ds k (rh_base_address x) i \<and> q = \<lparr> ri_current_mbi = i, ri_current_memory = recorded f i \<rparr>"
    using rh_done_shows(3)[of r s f ds k x t q] assms(1,2) by (auto simp: ar_done_def)
  then show "ri_current_mbi q \<in> set ds" "mbi_AllocationBase (ri_current_mbi q) = k"
    "ri_current_memory q = recorded f (ri_current_mbi q)" by (auto simp: hit_def)
qed

text \<open>Regions of the walk do not overlap, so neither do those of the history.\<close>

definition mbi_span :: "mbi \<Rightarrow> addr set" where
  "mbi_span i = set (span (mbi_BaseAddress i) (unat (mbi_RegionSize i)))"

definition disjoint_regions :: "mbi list \<Rightarrow> bool" where
  "disjoint_regions ds = (\<forall>i\<in>set ds. \<forall>j\<in>set ds. i \<noteq> j \<longrightarrow> mbi_span i \<inter> mbi_span j = {})"

lemma sub_span_mbi: "sub_span q \<subseteq> mbi_span (ri_current_mbi q)"
  by (simp add: sub_span_def mbi_span_def)

lemma apart_map_filter:
  assumes "distinct (map c xs)" "disjoint_regions ds"
    and "\<And>x q. x \<in> set xs \<Longrightarrow> g x = Some q \<Longrightarrow> ri_current_mbi q \<in> set ds \<and> mbi_BaseAddress (ri_current_mbi q) = c x"
  shows "apart (List.map_filter g xs)"
  using assms(1,3)
proof (induction xs)
  case (Cons x xs)
  have IH: "apart (List.map_filter g xs)"
  proof (rule Cons.IH)
    show "distinct (map c xs)" using Cons.prems(1) by simp
    show "ri_current_mbi q \<in> set ds \<and> mbi_BaseAddress (ri_current_mbi q) = c y" if "y \<in> set xs" "g y = Some q" for y q
      using Cons.prems(2)[of y q] that by simp
  qed
  show ?case
  proof (cases "g x")
    case (Some q)
    have "sub_span q \<inter> sub_span p = {}" if p: "p \<in> set (List.map_filter g xs)" for p
    proof -
      obtain y where y: "y \<in> set xs" "g y = Some p" using p by (auto simp: in_map_filter)
      have "c x \<noteq> c y" using Cons.prems(1) y(1) by auto
      then have "ri_current_mbi q \<noteq> ri_current_mbi p" "ri_current_mbi q \<in> set ds" "ri_current_mbi p \<in> set ds"
        using Cons.prems(2)[of x q] Cons.prems(2)[of y p] Some y by auto
      then show ?thesis using assms(2) sub_span_mbi[of q] sub_span_mbi[of p] unfolding disjoint_regions_def by blast
    qed
    then show ?thesis using IH by (simp add: Some)
  qed (simp add: IH)
qed simp

lemma pmh_done_apart:
  assumes "pmh_done r s f ds h" "disjoint_regions ds" "s \<le> t"
  shows "apart (concat (map ai_all_regions (pmh_shows h r t)))"
proof -
  have all: "\<forall>(k, a)\<in>set h. ar_done r s f ds k a" and dist: "distinct (map fst h)" using assms(1) by (auto simp: pmh_done_def)
  have one: "apart (ar_shows a r t)" if a: "ar_done r s f ds k a" for k a
    unfolding ar_shows_def
  proof (rule apart_map_filter[OF _ assms(2)])
    show "distinct (map rh_base_address (ar_regions_history a))" using a by (simp add: ar_done_def ar_shape_def)
    show "ri_current_mbi q \<in> set ds \<and> mbi_BaseAddress (ri_current_mbi q) = rh_base_address x"
      if "x \<in> set (ar_regions_history a)" "live_info r t x = Some q" for x q
      using rh_done_shows(3)[of r s f ds k x t q] that assms(3) a by (auto simp: ar_done_def hit_def)
  qed
  show ?thesis
    using all dist
  proof (induction h)
    case (Cons x h)
    obtain k a where x: "x = (k, a)" by (cases x)
    have IH: "apart (concat (map ai_all_regions (pmh_shows h r t)))" using Cons by simp
    have a: "ar_done r s f ds k a" using Cons.prems(1) by (simp add: x)
    have "sub_span q \<inter> sub_span p = {}"
      if q: "q \<in> set (ar_shows a r t)" and p: "p \<in> set (concat (map ai_all_regions (pmh_shows h r t)))" for q p
    proof -
      obtain k' a' where b: "(k', a') \<in> set h" "p \<in> set (ar_shows a' r t)"
        using p by (auto simp: pmh_shows_def in_map_filter split: if_splits)
      have "k' \<noteq> k" using Cons.prems(2) b(1) by (force simp: x)
      moreover have "ar_done r s f ds k' a'" using Cons.prems(1) b(1) by auto
      ultimately have "ri_current_mbi q \<noteq> ri_current_mbi p" "ri_current_mbi q \<in> set ds" "ri_current_mbi p \<in> set ds"
        using ar_done_shows(1,2)[OF _ assms(3)] a q b(2) by metis+
      then show ?thesis using assms(2) sub_span_mbi[of q] sub_span_mbi[of p] unfolding disjoint_regions_def by blast
    qed
    then show ?case using IH one[OF a] by (auto simp: pmh_shows_def x apart_append)
  qed (simp add: pmh_shows_def)
qed

lemma adjacent_sorted:
  "adjacent a is e \<Longrightarrow> sorted_wrt (<) (map mbi_BaseAddress is) \<and> (\<forall>i\<in>set is. a \<le> mbi_BaseAddress i) \<and> a \<le> e"
proof (induction "is" arbitrary: a)
  case (Cons i "is")
  have i: "mbi_BaseAddress i = a" "a < a + mbi_RegionSize i" "adjacent (a + mbi_RegionSize i) is e"
    using Cons.prems by (simp_all add: word_less_nat_alt)
  from Cons.IH[OF i(3)] show ?case using i(1,2) by (auto intro: order.strict_trans2 less_imp_le order.trans)
qed simp

lemma span_in_region:
  assumes "unat b < unat (b + n)" "x \<in> set (span b (unat n))"
  shows "b \<le> x" "x < b + n"
proof -
  obtain j where j: "j < unat n" "x = b + of_nat j" using assms(2) by (auto simp: span_def)
  have "unat b + unat n < 2 ^ 64"
  proof (rule ccontr)
    assume "\<not> unat b + unat n < 2 ^ 64"
    then have "unat (b + n) = unat b + unat n - 2 ^ 64"
      using unsigned_less[of b, where 'a = nat] unsigned_less[of n, where 'a = nat]
      by (simp add: unat_word_ariths take_bit_eq_mod mod_if)
    then show False using assms(1) unsigned_less[of n, where 'a = nat] by simp
  qed
  moreover have "unat (of_nat j :: addr) = j" using j(1) unsigned_less[of n, where 'a = nat] by (simp add: unat_of_nat)
  ultimately have "unat x = unat b + j" "unat (b + n) = unat b + unat n"
    using j by (simp_all add: unat_word_ariths take_bit_eq_mod)
  then show "b \<le> x" "x < b + n" using j(1) by (simp_all add: word_le_nat_alt word_less_nat_alt)
qed

lemma adjacent_bounds:
  assumes "adjacent a is e" "k \<in> set is"
  shows "unat (mbi_BaseAddress k) < unat (mbi_BaseAddress k + mbi_RegionSize k)" "a \<le> mbi_BaseAddress k"
    "mbi_BaseAddress k + mbi_RegionSize k \<le> e"
proof -
  show "a \<le> mbi_BaseAddress k" using adjacent_sorted[OF assms(1)] assms(2) by blast
  have "unat (mbi_BaseAddress k) < unat (mbi_BaseAddress k + mbi_RegionSize k) \<and> mbi_BaseAddress k + mbi_RegionSize k \<le> e"
    using assms
  proof (induction "is" arbitrary: a)
    case (Cons i "is")
    then show ?case using adjacent_sorted[of "a + mbi_RegionSize i" "is" e] by (cases "k = i") auto
  qed simp
  then show "unat (mbi_BaseAddress k) < unat (mbi_BaseAddress k + mbi_RegionSize k)" "mbi_BaseAddress k + mbi_RegionSize k \<le> e"
    by simp_all
qed

lemma adjacent_disjoint:
  assumes "adjacent a is e"
  shows "disjoint_regions is"
  unfolding disjoint_regions_def
proof (intro ballI impI equals0I, elim IntE)
  fix i j x
  assume ij: "i \<in> set is" "j \<in> set is" "i \<noteq> j" and x: "x \<in> mbi_span i" "x \<in> mbi_span j"
  note bounds = adjacent_bounds[OF assms]
  have i: "in_region x i" "a \<le> x" "x < e"
    using span_in_region[OF bounds(1)[OF ij(1)] x(1)[unfolded mbi_span_def]] bounds(2,3)[OF ij(1)] by (auto simp: in_region_def)
  have j: "in_region x j"
    using span_in_region[OF bounds(1)[OF ij(2)] x(2)[unfolded mbi_span_def]] by (simp add: in_region_def)
  have "\<exists>!k. k < length is \<and> in_region x (is ! k)" by (rule adjacent_cover[OF assms i(2,3)])
  then show False using ij i(1) j unfolding in_set_conv_nth by metis
qed

lemma disjoint_filter: "disjoint_regions ds \<Longrightarrow> disjoint_regions (filter P ds)"
  by (simp add: disjoint_regions_def)

section \<open>Snapshots of the whole process\<close>

definition walk_of :: "'w win32 \<Rightarrow> 'w \<Rightarrow> mbi list \<Rightarrow> bool" where
  "walk_of W w is = (\<exists>e. adjacent 0 is e \<and> w_virtual_query W w e = None
     \<and> (\<forall>i\<in>set is. w_virtual_query W w (mbi_BaseAddress i) = Some i))"

lemma adjacent_unique:
  "adjacent a is e \<Longrightarrow> adjacent a js e' \<Longrightarrow> \<forall>i\<in>set is. Q (mbi_BaseAddress i) = Some i \<Longrightarrow>
    \<forall>i\<in>set js. Q (mbi_BaseAddress i) = Some i \<Longrightarrow> Q e = None \<Longrightarrow> Q e' = None \<Longrightarrow> is = js"
proof (induction "is" arbitrary: a js)
  case Nil
  then show ?case by (cases js) auto
next
  case (Cons i "is")
  then obtain j js' where js: "js = j # js'" by (cases js) auto
  have "j = i" using Cons.prems by (simp add: js)
  then show ?case using Cons by (auto simp: js)
qed

lemma walk_of_unique: "walk_of W w is \<Longrightarrow> walk_of W w js \<Longrightarrow> is = js"
  unfolding walk_of_def using adjacent_unique by metis

lemma walk_exists:
  assumes "vq_ok W" obtains "is" where "walk_of W w is"
proof -
  have "4096 dvd unat (0 :: addr)" by simp
  from vq_list[OF assms this, of w] show ?thesis using that by (auto simp: walk_of_def)
qed

text \<open>The documented shape of an address space, for the regions that are recorded.\<close>

definition w_layout_ok :: "'w win32 \<Rightarrow> addr list \<Rightarrow> bool" where
  "w_layout_ok W blacklist = (\<forall>w is. walk_of W w is \<longrightarrow> layout_ok (filter (\<lambda>i. \<not> skipped blacklist i) is))"

lemma snapshot_history:
  assumes "vq_ok W" "w_bytes_ok W mem" "w_layout_ok W (mm_blacklist m)" "pmh_ready r s (mm_history m)"
    and "walk_of W (m_world m) is"
  shows "\<exists>h. snapshot_memory W g r s m = Some (m \<lparr> mm_history := h \<rparr>) \<and> pmh_ext r s (mm_history m) h
    \<and> pmh_done r s (mem (m_world m)) (filter (\<lambda>i. \<not> skipped (mm_blacklist m) i) is) h"
proof -
  let ?f = "mem (m_world m)" and ?ds = "filter (\<lambda>i. \<not> skipped (mm_blacklist m) i)"
  obtain js where js: "walk_of W (m_world m) js" "snapshot_memory W g r s m =
      do { h \<leftarrow> foldM (\<lambda>i. pmh_update i (recorded ?f i) r s g) (?ds js) (mm_history m);
           h \<leftarrow> pmh_update_stale_regions r s g h;
           Some (m \<lparr> mm_history := h \<rparr>) }"
  proof -
    from snapshot_memory_spec[OF assms(1,2), of m g r s] obtain js e where
      "adjacent 0 js e \<and> w_virtual_query W (m_world m) e = None
        \<and> (\<forall>i\<in>set js. w_virtual_query W (m_world m) (mbi_BaseAddress i) = Some i)"
      "snapshot_memory W g r s m = do { h \<leftarrow> foldM (\<lambda>i. pmh_update i (recorded ?f i) r s g) (?ds js) (mm_history m);
           h \<leftarrow> pmh_update_stale_regions r s g h;
           Some (m \<lparr> mm_history := h \<rparr>) }"
      by (elim exE conjE) simp
    then show thesis using that[of js] unfolding walk_of_def by blast
  qed
  have "js = is" by (rule walk_of_unique[OF js(1) assms(5)])
  have "layout_ok ([] @ ?ds is)" using assms(3,5) by (simp add: w_layout_ok_def)
  from pmh_walk_all[OF this pmh_ready_walk[OF assms(4)], of ?f g] obtain h1 where
    h1: "foldM (\<lambda>i. pmh_update i (recorded ?f i) r s g) (?ds is) (mm_history m) = Some h1" "pmh_walk r s ?f (?ds is) h1"
      "pmh_ext r s (mm_history m) h1" by auto
  obtain h2 where h2: "pmh_update_stale_regions r s g h1 = Some h2" "pmh_done r s ?f (?ds is) h2" "pmh_ext r s h1 h2"
    using pmh_walk_stale[OF h1(2), of g] by blast
  show ?thesis using js(2) h1 h2 pmh_ext_trans by (intro exI[of _ h2]) (simp add: \<open>js = is\<close>)
qed

section \<open>Between the snapshots\<close>

definition pmh_settled :: "u32 \<Rightarrow> process_memory_history \<Rightarrow> bool" where
  "pmh_settled r h =
     (distinct (map fst h)
      \<and> (\<forall>(k, a)\<in>set h. ar_shape k a \<and> ar_seen_base_addresses a = [] \<and> (\<forall>x\<in>set (ar_regions_history a). rh_ok r x)))"

lemma pmh_settled_readable: "pmh_settled r h \<Longrightarrow> pmh_readable q t h"
  by (fastforce simp: pmh_settled_def pmh_readable_def ar_readable_def ar_shape_def rh_ok_def)

lemma pmh_done_settled: "pmh_done r s f ds h \<Longrightarrow> pmh_settled r h"
  by (fastforce simp: pmh_done_def pmh_settled_def ar_done_def rh_done_def rh_now_def)

text \<open>Looking at a point moves cursors only.\<close>

lemma pmh_same_settled:
  assumes "pmh_same h h'" "pmh_settled r h"
  shows "pmh_settled r h'"
proof -
  have all: "list_all2 (\<lambda>(k, a) (k', a'). k' = k \<and> ar_same a a') h h'" using assms(1) by (simp add: pmh_same_def)
  have keys: "map fst h' = map fst h" using all by (induction rule: list_all2_induct) auto
  have one: "ar_shape k a' \<and> ar_seen_base_addresses a' = [] \<and> (\<forall>x\<in>set (ar_regions_history a'). rh_ok r x)"
    if a: "ar_same a a'" "ar_shape k a" "ar_seen_base_addresses a = []" "\<forall>x\<in>set (ar_regions_history a). rh_ok r x" for k a a'
  proof -
    have rs: "list_all2 rh_same (ar_regions_history a) (ar_regions_history a')" using a(1) by (simp add: ar_same_def)
    have "map rh_base_address (ar_regions_history a') = map rh_base_address (ar_regions_history a)"
      using rs by (induction rule: list_all2_induct) (simp_all add: rh_same_def)
    moreover have "\<forall>x\<in>set (ar_regions_history a'). rh_ok r x"
      by (rule list_all2_keeps[OF rs a(4)]) (auto simp: rh_ok_def rh_same_def)
    ultimately show ?thesis using a(1-3) ar_shape_bases[of a' a k] by (simp add: ar_same_def)
  qed
  have "\<forall>(k, a)\<in>set h'. ar_shape k a \<and> ar_seen_base_addresses a = [] \<and> (\<forall>x\<in>set (ar_regions_history a). rh_ok r x)"
    by (rule list_all2_keeps[OF all, where N = "\<lambda>(k, a). ar_shape k a \<and> ar_seen_base_addresses a = [] \<and> (\<forall>x\<in>set (ar_regions_history a). rh_ok r x)"])
      (use assms(2) one in \<open>auto simp: pmh_settled_def\<close>)
  then show ?thesis using assms(2) by (simp add: pmh_settled_def keys)
qed

text \<open>A new run may be written from any sequence on.\<close>

lemma rh_branch_ready:
  assumes "rh_ok r x" "r < n" "p < n" "rh_make_branch p b n x = Some y"
  shows "rh_ready n s y" "rh_base_address y = rh_base_address x"
proof -
  have x: "rh_wf x" "rh_fresh x k" "\<And>q t. rh_shows x q t \<noteq> None" if "r < k" for k
    using assms(1) that by (auto simp: rh_ok_def)
  have y: "rh_wf y" "\<forall>q t. rh_shows y q t = (if q = n then rh_shows x p b else rh_shows x q t)" "\<forall>s. rh_writable y n s"
    using rh_branch_spec[OF x(1,2)[OF assms(2)] assms(3), of b] assms(4) by auto
  obtain mem t where parts: "pr_make_branch p b n (rh_memory_history x) = Some mem"
    "et_revert_to_state p b (ucast n) (rh_mbi_history x) = Some t" "y = x \<lparr> rh_memory_history := mem, rh_mbi_history := t \<rparr>"
    using assms(4) by (auto simp: rh_make_branch_def split: bind_splits)
  show "rh_base_address y = rh_base_address x" by (simp add: parts(3))
  have "rh_fresh y k" if k: "n < k" for k
  proof -
    have "r < k" using assms(2) k by simp
    from x(1,2)[OF this] show ?thesis
      using k pr_make_branch_fresh[OF _ parts(1)] et_fresh_laws(2)[OF parts(2)]
      by (auto simp: rh_fresh_def rh_wf_def parts(3))
  qed
  then show "rh_ready n s y" using y x(3)[OF assms(2)] by (auto simp: rh_ready_def rh_ok_def)
qed

lemma pmh_branch_ready:
  assumes "pmh_settled r h" "r < n" "p < n"
  shows "\<exists>h'. pmh_make_branch p b n h = Some h' \<and> (\<forall>s. pmh_ready n s h')
    \<and> (\<forall>q t. pmh_shows h' q t = (if q = n then pmh_shows h p b else pmh_shows h q t))"
proof -
  have ok: "ar_shape k a" "ar_seen_base_addresses a = []" "\<forall>x\<in>set (ar_regions_history a). rh_ok r x" if "(k, a) \<in> set h" for k a
    using that assms(1) by (auto simp: pmh_settled_def)
  have "pmh_branchable h n"
    using ok assms(2) by (fastforce simp: pmh_branchable_def ar_shape_def rh_ok_def)
  from pmh_branch_spec[OF this assms(3), of b] obtain h' where h': "pmh_make_branch p b n h = Some h'"
    "\<forall>q t. pmh_shows h' q t = (if q = n then pmh_shows h p b else pmh_shows h q t)" by blast
  have all: "list_all2 (\<lambda>x y. (\<lambda>(k, a). map_option (Pair k) (ar_make_branch p b n a)) x = Some y) h h'"
    using h'(1) by (simp add: pmh_make_branch_def mapM_iff)
  have keys: "map fst h' = map fst h" using all by (induction rule: list_all2_induct) auto
  have one: "ar_shape k a' \<and> ar_seen_base_addresses a' = [] \<and> (\<forall>x\<in>set (ar_regions_history a'). rh_ready n s x)"
    if a: "ar_make_branch p b n a = Some a'" "(k, a) \<in> set h" for k a a' s
  proof -
    obtain ys where ys: "mapM (rh_make_branch p b n) (ar_regions_history a) = Some ys" "a' = a \<lparr> ar_regions_history := ys \<rparr>"
      using a(1) by (auto simp: ar_make_branch_def split: bind_splits)
    have rs: "list_all2 (\<lambda>x y. rh_ready n s y \<and> rh_base_address y = rh_base_address x) (ar_regions_history a) ys"
      using ys(1) unfolding mapM_iff
      by (rule list.rel_mono_strong) (use rh_branch_ready[OF _ assms(2,3)] ok(3)[OF a(2)] in blast)
    have "map rh_base_address ys = map rh_base_address (ar_regions_history a)"
      using rs by (induction rule: list_all2_induct) simp_all
    moreover have "\<forall>y\<in>set ys. rh_ready n s y" using rs by (induction rule: list_all2_induct) simp_all
    ultimately show ?thesis using ok(1,2)[OF a(2)] ar_shape_bases[of a' a] by (simp add: ys(2))
  qed
  have "pmh_ready n s h'" for s
  proof -
    have "list_all2 (\<lambda>x y. ar_shape (fst y) (snd y) \<and> ar_seen_base_addresses (snd y) = []
        \<and> (\<forall>x\<in>set (ar_regions_history (snd y)). rh_ready n s x)) h h'"
      using all
    proof (rule list.rel_mono_strong)
      fix x y
      assume x: "x \<in> set h" and y: "(\<lambda>(k, a). map_option (Pair k) (ar_make_branch p b n a)) x = Some y"
      obtain k a where k: "x = (k, a)" by (cases x)
      then obtain a' where "ar_make_branch p b n a = Some a'" "y = (k, a')" using y by auto
      then show "ar_shape (fst y) (snd y) \<and> ar_seen_base_addresses (snd y) = [] \<and> (\<forall>x\<in>set (ar_regions_history (snd y)). rh_ready n s x)"
        using one x by (simp add: k)
    qed
    then have "\<forall>(k, a)\<in>set h'. ar_shape k a \<and> ar_seen_base_addresses a = [] \<and> (\<forall>x\<in>set (ar_regions_history a). rh_ready n s x)"
      by (induction rule: list_all2_induct) auto
    then show ?thesis using assms(1) by (simp add: pmh_ready_def pmh_settled_def keys)
  qed
  then show ?thesis using h' by blast
qed

section \<open>Sessions\<close>

text \<open>Restoring always returns, and it changes the debuggee and the cursors of the history only.\<close>

lemma restore_allocations_total:
  "\<forall>a\<in>set as. ai_all_regions a \<noteq> [] \<Longrightarrow> seen \<noteq> None \<Longrightarrow> \<exists>x. foldM (restore_allocation W) as (seen, m) = Some x"
proof (induction "as" arbitrary: seen m)
  case (Cons a "as")
  obtain i where i: "(case w_virtual_query W (m_world m) (ai_allocation_base a) of Some i \<Rightarrow> Some i | None \<Rightarrow> seen) = Some i"
    using Cons.prems(2) by (cases "w_virtual_query W (m_world m) (ai_allocation_base a)") auto
  obtain f fs where f: "ai_all_regions a = f # fs" using Cons.prems(1) by (cases "ai_all_regions a") auto
  have "\<exists>m1. restore_allocation W a (seen, m) = Some (Some i, m1)"
    unfolding restore_allocation_def using i f by (simp add: Let_def list_at_def)
  then show ?case using Cons.IH Cons.prems(1) by auto
qed simp

lemma restore_memory_total:
  assumes "vq_ok W" "pmh_settled r (mm_history m)"
  shows "\<exists>m'. restore_memory_at_sequence W q t m = Some m' \<and> pmh_same (mm_history m) (mm_history m')
    \<and> mm_blacklist m' = mm_blacklist m"
proof -
  have "w_virtual_query W (m_world m) 0 \<noteq> None" using assms(1) by (simp add: vq_ok_def)
  then obtain i where i: "w_virtual_query W (m_world m) 0 = Some i" by blast
  obtain m0 where m0: "free_region W 0 i m = Some m0" "mm_history m0 = mm_history m" using free_region_history by blast
  obtain seen m1 where m1: "vq_loop W (free_region W) (mbi_BaseAddress i + mbi_RegionSize i) (Some i) m0 = Some (seen, m1)"
    "mm_history m1 = mm_history m" "seen \<noteq> None"
    using vq_loop_total[OF assms(1), of "\<lambda>x. mm_history x = mm_history m" m0 "free_region W"
        "mbi_BaseAddress i + mbi_RegionSize i" "Some i"] m0(2) free_region_history by fastforce
  have 1: "vq_loop W (free_region W) 0 None m = Some (seen, m1)"
    by (subst vq_loop.simps) (simp add: i m0(1) m1(1))
  obtain h where h: "pmh_get_current_allocation_regions q t (mm_history m) = Some (pmh_shows (mm_history m) q t, h)"
    "\<forall>ai\<in>set (pmh_shows (mm_history m) q t). ai_all_regions ai \<noteq> []" "pmh_same (mm_history m) h"
    using pmh_query[OF pmh_settled_readable[OF assms(2)]] by blast
  obtain seen' m2 where m2: "foldM (restore_allocation W) (pmh_shows (mm_history m) q t) (seen, m1 \<lparr> mm_history := h \<rparr>) = Some (seen', m2)"
    using restore_allocations_total[OF h(2) m1(3)] by fastforce
  have r: "restore_memory_at_sequence W q t m = Some m2"
    using 1 m1(2) h(1) m2 by (simp add: restore_memory_at_sequence_def)
  moreover have "mm_history m2 = h" using restore_allocations_history[OF m2] by simp
  moreover have "mm_blacklist m2 = mm_blacklist m" using restore_memory_same[OF r] by (auto simp: same_but_memory_def)
  ultimately show ?thesis using h(3) by blast
qed

text \<open>
  A session as the memory history sees it.  Before each step the debuggee has run to some world \<open>w\<close>;
  then a snapshot is taken in the current run, or the user goes back to a point, which restores it and branches
  a new run off it.
\<close>

datatype 'w memory_step = Take_snapshot 'w u64 u32 | Go_back 'w u32 u32 u32

definition memory_step ::
    "'w win32 \<Rightarrow> 'w memory_step \<Rightarrow> u32 \<times> ('w, 'z) memories_scheme \<Rightarrow> (u32 \<times> ('w, 'z) memories_scheme) option" where
  "memory_step W st = (\<lambda>(r, m).
     (case st of
        Take_snapshot w g t \<Rightarrow> map_option (Pair r) (snapshot_memory W g r t (m \<lparr> m_world := w \<rparr>))
      | Go_back w p b n \<Rightarrow>
          do { m \<leftarrow> restore_memory_at_sequence W p b (m \<lparr> m_world := w \<rparr>);
               m \<leftarrow> create_memory_history_branch p b n m;
               Some (n, m) }))"

lemma memory_step_simps:
  "memory_step W (Take_snapshot w g t) (r, m) = map_option (Pair r) (snapshot_memory W g r t (m \<lparr> m_world := w \<rparr>))"
  "memory_step W (Go_back w p b n) (r, m) =
     do { m \<leftarrow> restore_memory_at_sequence W p b (m \<lparr> m_world := w \<rparr>);
          m \<leftarrow> create_memory_history_branch p b n m;
          Some (n, m) }"
  by (simp_all add: memory_step_def)

text \<open>Sequences ascend within a run and run ids ascend from run to run.\<close>

fun steps_ok :: "u32 \<Rightarrow> nat \<Rightarrow> 'w memory_step list \<Rightarrow> bool" where
  "steps_ok r lo [] = True"
| "steps_ok r lo (Take_snapshot w g t # sts) = (lo \<le> unat t \<and> steps_ok r (Suc (unat t)) sts)"
| "steps_ok r lo (Go_back w p b n # sts) = (r < n \<and> p < n \<and> steps_ok n 0 sts)"

text \<open>The abstract state: the world that each point of each run stands for.\<close>

fun world_timeline :: "u32 \<Rightarrow> 'w memory_step list \<Rightarrow> 'w timeline \<Rightarrow> 'w timeline" where
  "world_timeline r [] f = f"
| "world_timeline r (Take_snapshot w g t # sts) f = world_timeline r sts (tl_write r t w f)"
| "world_timeline r (Go_back w p b n # sts) f = world_timeline n sts (tl_branch n p b f)"

definition shows_world :: "'w win32 \<Rightarrow> ('w \<Rightarrow> addr \<Rightarrow> byte) \<Rightarrow> addr list \<Rightarrow> 'w \<Rightarrow> allocation_info list \<Rightarrow> bool" where
  "shows_world W mem blacklist w ais =
     (\<forall>is. walk_of W w is \<longrightarrow>
        (\<forall>i\<in>set is. \<not> skipped blacklist i \<longrightarrow> mbi_State i \<noteq> MEM_FREE \<longrightarrow>
           (\<exists>ai\<in>set ais. \<lparr> ri_current_mbi = i, ri_current_memory = recorded (mem w) i \<rparr> \<in> set (ai_all_regions ai)))
        \<and> (\<forall>q\<in>set (concat (map ai_all_regions ais)). ri_current_memory q = recorded (mem w) (ri_current_mbi q))
        \<and> apart (concat (map ai_all_regions ais)))"

definition shows_timeline ::
    "'w win32 \<Rightarrow> ('w \<Rightarrow> addr \<Rightarrow> byte) \<Rightarrow> addr list \<Rightarrow> 'w timeline \<Rightarrow> process_memory_history \<Rightarrow> bool" where
  "shows_timeline W mem blacklist f h =
     (\<forall>q u w. f q u = Some w \<longrightarrow> shows_world W mem blacklist w (pmh_shows h q u))"

lemma snapshot_shows_world:
  assumes "pmh_done r s (mem w) (filter (\<lambda>i. \<not> skipped bl i) is) h" "walk_of W w is" "w_layout_ok W bl" "s \<le> u"
  shows "shows_world W mem bl w (pmh_shows h r u)"
  unfolding shows_world_def
proof (intro allI impI)
  fix js
  assume "walk_of W w js"
  then have js: "js = is" using assms(2) by (rule walk_of_unique)
  let ?ds = "filter (\<lambda>i. \<not> skipped bl i) is"
  have lay: "layout_ok ?ds" using assms(2,3) by (simp add: w_layout_ok_def)
  have disj: "disjoint_regions ?ds" using assms(2) adjacent_disjoint disjoint_filter by (auto simp: walk_of_def)
  have "ri_current_memory q = recorded (mem w) (ri_current_mbi q)" if "q \<in> set (concat (map ai_all_regions (pmh_shows h r u)))" for q
    using that assms(1) ar_done_shows(3)[OF _ assms(4)]
    by (fastforce simp: pmh_shows_def in_map_filter pmh_done_def split: if_splits)
  moreover have "\<exists>ai\<in>set (pmh_shows h r u). \<lparr> ri_current_mbi = i, ri_current_memory = recorded (mem w) i \<rparr> \<in> set (ai_all_regions ai)"
    if "i \<in> set js" "\<not> skipped bl i" "mbi_State i \<noteq> MEM_FREE" for i
    using that js by (intro pmh_done_shows[OF assms(1) lay assms(4)]) simp_all
  moreover have "apart (concat (map ai_all_regions (pmh_shows h r u)))" by (rule pmh_done_apart[OF assms(1) disj assms(4)])
  ultimately show "(\<forall>i\<in>set js. \<not> skipped bl i \<longrightarrow> mbi_State i \<noteq> MEM_FREE \<longrightarrow>
           (\<exists>ai\<in>set (pmh_shows h r u). \<lparr> ri_current_mbi = i, ri_current_memory = recorded (mem w) i \<rparr> \<in> set (ai_all_regions ai)))
        \<and> (\<forall>q\<in>set (concat (map ai_all_regions (pmh_shows h r u))). ri_current_memory q = recorded (mem w) (ri_current_mbi q))
        \<and> apart (concat (map ai_all_regions (pmh_shows h r u)))" by blast
qed

text \<open>The memory history refines the timeline, step by step.\<close>

lemma session_refines:
  assumes "vq_ok W" "w_bytes_ok W mem" "w_layout_ok W (mm_blacklist m)" "steps_ok r lo sts"
    and "pmh_settled r (mm_history m)" "\<And>t. lo \<le> unat t \<Longrightarrow> pmh_ready r t (mm_history m)"
    and "shows_timeline W mem (mm_blacklist m) f (mm_history m)"
  shows "\<exists>r' m'. foldM (memory_step W) sts (r, m) = Some (r', m') \<and> mm_blacklist m' = mm_blacklist m
    \<and> pmh_settled r' (mm_history m') \<and> shows_timeline W mem (mm_blacklist m) (world_timeline r sts f) (mm_history m')"
  using assms(3-)
proof (induction sts arbitrary: r lo m f)
  case Nil
  then show ?case by auto
next
  case (Cons st sts)
  let ?bl = "mm_blacklist m" and ?h = "mm_history m"
  show ?case
  proof (cases st)
    case (Take_snapshot w g t)
    let ?m = "m \<lparr> m_world := w \<rparr>"
    obtain "is" where walk: "walk_of W w is" by (rule walk_exists[OF assms(1)])
    have t: "lo \<le> unat t" "steps_ok r (Suc (unat t)) sts" using Cons.prems(2) by (simp_all add: Take_snapshot)
    have pre: "w_layout_ok W (mm_blacklist ?m)" "pmh_ready r t (mm_history ?m)" "walk_of W (m_world ?m) is"
      using Cons.prems(1,4) t(1) walk by simp_all
    obtain h where h: "snapshot_memory W g r t ?m = Some (?m \<lparr> mm_history := h \<rparr>)" "pmh_ext r t ?h h"
      "pmh_done r t (mem w) (filter (\<lambda>i. \<not> skipped ?bl i) is) h"
      using snapshot_history[OF assms(1,2) pre, of g] by auto
    let ?m1 = "?m \<lparr> mm_history := h \<rparr>"
    have "shows_timeline W mem (mm_blacklist ?m1) (tl_write r t w f) (mm_history ?m1)"
      unfolding shows_timeline_def
    proof (intro allI impI)
      fix q u v
      assume v: "tl_write r t w f q u = Some v"
      show "shows_world W mem (mm_blacklist ?m1) v (pmh_shows (mm_history ?m1) q u)"
      proof (cases "q = r \<and> t \<le> u")
        case True
        then show ?thesis using v snapshot_shows_world[where mem = mem, OF h(3) walk Cons.prems(1)] by (simp add: tl_write_def)
      next
        case False
        then have "earlier r t q u" by (simp add: earlier_def)
        from pmh_ext_shows[OF h(2) this pmh_settled_readable[OF Cons.prems(3)]] show ?thesis
          using v False Cons.prems(5) by (auto simp: tl_write_def shows_timeline_def split: if_splits)
      qed
    qed
    moreover have "pmh_ready r u (mm_history ?m1)" if "Suc (unat t) \<le> unat u" for u
      using pmh_done_ready[OF h(3), of u] that by (simp add: word_less_nat_alt)
    moreover have "w_layout_ok W (mm_blacklist ?m1)" "pmh_settled r (mm_history ?m1)"
      using Cons.prems(1) pmh_done_settled[OF h(3)] by simp_all
    ultimately have "\<exists>r' m'. foldM (memory_step W) sts (r, ?m1) = Some (r', m') \<and> mm_blacklist m' = mm_blacklist ?m1
      \<and> pmh_settled r' (mm_history m')
      \<and> shows_timeline W mem (mm_blacklist ?m1) (world_timeline r sts (tl_write r t w f)) (mm_history m')"
      using t(2) by (intro Cons.IH) auto
    then show ?thesis using h(1) by (simp add: memory_step_simps Take_snapshot)
  next
    case (Go_back w p b n)
    let ?m = "m \<lparr> m_world := w \<rparr>"
    have n: "r < n" "p < n" "steps_ok n 0 sts" using Cons.prems(2) by (simp_all add: Go_back)
    have set: "pmh_settled r (mm_history ?m)" using Cons.prems(3) by simp
    obtain m1 where m1: "restore_memory_at_sequence W p b ?m = Some m1" "pmh_same ?h (mm_history m1)" "mm_blacklist m1 = ?bl"
      using restore_memory_total[OF assms(1) set, of p b] by auto
    have s1: "pmh_settled r (mm_history m1)" by (rule pmh_same_settled[OF m1(2) Cons.prems(3)])
    have shows1: "pmh_shows (mm_history m1) q u = pmh_shows ?h q u" for q u
      using pmh_same_shows[OF m1(2) pmh_settled_readable[OF Cons.prems(3)]] .
    obtain h where h: "pmh_make_branch p b n (mm_history m1) = Some h" "\<And>s. pmh_ready n s h"
      "\<And>q u. pmh_shows h q u = (if q = n then pmh_shows (mm_history m1) p b else pmh_shows (mm_history m1) q u)"
      using pmh_branch_ready[OF s1 n(1,2), of b] by blast
    let ?m2 = "m1 \<lparr> mm_history := h \<rparr>"
    have "pmh_settled n (mm_history ?m2)" using h(2)[of 0] by (auto simp: pmh_ready_def pmh_settled_def rh_ready_def)
    moreover have "shows_timeline W mem (mm_blacklist ?m2) (tl_branch n p b f) (mm_history ?m2)"
      using Cons.prems(5) by (auto simp: shows_timeline_def tl_branch_def h(3) shows1 m1(3))
    ultimately have "\<exists>r' m'. foldM (memory_step W) sts (n, ?m2) = Some (r', m') \<and> mm_blacklist m' = mm_blacklist ?m2
      \<and> pmh_settled r' (mm_history m')
      \<and> shows_timeline W mem (mm_blacklist ?m2) (world_timeline n sts (tl_branch n p b f)) (mm_history m')"
      using n(3) h(2) Cons.prems(1) m1(3) by (intro Cons.IH) auto
    then show ?thesis using m1 h(1) by (simp add: memory_step_simps Go_back create_memory_history_branch_def)
  qed
qed


text \<open>
  A machine of one committed region of 64 KiB.  It is filled with sevens at the first snapshot of run 1 and with nines at
  the second; the user goes back between the two, and run 2 records fives.
\<close>

lemma paged_walk: "walk_of paged_win32 w [one_region 0]"
  unfolding walk_of_def by (intro exI[of _ "0x10000"]) (simp add: one_region_def paged_win32_def)

lemma paged_layout: "w_layout_ok paged_win32 []"
  unfolding w_layout_ok_def
proof (intro allI impI)
  fix w "is"
  assume "walk_of paged_win32 w is"
  then have "is = [one_region 0]" using paged_walk by (rule walk_of_unique)
  then show "layout_ok (filter (\<lambda>i. \<not> skipped [] i) is)"
    by (simp add: layout_ok_def one_region_def mbi_zero_def skipped_def in_shared_data_def kUserSharedDataBaseAddress_def)
qed

definition sample_session :: "(addr \<Rightarrow> byte) memory_step list" where
  "sample_session = [Take_snapshot (\<lambda>_. 7) 1 1, Take_snapshot (\<lambda>_. 9) 2 5, Go_back (\<lambda>_. 8) 1 3 2, Take_snapshot (\<lambda>_. 5) 3 4]"


end
