(* ===== verification/Struct_Layout.thy ===== *)
theory Struct_Layout
  imports Machine
begin

text \<open>
  How a C++ compiler for 64-bit Windows lays out a structure: every field at the next multiple of
  its alignment, the size rounded up to the alignment of the whole.  The structures that the
  debugger reads out of the debuggee are given by their declarations, and their fields are found by
  this rule.
\<close>

datatype ctype = C_Int nat | C_Array nat ctype | C_Struct "(string \<times> ctype) list"

abbreviation C_u8 :: ctype where "C_u8 \<equiv> C_Int 1"
abbreviation C_u16 :: ctype where "C_u16 \<equiv> C_Int 2"
abbreviation C_u32 :: ctype where "C_u32 \<equiv> C_Int 4"
abbreviation C_u64 :: ctype where "C_u64 \<equiv> C_Int 8"
abbreviation C_ptr :: ctype where "C_ptr \<equiv> C_Int 8"

definition round_up :: "nat \<Rightarrow> nat \<Rightarrow> nat" where
  "round_up n a = (n + a - 1) div a * a"

fun align_of :: "ctype \<Rightarrow> nat" and fields_align :: "(string \<times> ctype) list \<Rightarrow> nat" where
  "align_of (C_Int n) = n"
| "align_of (C_Array k t) = align_of t"
| "align_of (C_Struct fs) = fields_align fs"
| "fields_align [] = 1"
| "fields_align ((_, t) # fs) = max (align_of t) (fields_align fs)"

fun size_of :: "ctype \<Rightarrow> nat" and fields_end :: "nat \<Rightarrow> (string \<times> ctype) list \<Rightarrow> nat" where
  "size_of (C_Int n) = n"
| "size_of (C_Array k t) = k * size_of t"
| "size_of (C_Struct fs) = round_up (fields_end 0 fs) (fields_align fs)"
| "fields_end n [] = n"
| "fields_end n ((_, t) # fs) = fields_end (round_up n (align_of t) + size_of t) fs"

fun find_field :: "nat \<Rightarrow> string \<Rightarrow> (string \<times> ctype) list \<Rightarrow> (nat \<times> ctype) option" where
  "find_field n name [] = None"
| "find_field n name ((f, t) # fs) =
     (if f = name then Some (round_up n (align_of t), t)
      else find_field (round_up n (align_of t) + size_of t) name fs)"

fun field_at :: "string list \<Rightarrow> ctype \<Rightarrow> (nat \<times> ctype) option" where
  "field_at [] t = Some (0, t)"
| "field_at (name # path) t =
     (case t of
        C_Struct fs \<Rightarrow>
          do { (off, u) \<leftarrow> find_field 0 name fs;
               (off', v) \<leftarrow> field_at path u;
               Some (off + off', v) }
      | _ \<Rightarrow> None)"

definition offset_of :: "ctype \<Rightarrow> string list \<Rightarrow> nat" where
  "offset_of t path = (case field_at path t of Some (off, _) \<Rightarrow> off | None \<Rightarrow> 0)"

definition field_bytes :: "ctype \<Rightarrow> string list \<Rightarrow> byte list \<Rightarrow> byte list" where
  "field_bytes t path bs = (case field_at path t of Some (off, u) \<Rightarrow> take (size_of u) (drop off bs) | None \<Rightarrow> [])"

definition field :: "ctype \<Rightarrow> string list \<Rightarrow> byte list \<Rightarrow> u64" where
  "field t path bs = le_word (field_bytes t path bs)"

definition array_item :: "ctype \<Rightarrow> string list \<Rightarrow> nat \<Rightarrow> byte list \<Rightarrow> u64" where
  "array_item t path i bs =
     (case field_at path t of
        Some (off, C_Array k u) \<Rightarrow> le_word (take (size_of u) (drop (off + i * size_of u) bs))
      | _ \<Rightarrow> 0)"

section \<open>Structures of \<open>src/src/utils/process_utils.h\<close>\<close>

text \<open>\<open>UNICODE_STRING\<close>, \<open>LIST_ENTRY\<close>, \<open>NT_TIB\<close> and the PE headers are those of the Windows SDK.\<close>

definition unicode_string :: ctype where
  "unicode_string = C_Struct [(''Length'', C_u16), (''MaximumLength'', C_u16), (''Buffer'', C_ptr)]"

definition list_entry :: ctype where
  "list_entry = C_Struct [(''Flink'', C_ptr), (''Blink'', C_ptr)]"

definition nt_tib :: ctype where
  "nt_tib = C_Struct [(''ExceptionList'', C_ptr), (''StackBase'', C_ptr), (''StackLimit'', C_ptr), (''SubSystemTib'', C_ptr),
     (''FiberData'', C_ptr), (''ArbitraryUserPointer'', C_ptr), (''Self'', C_ptr)]"

definition full_curdir :: ctype where
  "full_curdir = C_Struct [(''DosPath'', unicode_string), (''Handle'', C_ptr)]"

definition full_string :: ctype where
  "full_string = C_Struct [(''Length'', C_u16), (''MaximumLength'', C_u16), (''Buffer'', C_ptr)]"

definition full_rtl_drive_letter_curdir :: ctype where
  "full_rtl_drive_letter_curdir =
     C_Struct [(''Flags'', C_u16), (''Length'', C_u16), (''TimeStamp'', C_u32), (''DosPath'', full_string)]"

definition full_rtl_user_process_parameters :: ctype where
  "full_rtl_user_process_parameters = C_Struct
     [(''MaximumLength'', C_u32), (''Length'', C_u32), (''Flags'', C_u32), (''DebugFlags'', C_u32), (''ConsoleHandle'', C_ptr),
      (''ConsoleFlags'', C_u32), (''StandardInput'', C_ptr), (''StandardOutput'', C_ptr), (''StandardError'', C_ptr),
      (''CurrentDirectory'', full_curdir), (''DllPath'', unicode_string), (''ImagePathName'', unicode_string),
      (''CommandLine'', unicode_string), (''Environment'', C_ptr), (''StartingX'', C_u32), (''StartingY'', C_u32),
      (''CountX'', C_u32), (''CountY'', C_u32), (''CountCharsX'', C_u32), (''CountCharsY'', C_u32), (''FillAttribute'', C_u32),
      (''WindowFlags'', C_u32), (''ShowWindowFlags'', C_u32), (''WindowTitle'', unicode_string), (''DesktopInfo'', unicode_string),
      (''ShellInfo'', unicode_string), (''RuntimeData'', unicode_string),
      (''CurrentDirectores'', C_Array 32 full_rtl_drive_letter_curdir), (''EnvironmentSize'', C_u64), (''EnvironmentVersion'', C_u64)]"

definition full_peb_ldr_data :: ctype where
  "full_peb_ldr_data = C_Struct
     [(''Length'', C_u32), (''Initialized'', C_u8), (''SsHandle'', C_ptr), (''InLoadOrderModuleList'', list_entry),
      (''InMemoryOrderModuleList'', list_entry), (''InInitializationOrderModuleList'', list_entry), (''EntryInProgress'', C_ptr),
      (''ShutdownInProgress'', C_u8), (''ShutdownThreadId'', C_ptr)]"

definition full_ldr_data_table_entry :: ctype where
  "full_ldr_data_table_entry = C_Struct
     [(''InLoadOrderLinks'', list_entry), (''InMemoryOrderLinks'', list_entry), (''InInitializationOrderLinks'', list_entry),
      (''DllBase'', C_ptr), (''EntryPoint'', C_ptr), (''SizeOfImage'', C_u32), (''FullDllName'', unicode_string),
      (''BaseDllName'', unicode_string)]"

definition full_peb :: ctype where
  "full_peb = C_Struct
     [(''InheritedAddressSpace'', C_u8), (''ReadImageFileExecOptions'', C_u8), (''BeingDebugged'', C_u8), (''BitField'', C_u8),
      (''Mutant'', C_ptr), (''ImageBaseAddress'', C_ptr), (''Ldr'', C_ptr), (''ProcessParameters'', C_ptr), (''SubSystemData'', C_ptr),
      (''ProcessHeap'', C_ptr), (''FastPebLock'', C_ptr), (''AtlThunkSListPtr'', C_ptr), (''IFEOKey'', C_ptr),
      (''CrossProcessFlags'', C_u32), (''KernelCallbackTable'', C_ptr), (''SystemReserved'', C_u32), (''AtlThunkSListPtr32'', C_u32),
      (''ApiSetMap'', C_ptr), (''TlsExpansionCounter'', C_u32), (''TlsBitmap'', C_ptr), (''TlsBitmapBits'', C_Array 2 C_u32),
      (''ReadOnlySharedMemoryBase'', C_ptr), (''SharedData'', C_ptr), (''ReadOnlyStaticServerData'', C_ptr),
      (''AnsiCodePageData'', C_ptr), (''OemCodePageData'', C_ptr), (''UnicodeCaseTableData'', C_ptr), (''NumberOfProcessors'', C_u32),
      (''NtGlobalFlag'', C_u32), (''CriticalSectionTimeout'', C_u64), (''HeapSegmentReserve'', C_u64), (''HeapSegmentCommit'', C_u64),
      (''HeapDeCommitTotalFreeThreshold'', C_u64), (''HeapDeCommitFreeBlockThreshold'', C_u64), (''NumberOfHeaps'', C_u32),
      (''MaximumNumberOfHeaps'', C_u32), (''ProcessHeaps'', C_ptr), (''GdiSharedHandleTable'', C_ptr), (''ProcessStarterHelper'', C_ptr),
      (''GdiDCAttributeList'', C_u32), (''LoaderLock'', C_ptr), (''OSMajorVersion'', C_u32), (''OSMinorVersion'', C_u32),
      (''OSBuildNumber'', C_u16), (''OSCSDVersion'', C_u16), (''OSPlatformId'', C_u32), (''ImageSubsystem'', C_u32),
      (''ImageSubsystemMajorVersion'', C_u32), (''ImageSubsystemMinorVersion'', C_u32), (''ActiveProcessAffinityMask'', C_u64),
      (''GdiHandleBuffer'', C_Array 60 C_u32), (''PostProcessInitRoutine'', C_ptr), (''TlsExpansionBitmap'', C_ptr),
      (''TlsExpansionBitmapBits'', C_Array 32 C_u32), (''SessionId'', C_u32)]"

definition full_activation_context_stack :: ctype where
  "full_activation_context_stack = C_Struct
     [(''ActiveFrame'', C_ptr), (''FrameListCache'', list_entry), (''Flags'', C_u32), (''NextCookieSequenceNumber'', C_u32),
      (''StackId'', C_u32)]"

definition full_gdi_teb_batch :: ctype where
  "full_gdi_teb_batch = C_Struct [(''Offset'', C_u32), (''HDC'', C_u64), (''Buffer'', C_Array 310 C_u32)]"

definition full_teb :: ctype where
  "full_teb = C_Struct
     [(''NtTib'', nt_tib), (''EnvironmentPointer'', C_ptr), (''UniqueProcess'', C_ptr), (''UniqueThread'', C_ptr),
      (''ActiveRpcHandle'', C_ptr), (''ThreadLocalStoragePointer'', C_ptr), (''ProcessEnvironmentBlock'', C_ptr),
      (''LastErrorValue'', C_u32), (''CountOfOwnedCriticalSections'', C_u32), (''CsrClientThread'', C_ptr), (''Win32ThreadInfo'', C_ptr),
      (''User32Reserved'', C_Array 26 C_u32), (''UserReserved'', C_Array 5 C_u32), (''WOW32Reserved'', C_ptr), (''CurrentLocale'', C_u32),
      (''FpSoftwareStatusRegister'', C_u32), (''ReservedForDebuggerInstrumentation'', C_Array 16 C_ptr),
      (''SystemReserved1'', C_Array 30 C_ptr), (''PlaceholderCompatibilityMode'', C_u8), (''PlaceholderHydrationAlwaysExplicit'', C_u8),
      (''PlaceholderReserved'', C_Array 10 C_u8), (''ProxiedProcessId'', C_u32), (''ActivationStack'', full_activation_context_stack),
      (''WorkingOnBehalfTicket'', C_Array 8 C_u8), (''ExceptionCode'', C_u32), (''ActivationContextStackPointer'', C_ptr),
      (''InstrumentationCallbackSp'', C_u64), (''InstrumentationCallbackPreviousPc'', C_u64),
      (''InstrumentationCallbackPreviousSp'', C_u64), (''TxFsContext'', C_u32), (''InstrumentationCallbackDisabled'', C_u8),
      (''UnalignedLoadStoreExceptions'', C_u8), (''GdiTebBatch'', full_gdi_teb_batch), (''RealUniqueProcess'', C_ptr),
      (''RealUniqueThread'', C_ptr), (''GdiCachedProcessHandle'', C_ptr), (''GdiClientPID'', C_u32), (''GdiClientTID'', C_u32),
      (''GdiThreadLocalInfo'', C_ptr), (''Win32ClientInfo'', C_Array 62 C_u64), (''glDispatchTable'', C_Array 233 C_ptr),
      (''glReserved1'', C_Array 29 C_u64), (''glReserved2'', C_ptr), (''glSectionInfo'', C_ptr), (''glSection'', C_ptr),
      (''glTable'', C_ptr), (''glCurrentRC'', C_ptr), (''glContext'', C_ptr), (''LastStatusValue'', C_u32),
      (''StaticUnicodeString'', unicode_string), (''StaticUnicodeBuffer'', C_Array 261 C_u16), (''DeallocationStack'', C_ptr),
      (''TlsSlots'', C_Array 64 C_ptr), (''TlsLinks'', list_entry), (''Vdm'', C_ptr), (''ReservedForNtRpc'', C_ptr),
      (''DbgSsReserved'', C_Array 2 C_ptr), (''HardErrorMode'', C_u32)]"

section \<open>Structures of \<open>src/src/windows/nt_undocumented.h\<close>\<close>

definition object_types_information :: ctype where
  "object_types_information = C_Struct [(''NumberOfTypes'', C_u32)]"

definition generic_mapping :: ctype where
  "generic_mapping = C_Array 4 C_u32"

definition object_type_information :: ctype where
  "object_type_information = C_Struct
     [(''TypeName'', unicode_string), (''TotalNumberOfObjects'', C_u32), (''TotalNumberOfHandles'', C_u32),
      (''TotalPagedPoolUsage'', C_u32), (''TotalNonPagedPoolUsage'', C_u32), (''TotalNamePoolUsage'', C_u32),
      (''TotalHandleTableUsage'', C_u32), (''HighWaterNumberOfObjects'', C_u32), (''HighWaterNumberOfHandles'', C_u32),
      (''HighWaterPagedPoolUsage'', C_u32), (''HighWaterNonPagedPoolUsage'', C_u32), (''HighWaterNamePoolUsage'', C_u32),
      (''HighWaterHandleTableUsage'', C_u32), (''InvalidAttributes'', C_u32), (''GenericMapping'', generic_mapping),
      (''ValidAccessMask'', C_u32), (''SecurityRequired'', C_u8), (''MaintainHandleCount'', C_u8), (''TypeIndex'', C_u8),
      (''ReservedByte'', C_u8), (''PoolType'', C_u32), (''DefaultPagedPoolCharge'', C_u32), (''DefaultNonPagedPoolCharge'', C_u32)]"

definition object_basic_information :: ctype where
  "object_basic_information = C_Struct
     [(''Attributes'', C_u32), (''GrantedAccess'', C_u32), (''HandleCount'', C_u32), (''PointerCount'', C_u32),
      (''PagedPoolCharge'', C_u32), (''NonPagedPoolCharge'', C_u32), (''Reserved'', C_Array 3 C_u32), (''NameInfoSize'', C_u32),
      (''TypeInfoSize'', C_u32), (''SecurityDescriptorSize'', C_u32), (''CreationTime'', C_u64)]"

definition system_handle_table_entry_info_ex :: ctype where
  "system_handle_table_entry_info_ex = C_Struct
     [(''Object'', C_ptr), (''UniqueProcessId'', C_ptr), (''HandleValue'', C_ptr), (''GrantedAccess'', C_u32),
      (''CreatorBackTraceIndex'', C_u16), (''ObjectTypeIndex'', C_u16), (''HandleAttributes'', C_u32), (''Reserved'', C_u32)]"

definition system_handle_information_ex :: ctype where
  "system_handle_information_ex = C_Struct
     [(''NumberOfHandles'', C_u64), (''Reserved'', C_u64), (''Handles'', C_Array 1 system_handle_table_entry_info_ex)]"

section \<open>The layouts are the ones the header asserts\<close>

lemma align_sizes [simp]:
  "align_of unicode_string = 8" "size_of unicode_string = 16" "align_of list_entry = 8" "size_of list_entry = 16"
  "align_of nt_tib = 8" "size_of nt_tib = 56" "align_of full_string = 8" "size_of full_string = 16"
  by (simp_all add: unicode_string_def list_entry_def nt_tib_def full_string_def round_up_def)

lemma align_sizes_nested [simp]:
  "align_of full_curdir = 8" "size_of full_curdir = 24"
  "align_of full_rtl_drive_letter_curdir = 8" "size_of full_rtl_drive_letter_curdir = 24"
  "align_of full_activation_context_stack = 8" "size_of full_activation_context_stack = 40"
  "align_of full_gdi_teb_batch = 8" "size_of full_gdi_teb_batch = 1256"
  by (simp_all add: full_curdir_def full_rtl_drive_letter_curdir_def full_activation_context_stack_def full_gdi_teb_batch_def
      round_up_def)

lemma peb_offsets:
  "offset_of full_peb [''ImageBaseAddress''] = 0x010"
  "offset_of full_peb [''Ldr''] = 0x018"
  "offset_of full_peb [''ProcessParameters''] = 0x020"
  "offset_of full_peb [''ProcessHeap''] = 0x030"
  "offset_of full_peb [''NumberOfProcessors''] = 0x0b8"
  "offset_of full_peb [''NtGlobalFlag''] = 0x0bc"
  "offset_of full_peb [''PostProcessInitRoutine''] = 0x230"
  "offset_of full_peb [''SessionId''] = 0x2c0"
  by (simp_all add: offset_of_def full_peb_def round_up_def)

lemma loader_offsets:
  "offset_of full_peb_ldr_data [''InLoadOrderModuleList''] = 0x10"
  "offset_of full_peb_ldr_data [''InInitializationOrderModuleList''] = 0x30"
  "offset_of full_ldr_data_table_entry [''DllBase''] = 0x30"
  "offset_of full_ldr_data_table_entry [''FullDllName''] = 0x48"
  "size_of full_ldr_data_table_entry = 0x68"
  "offset_of full_rtl_user_process_parameters [''CurrentDirectory''] = 0x038"
  "offset_of full_rtl_user_process_parameters [''ImagePathName''] = 0x060"
  "offset_of full_rtl_user_process_parameters [''CommandLine''] = 0x070"
  "offset_of full_rtl_user_process_parameters [''Environment''] = 0x080"
  "offset_of full_rtl_user_process_parameters [''WindowTitle''] = 0x0b0"
  "offset_of full_rtl_user_process_parameters [''CurrentDirectores''] = 0x0f0"
  by (simp_all add: offset_of_def full_peb_ldr_data_def full_ldr_data_table_entry_def full_rtl_user_process_parameters_def round_up_def)

lemma teb_offsets_low:
  "offset_of full_teb [''UniqueProcess''] = 0x0040"
  "offset_of full_teb [''ProcessEnvironmentBlock''] = 0x0060"
  "offset_of full_teb [''GdiTebBatch''] = 0x02f0"
  "offset_of full_teb [''LastStatusValue''] = 0x1250"
  by (simp_all add: offset_of_def full_teb_def round_up_def)

lemma teb_offsets_high:
  "offset_of full_teb [''DeallocationStack''] = 0x1478"
  "offset_of full_teb [''TlsSlots''] = 0x1480"
  "offset_of full_teb [''TlsLinks''] = 0x1480 + 64 * 8"
  "offset_of full_teb [''HardErrorMode''] = 0x16b0"
  by (simp_all add: offset_of_def full_teb_def round_up_def)

text \<open>
  The layout rule puts the fields where the header says they are.  Every \<open>static_assert\<close> at the end
  of process_utils.h holds of the declared structures, and so do the sizes in its comments: the
  parts the loader entry is cut off at, and the end of the TLS slots that the thread code indexes.
\<close>

lemma asserted_offsets:
  "offset_of full_peb [''ImageBaseAddress''] = 0x010 \<and> offset_of full_peb [''Ldr''] = 0x018
   \<and> offset_of full_peb [''ProcessParameters''] = 0x020 \<and> offset_of full_peb [''ProcessHeap''] = 0x030
   \<and> offset_of full_peb [''NumberOfProcessors''] = 0x0b8 \<and> offset_of full_peb [''NtGlobalFlag''] = 0x0bc
   \<and> offset_of full_peb [''PostProcessInitRoutine''] = 0x230 \<and> offset_of full_peb [''SessionId''] = 0x2c0
   \<and> offset_of full_peb_ldr_data [''InLoadOrderModuleList''] = 0x10
   \<and> offset_of full_peb_ldr_data [''InInitializationOrderModuleList''] = 0x30
   \<and> offset_of full_ldr_data_table_entry [''DllBase''] = 0x30 \<and> offset_of full_ldr_data_table_entry [''FullDllName''] = 0x48
   \<and> size_of full_ldr_data_table_entry = 0x68
   \<and> offset_of full_rtl_user_process_parameters [''CurrentDirectory''] = 0x038
   \<and> offset_of full_rtl_user_process_parameters [''ImagePathName''] = 0x060
   \<and> offset_of full_rtl_user_process_parameters [''CommandLine''] = 0x070
   \<and> offset_of full_rtl_user_process_parameters [''Environment''] = 0x080
   \<and> offset_of full_rtl_user_process_parameters [''WindowTitle''] = 0x0b0
   \<and> offset_of full_rtl_user_process_parameters [''CurrentDirectores''] = 0x0f0
   \<and> offset_of full_teb [''UniqueProcess''] = 0x0040 \<and> offset_of full_teb [''ProcessEnvironmentBlock''] = 0x0060
   \<and> offset_of full_teb [''GdiTebBatch''] = 0x02f0 \<and> offset_of full_teb [''LastStatusValue''] = 0x1250
   \<and> offset_of full_teb [''DeallocationStack''] = 0x1478 \<and> offset_of full_teb [''TlsSlots''] = 0x1480
   \<and> offset_of full_teb [''TlsLinks''] = 0x1480 + 64 * 8 \<and> offset_of full_teb [''HardErrorMode''] = 0x16b0"
  by (simp add: peb_offsets loader_offsets teb_offsets_low teb_offsets_high)

end
