(* ===== verification/Tracking.thy ===== *)
theory Tracking
  imports Execution_Tree
begin

text \<open>
  What the thread and the module manager share: for every thread id or module handle a tree of
  states, each of which says whether the thread or module is loaded.  The tables of both managers
  are \<open>std::unordered_map\<close>s, here association lists in their (unspecified) iteration order.  The
  locale \<open>tracked\<close> is the contract of such a table; the managers interpret it.
\<close>

definition hist_track ::
    "'d \<Rightarrow> 'k \<Rightarrow> 'd \<Rightarrow> u32 \<Rightarrow> u32 \<Rightarrow> u64 \<Rightarrow> ('k \<times> 'd etree) list \<Rightarrow> ('k \<times> 'd etree) list" where
  "hist_track d0 k d run_id run_seq global_seq hist =
     (if k \<in> fst ` set hist
      then map (\<lambda>(k', t). (k', if k' = k then et_add_child d run_id run_seq global_seq t else t)) hist
      else hist @ [(k, et_new d0 d run_id run_seq global_seq)])"

text \<open>The states that are loaded at the target and at the current point, in iteration order.\<close>

definition push_loaded :: "('d \<Rightarrow> bool) \<Rightarrow> 'd option \<Rightarrow> 'd list \<Rightarrow> 'd list" where
  "push_loaded loaded info ds = (case info of Some d \<Rightarrow> if loaded d then ds @ [d] else ds | None \<Rightarrow> ds)"

definition hist_scan ::
    "('d \<Rightarrow> bool) \<Rightarrow> u32 \<Rightarrow> u32 \<Rightarrow> u32 \<Rightarrow> u32 \<Rightarrow> ('k \<times> 'd etree) list \<Rightarrow> ('d list \<times> 'd list) option" where
  "hist_scan loaded from_run from_seq to_run to_seq hist =
     foldM (\<lambda>(_, t) (snapped, current).
         do { to_info \<leftarrow> et_get_state to_run to_seq t;
              from_info \<leftarrow> et_get_state from_run from_seq t;
              Some (push_loaded loaded to_info snapped, push_loaded loaded from_info current) })
       hist ([], [])"

text \<open>Erase the first element found by \<open>std::find_if\<close>, if any.\<close>

fun erase_first :: "('a \<Rightarrow> bool) \<Rightarrow> 'a list \<Rightarrow> 'a list" where
  "erase_first P [] = []"
| "erase_first P (x # xs) = (if P x then xs else x # erase_first P xs)"

definition hist_branch :: "u32 \<Rightarrow> u32 \<Rightarrow> u32 \<Rightarrow> ('k \<times> 'd etree) list \<Rightarrow> ('k \<times> 'd etree) list option" where
  "hist_branch target_run_id target_run_seq new_run_id =
     mapM (\<lambda>(k, t). map_option (Pair k) (et_revert_to_state target_run_id target_run_seq (ucast new_run_id) t))"

section \<open>The contract\<close>

definition hist_view :: "('k \<times> 'd etree) list \<Rightarrow> 'k \<Rightarrow> u32 \<Rightarrow> u32 \<Rightarrow> 'd option" where
  "hist_view hist k = (case map_of hist k of None \<Rightarrow> (\<lambda>_ _. None) | Some t \<Rightarrow> et_view t)"

definition loaded_at :: "('d \<Rightarrow> bool) \<Rightarrow> u32 \<Rightarrow> u32 \<Rightarrow> ('k \<times> 'd etree) list \<Rightarrow> 'd list" where
  "loaded_at loaded r s hist =
     List.map_filter (\<lambda>(k, t). case et_view t r s of Some d \<Rightarrow> if loaded d then Some d else None | None \<Rightarrow> None) hist"

lemma loaded_at_iff:
  "d \<in> set (loaded_at loaded r s hist) \<longleftrightarrow> (\<exists>k t. (k, t) \<in> set hist \<and> et_view t r s = Some d \<and> loaded d)"
proof (induction hist)
  case (Cons x hist)
  obtain k t where "x = (k, t)" by (cases x)
  then show ?case using Cons by (auto simp: loaded_at_def map_filter_simps split: option.split)
qed (simp add: loaded_at_def map_filter_simps)

lemma map_of_upd_keys: "map_of (map (\<lambda>(k, v). (k, f k v)) m) = (\<lambda>k. map_option (f k) (map_of m k))"
  by (induction m) (auto simp: fun_eq_iff)

lemma erase_first_distinct:
  "distinct (map key xs) \<Longrightarrow> erase_first (\<lambda>c. key c = k) xs = filter (\<lambda>c. key c \<noteq> k) xs"
proof (induction xs)
  case (Cons x xs)
  show ?case
  proof (cases "key x = k")
    case True
    then have "filter (\<lambda>c. key c \<noteq> k) xs = xs" using Cons.prems by (intro filter_True ballI) (metis distinct.simps(2) imageI list.simps(9) set_map)
    then show ?thesis using True by simp
  next
    case False
    then show ?thesis using Cons by simp
  qed
qed simp

lemma erase_all:
  "distinct (map key xs) \<Longrightarrow>
    fold (\<lambda>d. erase_first (\<lambda>c. key c = key d)) ds xs = filter (\<lambda>c. key c \<notin> key ` set ds) xs"
proof (induction ds arbitrary: xs)
  case (Cons d ds)
  have "distinct (map key (filter (\<lambda>c. key c \<noteq> key d) xs))" using Cons.prems by (rule distinct_map_filter)
  then show ?case
    using Cons.IH[of "filter (\<lambda>c. key c \<noteq> key d) xs"] by (simp add: erase_first_distinct[OF Cons.prems] conj_commute)
qed simp

locale tracked =
  fixes key :: "'d \<Rightarrow> 'k" and loaded :: "'d \<Rightarrow> bool" and info :: "'k \<Rightarrow> 'x \<Rightarrow> bool \<Rightarrow> 'd"
  assumes key_info [simp]: "key (info k x b) = k"
    and loaded_info [simp]: "loaded (info k x b) = b"
begin

definition hist_ok :: "('k \<times> 'd etree) list \<Rightarrow> bool" where
  "hist_ok hist = (distinct (map fst hist)
     \<and> (\<forall>(k, t)\<in>set hist. et_wf t \<and> (\<forall>r s d. et_view t r s = Some d \<longrightarrow> key d = k)))"

lemma hist_okD:
  assumes "hist_ok hist" "(k, t) \<in> set hist"
  shows "et_wf t" "et_view t r s = Some d \<Longrightarrow> key d = k" "map_of hist k = Some t"
  using assms by (auto simp: hist_ok_def)

lemma hist_ok_tail: "hist_ok (x # hist) \<Longrightarrow> hist_ok hist"
  by (auto simp: hist_ok_def)

lemma hist_ok_Nil: "hist_ok []"
  by (simp add: hist_ok_def)

lemma scan_gen:
  assumes "hist_ok hist"
  shows "foldM (\<lambda>(_, t) (snapped, current).
         do { to_info \<leftarrow> et_get_state tr ts t;
              from_info \<leftarrow> et_get_state fr fs t;
              Some (push_loaded loaded to_info snapped, push_loaded loaded from_info current) }) hist (a, c)
    = Some (a @ loaded_at loaded tr ts hist, c @ loaded_at loaded fr fs hist)"
  using assms
proof (induction hist arbitrary: a c)
  case (Cons x hist)
  obtain k t where x: "x = (k, t)" by (cases x)
  have wf: "et_wf t" using Cons.prems by (auto simp: hist_ok_def x)
  have get: "et_get_state q u t = Some (et_view t q u)" for q u
    using et_find_spec[OF wf, of q u] et_view_result(1,2)[OF wf] by metis
  show ?case
    using Cons.IH[OF hist_ok_tail[OF Cons.prems]]
    by (simp add: x get push_loaded_def loaded_at_def map_filter_simps split: option.split)
qed (simp add: loaded_at_def map_filter_simps)

lemma scan: "hist_ok hist \<Longrightarrow>
    hist_scan loaded fr fs tr ts hist = Some (loaded_at loaded tr ts hist, loaded_at loaded fr fs hist)"
  unfolding hist_scan_def by (simp add: scan_gen)

text \<open>Which things are loaded at a point, by their key.\<close>

definition live :: "('k \<times> 'd etree) list \<Rightarrow> u32 \<Rightarrow> u32 \<Rightarrow> 'k set" where
  "live hist r s = {k. \<exists>d. hist_view hist k r s = Some d \<and> loaded d}"

lemma keys_loaded_at:
  assumes "hist_ok hist"
  shows "key ` set (loaded_at loaded r s hist) = live hist r s" "distinct (map key (loaded_at loaded r s hist))"
proof -
  show "key ` set (loaded_at loaded r s hist) = live hist r s"
  proof (intro set_eqI iffI)
    fix k
    assume "k \<in> key ` set (loaded_at loaded r s hist)"
    then obtain k' t d where t: "(k', t) \<in> set hist" "et_view t r s = Some d" "loaded d" "k = key d"
      by (auto simp: loaded_at_def map_filter_def split: option.splits if_splits)
    then show "k \<in> live hist r s"
      using hist_okD[OF assms t(1)] by (auto simp: live_def hist_view_def)
  next
    fix k
    assume "k \<in> live hist r s"
    then obtain t d where t: "map_of hist k = Some t" "et_view t r s = Some d" "loaded d"
      by (auto simp: live_def hist_view_def split: option.splits)
    have "(k, t) \<in> set hist" using t(1) by (rule map_of_SomeD)
    then show "k \<in> key ` set (loaded_at loaded r s hist)"
      using t hist_okD(2)[OF assms] by (force simp: loaded_at_def map_filter_def)
  qed
  have keys: "key d \<in> fst ` set hist" if "d \<in> set (loaded_at loaded r s hist)" "hist_ok hist" for d hist
    using that by (force simp: loaded_at_def map_filter_def hist_ok_def split: option.splits if_splits)
  show "distinct (map key (loaded_at loaded r s hist))"
    using assms
  proof (induction hist)
    case (Cons x hist)
    obtain k t where x: "x = (k, t)" by (cases x)
    have ok: "hist_ok hist" by (rule hist_ok_tail[OF Cons.prems])
    have "key d \<noteq> k" if "d \<in> set (loaded_at loaded r s hist)" for d
      using keys[OF that ok] Cons.prems by (auto simp: hist_ok_def x)
    moreover have "key d = k" if "et_view t r s = Some d" for d
      using hist_okD(2)[OF Cons.prems, of k t] that by (simp add: x)
    moreover have "distinct (map key (loaded_at loaded r s hist))" by (rule Cons.IH[OF ok])
    ultimately show ?case
      by (fastforce simp: x loaded_at_def map_filter_simps split: option.split)
  qed (simp add: loaded_at_def map_filter_simps)
qed

text \<open>What is left of the things loaded now when those loaded at the target are taken out.\<close>

lemma left_over:
  assumes "hist_ok hist"
  shows "fold (\<lambda>d. erase_first (\<lambda>c. key c = key d)) (loaded_at loaded tr ts hist) (loaded_at loaded fr fs hist)
      = filter (\<lambda>c. key c \<notin> live hist tr ts) (loaded_at loaded fr fs hist)"
    and "key ` set (filter (\<lambda>c. key c \<notin> live hist tr ts) (loaded_at loaded fr fs hist)) = live hist fr fs - live hist tr ts"
proof -
  show "fold (\<lambda>d. erase_first (\<lambda>c. key c = key d)) (loaded_at loaded tr ts hist) (loaded_at loaded fr fs hist)
      = filter (\<lambda>c. key c \<notin> live hist tr ts) (loaded_at loaded fr fs hist)"
    by (simp add: erase_all[OF keys_loaded_at(2)[OF assms]] keys_loaded_at(1)[OF assms])
  show "key ` set (filter (\<lambda>c. key c \<notin> live hist tr ts) (loaded_at loaded fr fs hist)) = live hist fr fs - live hist tr ts"
    using keys_loaded_at(1)[OF assms, of fr fs] by auto
qed

text \<open>Tracking writes the state of one key and keeps the rest.\<close>

definition can_track :: "('k \<times> 'd etree) list \<Rightarrow> 'k \<Rightarrow> u32 \<Rightarrow> u32 \<Rightarrow> bool" where
  "can_track hist k r s = (\<forall>t. map_of hist k = Some t \<longrightarrow> et_writable t r s)"

lemma track:
  assumes "hist_ok hist" "can_track hist k r s"
  shows "hist_ok (hist_track d0 k (info k x b) r s g hist)"
    and "hist_view (hist_track d0 k (info k x b) r s g hist) =
      (hist_view hist)(k := tl_write r s (info k x b) (hist_view hist k))"
proof -
  let ?d = "info k x b" and ?h = "hist_track d0 k (info k x b) r s g hist"
  have mo: "map_of ?h = (map_of hist)(k \<mapsto>
      (case map_of hist k of Some t \<Rightarrow> et_add_child ?d r s g t | None \<Rightarrow> et_new d0 ?d r s g))"
  proof (cases "k \<in> fst ` set hist")
    case True
    then obtain t where t: "map_of hist k = Some t" by (metis domIff map_of_eq_None_iff not_None_eq)
    have "map_of ?h k' = (if k' = k then Some (et_add_child ?d r s g t) else map_of hist k')" for k'
    proof -
      have "?h = map (\<lambda>(k', t). (k', (if k' = k then et_add_child ?d r s g else id) t)) hist"
        using True by (auto simp: hist_track_def)
      then have "map_of ?h k' = map_option (if k' = k then et_add_child ?d r s g else id) (map_of hist k')"
        by (simp only: map_of_upd_keys[of "\<lambda>k'. if k' = k then et_add_child ?d r s g else id" hist])
      then show ?thesis by (simp add: t option.map_id)
    qed
    then show ?thesis by (auto simp: t)
  next
    case False
    then have "map_of hist k = None" by (simp add: map_of_eq_None_iff)
    then show ?thesis using False by (auto simp: hist_track_def fun_eq_iff map_add_def split: option.split)
  qed
  have dist: "distinct (map fst ?h)"
    using assms(1) by (auto simp: hist_track_def hist_ok_def comp_def split_def)
  have one: "et_wf t' \<and> et_view t' = tl_write r s ?d (hist_view hist k)"
    if "t' = (case map_of hist k of Some t \<Rightarrow> et_add_child ?d r s g t | None \<Rightarrow> et_new d0 ?d r s g)" for t'
  proof (cases "map_of hist k")
    case None
    then show ?thesis using that et_new_laws(1,2)[of d0 ?d r s g]
      by (auto simp: hist_view_def tl_write_def tl_create_def fun_eq_iff)
  next
    case (Some t)
    have wf: "et_wf t" using hist_okD(1)[OF assms(1) map_of_SomeD[OF Some]] .
    have "et_writable t r s" using assms(2) Some by (simp add: can_track_def)
    from et_add_child_laws(1,2)[OF wf this] show ?thesis using that Some by (simp add: hist_view_def)
  qed
  show "hist_view ?h = (hist_view hist)(k := tl_write r s ?d (hist_view hist k))"
    using one by (auto simp: fun_eq_iff hist_view_def mo)
  have "et_wf t' \<and> (\<forall>r s d. et_view t' r s = Some d \<longrightarrow> key d = k')" if kt: "(k', t') \<in> set ?h" for k' t'
  proof -
    have m: "map_of ?h k' = Some t'" using kt dist by (simp add: map_of_eq_Some_iff)
    show ?thesis
    proof (cases "k' = k")
      case True
      have v: "et_wf t'" "et_view t' = tl_write r s ?d (hist_view hist k)" using one[of t'] m True by (simp_all add: mo)
      have "key d = k" if "hist_view hist k q u = Some d" for q u d
        using that hist_okD(2)[OF assms(1) map_of_SomeD] by (auto simp: hist_view_def split: option.splits)
      then show ?thesis using v True by (auto simp: tl_write_def)
    next
      case False
      then have "map_of hist k' = Some t'" using m by (simp add: mo)
      then show ?thesis using hist_okD[OF assms(1) map_of_SomeD] by blast
    qed
  qed
  then show "hist_ok ?h" using dist by (auto simp: hist_ok_def)
qed

lemma live_track:
  assumes "hist_ok hist" "can_track hist k r s" "s \<le> s'"
  shows "k \<in> live (hist_track d0 k (info k x b) r s g hist) r s' \<longleftrightarrow> b"
    and "k' \<noteq> k \<Longrightarrow> k' \<in> live (hist_track d0 k (info k x b) r s g hist) q u \<longleftrightarrow> k' \<in> live hist q u"
  using assms(3) by (simp_all add: live_def track(2)[OF assms(1,2)] tl_write_def)

text \<open>
  A key that is new and tracked twice at one point keeps the first state: the second node is
  shadowed by the first, which is the cursor of the new tree.
\<close>

lemma track_shadowed:
  assumes "hist_ok hist" "k \<notin> fst ` set hist"
  shows "hist_ok (hist_track d1 k (info k y c) r s g' (hist_track d0 k (info k x b) r s g hist))"
    and "hist_view (hist_track d1 k (info k y c) r s g' (hist_track d0 k (info k x b) r s g hist)) =
      (hist_view hist)(k := tl_create r s (info k x b))"
proof -
  let ?t = "et_new d0 (info k x b) r s g"
  let ?t' = "et_add_child (info k y c) r s g' ?t"
  have same: "map (\<lambda>(k', t). (k', if k' = k then f t else t)) hist = hist" for f :: "'d etree \<Rightarrow> 'd etree"
    using assms(2) by (intro map_idI) force
  have two: "hist_track d1 k (info k y c) r s g' (hist_track d0 k (info k x b) r s g hist) = hist @ [(k, ?t')]"
    using assms(2) by (simp add: hist_track_def same)
  note tied = et_add_child_tied[OF et_new_laws(1,4)]
  have v: "et_wf ?t'" "et_view ?t' = tl_create r s (info k x b)" by (simp_all add: tied(1,2) et_new_laws(2))
  have "map_of hist k = None" using assms(2) by (simp add: map_of_eq_None_iff)
  then show "hist_view (hist_track d1 k (info k y c) r s g' (hist_track d0 k (info k x b) r s g hist)) =
      (hist_view hist)(k := tl_create r s (info k x b))"
    unfolding two by (auto simp: hist_view_def fun_eq_iff map_add_def v split: option.split)
  show "hist_ok (hist_track d1 k (info k y c) r s g' (hist_track d0 k (info k x b) r s g hist))"
    unfolding two using assms v by (auto simp: hist_ok_def tl_create_def split: if_splits)
qed

text \<open>Branching every tree.\<close>

lemma branch:
  assumes "hist_ok hist" "\<forall>(k, t)\<in>set hist. et_fresh t n" "p < n"
  shows "\<exists>hist'. hist_branch p b n hist = Some hist' \<and> hist_ok hist'
    \<and> (\<forall>k r s. hist_view hist' k r s = (if r = n then hist_view hist k p b else hist_view hist k r s))"
proof -
  let ?f = "\<lambda>(k, t). map_option (Pair k) (et_revert_to_state p b (ucast n) t)"
  let ?R = "\<lambda>(k, t) (k', t'). k' = k \<and> et_wf t' \<and> et_view t' = tl_branch n p b (et_view t)"
  have "\<exists>y. ?f x = Some y \<and> ?R x y" if x: "x \<in> set hist" for x
  proof -
    obtain k t where [simp]: "x = (k, t)" by (cases x)
    have "et_wf t" "et_fresh t n" using assms(1,2) x by (auto simp: hist_ok_def)
    then show ?thesis using et_revert_laws[of t n p b] assms(3) by fastforce
  qed
  from mapM_each[where f = ?f and R = ?R, OF this]
  obtain hist' where h': "hist_branch p b n hist = Some hist'" "list_all2 ?R hist hist'" by (auto simp: hist_branch_def)
  have keys: "map fst hist' = map fst hist" using h'(2) by (induction rule: list_all2_induct) auto
  have view: "hist_view hist' k r s = (if r = n then hist_view hist k p b else hist_view hist k r s)" for k r s
    using h'(2) by (induction rule: list_all2_induct) (auto simp: hist_view_def tl_branch_def)
  have "et_wf t' \<and> (\<forall>r s d. et_view t' r s = Some d \<longrightarrow> key d = k)" if t': "(k, t') \<in> set hist'" for k t'
  proof -
    have "\<exists>t. (k, t) \<in> set hist \<and> et_wf t' \<and> et_view t' = tl_branch n p b (et_view t)"
      using h'(2) t' by (induction rule: list_all2_induct) auto
    then obtain t where t: "(k, t) \<in> set hist" "et_wf t'" "et_view t' = tl_branch n p b (et_view t)" by blast
    then show ?thesis using hist_okD(2)[OF assms(1) t(1)] by (auto simp: tl_branch_def split: if_splits)
  qed
  then show ?thesis using h'(1) keys view assms(1) by (auto simp: hist_ok_def)
qed

end

end
