(* ===== verification/Module_Manager.thy ===== *)
theory Module_Manager
  imports Memory_Manager Tracking
begin

text \<open>
  \<open>src/src/managers/module_manager.cpp\<close>, \<open>src/src/utils/module_utils.cpp\<close> and the part of
  \<open>src/src/utils/shellcode.cpp\<close> that unloads modules: which DLLs are loaded at a point of a run, and
  the code that is injected to unload those that should not be.

  A \<open>std::wstring\<close> is the list of its bytes, two per character.
\<close>

record dll_info =
  di_dll_handle :: addr
  di_dll_name :: "byte list"
  di_loaded :: bool

definition dll_zero :: dll_info where
  "dll_zero = \<lparr> di_dll_handle = 0, di_dll_name = [], di_loaded = False \<rparr>"

record 'w modules = "'w memories" +
  mo_address_to_name :: "(addr, byte list) smap"
  mo_history :: "(addr \<times> dll_info etree) list"
  sc_buffer :: "byte list"

text \<open>
  \<open>GetDllNameFromLp\<close> sizes the string to 260 characters, which are 520 bytes, and reads 260 bytes
  into it.  The pointer is uninitialised when the first read fails.
\<close>

definition get_dll_name_from_lp :: "'w win32 \<Rightarrow> addr \<Rightarrow> ('w, 'z) machine_scheme \<Rightarrow> byte list" where
  "get_dll_name_from_lp W lp_image_name m =
     (if lp_image_name = 0 then replicate 520 0
      else
        (let image_name_address = le_word (read_uninit W lp_image_name 8 m) in
         if image_name_address = 0 then replicate 520 0
         else read_zeroed W image_name_address 260 m @ replicate 260 0))"

section \<open>The history of the modules\<close>

definition dll_state :: "addr \<Rightarrow> byte list \<Rightarrow> bool \<Rightarrow> dll_info" where
  "dll_state h name b = \<lparr> di_dll_handle = h, di_dll_name = name, di_loaded = b \<rparr>"

definition track_dll ::
    "addr \<Rightarrow> byte list \<Rightarrow> u64 \<Rightarrow> u32 \<Rightarrow> u32 \<Rightarrow> ('w, 'z) modules_scheme \<Rightarrow> ('w, 'z) modules_scheme" where
  "track_dll dll_handle dll_name global_seq run_id run_seq m =
     m \<lparr> mo_history := hist_track dll_zero dll_handle (dll_state dll_handle dll_name True) run_id run_seq global_seq (mo_history m),
         mo_address_to_name := smap_modify dll_handle [] (\<lambda>_. dll_name) (mo_address_to_name m) \<rparr>"

text \<open>The subscript inserts an empty name for a module that was never tracked.\<close>

definition untrack_dll ::
    "addr \<Rightarrow> u64 \<Rightarrow> u32 \<Rightarrow> u32 \<Rightarrow> ('w, 'z) modules_scheme \<Rightarrow> ('w, 'z) modules_scheme" where
  "untrack_dll dll_handle global_seq run_id run_seq m0 =
     (let m = m0 \<lparr> mo_address_to_name := smap_modify dll_handle [] (\<lambda>n. n) (mo_address_to_name m0) \<rparr>;
          dll_name = (case map_of (mo_address_to_name m) dll_handle of Some n \<Rightarrow> n | None \<Rightarrow> [])
      in if dll_handle \<in> fst ` set (mo_history m)
         then m \<lparr> mo_history := hist_track dll_zero dll_handle (dll_state dll_handle dll_name False) run_id run_seq
                    global_seq (mo_history m) \<rparr>
         else m)"

definition restore_dlls_at_sequence ::
    "u32 \<Rightarrow> u32 \<Rightarrow> u32 \<Rightarrow> u32 \<Rightarrow> ('w, 'z) modules_scheme \<Rightarrow> dll_info list option" where
  "restore_dlls_at_sequence from_run_id from_run_seq to_run_id to_run_seq m =
     do { (snapped_dlls, dlls_to_free) \<leftarrow> hist_scan di_loaded from_run_id from_run_seq to_run_id to_run_seq (mo_history m);
          Some (fold (\<lambda>dll_info. erase_first (\<lambda>current. di_dll_handle current = di_dll_handle dll_info))
                  snapped_dlls dlls_to_free) }"

definition create_module_history_branch :: "u32 \<Rightarrow> u32 \<Rightarrow> u32 \<Rightarrow> ('w, 'z) modules_scheme \<Rightarrow> ('w, 'z) modules_scheme option" where
  "create_module_history_branch target_run_id target_run_seq new_run_id m =
     do { h \<leftarrow> hist_branch target_run_id target_run_seq new_run_id (mo_history m);
          Some (m \<lparr> mo_history := h \<rparr>) }"

interpretation dlls: tracked di_dll_handle di_loaded dll_state
  by unfold_locales (simp_all add: dll_state_def)

definition dll_live :: "('w, 'z) modules_scheme \<Rightarrow> u32 \<Rightarrow> u32 \<Rightarrow> addr set" where
  "dll_live m r s = {h. \<exists>d. hist_view (mo_history m) h r s = Some d \<and> di_loaded d}"

definition modules_ok :: "('w, 'z) modules_scheme \<Rightarrow> bool" where
  "modules_ok m = (distinct (map fst (mo_history m))
     \<and> (\<forall>(h, t)\<in>set (mo_history m). et_wf t \<and> (\<forall>r s d. et_view t r s = Some d \<longrightarrow> di_dll_handle d = h)))"

definition dll_trackable :: "('w, 'z) modules_scheme \<Rightarrow> addr \<Rightarrow> u32 \<Rightarrow> u32 \<Rightarrow> bool" where
  "dll_trackable m h r s = (\<forall>t. map_of (mo_history m) h = Some t \<longrightarrow> et_writable t r s)"

lemma modules_ok_hist: "modules_ok m = dlls.hist_ok (mo_history m)"
  by (simp add: modules_ok_def dlls.hist_ok_def)

lemma dll_live_hist: "dll_live m r s = dlls.live (mo_history m) r s"
  by (simp add: dll_live_def dlls.live_def)

lemma dll_trackable_hist: "dll_trackable m h r s = dlls.can_track (mo_history m) h r s"
  by (simp add: dll_trackable_def dlls.can_track_def)

lemma restore_dlls_spec:
  assumes "modules_ok m"
  shows "\<exists>ds. restore_dlls_at_sequence fr fs tr ts m = Some ds \<and> distinct (map di_dll_handle ds)
    \<and> di_dll_handle ` set ds = dll_live m fr fs - dll_live m tr ts
    \<and> (\<forall>d\<in>set ds. hist_view (mo_history m) (di_dll_handle d) fr fs = Some d \<and> di_loaded d)"
proof -
  have ok: "dlls.hist_ok (mo_history m)" using assms by (simp add: modules_ok_hist)
  let ?now = "loaded_at di_loaded fr fs (mo_history m)"
  let ?ds = "filter (\<lambda>c. di_dll_handle c \<notin> dlls.live (mo_history m) tr ts) ?now"
  have "restore_dlls_at_sequence fr fs tr ts m = Some ?ds"
    by (simp add: restore_dlls_at_sequence_def dlls.scan[OF ok] dlls.left_over(1)[OF ok])
  moreover have "distinct (map di_dll_handle ?ds)"
    using dlls.keys_loaded_at(2)[OF ok, of fr fs] by (rule distinct_map_filter)
  moreover have "di_dll_handle ` set ?ds = dll_live m fr fs - dll_live m tr ts"
    unfolding dll_live_hist by (rule dlls.left_over(2)[OF ok])
  moreover have "hist_view (mo_history m) (di_dll_handle d) fr fs = Some d \<and> di_loaded d" if d: "d \<in> set ?ds" for d
  proof -
    obtain h t where t: "(h, t) \<in> set (mo_history m)" "et_view t fr fs = Some d" "di_loaded d"
      using d by (auto simp: loaded_at_iff)
    then show ?thesis using dlls.hist_okD[OF ok t(1)] by (simp add: hist_view_def)
  qed
  ultimately show ?thesis by blast
qed

text \<open>
  C30: The DLLs to unload are those loaded now and not at the target.  RestoreDLLsAtSequence returns
  the current record of exactly the modules that are loaded at the current point and not loaded at
  the target, each once.
\<close>

theorem restore_dlls_difference:
  assumes "modules_ok m"
  shows "\<exists>ds. restore_dlls_at_sequence fr fs tr ts m = Some ds \<and> distinct (map di_dll_handle ds)
    \<and> di_dll_handle ` set ds = dll_live m fr fs - dll_live m tr ts
    \<and> (\<forall>d\<in>set ds. hist_view (mo_history m) (di_dll_handle d) fr fs = Some d \<and> di_loaded d)"
  by (rule restore_dlls_spec[OF assms])

text \<open>
  C29: Tracking and untracking set whether one module is loaded.  After TrackDLL at (r, s) the module
  is loaded from s on in run r, after UntrackDLL it is not, and no other module and no other point
  changes; the table stays consistent.
\<close>

theorem track_untrack_dll:
  assumes "modules_ok m" "dll_trackable m h r s" "s \<le> s'"
  shows "modules_ok (track_dll h name g r s m) \<and> modules_ok (untrack_dll h g r s m)
    \<and> h \<in> dll_live (track_dll h name g r s m) r s' \<and> h \<notin> dll_live (untrack_dll h g r s m) r s'
    \<and> (\<forall>h' q u. h' \<noteq> h \<longrightarrow> (h' \<in> dll_live (track_dll h name g r s m) q u \<longleftrightarrow> h' \<in> dll_live m q u)
         \<and> (h' \<in> dll_live (untrack_dll h g r s m) q u \<longleftrightarrow> h' \<in> dll_live m q u))"
proof -
  have ok: "dlls.hist_ok (mo_history m)" using assms(1) by (simp add: modules_ok_hist)
  have can: "dlls.can_track (mo_history m) h r s" using assms(2) by (simp add: dll_trackable_hist)
  have t: "mo_history (track_dll h name g r s m) =
      hist_track dll_zero h (dll_state h name True) r s g (mo_history m)" by (simp add: track_dll_def)
  have u: "mo_history (untrack_dll h g r s m) = (if h \<in> fst ` set (mo_history m)
      then hist_track dll_zero h (dll_state h n False) r s g (mo_history m) else mo_history m)"
    if "n = (case map_of (smap_modify h [] (\<lambda>n. n) (mo_address_to_name m)) h of Some n \<Rightarrow> n | None \<Rightarrow> [])" for n
    using that by (simp add: untrack_dll_def Let_def)
  have absent: "h \<notin> dlls.live (mo_history m) r s'" if "h \<notin> fst ` set (mo_history m)"
    using that by (auto simp: dlls.live_def hist_view_def map_of_eq_None_iff[THEN iffD2])
  show ?thesis
    using dlls.track(1)[OF ok can] dlls.live_track[OF ok can assms(3)] absent ok
    by (auto simp: modules_ok_hist dll_live_hist t u[OF refl])
qed

section \<open>Unloading code\<close>

definition dll_unload_code :: "addr \<Rightarrow> byte list" where
  "dll_unload_code ldr_unload_dll =
     memcpy_at 12 (word_le ldr_unload_dll)
       ([0x48, 0xB9] @ replicate 8 0 @ [0x48, 0xB8] @ replicate 8 0 @ [0xFF, 0xD0])"

definition copy_dll_unload :: "addr \<Rightarrow> nat \<times> dll_info \<Rightarrow> byte list \<Rightarrow> byte list" where
  "copy_dll_unload ldr_unload_dll = (\<lambda>(dll_count, dll_info) code_line.
     memcpy_at (dll_count * 22 + 2 + 4) (word_le (di_dll_handle dll_info))
       (memcpy_at (dll_count * 22 + 4) (dll_unload_code ldr_unload_dll) code_line))"

definition dll_unload_line :: "addr \<Rightarrow> dll_info list \<Rightarrow> byte list" where
  "dll_unload_line ldr_unload_dll dlls_to_unload =
     (let n = length dlls_to_unload;
          code_line = memcpy_at 0 [0x48, 0x83, 0xEC, 0x28] (replicate (n * 22 + 8 + 1) 0);
          code_line = fold (copy_dll_unload ldr_unload_dll) (zip [0..<n] dlls_to_unload) code_line;
          code_line = memcpy_at (n * 22 + 4) [0x48, 0x83, 0xC4, 0x28] code_line
      in code_line[length code_line - 1 := 0xCC])"

definition add_dll_unload :: "'w win32 \<Rightarrow> dll_info list \<Rightarrow> ('w, 'z) modules_scheme \<Rightarrow> u64 \<times> ('w, 'z) modules_scheme" where
  "add_dll_unload W dlls_to_unload m =
     (let code_line = dll_unload_line (w_proc_address W ''LdrUnloadDll'') dlls_to_unload
      in (of_nat (length code_line), m \<lparr> sc_buffer := sc_buffer m @ code_line \<rparr>))"

definition write_shell_code_buffer_to_process :: "'w win32 \<Rightarrow> ('w, 'z) modules_scheme \<Rightarrow> addr \<times> ('w, 'z) modules_scheme" where
  "write_shell_code_buffer_to_process W m =
     (let total_code_size = length (sc_buffer m);
          (a, w) = w_virtual_alloc W (m_world m) 0 (of_nat total_code_size) (or MEM_COMMIT MEM_RESERVE) PAGE_EXECUTE_READWRITE;
          m = snd (write_mem W a (sc_buffer m) (m \<lparr> m_world := w \<rparr>));
          m = flush_icache W a total_code_size m
      in (a, m \<lparr> sc_buffer := [] \<rparr>))"

text \<open>The size given to the flush is that of the region found, uninitialised when none is found.\<close>

definition free_shell_code_at_address :: "'w win32 \<Rightarrow> addr \<Rightarrow> ('w, 'z) machine_scheme \<Rightarrow> ('w, 'z) machine_scheme option" where
  "free_shell_code_at_address W shell_address m =
     (case w_virtual_query W (m_world m) shell_address of
        None \<Rightarrow> None
      | Some i \<Rightarrow>
          (let m = m \<lparr> m_world := snd (w_virtual_free W (m_world m) shell_address 0 MEM_RELEASE) \<rparr>
           in Some (flush_icache W shell_address (unat (mbi_RegionSize i)) m)))"

text \<open>The instructions the code is meant to consist of, and their encodings.\<close>

datatype unload_instr = Sub_rsp byte | Mov_rcx addr | Mov_rax addr | Call_rax | Add_rsp byte | Int3

fun encode_instr :: "unload_instr \<Rightarrow> byte list" where
  "encode_instr (Sub_rsp n) = [0x48, 0x83, 0xEC, n]"
| "encode_instr (Mov_rcx v) = [0x48, 0xB9] @ word_le v"
| "encode_instr (Mov_rax v) = [0x48, 0xB8] @ word_le v"
| "encode_instr Call_rax = [0xFF, 0xD0]"
| "encode_instr (Add_rsp n) = [0x48, 0x83, 0xC4, n]"
| "encode_instr Int3 = [0xCC]"

definition unload_program :: "addr \<Rightarrow> dll_info list \<Rightarrow> unload_instr list" where
  "unload_program ldr_unload_dll dlls =
     Sub_rsp 0x28 # concat (map (\<lambda>d. [Mov_rcx (di_dll_handle d), Mov_rax ldr_unload_dll, Call_rax]) dlls)
     @ [Add_rsp 0x28, Int3]"

lemma dll_unload_code_eq:
  "dll_unload_code a = [0x48, 0xB9] @ replicate 8 0 @ [0x48, 0xB8] @ word_le a @ [0xFF, 0xD0]"
  by (simp add: dll_unload_code_def memcpy_at_def numeral_eq_Suc)

lemma memcpy_at_mid:
  assumes "length xs = n" "length ys = length src"
  shows "memcpy_at n src (xs @ ys @ zs) = xs @ src @ zs"
  using assms by (simp add: memcpy_at_def)

definition one_unload :: "addr \<Rightarrow> dll_info \<Rightarrow> byte list" where
  "one_unload a d = [0x48, 0xB9] @ word_le (di_dll_handle d) @ [0x48, 0xB8] @ word_le a @ [0xFF, 0xD0]"

lemma length_one_unload [simp]: "length (one_unload a d) = 22"
  by (simp add: one_unload_def)

lemma copy_dll_unload_eq:
  assumes "length pre = n * 22 + 4" "length mid = 22"
  shows "copy_dll_unload a (n, d) (pre @ mid @ post) = pre @ one_unload a d @ post"
proof -
  have 1: "memcpy_at (n * 22 + 4) (dll_unload_code a) (pre @ mid @ post) = pre @ dll_unload_code a @ post"
    using assms by (intro memcpy_at_mid) (simp_all add: dll_unload_code_eq)
  have "pre @ dll_unload_code a @ post =
      (pre @ [0x48, 0xB9]) @ replicate 8 0 @ ([0x48, 0xB8] @ word_le a @ [0xFF, 0xD0] @ post)"
    by (simp add: dll_unload_code_eq)
  then have "memcpy_at (n * 22 + 2 + 4) (word_le (di_dll_handle d)) (pre @ dll_unload_code a @ post) =
      (pre @ [0x48, 0xB9]) @ word_le (di_dll_handle d) @ ([0x48, 0xB8] @ word_le a @ [0xFF, 0xD0] @ post)"
    using assms(1) by (simp only:) (intro memcpy_at_mid; simp)
  then show ?thesis by (simp add: copy_dll_unload_def 1 one_unload_def)
qed

lemma copy_all_unloads:
  assumes "length post = (length ds - k) * 22 + 5" "length pre = k * 22 + 4" "k \<le> length ds"
  shows "\<exists>post'. fold (copy_dll_unload a) (zip [k..<length ds] (drop k ds)) (pre @ post)
      = pre @ concat (map (one_unload a) (drop k ds)) @ post' \<and> length post' = 5 \<and> post' = drop ((length ds - k) * 22) post"
  using assms
proof (induction "length ds - k" arbitrary: k pre post)
  case 0
  then show ?case by simp
next
  case (Suc j)
  then have k: "k < length ds" by simp
  let ?mid = "take 22 post" and ?rest = "drop 22 post"
  have len: "length ?mid = 22" "length ?rest = (length ds - Suc k) * 22 + 5"
    using Suc.prems(1) k by (simp_all add: diff_mult_distrib Suc_diff_Suc[symmetric])
  have step: "copy_dll_unload a (k, ds ! k) (pre @ post) = (pre @ one_unload a (ds ! k)) @ ?rest"
    using copy_dll_unload_eq[OF Suc.prems(2) len(1), of a "ds ! k" ?rest] by simp
  have z: "zip [k..<length ds] (drop k ds) = (k, ds ! k) # zip [Suc k..<length ds] (drop (Suc k) ds)"
    using k by (simp add: upt_conv_Cons Cons_nth_drop_Suc[symmetric])
  have "\<exists>post'. fold (copy_dll_unload a) (zip [Suc k..<length ds] (drop (Suc k) ds)) ((pre @ one_unload a (ds ! k)) @ ?rest)
      = (pre @ one_unload a (ds ! k)) @ concat (map (one_unload a) (drop (Suc k) ds)) @ post'
      \<and> length post' = 5 \<and> post' = drop ((length ds - Suc k) * 22) ?rest"
    using Suc.hyps(2) Suc.prems(2) k len(2) by (intro Suc.hyps(1)) auto
  moreover have num: "(length ds - k) * 22 = (length ds - Suc k) * 22 + 22" using k by (simp add: Suc_diff_Suc[symmetric])
  moreover have dr: "drop k ds = ds ! k # drop (Suc k) ds" using k by (simp add: Cons_nth_drop_Suc)
  moreover have "drop ((length ds - Suc k) * 22) ?rest = drop ((length ds - k) * 22) post"
    unfolding num by (simp add: add.commute)
  ultimately show ?case unfolding z fold_simps step num by (simp add: dr add.commute)
qed

lemma dll_unload_line_eq:
  "dll_unload_line a ds = [0x48, 0x83, 0xEC, 0x28] @ concat (map (one_unload a) ds) @ [0x48, 0x83, 0xC4, 0x28, 0xCC]"
proof -
  let ?n = "length ds"
  let ?head = "[0x48, 0x83, 0xEC, 0x28] :: byte list"
  have 1: "memcpy_at 0 ?head (replicate (?n * 22 + 8 + 1) 0) = ?head @ replicate (?n * 22 + 5) 0"
    by (simp add: memcpy_at_def)
  have len: "length (concat (map (one_unload a) ds)) = ?n * 22" by (induction ds) simp_all
  obtain post where 2: "fold (copy_dll_unload a) (zip [0..<?n] ds) (?head @ replicate (?n * 22 + 5) 0)
      = ?head @ concat (map (one_unload a) ds) @ post" "length post = 5"
    using copy_all_unloads[of "replicate (?n * 22 + 5) 0" ds 0 ?head a] by auto
  obtain p1 p2 where post: "post = p1 @ [p2]" "length p1 = 4"
    using 2(2) by (metis Suc_eq_numeral append_butlast_last_id length_butlast list.size(3) pred_numeral_simps(3)
        diff_Suc_1 zero_neq_numeral numeral_eq_Suc)
  have 3: "memcpy_at (?n * 22 + 4) [0x48, 0x83, 0xC4, 0x28] (?head @ concat (map (one_unload a) ds) @ post)
      = (?head @ concat (map (one_unload a) ds)) @ [0x48, 0x83, 0xC4, 0x28] @ [p2]"
    using memcpy_at_mid[where xs = "?head @ concat (map (one_unload a) ds)" and n = "?n * 22 + 4" and ys = p1
        and src = "[0x48, 0x83, 0xC4, 0x28]" and zs = "[p2]"]
    by (simp add: post len)
  have upd_last: "(xs @ [x])[length (xs @ [x]) - 1 := y] = xs @ [y]" for xs and x y :: byte by simp
  show ?thesis
    unfolding dll_unload_line_def Let_def 1 2(1) 3
    using upd_last[of "(?head @ concat (map (one_unload a) ds)) @ [0x48, 0x83, 0xC4, 0x28]" p2 "0xCC"] by simp
qed

text \<open>
  C36: The injected code unloads exactly the given DLLs and ends in int3.  The bytes AddDllUnload
  builds with its block copies are the encodings, in order and without a gap, of the instructions
  it names: reserve the stack, call LdrUnloadDll with each handle in turn, release the stack, and
  int3 as the last of 22 bytes per DLL and 9 more; they are appended to the buffer.
\<close>

theorem dll_unload_code_layout:
  "fst (add_dll_unload W ds m) = of_nat (22 * length ds + 9)
    \<and> sc_buffer (snd (add_dll_unload W ds m)) = sc_buffer m
        @ concat (map encode_instr (unload_program (w_proc_address W ''LdrUnloadDll'') ds))
    \<and> last (sc_buffer (snd (add_dll_unload W ds m))) = 0xCC"
proof -
  let ?a = "w_proc_address W ''LdrUnloadDll''"
  have "concat (map encode_instr (concat (map (\<lambda>d. [Mov_rcx (di_dll_handle d), Mov_rax ?a, Call_rax]) ds)))
      = concat (map (one_unload ?a) ds)" by (induction ds) (simp_all add: one_unload_def)
  then have code: "concat (map encode_instr (unload_program ?a ds)) = dll_unload_line ?a ds"
    by (simp add: unload_program_def dll_unload_line_eq)
  have "length (concat (map (one_unload ?a) ds)) = length ds * 22" by (induction ds) simp_all
  then have "length (dll_unload_line ?a ds) = 22 * length ds + 9" by (simp add: dll_unload_line_eq)
  then show ?thesis by (simp add: add_dll_unload_def code dll_unload_line_eq[of ?a ds])
qed

section \<open>A concrete state\<close>

definition modules_init :: "'w memories \<Rightarrow> 'w modules" where
  "modules_init s = memories.extend s \<lparr> mo_address_to_name = [], mo_history = [], sc_buffer = [] \<rparr>"

lemma modules_init_history [simp]: "mo_history (modules_init s) = []"
  by (simp add: modules_init_def memories.extend_def)

text \<open>Module 32 loaded at (1, 2) and module 16 at (1, 5).\<close>

definition two_modules :: "(addr \<Rightarrow> byte) modules" where
  "two_modules = track_dll 16 [65] 2 1 5 (track_dll 32 [66] 1 1 2 (modules_init (memories_init (flat_breakpoints (\<lambda>_. 0)))))"

lemma two_modules_history: "hist_view (mo_history two_modules) h r s =
   (if h = 16 \<and> r = 1 \<and> 5 \<le> s then Some (dll_state 16 [65] True)
    else if h = 32 \<and> r = 1 \<and> 2 \<le> s then Some (dll_state 32 [66] True) else None)"
  and two_modules_ok: "modules_ok two_modules"
proof -
  have 1: "dlls.hist_ok []" by (rule dlls.hist_ok_Nil)
  have 2: "dlls.can_track [] 32 1 2" by (simp add: dlls.can_track_def)
  let ?h1 = "hist_track dll_zero 32 (dll_state 32 [66] True) 1 2 1 []"
  have 3: "dlls.can_track ?h1 16 1 5" by (simp add: dlls.can_track_def hist_track_def)
  note t1 = dlls.track[OF 1 2, of dll_zero "[66]" True 1]
  note t2 = dlls.track[OF t1(1) 3, of dll_zero "[65]" True 2]
  have h: "mo_history two_modules = hist_track dll_zero 16 (dll_state 16 [65] True) 1 5 2 ?h1"
    by (simp add: two_modules_def track_dll_def)
  show "modules_ok two_modules" using t2(1) by (simp add: modules_ok_hist h)
  show "hist_view (mo_history two_modules) h r s =
   (if h = 16 \<and> r = 1 \<and> 5 \<le> s then Some (dll_state 16 [65] True)
    else if h = 32 \<and> r = 1 \<and> 2 \<le> s then Some (dll_state 32 [66] True) else None)"
    unfolding h t2(2) t1(2) by (simp add: tl_write_def hist_view_def)
qed

theorem restore_dlls_difference_witness:
  "\<exists>ds. restore_dlls_at_sequence 1 6 1 3 two_modules = Some ds \<and> di_dll_handle ` set ds = {16}"
proof -
  have "dll_live two_modules 1 6 = {16, 32}" "dll_live two_modules 1 3 = {32}"
    by (auto simp: dll_live_def two_modules_history dll_state_def word_le_nat_alt)
  then show ?thesis using restore_dlls_difference[OF two_modules_ok, of 1 6 1 3] by auto
qed

theorem track_untrack_dll_witness:
  "64 \<in> dll_live (track_dll 64 [67] 3 1 7 two_modules) 1 8"
proof -
  have "map_of (mo_history two_modules) 64 = None"
    by (auto simp: two_modules_def track_dll_def hist_track_def)
  then have "dll_trackable two_modules 64 1 7" by (simp add: dll_trackable_def)
  from track_untrack_dll[OF two_modules_ok this, of 8 "[67]" 3] show ?thesis by (simp add: word_le_nat_alt)
qed

text \<open>
  C39: An unload right after the load is lost.  A module that is loaded for the first time and unloaded
  again before anything else is recorded (both at the same run sequence) stays loaded in its history,
  and a later restore to a point where it was not loaded hands it out to be unloaded again.
\<close>

theorem unload_at_load_point_lost:
  assumes "modules_ok m" "h \<notin> fst ` set (mo_history m)" "s \<le> s'" "tr \<noteq> r \<or> ts < s"
  shows "h \<in> dll_live (untrack_dll h g' r s (track_dll h name g r s m)) r s'
    \<and> (\<exists>ds. restore_dlls_at_sequence r s' tr ts (untrack_dll h g' r s (track_dll h name g r s m)) = Some ds
        \<and> h \<in> di_dll_handle ` set ds)"
proof -
  let ?m = "untrack_dll h g' r s (track_dll h name g r s m)"
  have ok: "dlls.hist_ok (mo_history m)" using assms(1) by (simp add: modules_ok_hist)
  obtain y where "mo_history ?m = hist_track dll_zero h (dll_state h y False) r s g'
      (hist_track dll_zero h (dll_state h name True) r s g (mo_history m))"
  proof -
    have "h \<in> fst ` set (hist_track dll_zero h (dll_state h name True) r s g (mo_history m))"
      by (force simp: hist_track_def)
    then show ?thesis using that by (simp add: untrack_dll_def track_dll_def Let_def)
  qed
  then have m: "modules_ok ?m" "hist_view (mo_history ?m) = (hist_view (mo_history m))(h := tl_create r s (dll_state h name True))"
    using dlls.track_shadowed[OF ok assms(2)] by (simp_all add: modules_ok_hist)
  then have live: "h \<in> dll_live ?m r s'" "h \<notin> dll_live ?m tr ts"
    using assms(3,4) by (auto simp: dll_live_def tl_create_def dll_state_def)
  then show ?thesis using restore_dlls_spec[OF m(1), of r s' tr ts] by blast
qed

theorem unload_at_load_point_lost_witness:
  "64 \<in> dll_live (untrack_dll 64 4 1 7 (track_dll 64 [67] 3 1 7 two_modules)) 1 8"
proof -
  have "64 \<notin> fst ` set (mo_history two_modules)"
    by (auto simp: two_modules_def track_dll_def hist_track_def)
  from unload_at_load_point_lost[OF two_modules_ok this, of 7 8 0 1 0 4 "[67]" 3] show ?thesis
    by (simp add: word_le_nat_alt)
qed

end
