(* ===== verification/Loops.thy ===== *)
theory Loops
  imports Prelude
begin

text \<open>
  The shape of every debug loop: one pass through the body ends the loop with a result, goes round
  again with a new state, or has no result (an exception, undefined behaviour).  Whether the loop
  ends depends on the events the debuggee sends, so it is a partial function; \<open>rounds\<close> is the same
  loop cut off after a number of passes, and says when it returns.
\<close>

partial_function (option) loop :: "('s \<Rightarrow> ('s + 'r) option) \<Rightarrow> 's \<Rightarrow> 'r option" where
  "loop body s = do { x \<leftarrow> body s; (case x of Inl s' \<Rightarrow> loop body s' | Inr r \<Rightarrow> Some r) }"

fun rounds :: "nat \<Rightarrow> ('s \<Rightarrow> ('s + 'r) option) \<Rightarrow> 's \<Rightarrow> ('s + 'r) option" where
  "rounds 0 body s = Some (Inl s)"
| "rounds (Suc n) body s = do { x \<leftarrow> body s; (case x of Inl s' \<Rightarrow> rounds n body s' | Inr r \<Rightarrow> Some (Inr r)) }"

lemma loop_again [simp]: "body s = Some (Inl s') \<Longrightarrow> loop body s = loop body s'"
  by (subst loop.simps) simp

lemma loop_done [simp]: "body s = Some (Inr r) \<Longrightarrow> loop body s = Some r"
  by (subst loop.simps) simp

lemma loop_stuck [simp]: "body s = None \<Longrightarrow> loop body s = None"
  by (subst loop.simps) simp

lemma rounds_Suc_iff: "rounds (Suc n) body s = Some (Inr r) \<longleftrightarrow>
    (\<exists>s'. body s = Some (Inl s') \<and> rounds n body s' = Some (Inr r)) \<or> body s = Some (Inr r)"
proof (cases "body s")
  case (Some x)
  then show ?thesis by (cases x) auto
qed simp

lemma rounds_loop: "rounds n body s = Some (Inr r) \<Longrightarrow> loop body s = Some r"
proof (induction n arbitrary: s)
  case (Suc n)
  then show ?case unfolding rounds_Suc_iff by auto
qed simp

lemma loop_rounds:
  assumes "loop body s = Some r"
  shows "\<exists>n. rounds n body s = Some (Inr r)"
proof (rule loop.raw_induct[where P = "\<lambda>body s r. \<exists>n. rounds n body s = Some (Inr r)", OF _ assms], goal_cases)
  case (1 loop' body s r)
  note IH = 1(1) and eq = 1(2)
  from eq obtain x where x: "body s = Some x" "(case x of Inl s' \<Rightarrow> loop' body s' | Inr r \<Rightarrow> Some r) = Some r"
    by (auto simp: bind_eq_Some_conv)
  show ?case
  proof (cases x)
    case (Inl s')
    then have "loop' body s' = Some r" using x(2) by simp
    from IH[OF this] obtain n where "rounds n body s' = Some (Inr r)" by blast
    then show ?thesis using x(1) Inl by (intro exI[of _ "Suc n"]) simp
  next
    case (Inr r')
    then show ?thesis using x by (intro exI[of _ "Suc 0"]) simp
  qed
qed

lemma loop_iff_rounds: "loop body s = Some r \<longleftrightarrow> (\<exists>n. rounds n body s = Some (Inr r))"
  using loop_rounds rounds_loop by metis

text \<open>The invariant rule: what every pass keeps holds of the result.\<close>

lemma loop_invariant:
  assumes "loop body s = Some r" "I s"
    and "\<And>s s'. I s \<Longrightarrow> body s = Some (Inl s') \<Longrightarrow> I s'" "\<And>s r. I s \<Longrightarrow> body s = Some (Inr r) \<Longrightarrow> Q r"
  shows "Q r"
proof -
  have "rounds n body s = Some (Inr r) \<Longrightarrow> I s \<Longrightarrow> Q r" for n
  proof (induction n arbitrary: s)
    case (Suc n)
    then show ?case using assms(3,4) unfolding rounds_Suc_iff by blast
  qed simp
  then show ?thesis using loop_rounds[OF assms(1)] assms(2) by blast
qed

text \<open>The termination rule: a measure that every pass which goes round again makes smaller.\<close>

lemma loop_returns:
  fixes f :: "'s \<Rightarrow> nat"
  assumes "I s"
    and "\<And>s. I s \<Longrightarrow> (\<exists>s'. body s = Some (Inl s') \<and> I s' \<and> f s' < f s) \<or> (\<exists>r. body s = Some (Inr r))"
  shows "\<exists>r. loop body s = Some r"
  using assms(1)
proof (induction "f s" arbitrary: s rule: less_induct)
  case less
  from assms(2)[OF less.prems] show ?case
  proof (elim disjE exE conjE)
    fix s'
    assume s': "body s = Some (Inl s')" "I s'" "f s' < f s"
    then show ?thesis using less.hyps[of s'] by simp
  next
    fix r
    assume "body s = Some (Inr r)"
    then show ?thesis by simp
  qed
qed

text \<open>The divergence rule: a loop that always goes round again does not return.\<close>

lemma loop_diverges:
  assumes "I s" "\<And>s. I s \<Longrightarrow> \<exists>s'. body s = Some (Inl s') \<and> I s'"
  shows "loop body s = None"
proof -
  have "\<not> rounds n body s = Some (Inr r)" for n r
    using assms(1)
  proof (induction n arbitrary: s)
    case (Suc n)
    from assms(2)[OF Suc.prems] obtain s' where "body s = Some (Inl s')" "I s'" by blast
    with Suc.IH[of s'] show ?case by simp
  qed simp
  then show ?thesis using loop_rounds[of body s] by (metis option.exhaust)
qed

end
