(* ===== verification/Remote_Thread.thy ===== *)
theory Remote_Thread
  imports Breakpoints Loops
begin

text \<open>
  The part of \<open>src/src/utils/thread_utils.cpp\<close> that runs code in the debuggee, and
  \<open>add_branch_counting\<close> of \<open>src/src/managers/plugin_manager.cpp\<close>, which uses it to allocate the two
  TLS slots of the branch instrumentation.

  \<open>RunRemoteThreadPumped\<close> starts a worker that creates a remote thread and waits for it, while the
  caller keeps answering debug events.  The worker's own calls are taken to happen before the first
  event is waited for; from then on it is ready exactly when the remote thread has ended.
\<close>

text \<open>One pass of the pump.\<close>

definition pump_round ::
    "'w win32 \<Rightarrow> handle \<Rightarrow> ('w, 'z) breakpoints_scheme \<Rightarrow> (('w, 'z) breakpoints_scheme + u32 \<times> ('w, 'z) breakpoints_scheme) option" where
  "pump_round W h m =
     (case w_thread_exit_code W (m_world m) h of
        Some exit_code \<Rightarrow> Some (Inr (exit_code, m))
      | None \<Rightarrow>
          (case wait_event W 0 m of
             (Inl error, m) \<Rightarrow> Some (Inl m)
           | (Inr de, m) \<Rightarrow>
               let m = (if de_info de = DE_Exception STATUS_BREAKPOINT then
                          (let thread_id = de_thread_id de;
                               (rip, m) = get_rip_address W thread_id m;
                               rip_address = rip - 1
                           in if get_breakpoint_type rip_address thread_id m = Some BP_Permanent
                              then snd (redirect_to_trampoline W rip_address thread_id m) else m)
                        else m)
               in Some (Inl (continue_event W de DBG_CONTINUE m))))"

definition run_remote_thread_pumped ::
    "'w win32 \<Rightarrow> addr \<Rightarrow> addr \<Rightarrow> ('w, 'z) breakpoints_scheme \<Rightarrow> (u32 option \<times> ('w, 'z) breakpoints_scheme) option" where
  "run_remote_thread_pumped W routine param m =
     (let (h, w) = w_create_remote_thread W (m_world m) routine param;
          m = m \<lparr> m_world := w_resume_thread W w h \<rparr>
      in if h = 0 then Some (None, m)
         else do { (exit_code, m) \<leftarrow> loop (pump_round W h) m;
                   Some (Some exit_code, m \<lparr> m_world := w_close_handle W (m_world m) h \<rparr>) })"

text \<open>The index is uninitialised when the remote thread could not be created.\<close>

definition tls_alloc ::
    "'w win32 \<Rightarrow> tls_kind \<Rightarrow> ('w, 'z) breakpoints_scheme \<Rightarrow> (u32 \<times> ('w, 'z) breakpoints_scheme) option" where
  "tls_alloc W kind m =
     do { (exit_code, m) \<leftarrow> run_remote_thread_pumped W (w_proc_address W ''TlsAlloc'') 0 m;
          let tls_index = (case exit_code of Some i \<Rightarrow> i | None \<Rightarrow> le_u32 (w_indeterminate W 4));
          Some (tls_index, m \<lparr> tu_tls_indexes := (tu_tls_indexes m)(kind \<mapsto> tls_index) \<rparr>) }"

definition instrument_language ::
    "u32 \<Rightarrow> u32 \<Rightarrow> string \<Rightarrow> ('w, 'z) plugins_scheme \<Rightarrow> ('w, 'z) plugins_scheme" where
  "instrument_language counter_index target_index language m =
     (case map_of (pm_plugin_apis m) language of
        None \<Rightarrow> m
      | Some api \<Rightarrow> m \<lparr> m_world := snd (pl_add_branch_instrumentation api (m_world m) counter_index target_index) \<rparr>)"

definition add_branch_counting ::
    "'w win32 \<Rightarrow> string list \<Rightarrow> ('w, 'z) breakpoints_scheme \<Rightarrow> ('w, 'z) breakpoints_scheme option" where
  "add_branch_counting W plugin_languages m =
     (if pm_plugin_apis m = [] then Some m
      else do { (counter_index, m) \<leftarrow> tls_alloc W BranchCounter m;
                (target_index, m) \<leftarrow> tls_alloc W BranchTarget m;
                Some (fold (instrument_language counter_index target_index) plugin_languages m) })"

section \<open>The pump returns when the thread ends\<close>

text \<open>The state after n passes of the pump that do not find the thread ended.\<close>

definition pumped :: "'w win32 \<Rightarrow> handle \<Rightarrow> ('w, 'z) breakpoints_scheme \<Rightarrow> ('w, 'z) breakpoints_scheme" where
  "pumped W h m = (case pump_round W h m of Some (Inl m') \<Rightarrow> m' | _ \<Rightarrow> m)"

lemma pump_round_cases:
  "pump_round W h m = (case w_thread_exit_code W (m_world m) h of
     Some exit_code \<Rightarrow> Some (Inr (exit_code, m)) | None \<Rightarrow> Some (Inl (pumped W h m)))"
  by (simp add: pumped_def pump_round_def Let_def split: option.split sum.split prod.split)

lemma pump_loop:
  assumes "\<forall>k<n. w_thread_exit_code W (m_world ((pumped W h ^^ k) m)) h = None"
    and "w_thread_exit_code W (m_world ((pumped W h ^^ n) m)) h = Some code"
  shows "loop (pump_round W h) m = Some (code, (pumped W h ^^ n) m)"
  using assms
proof (induction n arbitrary: m)
  case 0
  then show ?case by (subst loop.simps) (simp add: pump_round_cases)
next
  case (Suc n)
  have "w_thread_exit_code W (m_world m) h = None" using Suc.prems(1) by (metis funpow_0 zero_less_Suc)
  then have 1: "loop (pump_round W h) m = loop (pump_round W h) (pumped W h m)"
    by (intro loop_again) (simp add: pump_round_cases)
  have "\<forall>k<n. w_thread_exit_code W (m_world ((pumped W h ^^ k) (pumped W h m))) h = None"
    using Suc.prems(1) by (metis Suc_less_eq funpow_simps_right(2) o_apply)
  then show ?case unfolding 1
    using Suc.IH[of "pumped W h m"] Suc.prems(2) by (simp add: funpow_swap1)
qed


text \<open>A system whose remote thread has ended at once with code 5.\<close>

definition remote_win32 :: "(addr \<Rightarrow> byte) win32" where
  "remote_win32 = flat_win32 \<lparr> w_create_remote_thread := (\<lambda>w r p. (9, w)), w_thread_exit_code := (\<lambda>w h. Some 5) \<rparr>"


end
