(* ===== verification/Thread_Manager.thy ===== *)
theory Thread_Manager
  imports Module_Manager Remote_Thread
begin

text \<open>
  \<open>src/src/managers/thread_manager.cpp\<close>: the history of every thread's context and branch counter,
  and putting the threads of a recorded point back.

  \<open>current_thread_ids\<close> is a \<open>std::set\<close>: an ascending map to \<open>unit\<close>.  The local \<open>GetThreadContext\<close>
  always returns a context, so the branch of \<open>SnapshotThreads\<close> that skips a thread is never taken.
\<close>

record thread_info =
  ti_thread_id :: thread_id
  ti_thread_context :: cpu_context
  ti_tls_counter :: u64
  ti_loaded :: bool

definition thread_zero :: thread_info where
  "thread_zero = \<lparr> ti_thread_id = 0, ti_thread_context = cpu_zero, ti_tls_counter = 0, ti_loaded = False \<rparr>"

record 'w thread_tables = "'w modules" +
  th_history :: "(thread_id \<times> thread_info etree) list"
  th_current :: "(thread_id, unit) smap"

definition thread_state :: "thread_id \<Rightarrow> cpu_context \<times> u64 \<Rightarrow> bool \<Rightarrow> thread_info" where
  "thread_state tid x b = \<lparr> ti_thread_id = tid, ti_thread_context = fst x, ti_tls_counter = snd x, ti_loaded = b \<rparr>"

definition track_thread ::
    "'w win32 \<Rightarrow> thread_id \<Rightarrow> u64 \<Rightarrow> u32 \<Rightarrow> u32 \<Rightarrow> ('w, 'z) thread_tables_scheme \<Rightarrow> ('w, 'z) thread_tables_scheme" where
  "track_thread W tid global_seq run_id run_seq m =
     (let (h, m) = get_thread_handle W tid m;
          ctx = w_get_context W (m_world m) h;
          (counter, m) = read_thread_tls W tid BranchCounter m
      in m \<lparr> th_current := smap_modify tid () (\<lambda>_. ()) (th_current m),
             th_history := hist_track thread_zero tid (thread_state tid (ctx, counter) True) run_id run_seq global_seq
               (th_history m) \<rparr>)"

definition untrack_thread ::
    "'w win32 \<Rightarrow> thread_id \<Rightarrow> u64 \<Rightarrow> u32 \<Rightarrow> u32 \<Rightarrow> ('w, 'z) thread_tables_scheme \<Rightarrow> ('w, 'z) thread_tables_scheme" where
  "untrack_thread W tid global_seq run_id run_seq m0 =
     (let m = m0 \<lparr> th_current := smap_erase tid (th_current m0) \<rparr> in
      if tid \<in> fst ` set (th_history m) then
        (let (h, m) = get_thread_handle W tid m;
             m = close_handle_for_thread W tid h m;
             (counter, m) = read_thread_tls W tid BranchCounter m
         in m \<lparr> th_history := hist_track thread_zero tid (thread_state tid (cpu_zero, counter) False) run_id run_seq
                  global_seq (th_history m) \<rparr>)
      else m)"

text \<open>\<open>INVALID_HANDLE_VALUE\<close> as the snapshot handle is \<open>None\<close>; a snapshot without threads is empty.\<close>

definition track_all_program_threads ::
    "'w win32 \<Rightarrow> u64 \<Rightarrow> u32 \<Rightarrow> u32 \<Rightarrow> ('w, 'z) thread_tables_scheme \<Rightarrow> ('w, 'z) thread_tables_scheme" where
  "track_all_program_threads W global_seq run_id run_seq m =
     (case w_thread_list W (m_world m) of
        None \<Rightarrow> m
      | Some entries \<Rightarrow>
          fold (\<lambda>(owner, tid) m. if owner = g_process_id m then track_thread W tid global_seq run_id run_seq m else m)
            entries m)"

definition terminate_thread_ids ::
    "'w win32 \<Rightarrow> thread_info list \<Rightarrow> u64 \<Rightarrow> u32 \<Rightarrow> u32 \<Rightarrow> ('w, 'z) thread_tables_scheme \<Rightarrow> ('w, 'z) thread_tables_scheme" where
  "terminate_thread_ids W thread_infos global_seq run_id run_seq m =
     fold (\<lambda>info m.
         (let (h, m) = get_thread_handle W (ti_thread_id info) m;
              m = m \<lparr> m_world := w_terminate_thread W (m_world m) h \<rparr>
          in untrack_thread W (ti_thread_id info) global_seq run_id run_seq m))
       thread_infos m"

definition restore_one_thread ::
    "'w win32 \<Rightarrow> thread_info \<Rightarrow> thread_info list \<times> ('w, 'z) thread_tables_scheme \<Rightarrow>
      thread_info list \<times> ('w, 'z) thread_tables_scheme" where
  "restore_one_thread W snapped = (\<lambda>(current_threads, m).
     if \<exists>c\<in>set current_threads. ti_thread_id snapped = ti_thread_id c
     then (erase_first (\<lambda>c. ti_thread_id c = ti_thread_id snapped) current_threads,
           replace_thread_context W (ti_thread_id snapped) (ti_thread_context snapped) m)
     else (current_threads, m))"

definition restore_threads_at_sequence ::
    "'w win32 \<Rightarrow> u32 \<Rightarrow> u32 \<Rightarrow> u32 \<Rightarrow> u32 \<Rightarrow> ('w, 'z) thread_tables_scheme \<Rightarrow> ('w, 'z) thread_tables_scheme option" where
  "restore_threads_at_sequence W from_run_id from_run_seq to_run_id to_run_seq m =
     do { (snapped_threads, current_threads) \<leftarrow>
            hist_scan ti_loaded from_run_id from_run_seq to_run_id to_run_seq (th_history m);
          let (current_threads, m) = fold (restore_one_thread W) snapped_threads (current_threads, m);
          Some (if 0 < length current_threads
                then terminate_thread_ids W current_threads (g_global_sequence m) from_run_id from_run_seq m else m) }"

text \<open>\<open>process_thread_history.at\<close> throws for a current thread without a history.\<close>

definition snapshot_threads ::
    "'w win32 \<Rightarrow> u64 \<Rightarrow> u32 \<Rightarrow> u32 \<Rightarrow> ('w, 'z) thread_tables_scheme \<Rightarrow> ('w, 'z) thread_tables_scheme option" where
  "snapshot_threads W global_seq run_id run_seq m =
     foldM (\<lambda>tid m.
         (let (h, m) = get_thread_handle W tid m;
              ctx = w_get_context W (m_world m) h;
              (counter, m) = read_thread_tls W tid BranchCounter m
          in if tid \<in> fst ` set (th_history m)
             then Some (m \<lparr> th_history := hist_track thread_zero tid (thread_state tid (ctx, counter) True) run_id run_seq
                              global_seq (th_history m) \<rparr>)
             else None))
       (map fst (th_current m)) m"

definition create_thread_history_branch ::
    "u32 \<Rightarrow> u32 \<Rightarrow> u32 \<Rightarrow> ('w, 'z) thread_tables_scheme \<Rightarrow> ('w, 'z) thread_tables_scheme option" where
  "create_thread_history_branch target_run_id target_run_seq new_run_id m =
     do { h \<leftarrow> hist_branch target_run_id target_run_seq new_run_id (th_history m);
          Some (m \<lparr> th_history := h \<rparr>) }"

section \<open>What the operations keep\<close>

interpretation threads: tracked ti_thread_id ti_loaded thread_state
  by unfold_locales (simp_all add: thread_state_def)

lemma thread_tables_frame [simp]:
  "th_history (snd (get_thread_handle W tid m)) = th_history m"
  "th_current (snd (get_thread_handle W tid m)) = th_current m"
  "th_history (close_handle_for_thread W tid h m) = th_history m"
  "th_current (close_handle_for_thread W tid h m) = th_current m"
  "th_history (snd (read_thread_tls W tid kind m)) = th_history m"
  "th_current (snd (read_thread_tls W tid kind m)) = th_current m"
  "th_history (replace_thread_context W tid ctx m) = th_history m"
  "th_current (replace_thread_context W tid ctx m) = th_current m"
  by (simp_all add: get_thread_handle_def close_handle_for_thread_def read_thread_tls_def tls_subscript_def meta_subscript_def
      replace_thread_context_def Let_def split: prod.split option.split)

text \<open>
  The invariant of the two tables: the history is consistent, and the current threads are those of
  the set, each with a history.
\<close>

definition threads_ok :: "('w, 'z) thread_tables_scheme \<Rightarrow> bool" where
  "threads_ok m = (distinct (map fst (th_history m))
     \<and> (\<forall>(h, t)\<in>set (th_history m). et_wf t \<and> (\<forall>r s d. et_view t r s = Some d \<longrightarrow> ti_thread_id d = h))
     \<and> smap_ok (th_current m) \<and> fst ` set (th_current m) \<subseteq> fst ` set (th_history m))"

definition thread_live :: "('w, 'z) thread_tables_scheme \<Rightarrow> u32 \<Rightarrow> u32 \<Rightarrow> thread_id set" where
  "thread_live m r s = {t. \<exists>d. hist_view (th_history m) t r s = Some d \<and> ti_loaded d}"

definition thread_trackable :: "('w, 'z) thread_tables_scheme \<Rightarrow> thread_id \<Rightarrow> u32 \<Rightarrow> u32 \<Rightarrow> bool" where
  "thread_trackable m tid r s = (\<forall>t. map_of (th_history m) tid = Some t \<longrightarrow> et_writable t r s)"

lemma threads_ok_hist: "threads_ok m = (threads.hist_ok (th_history m) \<and> smap_ok (th_current m)
    \<and> fst ` set (th_current m) \<subseteq> fst ` set (th_history m))"
  by (auto simp: threads_ok_def threads.hist_ok_def)

lemma thread_live_hist: "thread_live m r s = threads.live (th_history m) r s"
  by (simp add: thread_live_def threads.live_def)

lemma thread_trackable_hist: "thread_trackable m h r s = threads.can_track (th_history m) h r s"
  by (simp add: thread_trackable_def threads.can_track_def)

lemma keys_hist_track: "fst ` set (hist_track d0 k d r s g hist) = insert k (fst ` set hist)"
  by (force simp: hist_track_def)

lemma hist_track_other: "k' \<noteq> k \<Longrightarrow> map_of (hist_track d0 k d r s g hist) k' = map_of hist k'"
  by (cases "k \<in> fst ` set hist")
    (simp_all add: hist_track_def map_of_upd_keys map_add_def option.map_ident split: option.split)

lemma track_thread_tables:
  "\<exists>x. th_history (track_thread W tid g r s m) = hist_track thread_zero tid (thread_state tid x True) r s g (th_history m)"
  "th_current (track_thread W tid g r s m) = smap_modify tid () (\<lambda>_. ()) (th_current m)"
  by (simp_all add: track_thread_def Let_def split_def) blast

lemma untrack_thread_tables:
  "\<exists>x. th_history (untrack_thread W tid g r s m) = (if tid \<in> fst ` set (th_history m)
     then hist_track thread_zero tid (thread_state tid x False) r s g (th_history m) else th_history m)"
  "th_current (untrack_thread W tid g r s m) = smap_erase tid (th_current m)"
  by (simp_all add: untrack_thread_def Let_def split_def) blast

lemma track_thread_ok:
  assumes "threads_ok m" "thread_trackable m tid r s"
  shows "threads_ok (track_thread W tid g r s m)"
    and "s \<le> s' \<Longrightarrow> tid \<in> thread_live (track_thread W tid g r s m) r s'"
    and "t \<noteq> tid \<Longrightarrow> hist_view (th_history (track_thread W tid g r s m)) t = hist_view (th_history m) t"
proof -
  have ok: "threads.hist_ok (th_history m)" "threads.can_track (th_history m) tid r s"
    using assms by (simp_all add: threads_ok_hist thread_trackable_hist)
  obtain x where x: "th_history (track_thread W tid g r s m) = hist_track thread_zero tid (thread_state tid x True) r s g (th_history m)"
    using track_thread_tables(1) by blast
  show "threads_ok (track_thread W tid g r s m)"
    using threads.track(1)[OF ok] assms(1)
    by (auto simp: threads_ok_hist x track_thread_tables(2) keys_hist_track keys_smap_modify smap_ok_modify)
  show "s \<le> s' \<Longrightarrow> tid \<in> thread_live (track_thread W tid g r s m) r s'"
    using threads.live_track(1)[OF ok] by (simp add: thread_live_hist x)
  show "t \<noteq> tid \<Longrightarrow> hist_view (th_history (track_thread W tid g r s m)) t = hist_view (th_history m) t"
    by (simp add: x threads.track(2)[OF ok])
qed

lemma untrack_thread_ok:
  assumes "threads_ok m" "thread_trackable m tid r s"
  shows "threads_ok (untrack_thread W tid g r s m)"
    and "s \<le> s' \<Longrightarrow> tid \<notin> thread_live (untrack_thread W tid g r s m) r s'"
    and "t \<noteq> tid \<Longrightarrow> hist_view (th_history (untrack_thread W tid g r s m)) t = hist_view (th_history m) t"
    and "t \<noteq> tid \<Longrightarrow> map_of (th_history (untrack_thread W tid g r s m)) t = map_of (th_history m) t"
proof -
  have ok: "threads.hist_ok (th_history m)" "threads.can_track (th_history m) tid r s"
    using assms by (simp_all add: threads_ok_hist thread_trackable_hist)
  obtain x where x: "th_history (untrack_thread W tid g r s m) = (if tid \<in> fst ` set (th_history m)
      then hist_track thread_zero tid (thread_state tid x False) r s g (th_history m) else th_history m)"
    using untrack_thread_tables(1) by blast
  have erase: "fst ` set (smap_erase tid (th_current m)) \<subseteq> fst ` set (th_history m)"
    using assms(1) by (auto simp: threads_ok_def smap_erase_def)
  show "threads_ok (untrack_thread W tid g r s m)"
    using threads.track(1)[OF ok] assms(1) erase
    by (auto simp: threads_ok_hist x untrack_thread_tables(2) keys_hist_track smap_ok_erase)
  have "tid \<notin> threads.live (th_history m) r s'" if "tid \<notin> fst ` set (th_history m)" for s'
    using that by (auto simp: threads.live_def hist_view_def map_of_eq_None_iff[THEN iffD2])
  then show "s \<le> s' \<Longrightarrow> tid \<notin> thread_live (untrack_thread W tid g r s m) r s'"
    using threads.live_track(1)[OF ok] by (simp add: thread_live_hist x)
  show "t \<noteq> tid \<Longrightarrow> hist_view (th_history (untrack_thread W tid g r s m)) t = hist_view (th_history m) t"
    by (simp add: x threads.track(2)[OF ok])
  show "t \<noteq> tid \<Longrightarrow> map_of (th_history (untrack_thread W tid g r s m)) t = map_of (th_history m) t"
    by (simp add: x hist_track_other)
qed

text \<open>
  C28: Tracking and untracking keep the thread tables consistent.  Both keep the invariant that the
  history is one well-formed tree per thread holding that thread's states and that every current
  thread has a history; after TrackThread at (r, s) the thread is loaded and current, after
  UntrackThread it is neither, and the histories of all other threads are untouched.
\<close>

theorem track_untrack_thread:
  assumes "threads_ok m" "thread_trackable m tid r s" "s \<le> s'"
  shows "threads_ok (track_thread W tid g r s m) \<and> threads_ok (untrack_thread W tid g r s m)
    \<and> tid \<in> thread_live (track_thread W tid g r s m) r s' \<and> tid \<notin> thread_live (untrack_thread W tid g r s m) r s'
    \<and> fst ` set (th_current (track_thread W tid g r s m)) = insert tid (fst ` set (th_current m))
    \<and> fst ` set (th_current (untrack_thread W tid g r s m)) = fst ` set (th_current m) - {tid}
    \<and> (\<forall>t. t \<noteq> tid \<longrightarrow> hist_view (th_history (track_thread W tid g r s m)) t = hist_view (th_history m) t
         \<and> hist_view (th_history (untrack_thread W tid g r s m)) t = hist_view (th_history m) t)"
  using track_thread_ok[OF assms(1,2)] untrack_thread_ok[OF assms(1,2)] assms(3)
  by (auto simp: track_thread_tables(2) untrack_thread_tables(2) keys_smap_modify smap_erase_def)

section \<open>Restoring\<close>

lemma erase_first_none: "\<forall>x\<in>set xs. \<not> P x \<Longrightarrow> erase_first P xs = xs"
  by (induction xs) simp_all

lemma restore_threads_left:
  "fst (fold (restore_one_thread W) ds (cs, m)) = fold (\<lambda>d. erase_first (\<lambda>c. ti_thread_id c = ti_thread_id d)) ds cs"
  "th_history (snd (fold (restore_one_thread W) ds (cs, m))) = th_history m"
  "th_current (snd (fold (restore_one_thread W) ds (cs, m))) = th_current m"
proof -
  have 1: "restore_one_thread W d (cs, m) = (erase_first (\<lambda>c. ti_thread_id c = ti_thread_id d) cs,
      snd (restore_one_thread W d (cs, m)))" for d cs m
  proof (cases "\<exists>c\<in>set cs. ti_thread_id d = ti_thread_id c")
    case False
    then have "\<forall>c\<in>set cs. \<not> ti_thread_id c = ti_thread_id d" by metis
    from erase_first_none[OF this] show ?thesis using False by (simp add: restore_one_thread_def)
  qed (simp add: restore_one_thread_def)
  show "fst (fold (restore_one_thread W) ds (cs, m)) = fold (\<lambda>d. erase_first (\<lambda>c. ti_thread_id c = ti_thread_id d)) ds cs"
  proof (induction ds arbitrary: cs m)
    case (Cons d ds)
    show ?case unfolding fold_simps o_apply by (subst 1) (rule Cons.IH)
  qed simp
  have 2: "th_history (snd (restore_one_thread W d st)) = th_history (snd st)"
    "th_current (snd (restore_one_thread W d st)) = th_current (snd st)" for d st
    by (cases st; simp add: restore_one_thread_def)+
  have "th_history (snd (fold (restore_one_thread W) ds st)) = th_history (snd st)
      \<and> th_current (snd (fold (restore_one_thread W) ds st)) = th_current (snd st)" for st
    by (induction ds arbitrary: st) (simp_all add: 2)
  from this[of "(cs, m)"] show "th_history (snd (fold (restore_one_thread W) ds (cs, m))) = th_history m"
    "th_current (snd (fold (restore_one_thread W) ds (cs, m))) = th_current m" by simp_all
qed

lemma terminate_ok:
  assumes "threads_ok m" "distinct (map ti_thread_id ds)" "\<forall>d\<in>set ds. thread_trackable m (ti_thread_id d) r s"
  shows "threads_ok (terminate_thread_ids W ds g r s m)
    \<and> (\<forall>s'. s \<le> s' \<longrightarrow> thread_live (terminate_thread_ids W ds g r s m) r s' = thread_live m r s' - ti_thread_id ` set ds)
    \<and> fst ` set (th_current (terminate_thread_ids W ds g r s m)) = fst ` set (th_current m) - ti_thread_id ` set ds"
  using assms
proof (induction ds arbitrary: m)
  case (Cons d ds)
  let ?tid = "ti_thread_id d"
  let ?m0 = "snd (get_thread_handle W ?tid m) \<lparr> m_world := w_terminate_thread W (m_world (snd (get_thread_handle W ?tid m)))
      (fst (get_thread_handle W ?tid m)) \<rparr>"
  let ?m1 = "untrack_thread W ?tid g r s ?m0"
  have h0: "th_history ?m0 = th_history m" "th_current ?m0 = th_current m" by simp_all
  have ok: "threads_ok ?m0" "thread_trackable ?m0 ?tid r s"
    using Cons.prems(1,3) unfolding threads_ok_def thread_trackable_def h0 by auto
  note u = untrack_thread_ok[OF ok, where W = W and g = g]
  have step: "terminate_thread_ids W (d # ds) g r s m = terminate_thread_ids W ds g r s ?m1"
    by (simp add: terminate_thread_ids_def Let_def split_def)
  have others: "thread_trackable ?m1 (ti_thread_id e) r s" if "e \<in> set ds" for e
  proof -
    have "ti_thread_id e \<noteq> ?tid" using that Cons.prems(2) by (metis distinct.simps(2) imageI list.simps(9) set_map)
    then show ?thesis using u(4) Cons.prems(3) that by (simp add: thread_trackable_def h0)
  qed
  note IH = Cons.IH[OF u(1) _ ballI, OF _ others]
  have live1: "thread_live ?m1 r s' = thread_live m r s' - {?tid}" if "s \<le> s'" for s'
  proof (rule set_eqI)
    fix x
    show "x \<in> thread_live ?m1 r s' \<longleftrightarrow> x \<in> thread_live m r s' - {?tid}"
    proof (cases "x = ?tid")
      case True
      then show ?thesis using u(2)[OF that] by simp
    next
      case False
      then show ?thesis by (simp add: thread_live_def u(3)[OF False] h0)
    qed
  qed
  have cur1: "fst ` set (th_current ?m1) = fst ` set (th_current m) - {?tid}"
    by (auto simp: untrack_thread_tables(2) h0 smap_erase_def)
  show ?case unfolding step using IH Cons.prems(2) live1 cur1 by auto
qed (simp add: terminate_thread_ids_def)

text \<open>
  C19: Restoring leaves the threads of the target.  When the tables are consistent and the threads to
  terminate can be written at the current point, RestoreThreadsAtSequence returns, keeps the
  tables consistent, and the threads loaded at the current point are then exactly those that were
  loaded there and are loaded at the target; the others are no longer current.
\<close>

theorem restore_threads_leaves_target:
  assumes "threads_ok m" "\<forall>t\<in>thread_live m fr fs - thread_live m tr ts. thread_trackable m t fr fs"
  shows "\<exists>m'. restore_threads_at_sequence W fr fs tr ts m = Some m' \<and> threads_ok m'
    \<and> thread_live m' fr fs = thread_live m fr fs \<inter> thread_live m tr ts
    \<and> fst ` set (th_current m') = fst ` set (th_current m) - (thread_live m fr fs - thread_live m tr ts)"
proof -
  have ok: "threads.hist_ok (th_history m)" using assms(1) by (simp add: threads_ok_hist)
  let ?to = "loaded_at ti_loaded tr ts (th_history m)" and ?now = "loaded_at ti_loaded fr fs (th_history m)"
  let ?left = "filter (\<lambda>c. ti_thread_id c \<notin> threads.live (th_history m) tr ts) ?now"
  obtain cs m1 where run: "fold (restore_one_thread W) ?to (?now, m) = (cs, m1)" by fastforce
  have cs: "cs = ?left" "th_history m1 = th_history m" "th_current m1 = th_current m"
    using restore_threads_left[of W ?to ?now m] threads.left_over(1)[OF ok, of tr ts fr fs] by (simp_all add: run)
  have ids: "ti_thread_id ` set ?left = thread_live m fr fs - thread_live m tr ts"
    unfolding thread_live_hist by (rule threads.left_over(2)[OF ok])
  have dist: "distinct (map ti_thread_id ?left)" using threads.keys_loaded_at(2)[OF ok] by (rule distinct_map_filter)
  let ?m2 = "terminate_thread_ids W ?left (g_global_sequence m1) fr fs m1"
  have ok1: "threads_ok m1" using assms(1) unfolding threads_ok_def cs(2,3) .
  have tr1: "\<forall>d\<in>set ?left. thread_trackable m1 (ti_thread_id d) fr fs"
    using assms(2) imageI[of _ "set ?left" ti_thread_id] unfolding thread_trackable_def cs(2) ids by blast
  note t = terminate_ok[OF ok1 dist tr1, where W = W and g = "g_global_sequence m1"]
  have "restore_threads_at_sequence W fr fs tr ts m = Some (if 0 < length ?left then ?m2 else m1)"
    by (simp add: restore_threads_at_sequence_def threads.scan[OF ok] run cs(1))
  moreover have "(if 0 < length ?left then ?m2 else m1) = ?m2"
    by (simp add: terminate_thread_ids_def)
  moreover have "thread_live m1 fr fs = thread_live m fr fs" by (simp add: thread_live_def cs(2))
  ultimately show ?thesis using t unfolding ids by (auto simp: cs(3))
qed


section \<open>A concrete state\<close>

definition thread_tables_init :: "'w modules \<Rightarrow> 'w thread_tables" where
  "thread_tables_init s = modules.extend s \<lparr> th_history = [], th_current = [] \<rparr>"

lemma thread_tables_init_simps [simp]:
  "th_history (thread_tables_init s) = []" "th_current (thread_tables_init s) = []"
  by (simp_all add: thread_tables_init_def modules.extend_def)

text \<open>Thread 5 since (1, 2) and thread 9 since (1, 5).\<close>

definition one_thread :: "(addr \<Rightarrow> byte) thread_tables" where
  "one_thread = track_thread flat_win32 5 1 1 2 (thread_tables_init (modules_init (memories_init (flat_breakpoints (\<lambda>_. 0)))))"

definition two_threads :: "(addr \<Rightarrow> byte) thread_tables" where
  "two_threads = track_thread flat_win32 9 2 1 5 one_thread"

lemma two_threads_facts:
  "threads_ok two_threads" "thread_live two_threads 1 6 = {5, 9}" "thread_live two_threads 1 3 = {5}"
  "thread_trackable two_threads 9 1 6"
proof -
  have ok0: "threads_ok (thread_tables_init s)" "thread_trackable (thread_tables_init s) t r q" for s :: "(addr \<Rightarrow> byte) modules" and t r q
    by (simp_all add: threads_ok_def thread_trackable_def)
  obtain x where x: "th_history one_thread = hist_track thread_zero 5 (thread_state 5 x True) 1 2 1 []"
    using track_thread_tables(1)[of flat_win32 5 1 1 2] unfolding one_thread_def by (metis thread_tables_init_simps(1))
  obtain y where y: "th_history two_threads = hist_track thread_zero 9 (thread_state 9 y True) 1 5 2 (th_history one_thread)"
    using track_thread_tables(1)[of flat_win32 9 2 1 5 one_thread] unfolding two_threads_def by blast
  have ok1: "threads_ok one_thread" unfolding one_thread_def by (rule track_thread_ok(1)[OF ok0])
  have tr1: "thread_trackable one_thread 9 1 5" by (simp add: thread_trackable_def x hist_track_def)
  show "threads_ok two_threads" unfolding two_threads_def by (rule track_thread_ok(1)[OF ok1 tr1])
  have "threads.hist_ok []" "threads.can_track [] 5 1 2" by (rule threads.hist_ok_Nil) (simp add: threads.can_track_def)
  note t1 = threads.track(2)[OF this, of thread_zero x True 1, folded x]
  have "threads.hist_ok (th_history one_thread)" "threads.can_track (th_history one_thread) 9 1 5"
    using ok1 tr1 by (simp_all add: threads_ok_hist thread_trackable_hist)
  note t2 = threads.track(2)[OF this, of thread_zero y True 2, folded y]
  show "thread_live two_threads 1 6 = {5, 9}" "thread_live two_threads 1 3 = {5}"
    by (auto simp: thread_live_def t2 t1 tl_write_def hist_view_def thread_state_def word_le_nat_alt)
  have "map_of (th_history two_threads) 9 = Some (et_new thread_zero (thread_state 9 y True) 1 5 2)"
    by (simp add: y x hist_track_def)
  then show "thread_trackable two_threads 9 1 6"
    by (simp add: thread_trackable_def et_new_laws(3) word_less_nat_alt)
qed

lemma two_threads_view: "\<exists>d. hist_view (th_history two_threads) 5 1 4 = Some d \<and> ti_loaded d"
proof -
  have "threads_ok (thread_tables_init s)" "thread_trackable (thread_tables_init s) 5 1 2" for s :: "(addr \<Rightarrow> byte) modules"
    by (simp_all add: threads_ok_def thread_trackable_def)
  note one = track_thread_ok[OF this, folded one_thread_def]
  obtain x where x: "th_history one_thread = hist_track thread_zero 5 (thread_state 5 x True) 1 2 1 []"
    using track_thread_tables(1)[of flat_win32 5 1 1 2] unfolding one_thread_def by (metis thread_tables_init_simps(1))
  have tr: "thread_trackable one_thread 9 1 5" by (simp add: thread_trackable_def x hist_track_def)
  have "hist_view (th_history two_threads) 5 = hist_view (th_history one_thread) 5"
    unfolding two_threads_def using one(1) by (intro track_thread_ok(3)[OF _ tr]) (simp_all add: one_thread_def)
  moreover have "5 \<in> thread_live one_thread 1 4" unfolding one_thread_def using one(2) by (simp add: word_le_nat_alt one_thread_def)
  ultimately show ?thesis by (simp add: thread_live_def)
qed

theorem track_untrack_thread_witness:
  "9 \<notin> thread_live (untrack_thread flat_win32 9 3 1 6 two_threads) 1 7"
  using track_untrack_thread[OF two_threads_facts(1,4), of 7] by (simp add: word_le_nat_alt)

theorem restore_threads_leaves_target_witness:
  "\<exists>m'. restore_threads_at_sequence flat_win32 1 6 1 3 two_threads = Some m' \<and> thread_live m' 1 6 = {5}"
proof -
  have "\<forall>t\<in>thread_live two_threads 1 6 - thread_live two_threads 1 3. thread_trackable two_threads t 1 6"
    by (simp add: two_threads_facts)
  from restore_threads_leaves_target[OF two_threads_facts(1) this, of flat_win32] show ?thesis
    by (auto simp: two_threads_facts)
qed

end
