(* ===== verification/Snapshot_Log.thy ===== *)
theory Snapshot_Log
  imports Thread_Manager
begin

text \<open>
  \<open>src/src/snapshot_log.cpp\<close>: the tree of the snapshots that were taken, and taking one, which
  records every thread and the memory at the current point and moves on to the next sequence.
\<close>

datatype snapshot_type = CoarseSnapshot | MicroSnapshot | LineSnapshot

record snapshot =
  sn_type :: snapshot_type
  sn_run_id :: u32
  sn_run_sequence :: u32
  sn_global_sequence :: u64

definition snapshot_zero :: snapshot where
  "snapshot_zero = \<lparr> sn_type = CoarseSnapshot, sn_run_id = 0, sn_run_sequence = 0, sn_global_sequence = 0 \<rparr>"

record 'w snapshots = "'w thread_tables" +
  sl_history :: "snapshot etree"

fun snapshot_type_name :: "snapshot_type \<Rightarrow> string" where
  "snapshot_type_name CoarseSnapshot = ''Coarse Snapshot''"
| "snapshot_type_name MicroSnapshot = ''Micro Snapshot''"
| "snapshot_type_name LineSnapshot = ''Line Snapshot''"

text \<open>The tree that \<open>snapshot_history\<close> is initialised with.\<close>

definition empty_snapshot_history :: "snapshot etree" where
  "empty_snapshot_history = et_new snapshot_zero snapshot_zero 0 0 0"

definition current_snapshot :: "snapshot_type \<Rightarrow> ('w, 'z) machine_scheme \<Rightarrow> snapshot" where
  "current_snapshot kind m = \<lparr> sn_type = kind, sn_run_id = g_run_id m, sn_run_sequence = g_run_sequence m,
     sn_global_sequence = g_global_sequence m \<rparr>"

definition start_snapshot_history :: "('w, 'z) snapshots_scheme \<Rightarrow> ('w, 'z) snapshots_scheme" where
  "start_snapshot_history m =
     m \<lparr> sl_history := et_new snapshot_zero (current_snapshot CoarseSnapshot m) (g_run_id m) (g_run_sequence m)
           (g_global_sequence m) \<rparr>"

definition snapshot_process :: "'w win32 \<Rightarrow> snapshot_type \<Rightarrow> ('w, 'z) snapshots_scheme \<Rightarrow> ('w, 'z) snapshots_scheme option" where
  "snapshot_process W kind m =
     (let new_snapshot = current_snapshot kind m in
      do { m \<leftarrow> snapshot_threads W (g_global_sequence m) (g_run_id m) (g_run_sequence m) m;
           m \<leftarrow> snapshot_memory W (g_global_sequence m) (g_run_id m) (g_run_sequence m) m;
           let m = m \<lparr> sl_history := et_add_child new_snapshot (g_run_id m) (g_run_sequence m) (g_global_sequence m)
                         (sl_history m) \<rparr>;
           Some (m \<lparr> g_run_sequence := g_run_sequence m + 1 \<rparr>) })"

definition snapshot_line :: "snapshot \<Rightarrow> u32 \<Rightarrow> u32 \<Rightarrow> u64 \<Rightarrow> string" where
  "snapshot_line snap run_id run_seq global_seq =
     snapshot_type_name (sn_type snap) @ '' [run_id='' @ show_dec (unat run_id) @ '', run_seq='' @ show_dec (unat run_seq)
       @ '', global_seq='' @ show_dec (unat global_seq) @ '']''"

definition print_snapshot_history :: "('w, 'z) snapshots_scheme \<Rightarrow> ('w, 'z) snapshots_scheme option" where
  "print_snapshot_history m = do { lines \<leftarrow> et_print snapshot_line (sl_history m); Some (put_lines lines m) }"

definition valid_snapshot_id_seq :: "u32 \<Rightarrow> u32 \<Rightarrow> ('w, 'z) snapshots_scheme \<Rightarrow> bool option" where
  "valid_snapshot_id_seq run_id run_seq m = et_exact_node_exists run_id run_seq (sl_history m)"

definition get_global_sequence :: "u32 \<Rightarrow> u32 \<Rightarrow> ('w, 'z) snapshots_scheme \<Rightarrow> u64 option option" where
  "get_global_sequence run_id run_seq m =
     map_option (map_option (\<lambda>n. en_global_seq (et_nodes (sl_history m) ! n))) (et_get_exact_node run_id run_seq (sl_history m))"

definition get_nearest_snapshot :: "('w, 'z) snapshots_scheme \<Rightarrow> snapshot option option" where
  "get_nearest_snapshot m = et_get_nearest_state (g_run_id m) (g_run_sequence m) (sl_history m)"

definition create_snapshot_history_branch :: "u32 \<Rightarrow> u32 \<Rightarrow> u32 \<Rightarrow> ('w, 'z) snapshots_scheme \<Rightarrow> ('w, 'z) snapshots_scheme option" where
  "create_snapshot_history_branch from_run_id from_run_seq to_run_id m =
     do { t \<leftarrow> et_revert_to_state from_run_id from_run_seq (ucast to_run_id) (sl_history m);
          Some (m \<lparr> sl_history := t \<rparr>) }"

end
