(* ===== verification/Event_Log.thy ===== *)
theory Event_Log
  imports Snapshot_Log
begin

text \<open>
  The non-deterministic events of the debuggee: \<open>src/src/Events\<close> (what an event records when its
  function is entered and when it returns) and \<open>src/src/event_log.cpp\<close> (the log that is replayed).

  An \<open>Event\<close> is a \<open>std::unique_ptr\<close> and so always has one owner: it is a value here.  The stacks
  of \<open>std::stack\<close> are lists with the top first.  \<open>return_status\<close> and the handle a created thread
  is returned in have no value until the function has returned; \<open>dll_handle\<close> of a load event is
  never given one and is left out.
\<close>

section \<open>The events\<close>

datatype replay_kind = Stub | Execute

record thread_create_stack_args =
  ta_start_routine :: u64
  ta_argument :: u64
  ta_create_flags :: u32
  ta_zero_bits :: u64
  ta_stack_size :: u64
  ta_maximum_stack_size :: u64
  ta_attribute_list :: u64

record thread_create =
  tc_thread_handle :: addr
  tc_desired_access :: u32
  tc_object_attributes :: addr
  tc_process_handle :: handle
  tc_stack_args :: thread_create_stack_args
  tc_return_status :: "u32 option"
  tc_returned_thread :: "handle option"

record thread_destroy =
  td_thread_handle :: handle
  td_exit_status :: u32
  td_return_status :: "u32 option"
  td_thread_id :: thread_id

record library_load =
  ll_dll_path :: "byte list"
  ll_dll_characteristics :: u32
  ll_dll_name :: "byte list"
  ll_dll_handle_out :: addr
  ll_return_status :: "u32 option"

record library_unload =
  lu_dll_handle :: addr
  lu_return_status :: "u32 option"

datatype event_kind =
    ThreadCreateEvent thread_create
  | ThreadDestroyEvent thread_destroy
  | SharedLibraryLoadEvent library_load
  | SharedLibraryUnloadEvent library_unload

record event =
  ev_global_seq :: u64
  ev_run_id :: u32
  ev_run_sequence :: u32
  ev_thread_seq :: u64
  ev_thread_id :: thread_id
  ev_event_rip :: addr
  ev_replay_kind :: replay_kind
  ev_replayed :: bool
  ev_kind :: event_kind

record 'w events = "'w snapshots" +
  el_event_log :: "event list"
  el_pending_thread_events :: "(thread_id, event list) smap"
  el_pending_replay_end_events :: "(thread_id, nat list) smap"

text \<open>The constructor of \<open>BaseEvent\<close>: it numbers the event and moves the three counters on.\<close>

definition base_event :: "thread_id \<Rightarrow> addr \<Rightarrow> event_kind \<Rightarrow> ('w, 'z) machine_scheme \<Rightarrow> event \<times> ('w, 'z) machine_scheme" where
  "base_event tid event_rip kind m =
     (let thread_seq = (case map_of (g_thread_id_to_sequence m) tid of Some n \<Rightarrow> n | None \<Rightarrow> 0)
      in (\<lparr> ev_global_seq = g_global_sequence m, ev_run_id = g_run_id m, ev_run_sequence = g_run_sequence m,
            ev_thread_seq = thread_seq, ev_thread_id = tid, ev_event_rip = event_rip, ev_replay_kind = Execute,
            ev_replayed = False, ev_kind = kind \<rparr>,
          m \<lparr> g_global_sequence := g_global_sequence m + 1,
              g_thread_id_to_sequence := smap_modify tid 0 (\<lambda>n. n + 1) (g_thread_id_to_sequence m),
              g_run_sequence := g_run_sequence m + 1 \<rparr>))"

definition thread_create_stack_args_of :: "byte list \<Rightarrow> thread_create_stack_args" where
  "thread_create_stack_args_of bs =
     (let word = (\<lambda>i. le_word (take 8 (drop (8 * i) bs))) in
      \<lparr> ta_start_routine = word 0, ta_argument = word 1, ta_create_flags = le_u32 (take 4 (drop 16 bs)),
        ta_zero_bits = word 3, ta_stack_size = word 4, ta_maximum_stack_size = word 5, ta_attribute_list = word 6 \<rparr>)"

definition read_stack_args :: "'w win32 \<Rightarrow> addr \<Rightarrow> ('w, 'z) machine_scheme \<Rightarrow> thread_create_stack_args" where
  "read_stack_args W stack_address m = thread_create_stack_args_of (read_uninit W stack_address 56 m)"

definition new_thread_create ::
    "'w win32 \<Rightarrow> thread_id \<Rightarrow> addr \<Rightarrow> cpu_context \<Rightarrow> ('w, 'z) machine_scheme \<Rightarrow> event \<times> ('w, 'z) machine_scheme" where
  "new_thread_create W tid event_rip ctx m =
     base_event tid event_rip
       (ThreadCreateEvent \<lparr> tc_thread_handle = ctx_Rcx ctx, tc_desired_access = ucast (ctx_Rdx ctx),
          tc_object_attributes = ctx_R8 ctx, tc_process_handle = ctx_R9 ctx,
          tc_stack_args = read_stack_args W (ctx_Rsp ctx) m, tc_return_status = None, tc_returned_thread = None \<rparr>) m"

text \<open>The thread a handle of the debuggee names, by way of a duplicate that is closed again.\<close>

definition thread_of_handle :: "'w win32 \<Rightarrow> handle \<Rightarrow> ('w, 'z) machine_scheme \<Rightarrow> thread_id \<times> ('w, 'z) machine_scheme" where
  "thread_of_handle W h m =
     (let (temp_handle, w) = w_duplicate_handle W (m_world m) h;
          tid = w_thread_id_of W w temp_handle
      in (tid, m \<lparr> m_world := w_close_handle W w temp_handle \<rparr>))"

definition new_thread_destroy ::
    "'w win32 \<Rightarrow> thread_id \<Rightarrow> addr \<Rightarrow> cpu_context \<Rightarrow> ('w, 'z) machine_scheme \<Rightarrow> event \<times> ('w, 'z) machine_scheme" where
  "new_thread_destroy W tid event_rip ctx m =
     (let (ended, m) = thread_of_handle W (ctx_Rcx ctx) m in
      base_event tid event_rip
        (ThreadDestroyEvent \<lparr> td_thread_handle = ctx_Rcx ctx, td_exit_status = ucast (ctx_Rdx ctx),
           td_return_status = None, td_thread_id = ended \<rparr>) m)"

text \<open>
  The \<open>UNICODE_STRING\<close> at R8 has its length in bytes in the first 16 bits and its buffer at offset 8;
  the name buffer has as many wide characters as the length has bytes, and so stays zero in its second half.
\<close>

definition new_library_load ::
    "'w win32 \<Rightarrow> thread_id \<Rightarrow> addr \<Rightarrow> cpu_context \<Rightarrow> ('w, 'z) machine_scheme \<Rightarrow> event \<times> ('w, 'z) machine_scheme" where
  "new_library_load W tid event_rip ctx m =
     (let dll_path = read_zeroed W (ctx_Rcx ctx) 260 m @ replicate 260 0;
          characteristics = le_u32 (read_uninit W (ctx_Rdx ctx) 4 m);
          temp = read_uninit W (ctx_R8 ctx) 16 m;
          name_length = unat (le_u32 (take 2 temp));
          buffer = le_word (drop 8 temp)
      in base_event tid event_rip
           (SharedLibraryLoadEvent \<lparr> ll_dll_path = dll_path, ll_dll_characteristics = characteristics,
              ll_dll_name = read_zeroed W buffer name_length m @ replicate name_length 0,
              ll_dll_handle_out = ctx_R9 ctx, ll_return_status = None \<rparr>) m)"

definition new_library_unload ::
    "thread_id \<Rightarrow> addr \<Rightarrow> cpu_context \<Rightarrow> ('w, 'z) machine_scheme \<Rightarrow> event \<times> ('w, 'z) machine_scheme" where
  "new_library_unload tid event_rip ctx m =
     base_event tid event_rip
       (SharedLibraryUnloadEvent \<lparr> lu_dll_handle = ctx_Rcx ctx, lu_return_status = None \<rparr>) m"

definition finish_thread_create ::
    "'w win32 \<Rightarrow> cpu_context \<Rightarrow> event \<Rightarrow> thread_create \<Rightarrow> ('w, 'z) thread_tables_scheme \<Rightarrow> thread_create \<times> ('w, 'z) thread_tables_scheme" where
  "finish_thread_create W ctx e c m =
     (let returned = le_word (read_uninit W (tc_thread_handle c) 8 m);
          (temp_handle, w) = w_duplicate_handle W (m_world m) returned;
          tid = w_thread_id_of W w temp_handle;
          m = track_thread W tid (ev_global_seq e) (ev_run_id e) (ev_run_sequence e) (m \<lparr> m_world := w \<rparr>);
          m = update_thread_tls W tid BranchTarget kTargetSentinel m;
          m = m \<lparr> m_world := w_close_handle W (m_world m) temp_handle \<rparr>
      in (c \<lparr> tc_return_status := Some (ucast (ctx_Rax ctx)), tc_returned_thread := Some returned \<rparr>, m))"

definition finish_library_load :: "cpu_context \<Rightarrow> library_load \<Rightarrow> library_load" where
  "finish_library_load ctx l = l \<lparr> ll_return_status := Some (ucast (ctx_Rax ctx)) \<rparr>"

definition finish_library_unload :: "cpu_context \<Rightarrow> library_unload \<Rightarrow> library_unload" where
  "finish_library_unload ctx u = u \<lparr> lu_return_status := Some (ucast (ctx_Rax ctx)) \<rparr>"

definition finish_thread_destroy ::
    "'w win32 \<Rightarrow> cpu_context \<Rightarrow> event \<Rightarrow> thread_destroy \<Rightarrow> ('w, 'z) thread_tables_scheme \<Rightarrow> thread_destroy \<times> ('w, 'z) thread_tables_scheme" where
  "finish_thread_destroy W ctx e d m =
     (d \<lparr> td_return_status := Some (ucast (ctx_Rax ctx)) \<rparr>,
      untrack_thread W (td_thread_id d) (ev_global_seq e) (ev_run_id e) (ev_run_sequence e) m)"

definition finish_event ::
    "'w win32 \<Rightarrow> cpu_context \<Rightarrow> event \<Rightarrow> ('w, 'z) thread_tables_scheme \<Rightarrow> event \<times> ('w, 'z) thread_tables_scheme" where
  "finish_event W ctx e m =
     (case ev_kind e of
        ThreadCreateEvent c \<Rightarrow>
          (let (c, m) = finish_thread_create W ctx e c m in (e \<lparr> ev_kind := ThreadCreateEvent c \<rparr>, m))
      | ThreadDestroyEvent d \<Rightarrow>
          (let (d, m) = finish_thread_destroy W ctx e d m in (e \<lparr> ev_kind := ThreadDestroyEvent d \<rparr>, m))
      | SharedLibraryLoadEvent l \<Rightarrow> (e \<lparr> ev_kind := SharedLibraryLoadEvent (finish_library_load ctx l) \<rparr>, m)
      | SharedLibraryUnloadEvent u \<Rightarrow> (e \<lparr> ev_kind := SharedLibraryUnloadEvent (finish_library_unload ctx u) \<rparr>, m))"

text \<open>
  \<open>ReplayEvent\<close> and \<open>ReplayEventEnd\<close> of every kind only write to the debug log; those of a thread
  that ends do nothing.
\<close>

section \<open>The log\<close>

definition add_event :: "event \<Rightarrow> ('w, 'z) events_scheme \<Rightarrow> ('w, 'z) events_scheme" where
  "add_event e m =
     (let i = upper_bound (ev_global_seq e) ev_global_seq (el_event_log m)
      in m \<lparr> el_event_log := take i (el_event_log m) @ e # drop i (el_event_log m) \<rparr>)"

definition create_event_from_bp_address ::
    "'w win32 \<Rightarrow> addr \<Rightarrow> thread_id \<Rightarrow> cpu_context \<Rightarrow> ('w, 'z) machine_scheme \<Rightarrow> event option \<times> ('w, 'z) machine_scheme" where
  "create_event_from_bp_address W rip_address tid ctx m =
     (if rip_address = w_proc_address W ''NtCreateThreadEx'' then apfst Some (new_thread_create W tid rip_address ctx m)
      else if rip_address = w_proc_address W ''NtTerminateThread'' then apfst Some (new_thread_destroy W tid rip_address ctx m)
      else if rip_address = w_proc_address W ''LdrLoadDll'' then apfst Some (new_library_load W tid rip_address ctx m)
      else if rip_address = w_proc_address W ''LdrUnloadDll'' then apfst Some (new_library_unload tid rip_address ctx m)
      else (None, m))"

text \<open>
  The function is entered: go on in the trampoline, and break where it returns to.  Without a
  trampoline the context is uninitialised, so there is no result.
\<close>

definition break_on_return ::
    "'w win32 \<Rightarrow> addr \<Rightarrow> thread_id \<Rightarrow> ('w, 'z) breakpoints_scheme \<Rightarrow> (cpu_context \<times> ('w, 'z) breakpoints_scheme) option" where
  "break_on_return W rip_address tid m =
     (case redirect_to_trampoline W rip_address tid m of
        (None, m) \<Rightarrow> None
      | (Some ctx, m) \<Rightarrow>
          let return_address = le_word (read_uninit W (ctx_Rsp ctx) 8 m)
          in Some (ctx, create_return_breakpoint W return_address tid m))"

definition on_breakpoint_enter ::
    "'w win32 \<Rightarrow> addr \<Rightarrow> thread_id \<Rightarrow> ('w, 'z) events_scheme \<Rightarrow> ('w, 'z) events_scheme option" where
  "on_breakpoint_enter W rip_address tid m =
     do { (ctx, m) \<leftarrow> break_on_return W rip_address tid m;
          let (e, m) = create_event_from_bp_address W rip_address tid ctx m;
          Some (case e of
                  None \<Rightarrow> m
                | Some e \<Rightarrow> m \<lparr> el_pending_thread_events := smap_modify tid [] (\<lambda>st. e # st) (el_pending_thread_events m) \<rparr>) }"

definition pending_of :: "thread_id \<Rightarrow> (thread_id, 'a list) smap \<Rightarrow> 'a list" where
  "pending_of tid p = (case map_of p tid of Some st \<Rightarrow> st | None \<Rightarrow> [])"

definition on_breakpoint_return ::
    "'w win32 \<Rightarrow> addr \<Rightarrow> thread_id \<Rightarrow> cpu_context \<Rightarrow> ('w, 'z) events_scheme \<Rightarrow> ('w, 'z) events_scheme option" where
  "on_breakpoint_return W rip_address tid ctx m =
     (let stack = pending_of tid (el_pending_thread_events m);
          m = m \<lparr> el_pending_thread_events := smap_modify tid [] (\<lambda>st. st) (el_pending_thread_events m) \<rparr>
      in case stack of
           [] \<Rightarrow> Some m
         | e # _ \<Rightarrow>
             let (e, m) = finish_event W ctx e m;
                 m = add_event e m;
                 m = m \<lparr> el_pending_thread_events := smap_modify tid [] tl (el_pending_thread_events m) \<rparr>
             in map_option snd (remove_breakpoint W rip_address tid m))"

fun find_event :: "(event \<Rightarrow> bool) \<Rightarrow> event list \<Rightarrow> nat option" where
  "find_event P [] = None"
| "find_event P (e # es) = (if P e then Some 0 else map_option Suc (find_event P es))"

definition awaits_replay :: "addr \<Rightarrow> thread_id \<Rightarrow> event \<Rightarrow> bool" where
  "awaits_replay rip_address tid e = (ev_event_rip e = rip_address \<and> ev_thread_id e = tid \<and> \<not> ev_replayed e)"

definition replay_event ::
    "'w win32 \<Rightarrow> addr \<Rightarrow> thread_id \<Rightarrow> ('w, 'z) events_scheme \<Rightarrow> ('w, 'z) events_scheme option" where
  "replay_event W rip_address tid m =
     (case find_event (awaits_replay rip_address tid) (el_event_log m) of
        None \<Rightarrow> Some m
      | Some idx \<Rightarrow>
          let e = (el_event_log m ! idx) \<lparr> ev_replayed := True \<rparr>;
              m = m \<lparr> el_event_log := (el_event_log m)[idx := e] \<rparr>;
              m = (if ev_replay_kind e = Execute
                   then m \<lparr> el_pending_replay_end_events := smap_modify tid [] (\<lambda>st. idx # st) (el_pending_replay_end_events m) \<rparr>
                   else m)
          in map_option snd (break_on_return W rip_address tid m))"

text \<open>\<open>event_log[idx]\<close> is undefined beyond the end of the log.\<close>

definition replay_event_end ::
    "'w win32 \<Rightarrow> addr \<Rightarrow> thread_id \<Rightarrow> ('w, 'z) events_scheme \<Rightarrow> ('w, 'z) events_scheme option" where
  "replay_event_end W rip_address tid m =
     (let stack = pending_of tid (el_pending_replay_end_events m);
          m = m \<lparr> el_pending_replay_end_events := smap_modify tid [] (\<lambda>st. st) (el_pending_replay_end_events m) \<rparr>
      in case stack of
           [] \<Rightarrow> Some m
         | idx # _ \<Rightarrow>
             if idx < length (el_event_log m)
             then let m = m \<lparr> el_pending_replay_end_events := smap_modify tid [] tl (el_pending_replay_end_events m) \<rparr>
                  in map_option snd (remove_breakpoint W rip_address tid m)
             else None)"

definition reset_event_replay :: "u64 \<Rightarrow> ('w, 'z) events_scheme \<Rightarrow> ('w, 'z) events_scheme" where
  "reset_event_replay global_seq m =
     (let i = upper_bound global_seq ev_global_seq (el_event_log m)
      in m \<lparr> el_event_log := take i (el_event_log m) @ map (\<lambda>e. e \<lparr> ev_replayed := False \<rparr>) (drop i (el_event_log m)) \<rparr>)"

end
