(* ===== verification/Transitions.thy ===== *)
theory Transitions
  imports Event_Log
begin

text \<open>
  The transitions between the phases of a run (\<open>src/src/execution_state_machine/transitions\<close>), the
  state every phase works on, and what comes from outside the repository besides Windows: the
  instruction decoder and formatter (Zydis), the plugin directory, the command-line parser
  (argparse), how far the debug loop gets before a worker thread has run, narrowing a wide character
  and formatting a time in the system's locale, and what \<open>NtQuerySystemInformation\<close> and
  \<open>NtQueryObject\<close> put into a buffer (and where the buffer is).

  A \<open>TransitionsBox\<close> is a transition behind a pointer that may be null.
\<close>

record reverse_data =
  rd_process_suspended :: bool
  rd_predecessors :: "potential_predecessor list"
  rd_frame_return_addresses :: "return_address list"
  rd_thread_id :: thread_id
  rd_branch_target :: u64
  rd_current_address :: addr
  rd_current_branch_counter :: u64

datatype transition =
    Transition bool
  | TransitionToRecording bool
  | TransitionToError bool u32
  | TransitionToTimeRestore bool u32 u32 u64 "transition option"
  | TransitionToReconstruction bool
  | TransitionToDebugger bool
  | TransitionToReverseReplay reverse_data

text \<open>
  What the parser makes of a command: the subcommand, the arguments that were given, and the value
  of each argument by its type.
\<close>

record cli_args =
  ca_subcommand :: string
  ca_used :: "string \<Rightarrow> bool"
  ca_flag :: "string \<Rightarrow> bool"
  ca_string :: "string \<Rightarrow> string"
  ca_u32 :: "string \<Rightarrow> u32"
  ca_i16s :: "string \<Rightarrow> 16 word list"
  ca_u64 :: "string \<Rightarrow> u64"
  ca_i64 :: "string \<Rightarrow> u64"

record 'w environment =
  en_win32 :: "'w win32"
  en_decode :: "byte list \<Rightarrow> nat option"
  en_format :: "byte list \<Rightarrow> string option"
  en_plugin_directory :: "'w dir_entry list"
  en_parse :: "string list \<Rightarrow> string + cli_args"
  en_help :: "string \<Rightarrow> string"
  en_worker_delay :: nat
  en_narrow :: "u16 \<Rightarrow> char"
  en_timestamp :: "u32 \<Rightarrow> string option"
  en_query_handles :: "'w \<Rightarrow> nat \<Rightarrow> (bool \<times> nat) \<times> byte list"
  en_query_object :: "'w \<Rightarrow> handle \<Rightarrow> nat \<Rightarrow> byte list \<Rightarrow> byte list"
  en_object_name :: "'w \<Rightarrow> handle \<Rightarrow> u16 list"
  en_query_types :: "'w \<Rightarrow> nat \<Rightarrow> (u32 \<times> nat) \<times> byte list"
  en_buffer_base :: "nat \<Rightarrow> addr"

text \<open>
  The whole state: \<open>pending_user_breakpoint_\<close> of the resume command survives between commands, and
  so do the names of the kernel object types (\<open>object_type_index_to_name\<close>).
\<close>

record 'w session_state = "'w events" +
  se_pending_user_breakpoint :: "(addr \<times> thread_id) option"
  se_object_type_names :: "u16 \<Rightarrow> string option"

section \<open>Shared steps of the debug loops\<close>

text \<open>\<open>opt.value()\<close> and \<open>*opt\<close> of an empty optional have no result; so has a call that throws.\<close>

abbreviation (input) breakpoint_event :: "debug_event \<Rightarrow> bool" where
  "breakpoint_event de \<equiv> de_info de = DE_Exception STATUS_BREAKPOINT"

definition single_step_event :: "thread_id \<Rightarrow> debug_event \<Rightarrow> bool" where
  "single_step_event tid de = (de_info de = DE_Exception EXCEPTION_SINGLE_STEP \<and> de_thread_id de = tid)"

text \<open>The loop of the three functions that step a thread over a breakpoint: wait for its trap.\<close>

definition await_round ::
    "'w win32 \<Rightarrow> thread_id \<Rightarrow> ('w, 'z) machine_scheme \<Rightarrow> (('w, 'z) machine_scheme + debug_event option \<times> ('w, 'z) machine_scheme) option" where
  "await_round W tid m =
     Some (if \<not> g_running m then Inr (None, m)
           else case wait_event W INFINITE m of
             (Inl error, m) \<Rightarrow> Inr (None, m)
           | (Inr de, m) \<Rightarrow> if single_step_event tid de then Inr (Some de, m) else Inl (continue_event W de DBG_CONTINUE m))"

definition await_single_step ::
    "'w win32 \<Rightarrow> thread_id \<Rightarrow> ('w, 'z) machine_scheme \<Rightarrow> (debug_event option \<times> ('w, 'z) machine_scheme) option" where
  "await_single_step W tid = loop (await_round W tid)"

section \<open>\<open>process_start_phase.cpp\<close>\<close>

text \<open>
  \<open>process_loaded\<close> is set just before the only return, so it is false whenever it is read.  When
  \<open>running\<close> is already false the function ends without a value.
\<close>

definition process_start_round ::
    "'w environment \<Rightarrow> ('w, 'z) breakpoints_scheme \<Rightarrow>
      (('w, 'z) breakpoints_scheme + transition \<times> ('w, 'z) breakpoints_scheme) option" where
  "process_start_round E m =
     (let W = en_win32 E in
      if \<not> g_running m then None
      else case wait_event W INFINITE m of
        (Inl error, m) \<Rightarrow> Some (Inr (TransitionToError False error, m))
      | (Inr de, m) \<Rightarrow>
          if breakpoint_event de then
            (let m = snd (suspend_process W m);
                 m = continue_event W de DBG_CONTINUE m;
                 m = m \<lparr> g_main_thread_id := de_thread_id de \<rparr>;
                 m = load_and_initialize_all_plugins (en_plugin_directory E) m
             in Some (Inr (TransitionToRecording True, m)))
          else Some (Inl (continue_event W de DBG_CONTINUE m)))"

definition process_start_run ::
    "'w environment \<Rightarrow> ('w, 'z) breakpoints_scheme \<Rightarrow> (transition \<times> ('w, 'z) breakpoints_scheme) option" where
  "process_start_run E = loop (process_start_round E)"

definition process_start_exit :: "'w environment \<Rightarrow> ('w, 'z) breakpoints_scheme \<Rightarrow> ('w, 'z) breakpoints_scheme" where
  "process_start_exit E m =
     create_return_breakpoint (en_win32 E) (get_child_entry_address (en_win32 E) m) (g_main_thread_id m) m"

section \<open>\<open>error_phase.h\<close>\<close>

definition error_enter :: "('w, 'z) machine_scheme \<Rightarrow> ('w, 'z) machine_scheme" where
  "error_enter m = m \<lparr> g_running := False \<rparr>"

definition error_run :: transition where
  "error_run = TransitionToError False 0"

end
