(* ===== verification/Recording.thy ===== *)
theory Recording
  imports Transitions
begin

text \<open>
  \<open>record_phase.cpp\<close> and \<open>reconstruction_phase.cpp\<close> of \<open>src/src/execution_state_machine/execution_phase\<close>:
  running the debuggee for the first time while its events are logged, and running it again from
  the first snapshot while they are replayed and small snapshots are taken.

  Times are in microseconds of the system clock; the timeout that is left is part of the loop's state.
\<close>

section \<open>Module and thread events\<close>

definition on_load_dll :: "'w win32 \<Rightarrow> addr \<Rightarrow> addr \<Rightarrow> handle \<Rightarrow> ('w, 'z) modules_scheme \<Rightarrow> ('w, 'z) modules_scheme" where
  "on_load_dll W base image_name_ptr file m =
     (let image_name = get_dll_name_from_lp W image_name_ptr m;
          m = m \<lparr> m_world := w_close_handle W (m_world m) file \<rparr>
      in track_dll base image_name (g_global_sequence m) (g_run_id m) (g_run_sequence m) m)"

definition on_unload_dll :: "addr \<Rightarrow> ('w, 'z) modules_scheme \<Rightarrow> ('w, 'z) modules_scheme" where
  "on_unload_dll base m = untrack_dll base (g_global_sequence m) (g_run_id m) (g_run_sequence m) m"

section \<open>Recording\<close>

definition record_entry_breakpoint ::
    "'w environment \<Rightarrow> addr \<Rightarrow> debug_event \<Rightarrow> ('w, 'z) events_scheme \<Rightarrow> ('w, 'z) events_scheme option" where
  "record_entry_breakpoint E child_entry_address de m =
     (let W = en_win32 E;
          m = snd (suspend_process W m);
          m = continue_event W de DBG_CONTINUE m
      in do { m \<leftarrow> add_branch_counting W [''cpp''] m;
              let m = update_all_thread_tls W BranchTarget kTargetSentinel m;
              (_, m) \<leftarrow> remove_breakpoint W child_entry_address (g_main_thread_id m) m;
              let m = track_all_program_threads W (g_global_sequence m) (g_run_id m) (g_run_sequence m) m;
              let m = load_trampoline W (en_decode E) m;
              let m = start_snapshot_history m;
              m \<leftarrow> snapshot_process W CoarseSnapshot m;
              Some (snd (resume_process W m)) })"

text \<open>\<open>bp_type.value()\<close> throws for an address without a breakpoint of the thread's.\<close>

definition record_breakpoint ::
    "'w environment \<Rightarrow> addr \<Rightarrow> debug_event \<Rightarrow> ('w, 'z) events_scheme \<Rightarrow> (u32 \<times> ('w, 'z) events_scheme) option" where
  "record_breakpoint E child_entry_address de m =
     (let W = en_win32 E;
          thread_id = de_thread_id de;
          (rip, m) = get_rip_address W thread_id m;
          rip_address = rip - 1;
          bp_type = get_breakpoint_type rip_address thread_id m;
          (ctx, m) = roll_back_instruction_pointer W thread_id m
      in do { m \<leftarrow> (if rip_address = child_entry_address then record_entry_breakpoint E child_entry_address de m
                    else case bp_type of
                      None \<Rightarrow> None
                    | Some BP_Return \<Rightarrow> on_breakpoint_return W rip_address thread_id ctx m
                    | Some BP_Permanent \<Rightarrow> on_breakpoint_enter W rip_address thread_id m
                    | Some _ \<Rightarrow> Some m);
              Some (DBG_CONTINUE, m) })"

definition record_exception ::
    "'w environment \<Rightarrow> addr \<Rightarrow> debug_event \<Rightarrow> u32 \<Rightarrow> ('w, 'z) events_scheme \<Rightarrow> (u32 \<times> ('w, 'z) events_scheme) option" where
  "record_exception E child_entry_address de code m =
     (if code = STATUS_BREAKPOINT then record_breakpoint E child_entry_address de m
      else Some (DBG_EXCEPTION_NOT_HANDLED, m))"

definition record_event ::
    "'w environment \<Rightarrow> addr \<Rightarrow> debug_event \<Rightarrow> ('w, 'z) events_scheme \<Rightarrow> (u32 \<times> ('w, 'z) events_scheme) option" where
  "record_event E child_entry_address de m =
     (case de_info de of
        DE_Exception code \<Rightarrow> record_exception E child_entry_address de code m
      | DE_LoadDll base name_ptr file \<Rightarrow> Some (DBG_CONTINUE, on_load_dll (en_win32 E) base name_ptr file m)
      | DE_UnloadDll base \<Rightarrow> Some (DBG_CONTINUE, on_unload_dll base m)
      | DE_ExitProcess code \<Rightarrow> Some (DBG_EXCEPTION_NOT_HANDLED, m \<lparr> g_running := False \<rparr>)
      | _ \<Rightarrow> Some (DBG_CONTINUE, m))"

text \<open>The timeout that is left after a pass, at least 0.\<close>

definition time_left :: "int \<Rightarrow> int \<Rightarrow> int \<Rightarrow> int" where
  "time_left wait_timeout resumed stopped = max 0 (wait_timeout - (stopped - resumed))"

definition record_round ::
    "'w environment \<Rightarrow> addr \<Rightarrow> int \<times> int \<times> ('w, 'z) events_scheme \<Rightarrow>
      ((int \<times> int \<times> ('w, 'z) events_scheme) + transition \<times> ('w, 'z) events_scheme) option" where
  "record_round E child_entry_address = (\<lambda>(wait_timeout, execution_resume_time, m).
     let W = en_win32 E in
     if \<not> g_running m then Some (Inr (TransitionToError False 0, m))
     else
       let (r, m) = wait_event W (word_of_int (wait_timeout div 1000)) m;
           execution_stop_time = w_clock W (m_world m)
       in case r of
            Inr de \<Rightarrow>
              do { (continue_status, m) \<leftarrow> record_event E child_entry_address de m;
                   let m = continue_event W de continue_status m;
                   Some (Inl (time_left wait_timeout execution_resume_time execution_stop_time, w_clock W (m_world m), m)) }
          | Inl last_error \<Rightarrow>
              if last_error = ERROR_SEM_TIMEOUT then
                (let m = snd (suspend_process W m) in
                 do { target_global_sequence \<leftarrow> get_global_sequence 0 0 m;
                      target \<leftarrow> target_global_sequence;
                      Some (Inr (TransitionToTimeRestore True 0 0 target (Some (TransitionToReconstruction True)), m)) })
              else Some (Inr (TransitionToError False last_error, m \<lparr> g_running := False \<rparr>)))"

definition recording_enter :: "'w environment \<Rightarrow> bool \<Rightarrow> ('w, 'z) machine_scheme \<Rightarrow> addr \<times> ('w, 'z) machine_scheme" where
  "recording_enter E process_suspended m =
     (get_child_entry_address (en_win32 E) m, if process_suspended then snd (resume_process (en_win32 E) m) else m)"

definition recording_run ::
    "'w environment \<Rightarrow> addr \<Rightarrow> ('w, 'z) events_scheme \<Rightarrow> (transition \<times> ('w, 'z) events_scheme) option" where
  "recording_run E child_entry_address m =
     (let m = snd (resume_process (en_win32 E) m);
          wait_timeout = int (g_snapshot_interval m) * 1000
      in loop (record_round E child_entry_address) (wait_timeout, w_clock (en_win32 E) (m_world m), m))"

section \<open>Reconstruction\<close>

definition reconstruct_breakpoint ::
    "'w environment \<Rightarrow> debug_event \<Rightarrow> ('w, 'z) events_scheme \<Rightarrow> (u32 \<times> ('w, 'z) events_scheme) option" where
  "reconstruct_breakpoint E de m =
     (let W = en_win32 E;
          thread_id = de_thread_id de;
          (rip, m) = get_rip_address W thread_id m;
          rip_address = rip - 1;
          bp_type = get_breakpoint_type rip_address thread_id m;
          m = snd (roll_back_instruction_pointer W thread_id m)
      in do { m \<leftarrow> (case bp_type of
                      None \<Rightarrow> None
                    | Some BP_Permanent \<Rightarrow> replay_event W rip_address thread_id m
                    | Some BP_Return \<Rightarrow> replay_event_end W rip_address thread_id m
                    | Some _ \<Rightarrow> Some m);
              Some (DBG_CONTINUE, m) })"

definition reconstruct_exception ::
    "'w environment \<Rightarrow> debug_event \<Rightarrow> u32 \<Rightarrow> ('w, 'z) events_scheme \<Rightarrow> (u32 \<times> ('w, 'z) events_scheme) option" where
  "reconstruct_exception E de code m =
     (if code = STATUS_BREAKPOINT then reconstruct_breakpoint E de m else Some (DBG_EXCEPTION_NOT_HANDLED, m))"

definition reconstruct_event ::
    "'w environment \<Rightarrow> debug_event \<Rightarrow> ('w, 'z) events_scheme \<Rightarrow> (u32 \<times> ('w, 'z) events_scheme) option" where
  "reconstruct_event E de m =
     (let W = en_win32 E in
      case de_info de of
        DE_LoadDll base name_ptr file \<Rightarrow> Some (DBG_CONTINUE, on_load_dll W base name_ptr file m)
      | DE_UnloadDll base \<Rightarrow> Some (DBG_CONTINUE, on_unload_dll base m)
      | DE_CreateThread \<Rightarrow>
          Some (DBG_CONTINUE, track_thread W (de_thread_id de) (g_global_sequence m) (g_run_id m) (g_run_sequence m) m)
      | DE_ExitThread \<Rightarrow>
          Some (DBG_CONTINUE, untrack_thread W (de_thread_id de) (g_global_sequence m) (g_run_id m) (g_run_sequence m) m)
      | DE_Exception code \<Rightarrow> reconstruct_exception E de code m
      | DE_ExitProcess code \<Rightarrow> Some (DBG_EXCEPTION_NOT_HANDLED, m \<lparr> g_running := False \<rparr>)
      | DE_Other _ \<Rightarrow> Some (DBG_CONTINUE, m))"

abbreviation micro_interval :: int where "micro_interval \<equiv> 1000"

definition reconstruct_round ::
    "'w environment \<Rightarrow> u32 \<times> int \<times> int \<times> ('w, 'z) events_scheme \<Rightarrow>
      ((u32 \<times> int \<times> int \<times> ('w, 'z) events_scheme) + transition \<times> ('w, 'z) events_scheme) option" where
  "reconstruct_round E = (\<lambda>(snapshots_remaining, wait_timeout_us, execution_resume_time, m).
     let W = en_win32 E in
     if \<not> g_running m then Some (Inr (TransitionToError False 0, m))
     else
       let (r, m) = wait_event W (word_of_int (wait_timeout_us div 1000)) m;
           execution_stop_time = w_clock W (m_world m)
       in case r of
            Inr de \<Rightarrow>
              do { (continue_status, m) \<leftarrow> reconstruct_event E de m;
                   let m = continue_event W de continue_status m;
                   Some (Inl (snapshots_remaining, time_left wait_timeout_us execution_resume_time execution_stop_time,
                              w_clock W (m_world m), m)) }
          | Inl last_error \<Rightarrow>
              if last_error = ERROR_SEM_TIMEOUT then
                do { m \<leftarrow> snapshot_process W MicroSnapshot (snd (suspend_process W m));
                     let snapshots_remaining = snapshots_remaining - 1;
                     if snapshots_remaining = 0 then Some (Inr (TransitionToDebugger True, m))
                     else
                       let m = snd (resume_process W m)
                       in Some (Inl (snapshots_remaining, micro_interval * 1000, w_clock W (m_world m), m)) }
              else Some (Inr (TransitionToError False last_error, m \<lparr> g_running := False \<rparr>)))"

definition reconstruction_enter :: "'w environment \<Rightarrow> bool \<Rightarrow> ('w, 'z) machine_scheme \<Rightarrow> ('w, 'z) machine_scheme" where
  "reconstruction_enter E process_suspended m =
     (if process_suspended then snd (resume_process (en_win32 E) m) else m)"

text \<open>The number of snapshots is cut to 32 bits; an interval below one second gives 0.\<close>

definition reconstruction_run ::
    "'w environment \<Rightarrow> ('w, 'z) events_scheme \<Rightarrow> (transition \<times> ('w, 'z) events_scheme) option" where
  "reconstruction_run E m =
     loop (reconstruct_round E)
       (word_of_int (int (g_snapshot_interval m) div micro_interval), micro_interval * 1000, w_clock (en_win32 E) (m_world m), m)"

end
