(* ===== verification/Time_Restore.thy ===== *)
theory Time_Restore
  imports Recording
begin

text \<open>
  \<open>src/src/execution_state_machine/execution_phase/time_restore_phase.cpp\<close>: putting the debuggee
  back to a snapshot.  The main thread is hijacked to unload the modules that are not loaded at the
  target; then the threads are restored, then the memory; the history of every component branches
  off the target into a new run.

  \<open>RunThreadRestore\<close> restores the threads on a worker while the debug loop goes on.  The worker is
  taken to act at once, after a number of passes of the loop that the environment chooses
  (\<open>en_worker_delay\<close>, 0 being before the first look at it).  The asserts are compiled out in the
  release build that CMake selects.
\<close>

record restore_phase =
  tr_code_size :: u64
  tr_code_address :: addr
  tr_target_run_id :: u32
  tr_target_run_sequence :: u32
  tr_target_global_sequence :: u64
  tr_next_transition :: "transition option"

definition restore_phase_new :: "u32 \<Rightarrow> u32 \<Rightarrow> u64 \<Rightarrow> transition option \<Rightarrow> restore_phase" where
  "restore_phase_new run_id run_sequence global_sequence nxt =
     \<lparr> tr_code_size = 0, tr_code_address = 0, tr_target_run_id = run_id, tr_target_run_sequence = run_sequence,
       tr_target_global_sequence = global_sequence, tr_next_transition = nxt \<rparr>"

definition restore_enter ::
    "'w environment \<Rightarrow> restore_phase \<Rightarrow> ('w, 'z) events_scheme \<Rightarrow> (restore_phase \<times> ('w, 'z) events_scheme) option" where
  "restore_enter E p m =
     (let W = en_win32 E in
      do { dlls_to_unload \<leftarrow> restore_dlls_at_sequence (g_run_id m) (g_run_sequence m) (tr_target_run_id p)
             (tr_target_run_sequence p) m;
           let (code_size, m) = add_dll_unload W dlls_to_unload m;
           let (code_address, m) = write_shell_code_buffer_to_process W m;
           let m = track_shell_code_breakpoint (code_address + code_size - 1) m;
           let (h, m) = get_thread_handle W (g_main_thread_id m) m;
           let ctx = w_get_context W (m_world m) h;
           let ctx = ctx \<lparr> ctx_Rip := code_address, ctx_Rsp := and (ctx_Rsp ctx) (not 0xF) \<rparr>;
           let m = m \<lparr> m_world := snd (w_set_context W (m_world m) h ctx) \<rparr>;
           Some (p \<lparr> tr_code_size := code_size, tr_code_address := code_address \<rparr>, m) })"

text \<open>One pass of \<open>RunDllRestore\<close>; the result is what the function returns.\<close>

definition dll_restore_round ::
    "'w environment \<Rightarrow> restore_phase \<Rightarrow> ('w, 'z) events_scheme \<Rightarrow>
      (('w, 'z) events_scheme + bool \<times> ('w, 'z) events_scheme) option" where
  "dll_restore_round E p m =
     (let W = en_win32 E in
      case wait_event W INFINITE m of
        (Inl last_error, m) \<Rightarrow> Some (Inr (False, m \<lparr> g_running := False \<rparr>))
      | (Inr de, m) \<Rightarrow>
          if breakpoint_event de then
            (let thread_id = de_thread_id de;
                 (rip, m) = get_rip_address W thread_id m;
                 rip_address = rip - 1
             in case get_breakpoint_type rip_address thread_id m of
                  None \<Rightarrow> None
                | Some BP_Permanent \<Rightarrow>
                    Some (Inl (continue_event W de DBG_CONTINUE (snd (redirect_to_trampoline W rip_address thread_id m))))
                | Some BP_ShellCode \<Rightarrow>
                    if tr_code_address p + tr_code_size p - 1 \<noteq> rip_address then Some (Inr (False, m))
                    else Some (Inr (True, continue_event W de DBG_CONTINUE (suspend_thread_id W (g_main_thread_id m) m)))
                | Some _ \<Rightarrow> Some (Inr (False, m)))
          else Some (Inl (continue_event W de DBG_CONTINUE m)))"

definition run_dll_restore ::
    "'w environment \<Rightarrow> restore_phase \<Rightarrow> ('w, 'z) events_scheme \<Rightarrow> (bool \<times> ('w, 'z) events_scheme) option" where
  "run_dll_restore E p m = loop (dll_restore_round E p) (resume_thread_id (en_win32 E) (g_main_thread_id m) m)"

text \<open>
  One pass of \<open>RunThreadRestore\<close>.  The state has the passes left until the worker has run
  (\<open>None\<close> once it has) and whether the loop has seen that it is ready.
\<close>

definition restore_worker ::
    "'w environment \<Rightarrow> restore_phase \<Rightarrow> nat option \<times> ('w, 'z) events_scheme \<Rightarrow> (nat option \<times> ('w, 'z) events_scheme) option" where
  "restore_worker E p = (\<lambda>(delay, m).
     case delay of
       None \<Rightarrow> Some (None, m)
     | Some (Suc n) \<Rightarrow> Some (Some n, m)
     | Some 0 \<Rightarrow>
         do { m \<leftarrow> restore_threads_at_sequence (en_win32 E) (g_run_id m) (g_run_sequence m) (tr_target_run_id p)
                      (tr_target_run_sequence p) m;
              Some (None, m) })"

definition thread_restore_event ::
    "'w environment \<Rightarrow> debug_event \<Rightarrow> ('w, 'z) events_scheme \<Rightarrow> (bool \<times> ('w, 'z) events_scheme) option" where
  "thread_restore_event E de m =
     (let W = en_win32 E in
      case de_info de of
        DE_CreateThread \<Rightarrow>
          Some (True, track_thread W (de_thread_id de) (g_global_sequence m) (g_run_id m) (g_run_sequence m) m)
      | DE_ExitThread \<Rightarrow>
          Some (True, untrack_thread W (de_thread_id de) (g_global_sequence m) (g_run_id m) (g_run_sequence m) m)
      | DE_Exception code \<Rightarrow>
          if code = STATUS_BREAKPOINT then
            (let thread_id = de_thread_id de;
                 (rip, m) = get_rip_address W thread_id m;
                 rip_address = rip - 1
             in case get_breakpoint_type rip_address thread_id m of
                  None \<Rightarrow> None
                | Some BP_Permanent \<Rightarrow> Some (True, snd (redirect_to_trampoline W rip_address thread_id m))
                | Some _ \<Rightarrow> Some (False, m))
          else Some (True, m)
      | _ \<Rightarrow> Some (True, m))"

definition thread_restore_round ::
    "'w environment \<Rightarrow> restore_phase \<Rightarrow> bool \<times> nat option \<times> ('w, 'z) events_scheme \<Rightarrow>
      ((bool \<times> nat option \<times> ('w, 'z) events_scheme) + bool \<times> ('w, 'z) events_scheme) option" where
  "thread_restore_round E p = (\<lambda>(ready, delay, m).
     let W = en_win32 E in
     if ready then Some (Inr (True, m))
     else
       do { (delay, m) \<leftarrow> restore_worker E p (delay, m);
            (case wait_event W 0 m of
               (Inr de, m) \<Rightarrow>
                 do { (ok, m) \<leftarrow> thread_restore_event E de m;
                      Some (if ok then Inl (ready, delay, continue_event W de DBG_CONTINUE m) else Inr (False, m)) }
             | (Inl last_error, m) \<Rightarrow>
                 Some (if last_error = ERROR_SEM_TIMEOUT then Inl (delay = None, delay, m)
                       else Inr (False, m \<lparr> g_running := False \<rparr>))) })"

definition run_thread_restore ::
    "'w environment \<Rightarrow> restore_phase \<Rightarrow> ('w, 'z) events_scheme \<Rightarrow> (bool \<times> ('w, 'z) events_scheme) option" where
  "run_thread_restore E p m =
     (case en_worker_delay E of
        0 \<Rightarrow> do { (delay, m) \<leftarrow> restore_worker E p (Some 0, m); loop (thread_restore_round E p) (True, delay, m) }
      | Suc n \<Rightarrow> loop (thread_restore_round E p) (False, Some n, m))"

text \<open>A null next transition has no result.\<close>

definition restore_run ::
    "'w environment \<Rightarrow> restore_phase \<Rightarrow> ('w, 'z) events_scheme \<Rightarrow> (transition \<times> ('w, 'z) events_scheme) option" where
  "restore_run E p m =
     do { (dlls_restored, m) \<leftarrow> run_dll_restore E p m;
          if \<not> dlls_restored then Some (TransitionToError False (w_last_error (en_win32 E) (m_world m)), m)
          else
            do { (threads_restored, m) \<leftarrow> run_thread_restore E p m;
                 if \<not> threads_restored then Some (TransitionToError False (w_last_error (en_win32 E) (m_world m)), m)
                 else
                   (let m = reset_event_replay (tr_target_global_sequence p) m
                    in map_option (\<lambda>t. (t, m)) (tr_next_transition p)) } }"

definition restore_exit ::
    "'w environment \<Rightarrow> restore_phase \<Rightarrow> ('w, 'z) events_scheme \<Rightarrow> ('w, 'z) events_scheme option" where
  "restore_exit E p m =
     (let r = tr_target_run_id p; s = tr_target_run_sequence p in
      do { m \<leftarrow> restore_memory_at_sequence (en_win32 E) r s m;
           let m = m \<lparr> g_run_id := g_run_id m + 1, g_run_sequence := 0 \<rparr>;
           m \<leftarrow> create_thread_history_branch r s (g_run_id m) m;
           m \<leftarrow> create_module_history_branch r s (g_run_id m) m;
           m \<leftarrow> create_memory_history_branch r s (g_run_id m) m;
           create_snapshot_history_branch r s (g_run_id m) m })"

end
