(* ===== verification/Reverse_Replay.thy ===== *)
theory Reverse_Replay
  imports Time_Restore
begin

text \<open>
  \<open>src/src/execution_state_machine/execution_phase/reverse_replay_phase.cpp\<close>: running forward from a
  snapshot until the thread stands at a possible predecessor of an instruction with the branch
  counter the predecessor was executed with.

  The phase's members are the record \<open>reverse_phase\<close>; moving a vector out of the phase leaves it
  empty.  \<open>pred_last_seen_ctr_\<close> is only asked for single keys, so it is a map.
\<close>

record reverse_catchers =
  rc_catch_address :: addr
  rc_catch_branch_counter :: u64
  rc_too_far_branch_counter :: u64

record reverse_phase =
  rp_predecessors :: "potential_predecessor list"
  rp_frame_return_addresses :: "return_address list"
  rp_replay_thread_id :: thread_id
  rp_branch_target :: u64
  rp_stopped_address :: addr
  rp_stopped_branch_counter :: u64
  rp_reverse_catchers :: reverse_catchers
  rp_pred_last_seen_ctr :: "addr \<Rightarrow> u64 option"

definition reverse_phase_new :: "reverse_data \<Rightarrow> reverse_phase" where
  "reverse_phase_new t =
     \<lparr> rp_predecessors = rd_predecessors t, rp_frame_return_addresses = rd_frame_return_addresses t,
       rp_replay_thread_id = rd_thread_id t, rp_branch_target = rd_branch_target t,
       rp_stopped_address = rd_current_address t, rp_stopped_branch_counter = rd_current_branch_counter t,
       rp_reverse_catchers = \<lparr> rc_catch_address = 0, rc_catch_branch_counter = 0, rc_too_far_branch_counter = 0 \<rparr>,
       rp_pred_last_seen_ctr = Map.empty \<rparr>"

definition reverse_enter ::
    "'w environment \<Rightarrow> reverse_phase \<Rightarrow> ('w, 'z) breakpoints_scheme \<Rightarrow> (reverse_phase \<times> ('w, 'z) breakpoints_scheme) option" where
  "reverse_enter E p m =
     (let W = en_win32 E; tid = rp_replay_thread_id p in
      do { m \<leftarrow> foldM (\<lambda>predecessor. create_reverse_breakpoint W (pp_true_address predecessor) tid) (rp_predecessors p) m;
           if rp_branch_target p \<noteq> kTargetSentinel then
             Some (p, update_thread_tls W tid BranchTarget (rp_branch_target p) m)
           else
             (let p = p \<lparr> rp_reverse_catchers := \<lparr> rc_catch_address = rp_stopped_address p,
                            rc_catch_branch_counter = rp_stopped_branch_counter p,
                            rc_too_far_branch_counter = rp_stopped_branch_counter p + 1 \<rparr> \<rparr>
              in do { m \<leftarrow> create_reverse_breakpoint W (rp_stopped_address p) tid m;
                      Some (p, update_thread_tls W tid BranchTarget (rp_stopped_branch_counter p + 1) m) }) })"

text \<open>Stepping the thread over a breakpoint that was disabled, then putting the breakpoint back.\<close>

definition reverse_single_step_and_restore ::
    "'w win32 \<Rightarrow> addr \<Rightarrow> thread_id \<Rightarrow> ('w, 'z) breakpoints_scheme \<Rightarrow> ('w, 'z) breakpoints_scheme option" where
  "reverse_single_step_and_restore W address tid m =
     do { (trap, m) \<leftarrow> await_single_step W tid m;
          (_, m) \<leftarrow> enable_breakpoint W address m;
          let m = (case trap of Some de \<Rightarrow> continue_event W de DBG_CONTINUE m | None \<Rightarrow> m);
          Some (resume_all_threads W m) }"

definition step_over_reverse ::
    "'w win32 \<Rightarrow> debug_event \<Rightarrow> addr \<Rightarrow> thread_id \<Rightarrow> ('w, 'z) breakpoints_scheme \<Rightarrow> ('w, 'z) breakpoints_scheme option" where
  "step_over_reverse W de address tid m =
     do { (_, m) \<leftarrow> disable_breakpoint W address m;
          let m = suspend_all_threads_except_current W tid m;
          let m = set_trap_flag W tid m;
          let m = continue_event W de DBG_CONTINUE m;
          reverse_single_step_and_restore W address tid m }"

definition get_potential_predecessor :: "reverse_phase \<Rightarrow> addr \<Rightarrow> potential_predecessor option" where
  "get_potential_predecessor p address = List.find (\<lambda>predecessor. pp_true_address predecessor = address) (rp_predecessors p)"

definition update_last_seen :: "(addr \<Rightarrow> u64 option) \<Rightarrow> potential_predecessor \<Rightarrow> potential_predecessor" where
  "update_last_seen seen predecessor =
     (case seen (pp_true_address predecessor) of
        Some counter \<Rightarrow> predecessor \<lparr> pp_branch_counter := counter \<rparr> | None \<Rightarrow> predecessor)"

text \<open>The end of a replay that went too far: try again with the counters that were seen last.\<close>

definition reverse_retry ::
    "'w environment \<Rightarrow> debug_event \<Rightarrow> reverse_phase \<Rightarrow> ('w, 'z) events_scheme \<Rightarrow>
      (transition \<times> reverse_phase \<times> ('w, 'z) events_scheme) option" where
  "reverse_retry E de p m =
     do { nearest_snapshot \<leftarrow> get_nearest_snapshot m;
          let p = p \<lparr> rp_predecessors := map (update_last_seen (rp_pred_last_seen_ctr p)) (rp_predecessors p) \<rparr>;
          let m = snd (suspend_process (en_win32 E) m);
          let m = continue_event (en_win32 E) de DBG_CONTINUE m;
          let reverse_transition = \<lparr> rd_process_suspended = True, rd_predecessors = rp_predecessors p,
                rd_frame_return_addresses = rp_frame_return_addresses p, rd_thread_id = g_main_thread_id m,
                rd_branch_target = rp_branch_target p, rd_current_address = rp_stopped_address p,
                rd_current_branch_counter = rp_stopped_branch_counter p \<rparr>;
          let p = p \<lparr> rp_predecessors := [], rp_frame_return_addresses := [] \<rparr>;
          snapshot \<leftarrow> nearest_snapshot;
          Some (TransitionToTimeRestore True (sn_run_id snapshot) (sn_run_sequence snapshot) (sn_global_sequence snapshot)
                  (Some (TransitionToReverseReplay reverse_transition)), p, m) }"

text \<open>A breakpoint of the replayed thread, at \<open>current_address\<close> with its branch counter.\<close>

definition reverse_breakpoint ::
    "'w environment \<Rightarrow> debug_event \<Rightarrow> reverse_phase \<Rightarrow> addr \<Rightarrow> u64 \<Rightarrow> ('w, 'z) events_scheme \<Rightarrow>
      ((reverse_phase \<times> ('w, 'z) events_scheme) + transition \<times> reverse_phase \<times> ('w, 'z) events_scheme) option" where
  "reverse_breakpoint E de p current_address tls_branch_counter m =
     (let W = en_win32 E; thread_id = de_thread_id de; catch = rp_reverse_catchers p in
      if (current_address = rc_catch_address catch \<and> tls_branch_counter = rc_catch_branch_counter catch)
         \<or> rp_stopped_branch_counter p \<le> tls_branch_counter
      then map_option Inr (reverse_retry E de p m)
      else if current_address = rc_catch_address catch then
        (let m = snd (roll_back_instruction_pointer W thread_id m)
         in map_option (\<lambda>m. Inl (p, m)) (step_over_reverse W de current_address thread_id m))
      else case get_potential_predecessor p current_address of
        Some predecessor \<Rightarrow>
          (let m = snd (roll_back_instruction_pointer W thread_id m) in
           if tls_branch_counter = pp_branch_counter predecessor then
             (let m = snd (suspend_process W m);
                  m = continue_event W de DBG_CONTINUE m
              in Some (Inr (TransitionToDebugger True, p, m)))
           else
             (let p = p \<lparr> rp_pred_last_seen_ctr := (rp_pred_last_seen_ctr p)(current_address \<mapsto> tls_branch_counter) \<rparr>
              in map_option (\<lambda>m. Inl (p, m)) (step_over_reverse W de current_address thread_id m)))
      | None \<Rightarrow>
          (let m = (if get_breakpoint_type current_address thread_id m = Some BP_Permanent
                    then snd (redirect_to_trampoline W current_address thread_id m) else m)
           in Some (Inl (p, continue_event W de DBG_CONTINUE m))))"

definition reverse_round ::
    "'w environment \<Rightarrow> reverse_phase \<times> ('w, 'z) events_scheme \<Rightarrow>
      ((reverse_phase \<times> ('w, 'z) events_scheme) + transition \<times> reverse_phase \<times> ('w, 'z) events_scheme) option" where
  "reverse_round E = (\<lambda>(p, m).
     let W = en_win32 E;
         failed = (\<lambda>m. Some (Inr (TransitionToError False (w_last_error W (m_world m)), p, m \<lparr> g_running := False \<rparr>)))
     in if \<not> g_running m then failed m
        else case wait_event W INFINITE m of
          (Inl error, m) \<Rightarrow> Some (Inr (TransitionToError False error, p, m \<lparr> g_running := False \<rparr>))
        | (Inr de, m) \<Rightarrow>
            if breakpoint_event de then
              if de_thread_id de \<noteq> rp_replay_thread_id p then Some (Inl (p, continue_event W de DBG_CONTINUE m))
              else
                (let (tls_branch_counter, m) = read_thread_tls W (de_thread_id de) BranchCounter m;
                     (rip, m) = get_rip_address W (de_thread_id de) m
                 in reverse_breakpoint E de p (rip - 1) tls_branch_counter m)
            else Some (Inl (p, continue_event W de DBG_CONTINUE m)))"

definition reverse_run ::
    "'w environment \<Rightarrow> reverse_phase \<Rightarrow> ('w, 'z) events_scheme \<Rightarrow> (transition \<times> reverse_phase \<times> ('w, 'z) events_scheme) option" where
  "reverse_run E p m = loop (reverse_round E) (p, snd (resume_process (en_win32 E) m))"

definition reverse_exit ::
    "'w environment \<Rightarrow> reverse_phase \<Rightarrow> ('w, 'z) breakpoints_scheme \<Rightarrow> ('w, 'z) breakpoints_scheme option" where
  "reverse_exit E p m =
     (let W = en_win32 E; tid = rp_replay_thread_id p in
      do { m \<leftarrow> foldM (\<lambda>predecessor m. map_option snd (remove_breakpoint W (pp_true_address predecessor) tid m)) (rp_predecessors p) m;
           let m = (if rp_branch_target p \<noteq> kTargetSentinel then update_thread_tls W tid BranchTarget kTargetSentinel m else m);
           if rc_catch_address (rp_reverse_catchers p) \<noteq> 0 then
             do { (_, m) \<leftarrow> remove_breakpoint W (rc_catch_address (rp_reverse_catchers p)) tid m;
                  Some (update_thread_tls W tid BranchTarget kTargetSentinel m) }
           else Some m })"

end
