(* ===== verification/Debugger_Input.thy ===== *)
theory Debugger_Input
  imports Text_Utils Machine
begin

text \<open>
  What the user types: \<open>UserInput\<close> and \<open>SplitInput\<close> of
  \<open>src/src/execution_state_machine/execution_phase/debugger_phase.cpp\<close>, and the part of the C and
  C++ libraries the commands read numbers and print with (\<open>std::isspace\<close> in the C locale,
  \<open>std::stoul\<close>, \<open>std::stoull\<close>, \<open>printf\<close> of numbers).
\<close>

section \<open>Reading and splitting a line\<close>

definition user_input :: "'w win32 \<Rightarrow> string \<Rightarrow> ('w, 'z) machine_scheme \<Rightarrow> string \<times> ('w, 'z) machine_scheme" where
  "user_input W prompt m =
     (let m = put_line prompt m; (line, w) = w_read_line W (m_world m) in (line, m \<lparr> m_world := w \<rparr>))"

definition is_space :: "char \<Rightarrow> bool" where
  "is_space c = (let n = of_char c :: nat in n = 32 \<or> (9 \<le> n \<and> n \<le> 13))"

definition is_quote :: "char \<Rightarrow> bool" where
  "is_quote c = (c = CHR 0x22 \<or> c = CHR 0x27)"

text \<open>The locals of the loop; no quote open is \<open>'\0'\<close> in the source.\<close>

record split_state =
  sp_args :: "string list"
  sp_token :: string
  sp_in_token :: bool
  sp_quote_char :: "char option"

definition split_step :: "char \<Rightarrow> split_state \<Rightarrow> split_state" where
  "split_step c s =
     (case sp_quote_char s of
        Some q \<Rightarrow> if c = q then s \<lparr> sp_quote_char := None \<rparr> else s \<lparr> sp_token := sp_token s @ [c] \<rparr>
      | None \<Rightarrow>
          if is_quote c then s \<lparr> sp_quote_char := Some c, sp_in_token := True \<rparr>
          else if is_space c then
            (if sp_in_token s
             then s \<lparr> sp_args := sp_args s @ [sp_token s], sp_token := [], sp_in_token := False \<rparr> else s)
          else s \<lparr> sp_token := sp_token s @ [c], sp_in_token := True \<rparr>)"

definition split_input :: "string \<Rightarrow> string list" where
  "split_input input =
     (let s = fold split_step input \<lparr> sp_args = [[]], sp_token = [], sp_in_token = False, sp_quote_char = None \<rparr>
      in if sp_in_token s then sp_args s @ [sp_token s] else sp_args s)"

section \<open>Numbers\<close>

definition digit_value :: "char \<Rightarrow> nat option" where
  "digit_value c =
     (let n = of_char c :: nat in
      if 48 \<le> n \<and> n \<le> 57 then Some (n - 48)
      else if 97 \<le> n \<and> n \<le> 122 then Some (n - 87)
      else if 65 \<le> n \<and> n \<le> 90 then Some (n - 55)
      else None)"

definition is_digit_of :: "nat \<Rightarrow> char \<Rightarrow> bool" where
  "is_digit_of b c = (case digit_value c of Some d \<Rightarrow> d < b | None \<Rightarrow> False)"

definition digits_value :: "nat \<Rightarrow> string \<Rightarrow> nat" where
  "digits_value b ds = foldl (\<lambda>n c. n * b + (case digit_value c of Some d \<Rightarrow> d | None \<Rightarrow> 0)) 0 ds"

text \<open>
  \<open>strtoul\<close> and \<open>strtoull\<close> with a base of 10 or 0 (the prefix decides), up to the greatest value
  \<open>limit\<close>; \<open>std::stoul\<close> throws when there are no digits or the number is too large.
\<close>

definition number_prefix :: "nat \<Rightarrow> string \<Rightarrow> nat \<times> string" where
  "number_prefix base s =
     (if base \<noteq> 0 then (base, s)
      else case s of
        z # x # d # _ \<Rightarrow>
          if z = CHR ''0'' \<and> (x = CHR ''x'' \<or> x = CHR ''X'') \<and> is_digit_of 16 d then (16, drop 2 s)
          else if z = CHR ''0'' then (8, s) else (10, s)
      | z # _ \<Rightarrow> if z = CHR ''0'' then (8, s) else (10, s)
      | [] \<Rightarrow> (10, s))"

definition number_sign :: "string \<Rightarrow> bool \<times> string" where
  "number_sign s = (case s of c # cs \<Rightarrow> if c = CHR ''-'' then (True, cs) else if c = CHR ''+'' then (False, cs) else (False, s)
                            | [] \<Rightarrow> (False, s))"

definition parse_unsigned :: "nat \<Rightarrow> nat \<Rightarrow> string \<Rightarrow> nat option" where
  "parse_unsigned base limit s =
     (let (negative, s) = number_sign (dropWhile is_space s);
          (b, s) = number_prefix base s;
          ds = takeWhile (is_digit_of b) s;
          v = digits_value b ds
      in if ds = [] \<or> limit < v then None
         else Some (if negative then (Suc limit - v) mod Suc limit else v))"

definition stoul :: "string \<Rightarrow> u32 option" where
  "stoul s = map_option of_nat (parse_unsigned 10 (2 ^ 32 - 1) s)"

definition stoull :: "string \<Rightarrow> u64 option" where
  "stoull s = map_option of_nat (parse_unsigned 0 (2 ^ 64 - 1) s)"

definition pad_left :: "nat \<Rightarrow> char \<Rightarrow> string \<Rightarrow> string" where
  "pad_left n c s = replicate (n - length s) c @ s"

definition pad_right :: "nat \<Rightarrow> string \<Rightarrow> string" where
  "pad_right n s = s @ replicate (n - length s) CHR '' ''"

definition upper :: "char \<Rightarrow> char" where
  "upper c = (let n = of_char c :: nat in if 97 \<le> n \<and> n \<le> 122 then char_of (n - 32) else c)"

definition show_hex :: "nat \<Rightarrow> string" where "show_hex n = show_base 16 n"

text \<open>\<open>%p\<close> and \<open>%016llx\<close>.\<close>

definition show_pointer :: "u64 \<Rightarrow> string" where "show_pointer a = pad_left 16 CHR ''0'' (map upper (show_hex (unat a)))"

definition show_hex16 :: "u64 \<Rightarrow> string" where "show_hex16 a = pad_left 16 CHR ''0'' (show_hex (unat a))"

definition show_int :: "int \<Rightarrow> string" where
  "show_int i = (if i < 0 then CHR ''-'' # show_dec (nat (- i)) else show_dec (nat i))"

section \<open>Splitting gives back quoted arguments\<close>

text \<open>How an argument can be written: as it is, or between quotes it does not contain.\<close>

definition plain_word :: "string \<Rightarrow> bool" where
  "plain_word t = (t \<noteq> [] \<and> (\<forall>c\<in>set t. \<not> is_space c \<and> \<not> is_quote c))"

fun written :: "char option \<times> string \<Rightarrow> string" where
  "written (None, t) = t"
| "written (Some q, t) = q # t @ [q]"

fun writable :: "char option \<times> string \<Rightarrow> bool" where
  "writable (None, t) = plain_word t"
| "writable (Some q, t) = (is_quote q \<and> q \<notin> set t)"

text \<open>A line of arguments, each followed by at least one blank.\<close>

definition written_line :: "((char option \<times> string) \<times> string) list \<Rightarrow> string" where
  "written_line ws = concat (map (\<lambda>(a, blanks). written a @ blanks) ws)"

definition blank :: "string \<Rightarrow> bool" where
  "blank s = (s \<noteq> [] \<and> (\<forall>c\<in>set s. is_space c))"

lemma space_not_quote: "is_space c \<Longrightarrow> \<not> is_quote c"
  by (auto simp: is_space_def is_quote_def Let_def)

lemma fold_quoted:
  "q \<notin> set t \<Longrightarrow> sp_quote_char s = Some q \<Longrightarrow> fold split_step t s = s \<lparr> sp_token := sp_token s @ t \<rparr>"
  by (induction t arbitrary: s) (auto simp: split_step_def)

lemma fold_plain:
  "\<forall>c\<in>set t. \<not> is_space c \<and> \<not> is_quote c \<Longrightarrow> t \<noteq> [] \<Longrightarrow> sp_quote_char s = None
   \<Longrightarrow> fold split_step t s = s \<lparr> sp_token := sp_token s @ t, sp_in_token := True \<rparr>"
proof (induction t arbitrary: s)
  case (Cons c t)
  then show ?case by (cases "t = []") (auto simp: split_step_def)
qed simp

lemma fold_blank_outside:
  "\<forall>c\<in>set b. is_space c \<Longrightarrow> sp_quote_char s = None \<Longrightarrow> \<not> sp_in_token s \<Longrightarrow> fold split_step b s = s"
  by (induction b) (auto simp: split_step_def space_not_quote)

lemma fold_blank:
  assumes "blank b" "sp_quote_char s = None" "sp_in_token s"
  shows "fold split_step b s = s \<lparr> sp_args := sp_args s @ [sp_token s], sp_token := [], sp_in_token := False \<rparr>"
proof -
  obtain c cs where b: "b = c # cs" "is_space c" "\<forall>c\<in>set cs. is_space c"
    using assms(1) by (cases b) (auto simp: blank_def)
  have "split_step c s = s \<lparr> sp_args := sp_args s @ [sp_token s], sp_token := [], sp_in_token := False \<rparr>"
    using b(2) assms(2,3) by (simp add: split_step_def space_not_quote)
  then show ?thesis using b assms(2) by (simp add: fold_blank_outside)
qed

lemma fold_written:
  assumes "writable (k, t)" "sp_quote_char s = None" "sp_token s = []"
  shows "fold split_step (written (k, t)) s = s \<lparr> sp_token := t, sp_in_token := True \<rparr>"
proof (cases k)
  case None
  then show ?thesis using assms by (simp add: plain_word_def fold_plain)
next
  case (Some q)
  with assms have q: "is_quote q" "q \<notin> set t" by simp_all
  let ?s = "s \<lparr> sp_quote_char := Some q, sp_in_token := True \<rparr>"
  have "split_step q s = ?s" using q(1) assms(2) by (simp add: split_step_def)
  moreover have "fold split_step t ?s = ?s \<lparr> sp_token := t \<rparr>" using fold_quoted[OF q(2), of ?s] assms(3) by simp
  ultimately show ?thesis using Some assms(2) by (simp add: split_step_def)
qed

lemma fold_written_line:
  assumes "\<forall>(a, b)\<in>set ws. writable a \<and> blank b" "sp_quote_char s = None" "sp_token s = []" "\<not> sp_in_token s"
  shows "fold split_step (written_line ws) s = s \<lparr> sp_args := sp_args s @ map (snd \<circ> fst) ws \<rparr>"
  using assms
proof (induction ws arbitrary: s)
  case (Cons w ws)
  obtain k t b where w: "w = ((k, t), b)" by (cases w) auto
  have "fold split_step (written (k, t) @ b) s = s \<lparr> sp_args := sp_args s @ [t] \<rparr>"
    using Cons.prems by (simp add: w fold_written fold_blank)
  then show ?case using Cons.IH[of "s \<lparr> sp_args := sp_args s @ [t] \<rparr>"] Cons.prems by (simp add: w written_line_def)
qed (simp add: written_line_def)

text \<open>
  C32: SplitInput gives the arguments back.  A line of arguments, each written plainly (no blank, no
  quote) or between double or single quotes that it does not contain, with any blanks before the
  line and at least one between two arguments, is split into exactly those arguments, behind the
  empty program name; the last argument needs nothing behind it.  Quoted arguments may be empty or
  have blanks and the other quote in them.
\<close>

theorem split_input_round_trip:
  assumes "\<forall>c\<in>set start. is_space c" "\<forall>(a, b)\<in>set ws. writable a \<and> blank b" "writable (k, t)"
  shows "split_input (start @ written_line ws) = [] # map (snd \<circ> fst) ws
    \<and> split_input (start @ written_line ws @ written (k, t)) = [] # map (snd \<circ> fst) ws @ [t]"
proof
  let ?s = "\<lparr> sp_args = [[]], sp_token = [], sp_in_token = False, sp_quote_char = None \<rparr>"
  let ?t = "?s \<lparr> sp_args := [] # map (snd \<circ> fst) ws \<rparr>"
  have line: "fold split_step (start @ written_line ws) ?s = ?t"
    using assms(1,2) by (simp add: fold_blank_outside fold_written_line)
  then show "split_input (start @ written_line ws) = [] # map (snd \<circ> fst) ws"
    by (simp add: split_input_def)
  have "fold split_step (start @ written_line ws @ written (k, t)) ?s = ?t \<lparr> sp_token := t, sp_in_token := True \<rparr>"
    using line fold_written[OF assms(3), of ?t] by simp
  then show "split_input (start @ written_line ws @ written (k, t)) = [] # map (snd \<circ> fst) ws @ [t]"
    by (simp add: split_input_def)
qed

theorem split_input_round_trip_witness:
  "split_input ''bp  --file a.cpp --condition  'x == y' '' = ['''', ''bp'', ''--file'', ''a.cpp'', ''--condition'', ''x == y'']"
  using split_input_round_trip[of "[]" "[((None, ''bp''), ''  ''), ((None, ''--file''), '' ''), ((None, ''a.cpp''), '' ''),
      ((None, ''--condition''), ''  ''), ((Some CHR 0x27, ''x == y''), '' '')]" None "''x''"]
  by (simp add: written_line_def blank_def plain_word_def is_space_def is_quote_def)

section \<open>Reading printed numbers\<close>

lemma digit_value_char: "n < 16 \<Longrightarrow> digit_value (digit_char n) = Some n"
  by (auto simp: digit_value_def digit_char_def Let_def)

lemma digits_value_snoc: "digits_value b (ds @ [c]) = digits_value b ds * b + (case digit_value c of Some d \<Rightarrow> d | None \<Rightarrow> 0)"
  by (simp add: digits_value_def)

lemma show_base_read:
  assumes "2 \<le> b" "b \<le> 16"
  shows "show_base b n \<noteq> [] \<and> (\<forall>c\<in>set (show_base b n). is_digit_of b c) \<and> digits_value b (show_base b n) = n"
proof (induction n rule: less_induct)
  case (less n)
  show ?case
  proof (cases "n < b")
    case True
    then show ?thesis using assms by (simp add: show_base.simps[of b n] is_digit_of_def digit_value_char digits_value_def)
  next
    case False
    have "n div b < n" "n mod b < b" using False assms by (simp_all add: div_less_dividend)
    moreover have "digit_value (digit_char (n mod b)) = Some (n mod b)"
      using \<open>n mod b < b\<close> assms(2) by (intro digit_value_char) linarith
    ultimately show ?thesis using less.IH[of "n div b"] False assms
      by (simp add: show_base.simps[of b n] is_digit_of_def digit_value_char digits_value_snoc)
  qed
qed

lemma digit_not_space: "is_digit_of b c \<Longrightarrow> \<not> is_space c \<and> c \<noteq> CHR ''-'' \<and> c \<noteq> CHR ''+''"
  by (auto simp: is_digit_of_def digit_value_def is_space_def Let_def split: option.splits if_splits)

lemma takeWhile_digits: "(\<forall>c\<in>set ds. is_digit_of b c) \<Longrightarrow> takeWhile (is_digit_of b) ds = ds"
  by (simp add: takeWhile_eq_all_conv)

text \<open>
  What the debugger prints, it reads.  An address as \<open>bp --list\<close> prints it is the address that
  \<open>bp --remove\<close> reads, and a run id or sequence as \<open>snapshot --list\<close> prints it is the number that
  \<open>snapshot --run_id\<close> reads, for every 64-bit address and every 32-bit number.
\<close>

theorem printed_numbers_read_back:
  "stoull (show_ptr a) = Some a \<and> stoul (show_dec (unat n)) = Some n"
proof
  obtain c cs where hex: "show_base 16 (unat a) = c # cs" "is_digit_of 16 c" "\<forall>c\<in>set cs. is_digit_of 16 c"
      "digits_value 16 (c # cs) = unat a"
    using show_base_read[of 16 "unat a"] by (cases "show_base 16 (unat a)") auto
  have "unat a < 2 ^ 64" by (rule order_less_le_trans[OF unsigned_less]) simp
  then have "\<not> 2 ^ 64 - 1 < unat a" by simp
  then show "stoull (show_ptr a) = Some a"
    using hex by (simp add: stoull_def parse_unsigned_def show_ptr_def is_space_def number_sign_def number_prefix_def
        takeWhile_digits)
  obtain d ds where dec: "show_base 10 (unat n) = d # ds" "is_digit_of 10 d" "\<forall>c\<in>set ds. is_digit_of 10 c"
      "digits_value 10 (d # ds) = unat n"
    using show_base_read[of 10 "unat n"] by (cases "show_base 10 (unat n)") auto
  have "unat n < 2 ^ 32" by (rule order_less_le_trans[OF unsigned_less]) simp
  then have "\<not> 2 ^ 32 - 1 < unat n" by simp
  then show "stoul (show_dec (unat n)) = Some n"
    using dec digit_not_space[OF dec(2)]
    by (simp add: stoul_def parse_unsigned_def show_dec_def number_sign_def number_prefix_def takeWhile_digits)
qed

end
