(* ===== verification/Commands.thy ===== *)
theory Commands
  imports Reverse_Replay Debugger_Input
begin

text \<open>
  Commands of the debugger, \<open>src/src/cli/debugger/commands\<close>: resume, snapshot, detach and bp.  A
  command gives the transition it asks for, or none, in which case the debugger prompts again.
\<close>

type_synonym ('w, 'z) command_result = "(transition option \<times> ('w, 'z) session_state_scheme) option"

abbreviation (input) no_transition :: "('w, 'z) session_state_scheme \<Rightarrow> ('w, 'z) command_result" where
  "no_transition m \<equiv> Some (None, m)"

section \<open>\<open>resume_command.cpp\<close>\<close>

definition resume_single_step_and_restore ::
    "'w win32 \<Rightarrow> addr \<Rightarrow> thread_id \<Rightarrow> ('w, 'z) breakpoints_scheme \<Rightarrow> ('w, 'z) breakpoints_scheme option" where
  "resume_single_step_and_restore W address tid m =
     do { (trap, m) \<leftarrow> await_single_step W tid m;
          (_, m) \<leftarrow> enable_user_breakpoint W address m;
          let m = (case trap of Some de \<Rightarrow> continue_event W de DBG_CONTINUE m | None \<Rightarrow> m);
          Some (resume_all_threads W m) }"

definition resume_start :: "'w environment \<Rightarrow> ('w, 'z) session_state_scheme \<Rightarrow> ('w, 'z) session_state_scheme option" where
  "resume_start E m =
     (let W = en_win32 E in
      case se_pending_user_breakpoint m of
        Some (address, tid) \<Rightarrow>
          do { (_, m) \<leftarrow> disable_user_breakpoint W address (m \<lparr> se_pending_user_breakpoint := None \<rparr>);
               let m = suspend_all_threads_except_current W tid m;
               let m = set_trap_flag W tid m;
               let m = snd (resume_process W m);
               resume_single_step_and_restore W address tid m }
      | None \<Rightarrow> Some (snd (resume_process W m)))"

text \<open>A user breakpoint, at \<open>rip_address\<close>: stop there, or step over it when its condition is false.\<close>

definition resume_user_breakpoint ::
    "'w environment \<Rightarrow> debug_event \<Rightarrow> addr \<Rightarrow> ('w, 'z) session_state_scheme \<Rightarrow>
      (('w, 'z) session_state_scheme + transition option \<times> ('w, 'z) session_state_scheme) option" where
  "resume_user_breakpoint E de rip_address m =
     (let W = en_win32 E; thread_id = de_thread_id de;
          m = snd (roll_back_instruction_pointer W thread_id m)
      in do { (conditional, m) \<leftarrow> is_user_breakpoint_conditional rip_address m;
              (should_break, m) \<leftarrow> (if conditional then reached_breakpoint ''cpp'' rip_address thread_id m else Some (True, m));
              if should_break then
                (let m = m \<lparr> se_pending_user_breakpoint := Some (rip_address, thread_id) \<rparr>;
                     m = snd (suspend_process W m)
                 in Some (Inr (None, continue_event W de DBG_CONTINUE m)))
              else
                do { (_, m) \<leftarrow> disable_user_breakpoint W rip_address m;
                     let m = suspend_all_threads_except_current W thread_id m;
                     let m = set_trap_flag W thread_id m;
                     let m = continue_event W de DBG_CONTINUE m;
                     m \<leftarrow> resume_single_step_and_restore W rip_address thread_id m;
                     Some (Inl m) } })"

definition resume_round ::
    "'w environment \<Rightarrow> ('w, 'z) session_state_scheme \<Rightarrow>
      (('w, 'z) session_state_scheme + transition option \<times> ('w, 'z) session_state_scheme) option" where
  "resume_round E m =
     (let W = en_win32 E in
      if \<not> g_running m then Some (Inr (Some (TransitionToError False 0), m))
      else case wait_event W INFINITE m of
        (Inl last_error, m) \<Rightarrow> Some (Inr (Some (TransitionToError False last_error), m))
      | (Inr de, m) \<Rightarrow>
          if breakpoint_event de then
            (let thread_id = de_thread_id de;
                 (rip, m) = get_rip_address W thread_id m;
                 rip_address = rip - 1
             in case get_breakpoint_type rip_address thread_id m of
                  None \<Rightarrow> None
                | Some BP_Permanent \<Rightarrow>
                    Some (Inl (continue_event W de DBG_CONTINUE (snd (redirect_to_trampoline W rip_address thread_id m))))
                | Some BP_User \<Rightarrow> resume_user_breakpoint E de rip_address m
                | Some _ \<Rightarrow> Some (Inl (continue_event W de DBG_CONTINUE m)))
          else Some (Inl (continue_event W de DBG_CONTINUE m)))"

definition resume_process_execution :: "'w environment \<Rightarrow> ('w, 'z) session_state_scheme \<Rightarrow> ('w, 'z) command_result" where
  "resume_process_execution E m = do { m \<leftarrow> resume_start E m; loop (resume_round E) m }"

definition resume_command :: "'w environment \<Rightarrow> cli_args \<Rightarrow> ('w, 'z) session_state_scheme \<Rightarrow> ('w, 'z) command_result" where
  "resume_command E a m = resume_process_execution E m"

section \<open>\<open>snapshot_command.cpp\<close>\<close>

definition handle_run_id_seq :: "cli_args \<Rightarrow> ('w, 'z) session_state_scheme \<Rightarrow> ('w, 'z) command_result" where
  "handle_run_id_seq a m =
     (let run_id_str = ca_string a ''--run_id''; run_seq_str = ca_string a ''--run_seq'' in
      if run_id_str = [] \<or> run_seq_str = [] then
        no_transition (put_line ''Please supply both a run_id and run_seq for the snapshot'' m)
      else
        do { run_id \<leftarrow> stoul run_id_str;
             run_seq \<leftarrow> stoul run_seq_str;
             valid \<leftarrow> valid_snapshot_id_seq run_id run_seq m;
             if \<not> valid then
               no_transition (put_line ''Please supply a valid run_id and run_seq for the snapshot.  Run snapshot --list to see available snapshots'' m)
             else
               do { target_global_sequence \<leftarrow> get_global_sequence run_id run_seq m;
                    target \<leftarrow> target_global_sequence;
                    Some (Some (TransitionToTimeRestore True run_id run_seq target (Some (TransitionToDebugger True))), m) } })"

definition snapshot_command :: "'w environment \<Rightarrow> cli_args \<Rightarrow> ('w, 'z) session_state_scheme \<Rightarrow> ('w, 'z) command_result" where
  "snapshot_command E a m =
     (if ca_flag a ''--list'' then do { m \<leftarrow> print_snapshot_history m; no_transition m }
      else if ca_used a ''--run_id'' \<or> ca_used a ''--run_seq'' then handle_run_id_seq a m
      else no_transition (put_line (en_help E ''snapshot'') m))"

section \<open>\<open>detach_command.cpp\<close>\<close>

definition detach_command :: "'w environment \<Rightarrow> cli_args \<Rightarrow> ('w, 'z) session_state_scheme \<Rightarrow> ('w, 'z) command_result" where
  "detach_command E a m =
     (let W = en_win32 E;
          (stopped, w) = w_stop_debugging W (m_world m);
          m = m \<lparr> m_world := w \<rparr>
      in if \<not> stopped then
           (let m = put_line (''Detach failed with error '' @ show_int (sint (w_last_error W (m_world m)))) m
            in Some (Some (TransitionToError False 0), m \<lparr> g_running := False \<rparr>))
         else no_transition (unload_trampoline W m))"

section \<open>\<open>breakpoint_command.cpp\<close>\<close>

text \<open>
  The quotes around a condition are cut off; \<open>back()\<close> of the string that is empty after the first
  cut has no result.
\<close>

definition strip_quotes :: "string \<Rightarrow> string option" where
  "strip_quotes condition =
     (let condition = (if is_quote (hd condition) then tl condition else condition) in
      if condition = [] then None
      else Some (if is_quote (last condition) then butlast condition else condition))"

text \<open>The part of \<open>--function\<close> and \<open>--file\<close> after the address is known.\<close>

definition add_conditional_breakpoint ::
    "'w environment \<Rightarrow> addr \<Rightarrow> string \<Rightarrow> ('w, 'z) session_state_scheme \<Rightarrow> ('w, 'z) command_result" where
  "add_conditional_breakpoint E address condition m =
     (if condition = [] then no_transition (put_line ''Please supply a valid condition to attach a breakpoint to'' m)
      else
        do { condition \<leftarrow> strip_quotes condition;
             (success, m) \<leftarrow> create_conditional_breakpoint ''cpp'' address condition m;
             if \<not> success then no_transition (put_line ''Condition failed to create'' m)
             else do { m \<leftarrow> create_user_breakpoint (en_win32 E) address condition m; no_transition m } })"

definition breakpoint_function :: "'w environment \<Rightarrow> cli_args \<Rightarrow> ('w, 'z) session_state_scheme \<Rightarrow> ('w, 'z) command_result" where
  "breakpoint_function E a m =
     (let function_name = ca_string a ''--function'' in
      if function_name = [] then no_transition (put_line ''Please supply a valid function to attach a breakpoint to'' m)
      else do { (function_address, m) \<leftarrow> get_address_from_name_type ''cpp'' function_name ''function'' m;
                add_conditional_breakpoint E function_address (ca_string a ''--condition'') m })"

definition breakpoint_file :: "'w environment \<Rightarrow> cli_args \<Rightarrow> ('w, 'z) session_state_scheme \<Rightarrow> ('w, 'z) command_result" where
  "breakpoint_file E a m =
     do { (file_line_address, m) \<leftarrow> get_address_from_name_type ''cpp''
            (ca_string a ''--file'' @ '':'' @ ca_string a ''--line'') ''file_line'' m;
          add_conditional_breakpoint E file_line_address (ca_string a ''--condition'') m }"

definition breakpoint_remove :: "'w environment \<Rightarrow> cli_args \<Rightarrow> ('w, 'z) session_state_scheme \<Rightarrow> ('w, 'z) command_result" where
  "breakpoint_remove E a m =
     (let remove = ca_string a ''--remove'';
          bad = put_line ''Please supply a valid breakpoint to remove.  Run bp --list to see all current breakpoints''
      in if remove = [] then no_transition (bad m)
         else
           do { address \<leftarrow> stoull remove;
                (found, m) \<leftarrow> get_user_breakpoint address m;
                if found = None then no_transition (bad m)
                else
                  do { (success, m) \<leftarrow> remove_user_breakpoint (en_win32 E) address m;
                       no_transition (if success then m
                         else put_line (''Breakpoint '' @ show_pointer address @ '' was not able to be removed'') m) } })"

definition breakpoint_address :: "'w environment \<Rightarrow> cli_args \<Rightarrow> ('w, 'z) session_state_scheme \<Rightarrow> ('w, 'z) command_result" where
  "breakpoint_address E a m =
     (let add = ca_string a ''--address'' in
      if add = [] then no_transition (put_line ''Please supply a valid breakpoint to add'' m)
      else do { address \<leftarrow> stoull add;
                m \<leftarrow> create_user_breakpoint (en_win32 E) address [] m;
                no_transition m })"

definition breakpoint_command :: "'w environment \<Rightarrow> cli_args \<Rightarrow> ('w, 'z) session_state_scheme \<Rightarrow> ('w, 'z) command_result" where
  "breakpoint_command E a m =
     (if ca_flag a ''--list'' then no_transition (print_all_user_breakpoints m)
      else if ca_used a ''--function'' then breakpoint_function E a m
      else if ca_used a ''--file'' then breakpoint_file E a m
      else if ca_used a ''--remove'' then breakpoint_remove E a m
      else if ca_used a ''--address'' then breakpoint_address E a m
      else no_transition (put_line (en_help E ''bp'') m))"

end
