(* ===== verification/Step_Command.thy ===== *)
theory Step_Command
  imports Commands
begin

text \<open>
  \<open>src/src/cli/debugger/commands/step_command.cpp\<close>: stepping forward by breakpoints that the plugin
  chooses, and backward by going to the nearest snapshot and replaying from there.

  \<open>suspended_thread_ids\<close> of \<open>run_step_mode\<close> is filled and never read, so it is left out.
\<close>

section \<open>Stepping back\<close>

definition transition_to_time_restore ::
    "'w environment \<Rightarrow> potential_predecessor list \<Rightarrow> addr \<Rightarrow> u64 \<Rightarrow> ('w, 'z) session_state_scheme \<Rightarrow>
      (transition \<times> ('w, 'z) session_state_scheme) option" where
  "transition_to_time_restore E predecessors current_address current_branch_counter m =
     (let W = en_win32 E; tid = g_main_thread_id m in
      do { ((branch_target, frame_return_addresses), m) \<leftarrow>
             (if length predecessors = 0 then
                do { (target, m) \<leftarrow> get_branch_target W ''cpp'' current_address tid m;
                     (frames, m) \<leftarrow> get_all_frame_return_addresses ''cpp'' tid m;
                     Some ((target, frames), m) }
              else Some ((kTargetSentinel, []), m));
           nearest_snapshot \<leftarrow> get_nearest_snapshot m;
           snapshot \<leftarrow> nearest_snapshot;
           let reverse_transition = \<lparr> rd_process_suspended = True, rd_predecessors = predecessors,
                 rd_frame_return_addresses = frame_return_addresses, rd_thread_id = g_main_thread_id m,
                 rd_branch_target = branch_target, rd_current_address = current_address,
                 rd_current_branch_counter = current_branch_counter \<rparr>;
           Some (TransitionToTimeRestore True (sn_run_id snapshot) (sn_run_sequence snapshot) (sn_global_sequence snapshot)
                   (Some (TransitionToReverseReplay reverse_transition)), m) })"

section \<open>Stepping one instruction\<close>

definition resume_for_step :: "'w win32 \<Rightarrow> bool \<Rightarrow> thread_id \<Rightarrow> ('w, 'z) threads_scheme \<Rightarrow> ('w, 'z) threads_scheme" where
  "resume_for_step W this_thread_only tid m =
     (if this_thread_only then resume_thread_id W tid m else snd (resume_process W m))"

definition suspend_for_step :: "'w win32 \<Rightarrow> bool \<Rightarrow> thread_id \<Rightarrow> ('w, 'z) threads_scheme \<Rightarrow> ('w, 'z) threads_scheme" where
  "suspend_for_step W this_thread_only tid m =
     (if this_thread_only then suspend_thread_id W tid m else snd (suspend_process W m))"

definition step_instruction_round ::
    "'w win32 \<Rightarrow> thread_id \<Rightarrow> bool \<Rightarrow> ('w, 'z) threads_scheme \<Rightarrow> (('w, 'z) threads_scheme + ('w, 'z) threads_scheme) option" where
  "step_instruction_round W tid this_thread_only m =
     Some (if \<not> g_running m then Inr m
           else case wait_event W INFINITE m of
             (Inl error, m) \<Rightarrow> Inr m
           | (Inr de, m) \<Rightarrow>
               if single_step_event tid de then
                 (let m = suspend_for_step W this_thread_only tid m in Inr (continue_event W de DBG_CONTINUE m))
               else if breakpoint_event de \<and> de_thread_id de = tid then
                 (let m = suspend_for_step W this_thread_only tid m;
                      m = snd (roll_back_instruction_pointer W tid m)
                  in Inr (continue_event W de DBG_CONTINUE m))
               else Inl (continue_event W de DBG_CONTINUE m))"

definition step_instruction :: "'w win32 \<Rightarrow> thread_id \<Rightarrow> bool \<Rightarrow> ('w, 'z) threads_scheme \<Rightarrow> ('w, 'z) threads_scheme option" where
  "step_instruction W tid this_thread_only m =
     loop (step_instruction_round W tid this_thread_only) (resume_for_step W this_thread_only tid m)"

section \<open>Running to an address\<close>

text \<open>The state of the loop is the list of suspended threads and the machine; the result also says whether it stopped there.\<close>

definition run_to_round ::
    "'w win32 \<Rightarrow> addr \<Rightarrow> thread_id \<Rightarrow> addr \<Rightarrow> bool \<Rightarrow> thread_id list \<times> ('w, 'z) threads_scheme \<Rightarrow>
      ((thread_id list \<times> ('w, 'z) threads_scheme) + bool \<times> thread_id list \<times> ('w, 'z) threads_scheme) option" where
  "run_to_round W address tid stack_pointer this_thread_only = (\<lambda>(suspended, m).
     Some (if \<not> g_running m then Inr (False, suspended, m)
           else case wait_event W INFINITE m of
             (Inl error, m) \<Rightarrow> Inr (False, suspended, m)
           | (Inr de, m) \<Rightarrow>
               let (breakpoint_reached, m) =
                     (if breakpoint_event de then
                        (let (rip, m) = get_rip_address W (de_thread_id de) m in (rip - 1 = address, m))
                      else (False, m))
               in if breakpoint_reached \<and> de_thread_id de = tid then
                    (let m = snd (roll_back_instruction_pointer W tid m);
                         (ctx, m) = get_thread_context_from_id W tid m
                     in if ctx_Rsp ctx \<le> stack_pointer then Inl (suspended, continue_event W de DBG_CONTINUE m)
                        else (let m = continue_event W de DBG_CONTINUE m
                              in Inr (True, suspended, suspend_for_step W this_thread_only tid m)))
                  else if breakpoint_reached then
                    (let m = snd (roll_back_instruction_pointer W (de_thread_id de) m);
                         m = suspend_thread_id W (de_thread_id de) m
                     in Inl (suspended @ [de_thread_id de], continue_event W de DBG_CONTINUE m))
                  else Inl (suspended, continue_event W de DBG_CONTINUE m)))"

definition run_to_address ::
    "'w win32 \<Rightarrow> addr \<Rightarrow> thread_id \<Rightarrow> addr \<Rightarrow> bool \<Rightarrow> ('w, 'z) breakpoints_scheme \<Rightarrow> (bool \<times> ('w, 'z) breakpoints_scheme) option" where
  "run_to_address W address tid stack_pointer this_thread_only m =
     (let m = create_return_breakpoint W address tid m;
          m = resume_for_step W this_thread_only tid m
      in do { (complete, suspended, m) \<leftarrow> loop (run_to_round W address tid stack_pointer this_thread_only) ([], m);
              (_, m) \<leftarrow> remove_breakpoint W address tid m;
              Some (complete, fold (resume_thread_id W) suspended m) })"

text \<open>The flag \<open>this_thread_only\<close> is handed over in the place of the stack pointer.\<close>

definition step_out_from :: "'w environment \<Rightarrow> thread_id \<Rightarrow> bool \<Rightarrow> ('w, 'z) session_state_scheme \<Rightarrow> ('w, 'z) session_state_scheme option" where
  "step_out_from E tid this_thread_only m =
     do { (return_address, m) \<leftarrow> get_frame_return_address ''c++'' tid m;
          (_, m) \<leftarrow> run_to_address (en_win32 E) return_address tid (if this_thread_only then 1 else 0) False m;
          Some m }"

section \<open>Stepping through the source\<close>

definition single_step_user_breakpoint ::
    "'w win32 \<Rightarrow> addr \<Rightarrow> thread_id \<Rightarrow> ('w, 'z) breakpoints_scheme \<Rightarrow> ('w, 'z) breakpoints_scheme option" where
  "single_step_user_breakpoint W address tid m =
     do { (_, m) \<leftarrow> disable_user_breakpoint W address m;
          let m = set_trap_flag W tid m;
          let m = resume_thread_id W tid m;
          (trap, m) \<leftarrow> await_single_step W tid m;
          (_, m) \<leftarrow> enable_user_breakpoint W address m;
          Some (case trap of
                  Some de \<Rightarrow> continue_event W de DBG_CONTINUE (suspend_thread_id W tid m)
                | None \<Rightarrow> m) }"

text \<open>
  A user breakpoint that a step runs into, of \<open>de\<close>'s thread; \<open>tid\<close> is the thread that steps.  The
  state of the loop is whether a breakpoint was hit, where the step stopped, and the machine.
\<close>

definition step_user_breakpoint ::
    "'w win32 \<Rightarrow> debug_event \<Rightarrow> thread_id \<Rightarrow> addr \<Rightarrow> ('w, 'z) breakpoints_scheme \<Rightarrow> (bool \<times> ('w, 'z) breakpoints_scheme) option" where
  "step_user_breakpoint W de tid current_address m =
     (let current_thread_id = de_thread_id de;
          m = snd (roll_back_instruction_pointer W tid m);
          stop = (\<lambda>m. Some (True, continue_event W de DBG_CONTINUE (suspend_thread_id W current_thread_id m)))
      in if is_breakpoint_type_step current_address current_thread_id m then stop m
         else
           do { (conditional, m) \<leftarrow> is_user_breakpoint_conditional current_address m;
                if \<not> conditional then stop m
                else
                  do { (reached, m) \<leftarrow> reached_breakpoint ''cpp'' current_address tid m;
                       if reached then stop m
                       else
                         (let m = suspend_thread_id W current_thread_id m;
                              m = continue_event W de DBG_CONTINUE m
                          in do { m \<leftarrow> single_step_user_breakpoint W current_address tid m;
                                  Some (False, resume_thread_id W current_thread_id m) }) } })"

definition step_mode_breakpoint ::
    "'w win32 \<Rightarrow> debug_event \<Rightarrow> thread_id \<Rightarrow> step_breakpoint list \<Rightarrow> step_breakpoint option \<Rightarrow> ('w, 'z) breakpoints_scheme \<Rightarrow>
      (bool \<times> step_breakpoint option \<times> ('w, 'z) breakpoints_scheme) option" where
  "step_mode_breakpoint W de tid potential_stops stopped m =
     (let current_thread_id = de_thread_id de;
          (rip, m) = get_rip_address W current_thread_id m;
          current_address = rip - 1
      in case get_breakpoint_type current_address current_thread_id m of
           None \<Rightarrow> None
         | Some BP_User \<Rightarrow>
             do { (hit, m) \<leftarrow> step_user_breakpoint W de tid current_address m; Some (hit, stopped, m) }
         | Some BP_Step \<Rightarrow>
             if current_thread_id \<noteq> tid then
               (let m = snd (roll_back_instruction_pointer W current_thread_id m);
                    m = suspend_thread_id W current_thread_id m
                in Some (False, stopped, continue_event W de DBG_CONTINUE m))
             else
               do { stop \<leftarrow> List.find (\<lambda>stop. sb_true_address stop = current_address) potential_stops;
                    let m = snd (roll_back_instruction_pointer W current_thread_id m);
                    let m = suspend_thread_id W current_thread_id m;
                    Some (True, Some stop, continue_event W de DBG_CONTINUE m) }
         | Some _ \<Rightarrow> Some (False, stopped, continue_event W de DBG_CONTINUE m))"

definition step_mode_round ::
    "'w win32 \<Rightarrow> thread_id \<Rightarrow> step_breakpoint list \<Rightarrow> bool \<times> step_breakpoint option \<times> ('w, 'z) breakpoints_scheme \<Rightarrow>
      ((bool \<times> step_breakpoint option \<times> ('w, 'z) breakpoints_scheme) + step_breakpoint option \<times> ('w, 'z) breakpoints_scheme) option" where
  "step_mode_round W tid potential_stops = (\<lambda>(hit, stopped, m).
     if \<not> g_running m \<or> hit then Some (Inr (stopped, m))
     else case wait_event W INFINITE m of
       (Inl error, m) \<Rightarrow> Some (Inr (stopped, m))
     | (Inr de, m) \<Rightarrow>
         if breakpoint_event de then map_option Inl (step_mode_breakpoint W de tid potential_stops stopped m)
         else case de_info de of
           DE_ExitProcess code \<Rightarrow> Some (Inr (stopped, m))
         | _ \<Rightarrow> Some (Inr (stopped, continue_event W de DBG_CONTINUE m)))"

definition remove_step_breakpoints ::
    "'w win32 \<Rightarrow> thread_id \<Rightarrow> step_breakpoint list \<Rightarrow> ('w, 'z) breakpoints_scheme \<Rightarrow> ('w, 'z) breakpoints_scheme option" where
  "remove_step_breakpoints W tid =
     foldM (\<lambda>stop m. map_option snd (remove_breakpoint W (sb_true_address stop) tid m))"

definition run_step_mode ::
    "'w win32 \<Rightarrow> thread_id \<Rightarrow> step_breakpoint list \<Rightarrow> ('w, 'z) breakpoints_scheme \<Rightarrow>
      (step_breakpoint option \<times> ('w, 'z) breakpoints_scheme) option" where
  "run_step_mode W tid potential_stops m =
     (let m = fold (\<lambda>stop. create_step_breakpoint W (sb_true_address stop) tid) potential_stops m;
          m = resume_thread_id W tid m
      in do { (stopped, m) \<leftarrow> loop (step_mode_round W tid potential_stops) (False, None, m);
              m \<leftarrow> remove_step_breakpoints W tid potential_stops m;
              Some (stopped, m) })"

definition finish_step :: "'w environment \<Rightarrow> step_breakpoint option \<Rightarrow> ('w, 'z) session_state_scheme \<Rightarrow> ('w, 'z) session_state_scheme option" where
  "finish_step E stopped m =
     (case stopped of
        None \<Rightarrow> Some m
      | Some stop \<Rightarrow>
          if \<not> sb_has_source_info stop then Some m
          else case sb_step_kind stop of
            SB_Line \<Rightarrow> Some m
          | _ \<Rightarrow> (let m = set_trap_flag (en_win32 E) (g_main_thread_id m) m
                   in step_instruction (en_win32 E) (g_main_thread_id m) False m))"

definition step_source :: "'w environment \<Rightarrow> thread_id \<Rightarrow> step_mode \<Rightarrow> ('w, 'z) session_state_scheme \<Rightarrow> ('w, 'z) session_state_scheme option" where
  "step_source E tid mode m =
     (let W = en_win32 E;
          language = g_current_debugger_language m;
          (ctx, m) = get_thread_context_from_id W tid m;
          current_address = ctx_Rip ctx
      in do { (original_address, m) \<leftarrow> get_original_address language current_address m;
              (initial_source, m) \<leftarrow> get_source_info_for_address language original_address m;
              if sl_line_number initial_source = 0 then Some m
              else
                do { (bp_to_place, m) \<leftarrow> get_breakpoints_for_step language original_address mode m;
                     m \<leftarrow> (if get_breakpoint_type current_address tid m = Some BP_User
                           then single_step_user_breakpoint W current_address tid m else Some m);
                     (stopped_at_breakpoint, m) \<leftarrow> run_step_mode W tid bp_to_place m;
                     finish_step E stopped_at_breakpoint m } })"

section \<open>The command\<close>

definition step_back ::
    "'w environment \<Rightarrow> reverse_step_mode \<Rightarrow> u64 \<Rightarrow> ('w, 'z) session_state_scheme \<Rightarrow> ('w, 'z) command_result" where
  "step_back E mode thread_counter m =
     (let W = en_win32 E; (current_address, m) = get_rip_address W (g_main_thread_id m) m
      in do { (predecessors, m) \<leftarrow> get_address_predecessors W ''cpp'' current_address mode (g_main_thread_id m) m;
              (t, m) \<leftarrow> transition_to_time_restore E predecessors current_address thread_counter m;
              Some (Some t, m) })"

definition step_back_out :: "'w environment \<Rightarrow> u64 \<Rightarrow> ('w, 'z) session_state_scheme \<Rightarrow> ('w, 'z) command_result" where
  "step_back_out E thread_counter m =
     (let (current_address, m) = get_rip_address (en_win32 E) (g_main_thread_id m) m
      in do { (frame_return, m) \<leftarrow> get_frame_return_address ''cpp'' (g_main_thread_id m) m;
              (true_frame_return, m) \<leftarrow> get_true_address ''cpp'' frame_return m;
              (t, m) \<leftarrow> transition_to_time_restore E [\<lparr> pp_true_address = true_frame_return,
                  pp_branch_counter = thread_counter, pp_is_block_leader = False \<rparr>] current_address thread_counter m;
              Some (Some t, m) })"

definition step_command :: "'w environment \<Rightarrow> cli_args \<Rightarrow> ('w, 'z) session_state_scheme \<Rightarrow> ('w, 'z) command_result" where
  "step_command E a m =
     (let W = en_win32 E; (thread_counter, m) = read_thread_tls W (g_main_thread_id m) BranchCounter m in
      if ca_flag a ''--into'' then map_option (Pair None) (step_source E (g_main_thread_id m) Step_Into m)
      else if ca_flag a ''--out'' then map_option (Pair None) (step_out_from E (g_main_thread_id m) False m)
      else if ca_flag a ''--line'' then map_option (Pair None) (step_source E (g_main_thread_id m) Step_Line m)
      else if ca_flag a ''--instruction'' then
        (let m = set_trap_flag W (g_main_thread_id m) m
         in map_option (Pair None) (step_instruction W (g_main_thread_id m) False m))
      else if ca_flag a ''--reverse-instruction'' then step_back E Reverse_Instruction thread_counter m
      else if ca_flag a ''--reverse-line'' then step_back E Reverse_Line thread_counter m
      else if ca_flag a ''--reverse-into'' then step_back E Reverse_Into thread_counter m
      else if ca_flag a ''--reverse-out'' then step_back_out E thread_counter m
      else no_transition (put_line (en_help E ''step'') m))"

end
