(* ===== verification/Event_Replay.thy ===== *)
theory Event_Replay
  imports Event_Log "HOL-Library.Sublist" "HOL-Library.Multiset"
begin

text \<open>
  What the event log guarantees: its invariant, the order in which calls are logged, and that a
  replay finds the recorded calls of every thread in their order, however the threads interleave.
\<close>

section \<open>What the other components leave alone\<close>

definition same_logs :: "('w, 'z) events_scheme \<Rightarrow> ('w, 'z) events_scheme \<Rightarrow> bool" where
  "same_logs m m' =
     (g_run_id m' = g_run_id m \<and> g_run_sequence m' = g_run_sequence m \<and> g_global_sequence m' = g_global_sequence m
      \<and> g_thread_id_to_sequence m' = g_thread_id_to_sequence m \<and> tr_locations m' = tr_locations m \<and> sl_history m' = sl_history m
      \<and> el_event_log m' = el_event_log m \<and> el_pending_thread_events m' = el_pending_thread_events m
      \<and> el_pending_replay_end_events m' = el_pending_replay_end_events m)"

named_theorems logs "operations that leave the counters and the logs alone"

lemma same_logs_refl [simp]: "same_logs m m"
  by (simp add: same_logs_def)

lemma same_logs_trans: "same_logs m n \<Longrightarrow> same_logs n k \<Longrightarrow> same_logs m k"
  by (simp add: same_logs_def)

lemma same_logsD:
  assumes "same_logs m m'"
  shows "g_run_id m' = g_run_id m" "g_run_sequence m' = g_run_sequence m" "g_global_sequence m' = g_global_sequence m"
    "sl_history m' = sl_history m" "el_event_log m' = el_event_log m"
    "el_pending_thread_events m' = el_pending_thread_events m"
    "el_pending_replay_end_events m' = el_pending_replay_end_events m" "tr_locations m' = tr_locations m"
  using assms by (simp_all add: same_logs_def)

lemma logs_low [logs]:
  "same_logs m (m \<lparr> m_world := w \<rparr>)" "same_logs m (snd (get_thread_handle W tid m))"
  "same_logs m (close_handle_for_thread W tid h m)" "same_logs m (snd (read_thread_tls W tid kind m))"
  "same_logs m (update_thread_tls W tid kind v m)" "same_logs m (snd (set_rip_address W tid a m))"
  "same_logs m (snd (patch_byte W a b m))" "same_logs m (plant_int3 W a m)" "same_logs m (hold_breakpoint a tid n m)"
  by (simp_all add: same_logs_def get_thread_handle_def close_handle_for_thread_def read_thread_tls_def tls_subscript_def
      meta_subscript_def update_thread_tls_def set_rip_address_def change_context_def patch_byte_def write_mem_eq
      flush_icache_def plant_int3_def hold_breakpoint_def Let_def split: prod.split option.split)

lemma logs_write [logs]: "same_logs m (write_breakpoint W a kind m)"
  by (rule same_logs_trans[OF logs_low(8)[of m W a]]) (simp add: write_breakpoint_def Let_def same_logs_def)

lemma logs_breakpoints [logs]:
  "same_logs m (snd (redirect_to_trampoline W a tid m))"
  "same_logs m (create_return_breakpoint W a tid m)"
  using logs_low(6)[of m W tid] same_logs_trans[OF logs_write[of m W a] logs_low(9)] logs_low(9)
  by (auto simp: redirect_to_trampoline_def create_return_breakpoint_def Let_def split_def split: option.split)

lemma logs_true_address: "get_true_address l a m = Some (x, m') \<Longrightarrow> same_logs m m'"
  by (auto simp: get_true_address_def call_plugin_def same_logs_def Let_def split: option.splits prod.splits)

lemma logs_remove:
  assumes "remove_breakpoint W a tid m = Some (b, m')"
  shows "same_logs m m'"
proof -
  note patch = logs_low(7)[where W = W, unfolded same_logs_def]
  have user: "same_logs m m'" if "remove_user_breakpoint W a m = Some (b, m')" for b m'
    using that by (auto simp: remove_user_breakpoint_def Let_def split_def patch same_logs_def
        dest!: logs_true_address[unfolded same_logs_def] split: option.splits if_splits bind_splits)
  then show ?thesis
    using assms by (auto simp: remove_breakpoint_def restore_memory_def Let_def split_def patch same_logs_def
        split: option.splits if_splits)
qed

lemma logs_threads [logs]:
  "same_logs m (track_thread W tid g r s m)" "same_logs m (untrack_thread W tid g r s m)"
  by (simp_all add: track_thread_def untrack_thread_def Let_def split_def same_logs_def logs_low[unfolded same_logs_def])

lemma logs_break: "break_on_return W a tid m = Some (ctx, m') \<Longrightarrow> same_logs m m'"
  using same_logs_trans[OF logs_breakpoints(1)[of m W a tid] logs_breakpoints(2)]
  by (auto simp: break_on_return_def Let_def split: prod.splits option.splits)

lemma logs_finish: "same_logs m (snd (finish_event W ctx e m))"
  by (auto simp: finish_event_def finish_thread_create_def finish_thread_destroy_def Let_def split_def same_logs_def logs_low[unfolded same_logs_def]
      logs_threads[unfolded same_logs_def] split: event_kind.split)


section \<open>The invariant of the log\<close>

text \<open>The events that were made: those in the log and those of the calls that have not returned.\<close>

definition pending_events :: "('w, 'z) events_scheme \<Rightarrow> event list" where
  "pending_events m = concat (map snd (el_pending_thread_events m))"

text \<open>
  The log is in the order of the event numbers, no number is used twice, all are below the next
  number; every pending call is its thread's; what waits for the end of a replay is in the log.
\<close>

definition events_ok :: "('w, 'z) events_scheme \<Rightarrow> bool" where
  "events_ok m =
     (sorted (map ev_global_seq (el_event_log m))
      \<and> distinct (map ev_global_seq (el_event_log m @ pending_events m))
      \<and> (\<forall>e\<in>set (el_event_log m @ pending_events m). ev_global_seq e < g_global_sequence m)
      \<and> smap_ok (el_pending_thread_events m) \<and> smap_ok (el_pending_replay_end_events m)
      \<and> (\<forall>(tid, st)\<in>set (el_pending_thread_events m). \<forall>e\<in>set st. ev_thread_id e = tid)
      \<and> (\<forall>(tid, st)\<in>set (el_pending_replay_end_events m). \<forall>i\<in>set st. i < length (el_event_log m)))"

lemma events_ok_same: "same_logs m m' \<Longrightarrow> events_ok m' = events_ok m"
  by (simp add: same_logs_def events_ok_def pending_events_def)

lemma mset_smap_push:
  "mset (concat (map snd (smap_modify k [] ((#) x) p))) = add_mset x (mset (concat (map snd p)))"
  by (induction p) auto

lemma smap_modify_id:
  "concat (map snd (smap_modify k [] (\<lambda>x. x) p)) = concat (map snd p)"
  by (induction p) auto

lemma pending_of_modify: "smap_ok p \<Longrightarrow> pending_of k (smap_modify k' [] f p) = (if k = k' then f (pending_of k p) else pending_of k p)"
  by (simp add: pending_of_def map_of_smap_modify split: option.split)

lemma mset_smap_pop:
  assumes "smap_ok p" "pending_of k p = x # st"
  shows "add_mset x (mset (concat (map snd (smap_modify k [] tl p)))) = mset (concat (map snd p))"
  using assms
proof (induction p)
  case (Cons y m)
  obtain k' v where y: "y = (k', v)" by (cases y)
  have above: "map_of m k = None" if "k < k'"
    using that Cons.prems(1) unfolding y by (intro map_of_above) (auto intro: order.strict_trans)
  consider "k < k'" | "k = k'" | "k' < k" by force
  then show ?case
  proof cases
    case 1
    then show ?thesis using Cons.prems(2) above by (simp add: pending_of_def y split: if_splits)
  next
    case 2
    then show ?thesis using Cons.prems(2) by (simp add: pending_of_def y)
  next
    case 3
    then have "pending_of k m = x # st" "smap_ok m" using Cons.prems by (auto simp: pending_of_def y split: if_splits)
    with Cons.IH 3 show ?thesis by (auto simp: y)
  qed
qed (simp add: pending_of_def)

lemma smap_modify_all:
  assumes "smap_ok p" "\<And>st. (k, st) \<in> set p \<Longrightarrow> P k (f st)" "P k (f d)" "\<forall>(k, st)\<in>set p. P k st"
  shows "\<forall>(k, st)\<in>set (smap_modify k d f p). P k st"
proof (rule ballI)
  fix x assume x: "x \<in> set (smap_modify k d f p)"
  obtain k' v where kv: "x = (k', v)" by (cases x)
  show "case x of (k, st) \<Rightarrow> P k st"
  proof (cases "k' = k")
    case True
    then have "v = f (case map_of p k of Some v \<Rightarrow> v | None \<Rightarrow> d)" using x assms(1) by (simp add: kv smap_modify_in)
    then show ?thesis using assms(2,3) True by (auto simp: kv dest: map_of_SomeD split: option.split)
  next
    case False
    then show ?thesis using x assms(1,4) by (auto simp: kv smap_modify_in)
  qed
qed

text \<open>\<open>AddEvent\<close> is insertion into a sorted list.\<close>

lemma insort_upper_bound:
  assumes "sorted (map key xs)" "key x \<notin> key ` set xs"
  shows "take (upper_bound (key x) key xs) xs @ x # drop (upper_bound (key x) key xs) xs = insort_key key x xs"
proof -
  have "insort_key key x xs = takeWhile (\<lambda>y. key y \<le> key x) xs @ x # dropWhile (\<lambda>y. key y \<le> key x) xs"
    using assms
  proof (induction xs)
    case (Cons y ys)
    show ?case
    proof (cases "key x \<le> key y")
      case True
      then show ?thesis using Cons.prems by auto
    next
      case False
      then show ?thesis using Cons by (auto simp: not_le)
    qed
  qed simp
  then show ?thesis
    by (simp add: upper_bound_sorted[OF assms(1)] takeWhile_eq_take dropWhile_eq_drop flip: takeWhile_eq_take)
qed

lemma add_event_insort:
  assumes "sorted (map ev_global_seq (el_event_log m))" "ev_global_seq e \<notin> ev_global_seq ` set (el_event_log m)"
  shows "add_event e m = m \<lparr> el_event_log := insort_key ev_global_seq e (el_event_log m) \<rparr>"
  using insort_upper_bound[OF assms] by (simp add: add_event_def Let_def)

lemma base_event_simps:
  "ev_global_seq (fst (base_event tid a k m)) = g_global_sequence m"
  "ev_thread_id (fst (base_event tid a k m)) = tid"
  "ev_event_rip (fst (base_event tid a k m)) = a"
  "ev_replayed (fst (base_event tid a k m)) = False"
  by (simp_all add: base_event_def Let_def)

text \<open>What entering a call makes.\<close>

lemma created_event:
  assumes "create_event_from_bp_address W a tid ctx m = (x, m')"
  shows "x = None \<Longrightarrow> m' = m"
    and "x = Some e \<Longrightarrow> ev_global_seq e = g_global_sequence m \<and> ev_thread_id e = tid \<and> ev_event_rip e = a \<and> \<not> ev_replayed e
      \<and> g_global_sequence m' = g_global_sequence m + 1 \<and> g_run_id m' = g_run_id m \<and> g_run_sequence m' = g_run_sequence m + 1
      \<and> el_event_log m' = el_event_log m \<and> el_pending_thread_events m' = el_pending_thread_events m
      \<and> el_pending_replay_end_events m' = el_pending_replay_end_events m"
  using assms
  by (auto simp: create_event_from_bp_address_def new_thread_create_def new_thread_destroy_def new_library_load_def
      new_library_unload_def thread_of_handle_def base_event_def Let_def split_def apfst_def map_prod_def split: if_splits)


lemma finish_event_simps:
  "ev_global_seq (fst (finish_event W ctx e m)) = ev_global_seq e"
  "ev_thread_id (fst (finish_event W ctx e m)) = ev_thread_id e"
  "ev_event_rip (fst (finish_event W ctx e m)) = ev_event_rip e"
  "ev_replayed (fst (finish_event W ctx e m)) = ev_replayed e"
  by (simp_all add: finish_event_def Let_def split_def split: event_kind.split)

lemma distinct_by_mset: "mset xs = mset ys \<Longrightarrow> distinct (map f xs) = distinct (map f ys)"
  by (rule mset_eq_imp_distinct_iff) simp

lemma enter_ok:
  assumes "events_ok m" "g_global_sequence m \<noteq> - 1" "on_breakpoint_enter W a tid m = Some m'"
  shows "events_ok m'"
proof -
  obtain ctx m1 where 1: "break_on_return W a tid m = Some (ctx, m1)"
    using assms(3) by (auto simp: on_breakpoint_enter_def split: bind_splits)
  have ok1: "events_ok m1" and g1: "g_global_sequence m1 = g_global_sequence m"
    using events_ok_same[OF logs_break[OF 1]] assms(1) same_logsD(3)[OF logs_break[OF 1]] by simp_all
  obtain x m2 where 2: "create_event_from_bp_address W a tid ctx m1 = (x, m2)" by fastforce
  note new = created_event[OF 2]
  show ?thesis
  proof (cases x)
    case None
    then show ?thesis using assms(3) ok1 new(1) by (simp add: on_breakpoint_enter_def 1 2)
  next
    case (Some e)
    note e = new(2)[OF Some]
    let ?p = "smap_modify tid [] ((#) e) (el_pending_thread_events m2)"
    have m': "m' = m2 \<lparr> el_pending_thread_events := ?p \<rparr>"
      using assms(3) Some by (simp add: on_breakpoint_enter_def 1 2)
    have "mset (pending_events m') = add_mset e (mset (pending_events m1))"
      using e by (simp add: pending_events_def m' mset_smap_push)
    then have all: "mset (el_event_log m' @ pending_events m') = mset (e # el_event_log m1 @ pending_events m1)"
      using e by (simp add: m')
    have below: "ev_global_seq d < g_global_sequence m1" if "d \<in> set (el_event_log m1 @ pending_events m1)" for d
      using ok1 that by (auto simp: events_ok_def)
    then have "ev_global_seq e \<notin> ev_global_seq ` set (el_event_log m1 @ pending_events m1)"
      using e by (metis (no_types, lifting) imageE less_irrefl)
    moreover have "distinct (map ev_global_seq (el_event_log m1 @ pending_events m1))"
      using ok1 unfolding events_ok_def by blast
    ultimately have "distinct (map ev_global_seq (e # el_event_log m1 @ pending_events m1))" by (simp add: image_Un)
    then have "distinct (map ev_global_seq (el_event_log m' @ pending_events m'))"
      using distinct_by_mset[OF all, of ev_global_seq] by (simp del: map_append)
    moreover have "ev_global_seq d < g_global_sequence m1 + 1" if "d \<in> set (el_event_log m' @ pending_events m')" for d
    proof -
      have "d \<in> set (e # el_event_log m1 @ pending_events m1)" using that mset_eq_setD[OF all] by blast
      then have "ev_global_seq d \<le> g_global_sequence m1" using below e by (auto intro: less_imp_le)
      moreover have "g_global_sequence m1 < g_global_sequence m1 + 1"
        using assms(2) g1 by (simp add: inc_less_eq_self_iff_eq flip: not_le)
      ultimately show ?thesis by (rule le_less_trans)
    qed
    moreover have "\<forall>(t, st)\<in>set ?p. \<forall>e\<in>set st. ev_thread_id e = t"
      using ok1 e by (intro smap_modify_all) (auto simp: events_ok_def)
    ultimately show ?thesis using ok1 e by (auto simp: events_ok_def m' smap_ok_modify)
  qed
qed


lemma return_ok:
  assumes "events_ok m" "pending_of tid (el_pending_thread_events m) = e # st"
    and "on_breakpoint_return W a tid ctx m = Some m'"
  defines "e' \<equiv> fst (finish_event W ctx e (m \<lparr> el_pending_thread_events :=
      smap_modify tid [] (\<lambda>st. st) (el_pending_thread_events m) \<rparr>))"
  shows "events_ok m'" and "el_event_log m' = insort_key ev_global_seq e' (el_event_log m)"
    and "pending_of t (el_pending_thread_events m') = (if t = tid then st else pending_of t (el_pending_thread_events m))"
    and "ev_thread_id e' = tid" "ev_global_seq e' = ev_global_seq e" "ev_event_rip e' = ev_event_rip e"
    and "g_global_sequence m' = g_global_sequence m"
proof -
  let ?p = "el_pending_thread_events m"
  let ?m0 = "m \<lparr> el_pending_thread_events := smap_modify tid [] (\<lambda>st. st) ?p \<rparr>"
  define m1 where "m1 = snd (finish_event W ctx e ?m0)"
  have fin: "finish_event W ctx e ?m0 = (e', m1)" by (simp add: e'_def m1_def)
  note same1 = same_logsD[OF logs_finish[of ?m0 W ctx e, folded m1_def]]
  have ok: "smap_ok ?p" "sorted (map ev_global_seq (el_event_log m))"
    and thr: "\<forall>(t, st)\<in>set ?p. \<forall>e\<in>set st. ev_thread_id e = t" using assms(1) by (auto simp: events_ok_def)
  have e': "ev_global_seq e' = ev_global_seq e" "ev_thread_id e' = ev_thread_id e" "ev_event_rip e' = ev_event_rip e"
    by (simp_all add: e'_def finish_event_simps)
  have in_p: "(tid, e # st) \<in> set ?p"
    using assms(2) ok(1) by (auto simp: pending_of_def smap_in_set split: option.splits)
  have tid: "ev_thread_id e = tid" using thr in_p by fastforce
  have e_in: "e \<in> set (pending_events m)" using in_p by (force simp: pending_events_def)
  have fresh: "ev_global_seq e' \<notin> ev_global_seq ` set (el_event_log m1)"
    using assms(1) e_in e'(1) same1(5) by (force simp: events_ok_def)
  define m2 where "m2 = m1 \<lparr> el_event_log := insort_key ev_global_seq e' (el_event_log m) \<rparr>"
  have add: "add_event e' m1 = m2"
    using add_event_insort[OF _ fresh] ok(2) same1(5) by (simp add: m2_def)
  let ?q = "smap_modify tid [] tl (smap_modify tid [] (\<lambda>st. st) ?p)"
  obtain b where rem: "remove_breakpoint W a tid (m2 \<lparr> el_pending_thread_events := ?q \<rparr>) = Some (b, m')"
    using assms(3) same1(6)
    by (auto simp: on_breakpoint_return_def assms(2) fin add Let_def m2_def)
  note same2 = same_logsD[OF logs_remove[OF rem], simplified]
  have log: "el_event_log m' = insort_key ev_global_seq e' (el_event_log m)" using same2(5) by (simp add: m2_def)
  have pend: "el_pending_thread_events m' = ?q" using same2(6) by simp
  have pok: "smap_ok (smap_modify tid [] (\<lambda>st. st) ?p)" using ok(1) by (rule smap_ok_modify)
  show "el_event_log m' = insort_key ev_global_seq e' (el_event_log m)" by (rule log)
  show "pending_of t (el_pending_thread_events m') = (if t = tid then st else pending_of t (el_pending_thread_events m))"
    using assms(2) by (simp add: pend pending_of_modify[OF pok] pending_of_modify[OF ok(1)])
  show "ev_thread_id e' = tid" "ev_global_seq e' = ev_global_seq e" "ev_event_rip e' = ev_event_rip e"
    using e' tid by simp_all
  show g: "g_global_sequence m' = g_global_sequence m" using same2(3) same1(3) by (simp add: m2_def)
  have idmap: "mset (concat (map snd (smap_modify tid [] (\<lambda>st. st) ?p))) = mset (pending_events m)"
    by (simp only: smap_modify_id pending_events_def)
  have pop: "add_mset e (mset (concat (map snd ?q))) = mset (pending_events m)"
    using mset_smap_pop[OF pok, of tid e st] assms(2) idmap by (simp add: pending_of_modify[OF ok(1)])
  then have "add_mset e (mset (pending_events m')) = mset (pending_events m)" by (simp add: pending_events_def pend)
  moreover have "mset (el_event_log m') = add_mset e' (mset (el_event_log m))" by (simp add: log)
  ultimately have all: "image_mset ev_global_seq (mset (el_event_log m' @ pending_events m')) =
      image_mset ev_global_seq (mset (el_event_log m @ pending_events m))"
    using e'(1) by (simp flip: \<open>add_mset e (mset (pending_events m')) = mset (pending_events m)\<close>)
  have "distinct (map ev_global_seq (el_event_log m' @ pending_events m'))"
    using assms(1) all unfolding events_ok_def by (metis mset_eq_imp_distinct_iff mset_map)
  moreover have "ev_global_seq d < g_global_sequence m'" if "d \<in> set (el_event_log m' @ pending_events m')" for d
  proof -
    have "ev_global_seq d \<in># image_mset ev_global_seq (mset (el_event_log m' @ pending_events m'))" using that by auto
    then show ?thesis using assms(1) unfolding all g by (auto simp: events_ok_def)
  qed
  moreover have "\<forall>(t, st)\<in>set ?q. \<forall>e\<in>set st. ev_thread_id e = t"
  proof (rule smap_modify_all[OF pok])
    show ids: "\<forall>(t, st)\<in>set (smap_modify tid [] (\<lambda>st. st) ?p). \<forall>e\<in>set st. ev_thread_id e = t"
      by (rule smap_modify_all[OF ok(1)]) (use thr in auto)
    show "\<forall>e\<in>set (tl st). ev_thread_id e = tid" if "(tid, st) \<in> set (smap_modify tid [] (\<lambda>st. st) ?p)" for st
      using ids that list.set_sel(2)[of st] by (cases st) fastforce+
  qed simp
  moreover have "sorted (map ev_global_seq (el_event_log m'))" using ok(2) by (simp add: log sorted_insort_key)
  moreover have "\<forall>(t, st)\<in>set (el_pending_replay_end_events m'). \<forall>i\<in>set st. i < length (el_event_log m')"
    using assms(1) same2(7) same1(7) by (fastforce simp: events_ok_def log m2_def)
  moreover have "smap_ok (el_pending_replay_end_events m')"
    using assms(1) same2(7) same1(7) by (simp add: events_ok_def m2_def)
  ultimately show "events_ok m'" using pok unfolding events_ok_def pend by (auto simp: smap_ok_modify)
qed


lemma find_event_Some:
  "find_event P es = Some i \<Longrightarrow> i < length es \<and> P (es ! i) \<and> (\<forall>j<i. \<not> P (es ! j))"
  by (induction P es arbitrary: i rule: find_event.induct) (auto simp: less_Suc_eq_0_disj nth_Cons' split: if_splits)

lemma find_event_None: "find_event P es = None \<longleftrightarrow> (\<forall>e\<in>set es. \<not> P e)"
  by (induction P es rule: find_event.induct) auto

text \<open>What a replay does to the log alone.\<close>

definition mark_replayed :: "addr \<Rightarrow> thread_id \<Rightarrow> event list \<Rightarrow> event list" where
  "mark_replayed a tid log =
     (case find_event (awaits_replay a tid) log of
        None \<Rightarrow> log | Some i \<Rightarrow> log[i := (log ! i) \<lparr> ev_replayed := True \<rparr>])"

lemma map_mark [simp]: "map ev_global_seq (mark_replayed a tid log) = map ev_global_seq log"
  by (auto simp: mark_replayed_def map_update list_update_same_conv dest: find_event_Some split: option.split)

lemma length_mark [simp]: "length (mark_replayed a tid log) = length log"
  by (simp add: mark_replayed_def split: option.split)

lemma replay_log:
  assumes "replay_event W a tid m = Some m'"
  shows "el_event_log m' = mark_replayed a tid (el_event_log m)"
    "el_pending_thread_events m' = el_pending_thread_events m" "g_global_sequence m' = g_global_sequence m"
    "smap_ok (el_pending_replay_end_events m) \<Longrightarrow>
      (\<forall>(t, st)\<in>set (el_pending_replay_end_events m). \<forall>i\<in>set st. i < length (el_event_log m)) \<Longrightarrow>
      smap_ok (el_pending_replay_end_events m') \<and>
      (\<forall>(t, st)\<in>set (el_pending_replay_end_events m'). \<forall>i\<in>set st. i < length (el_event_log m'))"
proof -
  have 1: "el_event_log m' = mark_replayed a tid (el_event_log m) \<and> el_pending_thread_events m' = el_pending_thread_events m
    \<and> g_global_sequence m' = g_global_sequence m \<and> (smap_ok (el_pending_replay_end_events m) \<longrightarrow>
      (\<forall>(t, st)\<in>set (el_pending_replay_end_events m). \<forall>i\<in>set st. i < length (el_event_log m)) \<longrightarrow>
      smap_ok (el_pending_replay_end_events m') \<and>
      (\<forall>(t, st)\<in>set (el_pending_replay_end_events m'). \<forall>i\<in>set st. i < length (el_event_log m')))"
  proof (cases "find_event (awaits_replay a tid) (el_event_log m)")
    case None
    then show ?thesis using assms by (simp add: replay_event_def mark_replayed_def)
  next
    case (Some i)
    let ?e = "(el_event_log m ! i) \<lparr> ev_replayed := True \<rparr>"
    let ?q = "smap_modify tid [] ((#) i) (el_pending_replay_end_events m)"
    let ?m1 = "m \<lparr> el_event_log := (el_event_log m)[i := ?e] \<rparr>"
    let ?m2 = "if ev_replay_kind ?e = Execute then ?m1 \<lparr> el_pending_replay_end_events :=
        smap_modify tid [] ((#) i) (el_pending_replay_end_events ?m1) \<rparr> else ?m1"
    have i: "i < length (el_event_log m)" using find_event_Some[OF Some] by simp
    obtain ctx where "break_on_return W a tid ?m2 = Some (ctx, m')"
      using assms unfolding replay_event_def Some option.case Let_def by auto
    note same = same_logsD[OF logs_break[OF this]]
    have "\<forall>(t, st)\<in>set ?q. \<forall>j\<in>set st. j < length (el_event_log m)"
      if "smap_ok (el_pending_replay_end_events m)"
        "\<forall>(t, st)\<in>set (el_pending_replay_end_events m). \<forall>j\<in>set st. j < length (el_event_log m)"
      by (rule smap_modify_all[OF that(1)]) (use that(2) i in auto)
    then show ?thesis using same by (simp add: mark_replayed_def Some smap_ok_modify split: if_splits)
  qed
  show "el_event_log m' = mark_replayed a tid (el_event_log m)"
    "el_pending_thread_events m' = el_pending_thread_events m" "g_global_sequence m' = g_global_sequence m"
    using 1 by simp_all
  show "smap_ok (el_pending_replay_end_events m) \<Longrightarrow>
      (\<forall>(t, st)\<in>set (el_pending_replay_end_events m). \<forall>i\<in>set st. i < length (el_event_log m)) \<Longrightarrow>
      smap_ok (el_pending_replay_end_events m') \<and>
      (\<forall>(t, st)\<in>set (el_pending_replay_end_events m'). \<forall>i\<in>set st. i < length (el_event_log m'))"
    using 1 by blast
qed


lemma replay_ok:
  assumes "events_ok m" "replay_event W a tid m = Some m'"
  shows "events_ok m'"
proof -
  have set: "ev_global_seq ` set (mark_replayed a tid log) = ev_global_seq ` set log" for log
    by (metis list.set_map map_mark)
  have "ev_global_seq e < g_global_sequence m" if "e \<in> set (mark_replayed a tid (el_event_log m))" for e
  proof -
    have "ev_global_seq e \<in> ev_global_seq ` set (el_event_log m)" using imageI[OF that, of ev_global_seq] by (simp only: set)
    then show ?thesis using assms(1) by (auto simp: events_ok_def)
  qed
  then show ?thesis
    using assms(1) replay_log[OF assms(2)] by (simp add: events_ok_def pending_events_def set ball_Un)
qed

text \<open>A replay that ends always finds its event in the log.\<close>

lemma replay_end_ok:
  fixes m :: "('w, 'z) events_scheme"
  assumes "events_ok m"
  shows "replay_event_end W a tid m = Some m' \<Longrightarrow> events_ok m' \<and> el_event_log m' = el_event_log m"
    and "replay_event_end W a tid m = None \<Longrightarrow>
      \<exists>n :: ('w, 'z) events_scheme. remove_breakpoint W a tid n = None \<and> bm_user_breakpoints n = bm_user_breakpoints m"
proof -
  let ?p = "el_pending_replay_end_events m"
  let ?id = "smap_modify tid [] (\<lambda>st. st) ?p"
  have ok: "smap_ok ?p" and bound: "\<forall>(t, st)\<in>set ?p. \<forall>i\<in>set st. i < length (el_event_log m)"
    using assms by (auto simp: events_ok_def)
  have id: "\<forall>(t, st)\<in>set ?id. \<forall>i\<in>set st. i < length (el_event_log m)"
    by (rule smap_modify_all[OF ok]) (use bound in auto)
  have idok: "smap_ok ?id" using ok by (rule smap_ok_modify)
  have tls: "\<forall>(t, st)\<in>set (smap_modify tid [] tl ?id). \<forall>i\<in>set st. i < length (el_event_log m)"
  proof (rule smap_modify_all[OF idok _ _ id])
    show "\<forall>i\<in>set (tl st). i < length (el_event_log m)" if "(tid, st) \<in> set ?id" for st
      using id that list.set_sel(2)[of st] by (cases st) fastforce+
  qed simp
  have same: "events_ok m'" if "g_global_sequence m' = g_global_sequence m" "el_event_log m' = el_event_log m"
    "el_pending_thread_events m' = el_pending_thread_events m" "smap_ok (el_pending_replay_end_events m')"
    "\<forall>(t, st)\<in>set (el_pending_replay_end_events m'). \<forall>i\<in>set st. i < length (el_event_log m)" for m' :: "('w, 'z) events_scheme"
    using assms that by (simp add: events_ok_def pending_events_def)
  have in_bound: "i < length (el_event_log m)" if "pending_of tid ?p = i # st" for i st
    using that bound ok by (force simp: pending_of_def smap_in_set split: option.splits)
  show "events_ok m' \<and> el_event_log m' = el_event_log m" if run: "replay_event_end W a tid m = Some m'"
  proof (cases "pending_of tid ?p")
    case Nil
    then have "m' = m \<lparr> el_pending_replay_end_events := ?id \<rparr>" using run by (simp add: replay_event_end_def)
    then show ?thesis using same[of m'] id idok by simp
  next
    case (Cons i st)
    obtain b where "remove_breakpoint W a tid (m \<lparr> el_pending_replay_end_events := smap_modify tid [] tl ?id \<rparr>) = Some (b, m')"
      using run Cons in_bound[OF Cons] by (auto simp: replay_event_end_def Let_def)
    note s = same_logsD[OF logs_remove[OF this], simplified]
    show ?thesis using same[of m'] s tls idok by (simp add: smap_ok_modify)
  qed
  show "\<exists>n :: ('w, 'z) events_scheme. remove_breakpoint W a tid n = None \<and> bm_user_breakpoints n = bm_user_breakpoints m"
    if "replay_event_end W a tid m = None"
  proof (cases "pending_of tid ?p")
    case Nil
    then show ?thesis using that by (simp add: replay_event_end_def)
  next
    case (Cons i st)
    then have "remove_breakpoint W a tid (m \<lparr> el_pending_replay_end_events := smap_modify tid [] tl ?id \<rparr>) = None"
      using that in_bound[OF Cons] by (simp add: replay_event_end_def Let_def)
    then show ?thesis by (intro exI[of _ "m \<lparr> el_pending_replay_end_events := smap_modify tid [] tl ?id \<rparr>"]) simp
  qed
qed

lemma dropWhile_filter_sorted:
  "sorted (map key xs) \<Longrightarrow> dropWhile (\<lambda>x. key x \<le> k) xs = filter (\<lambda>x. \<not> key x \<le> k) xs"
proof (induction xs)
  case (Cons x xs)
  show ?case
  proof (cases "key x \<le> k")
    case False
    then have "filter (\<lambda>x. \<not> key x \<le> k) xs = xs" using Cons.prems by (intro filter_True) auto
    with False show ?thesis by simp
  qed (use Cons in simp)
qed simp

lemma reset_log:
  assumes "sorted (map ev_global_seq (el_event_log m))"
  shows "reset_event_replay g m = m \<lparr> el_event_log :=
    map (\<lambda>e. if g < ev_global_seq e then e \<lparr> ev_replayed := False \<rparr> else e) (el_event_log m) \<rparr>"
proof -
  let ?log = "el_event_log m" and ?i = "upper_bound g ev_global_seq (el_event_log m)"
  let ?f = "\<lambda>e. if g < ev_global_seq e then e \<lparr> ev_replayed := False \<rparr> else e"
  have i: "?i = length (takeWhile (\<lambda>e. ev_global_seq e \<le> g) ?log)" by (rule upper_bound_sorted[OF assms])
  have "take ?i ?log = takeWhile (\<lambda>e. ev_global_seq e \<le> g) ?log" by (simp add: i flip: takeWhile_eq_take)
  then have "map ?f (take ?i ?log) = take ?i ?log"
    by (auto intro!: map_idI dest: set_takeWhileD)
  moreover have "map ?f (drop ?i ?log) = map (\<lambda>e. e \<lparr> ev_replayed := False \<rparr>) (drop ?i ?log)"
  proof (rule map_cong[OF refl])
    fix e assume e: "e \<in> set (drop ?i ?log)"
    have d: "drop ?i ?log = filter (\<lambda>e. \<not> ev_global_seq e \<le> g) ?log"
      using dropWhile_filter_sorted[OF assms, of g] by (simp add: i dropWhile_eq_drop)
    have "g < ev_global_seq e" using e unfolding d by (simp add: not_le)
    then show "?f e = e \<lparr> ev_replayed := False \<rparr>" by simp
  qed
  moreover have "map ?f ?log = map ?f (take ?i ?log) @ map ?f (drop ?i ?log)" by (simp flip: map_append)
  ultimately show ?thesis by (simp add: reset_event_replay_def Let_def)
qed


section \<open>The replay follows the record\<close>

text \<open>The calls of a thread after a point, in the order of their numbers.\<close>

definition calls_after :: "u64 \<Rightarrow> thread_id \<Rightarrow> event list \<Rightarrow> event list" where
  "calls_after g tid log = filter (\<lambda>e. ev_thread_id e = tid \<and> g < ev_global_seq e) log"

definition replayed_upto :: "nat \<Rightarrow> event list \<Rightarrow> event list" where
  "replayed_upto n es = map (\<lambda>e. e \<lparr> ev_replayed := True \<rparr>) (take n es) @ map (\<lambda>e. e \<lparr> ev_replayed := False \<rparr>) (drop n es)"

lemma mark_step:
  assumes before: "\<forall>e\<in>set log. ev_global_seq e \<le> g \<longrightarrow> ev_replayed e"
    and calls: "calls_after g tid log = replayed_upto n es"
    and n: "n < length es" "ev_event_rip (es ! n) = a"
  shows "calls_after g tid (mark_replayed a tid log) = replayed_upto (Suc n) es"
    and "t \<noteq> tid \<Longrightarrow> calls_after g t (mark_replayed a tid log) = calls_after g t log"
    and "\<forall>e\<in>set (mark_replayed a tid log). ev_global_seq e \<le> g \<longrightarrow> ev_replayed e"
proof -
  let ?Q = "\<lambda>e. ev_thread_id e = tid \<and> g < ev_global_seq e" and ?P = "awaits_replay a tid"
  let ?b = "(es ! n) \<lparr> ev_replayed := False \<rparr>"
  let ?done = "map (\<lambda>e. e \<lparr> ev_replayed := True \<rparr>) (take n es)"
    and ?rest = "map (\<lambda>e. e \<lparr> ev_replayed := False \<rparr>) (drop (Suc n) es)"
  have split: "replayed_upto n es = ?done @ ?b # ?rest" "replayed_upto (Suc n) es = ?done @ ?b \<lparr> ev_replayed := True \<rparr> # ?rest"
    using n(1) by (simp_all add: replayed_upto_def take_Suc_conv_app_nth flip: Cons_nth_drop_Suc)
  have b: "?b \<in> set log" "?Q ?b"
  proof -
    have "?b \<in> set (calls_after g tid log)" by (simp add: calls split)
    then show "?b \<in> set log" "?Q ?b" by (auto simp: calls_after_def)
  qed
  then have "?P ?b" using n(2) by (simp add: awaits_replay_def)
  then obtain i where i: "find_event ?P log = Some i" using b(1) find_event_None[of ?P log] by (cases "find_event ?P log") auto
  note found = find_event_Some[OF i]
  define e ys zs where "e = log ! i" and "ys = take i log" and "zs = drop (Suc i) log"
  have log: "log = ys @ e # zs" unfolding e_def ys_def zs_def using found id_take_nth_drop by blast
  have len: "length ys = i" using found by (simp add: ys_def)
  have e: "?P e" and none: "\<forall>d\<in>set ys. \<not> ?P d"
    using found by (auto simp: e_def ys_def in_set_conv_nth)
  have Q: "?Q e" using before e log by (auto simp: awaits_replay_def not_le)
  have mark: "mark_replayed a tid log = ys @ e \<lparr> ev_replayed := True \<rparr> # zs"
  proof -
    have "mark_replayed a tid log = log[i := (log ! i) \<lparr> ev_replayed := True \<rparr>]" by (simp add: mark_replayed_def i)
    then show ?thesis unfolding log using len by (simp add: list_update_append nth_append)
  qed
  have parts: "filter ?Q ys @ e # filter ?Q zs = ?done @ ?b # ?rest"
    using calls Q unfolding split(1) by (simp add: calls_after_def log)
  have "length (filter ?Q ys) = length ?done"
  proof (rule ccontr)
    assume ne: "length (filter ?Q ys) \<noteq> length ?done"
    then consider "length (filter ?Q ys) < length ?done" | "length ?done < length (filter ?Q ys)" by force
    then show False
    proof cases
      case 1
      have "e = (filter ?Q ys @ e # filter ?Q zs) ! length (filter ?Q ys)" by (rule nth_append_length[symmetric])
      also have "\<dots> = (?done @ ?b # ?rest) ! length (filter ?Q ys)" by (simp only: parts)
      also have "\<dots> = ?done ! length (filter ?Q ys)" using 1 by (simp only: nth_append if_True)
      finally have "e \<in> set ?done" using nth_mem[OF 1] by (simp only:)
      then show False using e by (auto simp: awaits_replay_def)
    next
      case 2
      have "?b = (?done @ ?b # ?rest) ! length ?done" by (rule nth_append_length[symmetric])
      also have "\<dots> = (filter ?Q ys @ e # filter ?Q zs) ! length ?done" by (simp only: parts)
      also have "\<dots> = filter ?Q ys ! length ?done" using 2 by (simp only: nth_append if_True)
      finally have "?b \<in> set (filter ?Q ys)" using nth_mem[OF 2] by (simp only:)
      then show False using none \<open>?P ?b\<close> by auto
    qed
  qed
  then have eq: "filter ?Q ys = ?done" "e = ?b" "filter ?Q zs = ?rest" using parts by simp_all
  show "calls_after g tid (mark_replayed a tid log) = replayed_upto (Suc n) es"
    using Q eq by (simp add: calls_after_def mark split(2))
  show "t \<noteq> tid \<Longrightarrow> calls_after g t (mark_replayed a tid log) = calls_after g t log"
    using Q unfolding calls_after_def mark by (simp add: log)
  show "\<forall>e\<in>set (mark_replayed a tid log). ev_global_seq e \<le> g \<longrightarrow> ev_replayed e"
    using before unfolding mark by (auto simp: log)
qed

definition calls_of :: "thread_id \<Rightarrow> (addr \<times> thread_id) list \<Rightarrow> addr list" where
  "calls_of tid calls = map fst (filter (\<lambda>c. snd c = tid) calls)"

lemma replay_marks:
  assumes "\<forall>e\<in>set log. ev_global_seq e \<le> g \<longrightarrow> ev_replayed e"
    and "\<And>tid. calls_after g tid log = replayed_upto 0 (es tid)"
    and "\<And>tid. prefix (calls_of tid calls) (map ev_event_rip (es tid))"
  shows "calls_after g tid (fold (\<lambda>(a, tid). mark_replayed a tid) calls log) = replayed_upto (length (calls_of tid calls)) (es tid)
    \<and> (\<forall>e\<in>set (fold (\<lambda>(a, tid). mark_replayed a tid) calls log). ev_global_seq e \<le> g \<longrightarrow> ev_replayed e)"
  using assms(3)
proof (induction calls arbitrary: tid rule: rev_induct)
  case Nil
  then show ?case using assms(1,2) by (simp add: calls_of_def)
next
  case (snoc c calls)
  obtain a t where c: "c = (a, t)" by (cases c)
  let ?log = "fold (\<lambda>(a, tid). mark_replayed a tid) calls log"
  have sub: "prefix (calls_of u calls) (map ev_event_rip (es u))" for u
    by (rule prefix_order.trans[OF _ snoc.prems]) (simp add: calls_of_def)
  note IH = snoc.IH[OF sub]
  let ?n = "length (calls_of t calls)"
  have "prefix (calls_of t calls @ [a]) (map ev_event_rip (es t))" using snoc.prems[of t] by (simp add: calls_of_def c)
  then obtain zs where zs: "map ev_event_rip (es t) = calls_of t calls @ a # zs" by (auto simp: prefix_def)
  have n: "?n < length (es t)" using arg_cong[OF zs, of length] by simp
  then have a: "ev_event_rip (es t ! ?n) = a" using arg_cong[OF zs, of "\<lambda>xs. xs ! ?n"] by simp
  have before: "\<forall>e\<in>set ?log. ev_global_seq e \<le> g \<longrightarrow> ev_replayed e" using IH by blast
  have now: "calls_after g t ?log = replayed_upto ?n (es t)" using IH by blast
  note step = mark_step[OF before now n a]
  show ?case
  proof (cases "tid = t")
    case True
    then show ?thesis using step by (simp add: c calls_of_def)
  next
    case False
    then show ?thesis using step IH by (simp add: c calls_of_def)
  qed
qed


lemma break_returns:
  fixes m :: "('w, 'z) events_scheme"
  assumes "map_of (tr_locations m) a \<noteq> None"
  shows "\<exists>ctx m'. break_on_return W a tid m = Some (ctx, m') \<and> tr_locations m' = tr_locations m"
proof -
  obtain x where x: "map_of (tr_locations m) a = Some x" using assms by blast
  then obtain ctx m' where "break_on_return W a tid m = Some (ctx, m')"
    by (cases "set_rip_address W tid x m") (simp add: break_on_return_def redirect_to_trampoline_def Let_def)
  then show ?thesis using same_logsD(8)[OF logs_break] by blast
qed

lemma replay_returns:
  assumes "map_of (tr_locations m) a \<noteq> None"
  shows "\<exists>m'. replay_event W a tid m = Some m' \<and> tr_locations m' = tr_locations m"
proof (cases "find_event (awaits_replay a tid) (el_event_log m)")
  case (Some i)
  define m2 where "m2 = (let e = (el_event_log m ! i) \<lparr> ev_replayed := True \<rparr>;
              m = m \<lparr> el_event_log := (el_event_log m)[i := e] \<rparr>
           in (if ev_replay_kind e = Execute
                   then m \<lparr> el_pending_replay_end_events := smap_modify tid [] (\<lambda>st. i # st) (el_pending_replay_end_events m) \<rparr>
                   else m))"
  have "tr_locations m2 = tr_locations m" by (simp add: m2_def Let_def)
  then show ?thesis using break_returns[of m2 a W tid] assms by (auto simp: replay_event_def Some m2_def Let_def)
qed (simp add: replay_event_def)

lemma replays_return:
  assumes "\<forall>(a, tid)\<in>set calls. map_of (tr_locations m) a \<noteq> None"
  shows "\<exists>m'. foldM (\<lambda>(a, tid). replay_event W a tid) calls m = Some m'
    \<and> el_event_log m' = fold (\<lambda>(a, tid). mark_replayed a tid) calls (el_event_log m)"
  using assms
proof (induction calls arbitrary: m)
  case (Cons c calls)
  obtain a tid where c: "c = (a, tid)" by (cases c)
  obtain m1 where m1: "replay_event W a tid m = Some m1" "tr_locations m1 = tr_locations m"
    using replay_returns[of m a W tid] Cons.prems by (auto simp: c)
  have "\<forall>(a, tid)\<in>set calls. map_of (tr_locations m1) a \<noteq> None" using Cons.prems m1(2) by auto
  from Cons.IH[OF this] show ?case using m1(1) replay_log(1)[OF m1(1)] by (simp add: c)
qed simp

lemma calls_after_reset:
  "calls_after g t (map (\<lambda>e. if g < ev_global_seq e then e \<lparr> ev_replayed := False \<rparr> else e) log) = replayed_upto 0 (calls_after g t log)"
  by (induction log) (simp_all add: calls_after_def replayed_upto_def)

section \<open>The properties\<close>

text \<open>
  C17: The event log stays consistent.  Entering and leaving a call, replaying one, ending a replay
  and resetting the marks keep the log sorted by event number, the numbers of logged and pending
  events distinct and below the next one, every pending call with its own thread, and every index
  that waits for the end of a replay inside the log.
\<close>

theorem event_log_invariant:
  assumes "events_ok m" "g_global_sequence m \<noteq> - 1"
  shows "(on_breakpoint_enter W a tid m = Some m' \<longrightarrow> events_ok m')
    \<and> (on_breakpoint_return W a tid ctx m = Some m' \<longrightarrow> events_ok m')
    \<and> (replay_event W a tid m = Some m' \<longrightarrow> events_ok m')
    \<and> (replay_event_end W a tid m = Some m' \<longrightarrow> events_ok m')
    \<and> events_ok (reset_event_replay g m)"
proof -
  have ret: "events_ok m'" if r: "on_breakpoint_return W a tid ctx m = Some m'"
  proof (cases "pending_of tid (el_pending_thread_events m)")
    case Nil
    let ?p = "el_pending_thread_events m"
    have ok: "smap_ok ?p" using assms(1) by (simp add: events_ok_def)
    have m': "m' = m \<lparr> el_pending_thread_events := smap_modify tid [] (\<lambda>st. st) ?p \<rparr>"
      using r Nil by (simp add: on_breakpoint_return_def)
    have "\<forall>(t, st)\<in>set (smap_modify tid [] (\<lambda>st. st) ?p). \<forall>e\<in>set st. ev_thread_id e = t"
      by (rule smap_modify_all[OF ok]) (use assms(1) in \<open>auto simp: events_ok_def\<close>)
    moreover have "pending_events m' = pending_events m" by (simp only: pending_events_def m' smap_modify_id simps)
        (simp add: smap_modify_id)
    ultimately show ?thesis using assms(1) ok by (simp add: events_ok_def m' smap_ok_modify)
  next
    case (Cons e st)
    then show ?thesis using return_ok(1)[OF assms(1) Cons r] by simp
  qed
  have sorted: "sorted (map ev_global_seq (el_event_log m))" using assms(1) by (simp add: events_ok_def)
  let ?f = "\<lambda>e. if g < ev_global_seq e then e \<lparr> ev_replayed := False \<rparr> else e"
  have seq: "map (ev_global_seq \<circ> ?f) (el_event_log m) = map ev_global_seq (el_event_log m)"
    "\<And>e. ev_global_seq (?f e) = ev_global_seq e" by simp_all
  have "events_ok (reset_event_replay g m)"
    using assms(1) unfolding reset_log[OF sorted] events_ok_def pending_events_def map_append
    by (simp add: ball_Un seq image_image del: if_split)
  then show ?thesis using enter_ok[OF assms] ret replay_ok[OF assms(1)] replay_end_ok(1)[OF assms(1)] by blast
qed




section \<open>Snapshots and the log\<close>

lemma foldM_same_logs:
  assumes "foldM f xs m = Some m'" "\<And>x m m'. f x m = Some m' \<Longrightarrow> same_logs m m'"
  shows "same_logs m m'"
  using assms(1)
proof (induction xs arbitrary: m)
  case (Cons x xs)
  then obtain m1 where "f x m = Some m1" "foldM f xs m1 = Some m'" by (auto split: bind_splits)
  then show ?case using Cons.IH assms(2) same_logs_trans by blast
qed simp

lemma logs_snapshot_threads: "snapshot_threads W g r s m = Some m' \<Longrightarrow> same_logs m m'"
  unfolding snapshot_threads_def
  by (erule foldM_same_logs)
    (auto simp: Let_def split_def same_logs_def logs_low[unfolded same_logs_def] split: if_splits)

lemma logs_snapshot_memory:
  assumes "snapshot_memory W g r s m = Some m'"
  shows "same_logs m m'"
proof -
  obtain x m1 h where 1: "vq_loop W (snapshot_region W g r s) 0 None m = Some (x, m1)" and m': "m' = m1 \<lparr> mm_history := h \<rparr>"
    using assms by (auto simp: snapshot_memory_def split: bind_splits)
  have "same_logs m m1"
    using 1
  proof (rule vq_loop_invariant)
    show "same_logs m n'" if "same_logs m n" "snapshot_region W g r s a i n = Some n'" for a i n n'
      using that by (auto simp: snapshot_region_def same_logs_def Let_def split: if_splits bind_splits)
  qed simp
  then show ?thesis by (simp add: same_logs_def m')
qed

lemma snapshot_process_logs:
  assumes "snapshot_process W kind m = Some m'"
  shows "g_global_sequence m' = g_global_sequence m" "g_run_id m' = g_run_id m" "g_run_sequence m' = g_run_sequence m + 1"
    "sl_history m' = et_add_child (current_snapshot kind m) (g_run_id m) (g_run_sequence m) (g_global_sequence m) (sl_history m)"
    "el_event_log m' = el_event_log m" "el_pending_thread_events m' = el_pending_thread_events m"
    "el_pending_replay_end_events m' = el_pending_replay_end_events m" "tr_locations m' = tr_locations m"
proof -
  obtain m1 m2 where 1: "snapshot_threads W (g_global_sequence m) (g_run_id m) (g_run_sequence m) m = Some m1"
    and 2: "snapshot_memory W (g_global_sequence m1) (g_run_id m1) (g_run_sequence m1) m1 = Some m2"
    and m': "m' = (let m = m2 \<lparr> sl_history := et_add_child (current_snapshot kind m) (g_run_id m2) (g_run_sequence m2)
        (g_global_sequence m2) (sl_history m2) \<rparr> in m \<lparr> g_run_sequence := g_run_sequence m + 1 \<rparr>)"
    using assms by (auto simp: snapshot_process_def Let_def split: bind_splits)
  note s = same_logs_trans[OF logs_snapshot_threads[OF 1] logs_snapshot_memory[OF 2], unfolded same_logs_def]
  show "g_global_sequence m' = g_global_sequence m" "g_run_id m' = g_run_id m" "g_run_sequence m' = g_run_sequence m + 1"
    "sl_history m' = et_add_child (current_snapshot kind m) (g_run_id m) (g_run_sequence m) (g_global_sequence m) (sl_history m)"
    "el_event_log m' = el_event_log m" "el_pending_thread_events m' = el_pending_thread_events m"
    "el_pending_replay_end_events m' = el_pending_replay_end_events m" "tr_locations m' = tr_locations m"
    using s by (simp_all add: m' Let_def)
qed

text \<open>
  C38: Restoring a snapshot does not reset the first call made after it.  The snapshot carries the
  number of the next event, and ResetEventReplay resets the events with greater numbers only: the
  first event entered after the snapshot has the snapshot's own number, so once it has been
  replayed it keeps its mark when the snapshot is restored again, and is not found a second time.
\<close>

theorem first_call_after_snapshot_not_reset:
  assumes "snapshot_process W kind m = Some m1" "on_breakpoint_enter W a tid m1 = Some m2"
    and "pending_of tid (el_pending_thread_events m2) = e # pending_of tid (el_pending_thread_events m1)"
    and "smap_ok (el_pending_thread_events m)"
    and "sorted (map ev_global_seq (el_event_log m3))" "d \<in> set (el_event_log m3)" "ev_global_seq d = ev_global_seq e"
    and "ev_replayed d"
  shows "ev_global_seq e = sn_global_sequence (current_snapshot kind m)
    \<and> d \<in> set (el_event_log (reset_event_replay (sn_global_sequence (current_snapshot kind m)) m3))
    \<and> \<not> awaits_replay a tid d"
proof -
  note snap = snapshot_process_logs[OF assms(1)]
  obtain ctx m' where 1: "break_on_return W a tid m1 = Some (ctx, m')"
    using assms(2) by (auto simp: on_breakpoint_enter_def split: bind_splits)
  note same = same_logsD[OF logs_break[OF 1]]
  obtain x m'' where 2: "create_event_from_bp_address W a tid ctx m' = (x, m'')" by fastforce
  note new = created_event[OF 2]
  have seq: "ev_global_seq e = g_global_sequence m"
  proof (cases x)
    case None
    then have "m2 = m''" using assms(2) by (simp add: on_breakpoint_enter_def 1 2)
    then show ?thesis using None new(1) same(6) assms(3) by simp
  next
    case (Some f)
    then have "m2 = m'' \<lparr> el_pending_thread_events := smap_modify tid [] ((#) f) (el_pending_thread_events m'') \<rparr>"
      using assms(2) by (simp add: on_breakpoint_enter_def 1 2)
    then show ?thesis
      using assms(3,4) new(2)[OF Some] same(3,6) snap(1,6) by (simp add: pending_of_modify)
  qed
  have "reset_event_replay (g_global_sequence m) m3 = m3 \<lparr> el_event_log :=
      map (\<lambda>e. if g_global_sequence m < ev_global_seq e then e \<lparr> ev_replayed := False \<rparr> else e) (el_event_log m3) \<rparr>"
    by (rule reset_log[OF assms(5)])
  then show ?thesis using assms(6-8) seq by (force simp: current_snapshot_def awaits_replay_def)
qed

section \<open>A concrete state\<close>

definition snapshots_init :: "'w thread_tables \<Rightarrow> 'w snapshots" where
  "snapshots_init s = thread_tables.extend s \<lparr> sl_history = empty_snapshot_history \<rparr>"

definition events_init :: "'w snapshots \<Rightarrow> 'w events" where
  "events_init s = snapshots.extend s
     \<lparr> el_event_log = [], el_pending_thread_events = [], el_pending_replay_end_events = [] \<rparr>"

text \<open>A debuggee in which only \<open>LdrUnloadDll\<close>, at address 16, is watched; its trampoline is at 64.\<close>

definition watched_win32 :: "(addr \<Rightarrow> byte) win32" where
  "watched_win32 = flat_win32 \<lparr> w_proc_address := (\<lambda>name. if name = ''LdrUnloadDll'' then 16 else 0) \<rparr>"

definition watched :: "(addr \<Rightarrow> byte) events" where
  "watched = (events_init (snapshots_init (thread_tables_init (modules_init (memories_init (flat_breakpoints (\<lambda>_. 0))))))
     ) \<lparr> tr_locations := [(16, 64)] \<rparr>"

definition unload_event :: "u64 \<Rightarrow> thread_id \<Rightarrow> event" where
  "unload_event n tid = \<lparr> ev_global_seq = n, ev_run_id = 0, ev_run_sequence = 0, ev_thread_seq = 0, ev_thread_id = tid,
     ev_event_rip = 16, ev_replay_kind = Execute, ev_replayed = False,
     ev_kind = SharedLibraryUnloadEvent \<lparr> lu_dll_handle = 0, lu_return_status = None \<rparr> \<rparr>"

lemma watched_simps [simp]:
  "el_event_log watched = []" "el_pending_thread_events watched = []" "el_pending_replay_end_events watched = []"
  "g_global_sequence watched = 0" "tr_locations watched = [(16, 64)]" "th_current watched = []" "mm_history watched = []"
  "th_history watched = []" "g_run_id watched = 0" "g_run_sequence watched = 0"
  "bm_address_to_bp watched = Map.empty" "bm_permanent_bp_to_trampoline watched = []" "bm_user_breakpoints watched = []"
  by (simp_all add: watched_def events_init_def snapshots.extend_def snapshots_init_def thread_tables.extend_def
      thread_tables_init_def modules.extend_def modules_init_def memories.extend_def memories_init_def breakpoints.extend_def
      flat_breakpoints_def breakpoints_init_def plugins.extend_def plugins_init_def trampolines.extend_def
      threads.extend_def threads_init_def machine.extend_def machine_init_def)


lemma enter_watched:
  assumes "tr_locations m = [(16, 64)]" "el_pending_thread_events m = []"
  shows "\<exists>m' e. on_breakpoint_enter watched_win32 16 4 m = Some m' \<and> el_pending_thread_events m' = [(4, [e])]
    \<and> ev_global_seq e = g_global_sequence m"
proof -
  obtain ctx m1 where 1: "break_on_return watched_win32 16 4 m = Some (ctx, m1)"
    using break_returns[of m 16 watched_win32 4] assms(1) by auto
  note same = same_logsD[OF logs_break[OF 1]]
  have "\<exists>e m2. create_event_from_bp_address watched_win32 16 4 ctx m1 = (Some e, m2)"
    by (simp add: create_event_from_bp_address_def watched_win32_def apfst_def map_prod_def split_def)
  then obtain e m2 where 2: "create_event_from_bp_address watched_win32 16 4 ctx m1 = (Some e, m2)" by blast
  note new = created_event(2)[OF 2 refl]
  show ?thesis using new same(3,6) assms(2) by (simp add: on_breakpoint_enter_def 1 2)
qed

theorem event_log_invariant_witness:
  "\<exists>m' e. on_breakpoint_enter watched_win32 16 4 watched = Some m' \<and> el_pending_thread_events m' = [(4, [e])] \<and> events_ok m'"
proof -
  have ok: "events_ok watched" "g_global_sequence watched \<noteq> - 1" by (simp_all add: events_ok_def pending_events_def)
  obtain m' e where "on_breakpoint_enter watched_win32 16 4 watched = Some m'" "el_pending_thread_events m' = [(4, [e])]"
    using enter_watched[of watched] by auto
  then show ?thesis using event_log_invariant[OF ok, of watched_win32 16 4 m'] by blast
qed



theorem first_call_after_snapshot_not_reset_witness:
  "\<exists>m1 m2 e. snapshot_process watched_win32 CoarseSnapshot watched = Some m1
     \<and> on_breakpoint_enter watched_win32 16 4 m1 = Some m2 \<and> ev_global_seq e = 0
     \<and> e \<lparr> ev_replayed := True \<rparr> \<in> set (el_event_log (reset_event_replay 0
           (m2 \<lparr> el_event_log := [e \<lparr> ev_replayed := True \<rparr>] \<rparr>)))"
proof -
  have "vq_loop watched_win32 b 0 None m = Some (None, m)" for b and m :: "(addr \<Rightarrow> byte) events"
    by (subst vq_loop.simps) (simp add: watched_win32_def flat_win32_def)
  note walk = this
  have st: "snapshot_threads watched_win32 g r s watched = Some watched" for g r s by (simp add: snapshot_threads_def)
  have "snapshot_memory watched_win32 g r s watched = map_option (\<lambda>h. watched \<lparr> mm_history := h \<rparr>)
      (pmh_update_stale_regions r s g [])" for g r s
    unfolding snapshot_memory_def walk by (simp add: map_option_case split: option.split)
  moreover have "pmh_update_stale_regions r s g [] = Some []" for r s g by (simp add: pmh_update_stale_regions_def)
  ultimately obtain m1 where 1: "snapshot_process watched_win32 CoarseSnapshot watched = Some m1"
    by (simp add: snapshot_process_def st Let_def)
  note snap = snapshot_process_logs[OF 1]
  obtain m2 e where 2: "on_breakpoint_enter watched_win32 16 4 m1 = Some m2" "el_pending_thread_events m2 = [(4, [e])]"
    "ev_global_seq e = g_global_sequence m1"
    using enter_watched[of m1] snap by auto
  let ?d = "e \<lparr> ev_replayed := True \<rparr>" and ?m3 = "m2 \<lparr> el_event_log := [e \<lparr> ev_replayed := True \<rparr>] \<rparr>"
  have p: "pending_of 4 (el_pending_thread_events m2) = e # pending_of 4 (el_pending_thread_events m1)"
    using snap by (simp add: 2 pending_of_def)
  have q: "smap_ok (el_pending_thread_events watched)" "sorted (map ev_global_seq (el_event_log ?m3))" "?d \<in> set (el_event_log ?m3)"
    "ev_global_seq ?d = ev_global_seq e" "ev_replayed ?d" by simp_all
  show ?thesis
    using first_call_after_snapshot_not_reset[OF 1 2(1) p q] 1 2 by (auto simp: current_snapshot_def)
qed

end
