(* ===== verification/Restore_Facts.thy ===== *)
theory Restore_Facts
  imports Time_Restore Event_Replay
begin

text \<open>
  What a time restore leaves behind: a new run in which every component starts at the target, and
  what the two debug loops of the restore can return.
\<close>

definition threads_fresh :: "('w, 'z) thread_tables_scheme \<Rightarrow> u32 \<Rightarrow> bool" where
  "threads_fresh m n = (\<forall>(k, t)\<in>set (th_history m). et_fresh t n)"

definition modules_fresh :: "('w, 'z) modules_scheme \<Rightarrow> u32 \<Rightarrow> bool" where
  "modules_fresh m n = (\<forall>(k, t)\<in>set (mo_history m). et_fresh t n)"

lemma thread_branch:
  assumes "threads_ok m" "threads_fresh m n" "p < n"
  shows "\<exists>h. create_thread_history_branch p b n m = Some (m \<lparr> th_history := h \<rparr>)
    \<and> (\<forall>t r s. hist_view h t r s = (if r = n then hist_view (th_history m) t p b else hist_view (th_history m) t r s))"
  using threads.branch[of "th_history m" n p b] assms
  by (auto simp: create_thread_history_branch_def threads_fresh_def threads_ok_hist)

lemma module_branch:
  assumes "modules_ok m" "modules_fresh m n" "p < n"
  shows "\<exists>h. create_module_history_branch p b n m = Some (m \<lparr> mo_history := h \<rparr>)
    \<and> (\<forall>d r s. hist_view h d r s = (if r = n then hist_view (mo_history m) d p b else hist_view (mo_history m) d r s))"
  using dlls.branch[of "mo_history m" n p b] assms
  by (auto simp: create_module_history_branch_def modules_fresh_def modules_ok_hist)

lemma snapshot_branch:
  assumes "et_wf (sl_history m)" "et_fresh (sl_history m) n" "p < n"
  shows "\<exists>t. create_snapshot_history_branch p b n m = Some (m \<lparr> sl_history := t \<rparr>) \<and> et_wf t
    \<and> et_view t = tl_branch n p b (et_view (sl_history m))"
  using et_revert_laws[OF assms, of b 0] by (auto simp: create_snapshot_history_branch_def)

text \<open>
  C3: A time restore starts a new run at the target.  When the memory could be restored, the end of
  the restore returns with the next run id and sequence 0; in the new run the threads, the modules,
  the memory and the snapshots of the target point are shown at every sequence, the nearest
  snapshot is the one nearest to the target, and every other point of every run shows what it
  showed.
\<close>

theorem restore_starts_new_run:
  assumes "restore_memory_at_sequence (en_win32 E) (tr_target_run_id p) (tr_target_run_sequence p) m = Some m1"
    and "threads_ok m" "modules_ok m" "et_wf (sl_history m)"
    and "n = g_run_id m + 1" "tr_target_run_id p < n"
    and "threads_fresh m n" "modules_fresh m n" "et_fresh (sl_history m) n" "pmh_branchable (mm_history m1) n"
  shows "\<exists>m'. restore_exit E p m = Some m' \<and> g_run_id m' = n \<and> g_run_sequence m' = 0
    \<and> (\<forall>t s. hist_view (th_history m') t n s = hist_view (th_history m) t (tr_target_run_id p) (tr_target_run_sequence p))
    \<and> (\<forall>d s. hist_view (mo_history m') d n s = hist_view (mo_history m) d (tr_target_run_id p) (tr_target_run_sequence p))
    \<and> (\<forall>s. pmh_shows (mm_history m') n s = pmh_shows (mm_history m1) (tr_target_run_id p) (tr_target_run_sequence p))
    \<and> get_nearest_snapshot m' = Some (et_view (sl_history m) (tr_target_run_id p) (tr_target_run_sequence p))
    \<and> (\<forall>r s. r \<noteq> n \<longrightarrow> (\<forall>t. hist_view (th_history m') t r s = hist_view (th_history m) t r s)
          \<and> (\<forall>d. hist_view (mo_history m') d r s = hist_view (mo_history m) d r s)
          \<and> pmh_shows (mm_history m') r s = pmh_shows (mm_history m1) r s
          \<and> et_view (sl_history m') r s = et_view (sl_history m) r s)"
proof -
  let ?r = "tr_target_run_id p" and ?s = "tr_target_run_sequence p"
  obtain w h where m1: "m1 = m \<lparr> m_world := w, mm_history := h \<rparr>"
    using restore_memory_same[OF assms(1)] by (auto simp: same_but_memory_def)
  define m2 where "m2 = m1 \<lparr> g_run_id := n, g_run_sequence := 0 \<rparr>"
  have ok: "threads_ok m2" "threads_fresh m2 n" using assms(2,7) by (simp_all add: threads_ok_def threads_fresh_def m2_def m1)
  obtain ht where t: "create_thread_history_branch ?r ?s n m2 = Some (m2 \<lparr> th_history := ht \<rparr>)"
    "\<forall>t r s. hist_view ht t r s = (if r = n then hist_view (th_history m) t ?r ?s else hist_view (th_history m) t r s)"
    using thread_branch[OF ok assms(6), of ?s] by (auto simp: m2_def m1)
  let ?m3 = "m2 \<lparr> th_history := ht \<rparr>"
  have ok: "modules_ok ?m3" "modules_fresh ?m3 n" using assms(3,8) by (simp_all add: modules_ok_def modules_fresh_def m2_def m1)
  obtain hd where d: "create_module_history_branch ?r ?s n ?m3 = Some (?m3 \<lparr> mo_history := hd \<rparr>)"
    "\<forall>t r s. hist_view hd t r s = (if r = n then hist_view (mo_history m) t ?r ?s else hist_view (mo_history m) t r s)"
    using module_branch[OF ok assms(6), of ?s] by (auto simp: m2_def m1)
  let ?m4 = "?m3 \<lparr> mo_history := hd \<rparr>"
  obtain hm where mm: "pmh_make_branch ?r ?s n (mm_history m1) = Some hm"
    "\<forall>r s. pmh_shows hm r s = (if r = n then pmh_shows (mm_history m1) ?r ?s else pmh_shows (mm_history m1) r s)"
    using pmh_branch_spec[OF assms(10,6)] by blast
  let ?m5 = "?m4 \<lparr> mm_history := hm \<rparr>"
  have m5: "create_memory_history_branch ?r ?s n ?m4 = Some ?m5"
    using mm(1) by (simp add: create_memory_history_branch_def m2_def)
  have ok: "et_wf (sl_history ?m5)" "et_fresh (sl_history ?m5) n" using assms(4,9) by (simp_all add: m2_def m1)
  obtain ts where s: "create_snapshot_history_branch ?r ?s n ?m5 = Some (?m5 \<lparr> sl_history := ts \<rparr>)" "et_wf ts"
    "et_view ts = tl_branch n ?r ?s (et_view (sl_history m))"
    using snapshot_branch[OF ok assms(6), of ?s] by (auto simp: m2_def m1)
  have "restore_exit E p m = Some (?m5 \<lparr> sl_history := ts \<rparr>)"
    using assms(1,5) t(1) d(1) m5 s(1) by (simp add: restore_exit_def Let_def m2_def m1)
  moreover have "g_run_id (?m5 \<lparr> sl_history := ts \<rparr>) = n" "g_run_sequence (?m5 \<lparr> sl_history := ts \<rparr>) = 0"
    by (simp_all add: m2_def)
  ultimately show ?thesis
    using t(2) d(2) mm(2) s(2,3)
    by (intro exI[of _ "?m5 \<lparr> sl_history := ts \<rparr>"]) (simp add: get_nearest_snapshot_def et_nearest_view tl_branch_def)
qed


text \<open>
  The unloading of modules ends only at the end of the injected code.  When RunDllRestore says
  that the modules are unloaded, the last event was a breakpoint of a thread standing right behind
  the final int3 of the code written for this restore, at a place registered as injected code, and
  the main thread is suspended before the event is continued.
\<close>

theorem dll_restore_stops_at_end:
  assumes "run_dll_restore E p m = Some (True, m')"
  shows "\<exists>m1 de rip m2. breakpoint_event de \<and> get_rip_address (en_win32 E) (de_thread_id de) m1 = (rip, m2)
    \<and> rip - 1 = tr_code_address p + tr_code_size p - 1
    \<and> get_breakpoint_type (rip - 1) (de_thread_id de) m2 = Some BP_ShellCode
    \<and> m' = continue_event (en_win32 E) de DBG_CONTINUE (suspend_thread_id (en_win32 E) (g_main_thread_id m2) m2)"
proof -
  have "fst (True, m') \<longrightarrow> (\<exists>m1 de rip m2. breakpoint_event de \<and> get_rip_address (en_win32 E) (de_thread_id de) m1 = (rip, m2)
    \<and> rip - 1 = tr_code_address p + tr_code_size p - 1
    \<and> get_breakpoint_type (rip - 1) (de_thread_id de) m2 = Some BP_ShellCode
    \<and> snd (True, m') = continue_event (en_win32 E) de DBG_CONTINUE (suspend_thread_id (en_win32 E) (g_main_thread_id m2) m2))"
    using assms unfolding run_dll_restore_def
  proof (rule loop_invariant[where I = "\<lambda>_. True"])
    fix n :: "('a, 'b) events_scheme" and r
    assume "dll_restore_round E p n = Some (Inr r)"
    then show "fst r \<longrightarrow> (\<exists>m1 de rip m2. breakpoint_event de \<and> get_rip_address (en_win32 E) (de_thread_id de) m1 = (rip, m2)
      \<and> rip - 1 = tr_code_address p + tr_code_size p - 1
      \<and> get_breakpoint_type (rip - 1) (de_thread_id de) m2 = Some BP_ShellCode
      \<and> snd r = continue_event (en_win32 E) de DBG_CONTINUE (suspend_thread_id (en_win32 E) (g_main_thread_id m2) m2))"
      by (fastforce simp: dll_restore_round_def Let_def
          split: prod.splits sum.splits if_splits option.splits breakpoint_type.splits)
  qed simp_all
  then show ?thesis by simp
qed


section \<open>A concrete restore\<close>

definition test_environment :: "'w win32 \<Rightarrow> 'w environment" where
  "test_environment W = \<lparr> en_win32 = W, en_decode = (\<lambda>_. Some 1), en_format = (\<lambda>_. None), en_plugin_directory = [],
     en_parse = (\<lambda>_. Inl []), en_help = (\<lambda>_. []), en_worker_delay = 0,
     en_narrow = (\<lambda>c. char_of (unat c mod 256)), en_timestamp = (\<lambda>_. None), en_query_handles = (\<lambda>_ _. ((False, 0), [])),
     en_query_object = (\<lambda>_ _ _ b. b), en_object_name = (\<lambda>_ _. []), en_query_types = (\<lambda>_ _. ((0, 0), [])),
     en_buffer_base = (\<lambda>_. 0) \<rparr>"

lemma test_environment_simps [simp]: "en_win32 (test_environment W) = W" "en_decode (test_environment W) = (\<lambda>_. Some 1)"
    "en_worker_delay (test_environment W) = 0"
  by (simp_all add: test_environment_def)

text \<open>Threads 5 and 9, modules 16 and 32, and one snapshot, all recorded in run 1.\<close>

definition recorded_run :: "(addr \<Rightarrow> byte) events" where
  "recorded_run = watched \<lparr> th_history := th_history two_threads, th_current := th_current two_threads,
     mo_history := mo_history two_modules, g_run_id := 1, g_run_sequence := 6,
     sl_history := et_new snapshot_zero \<lparr> sn_type = CoarseSnapshot, sn_run_id = 1, sn_run_sequence = 3, sn_global_sequence = 0 \<rparr> 1 3 0 \<rparr>"

lemma et_new_fresh: "n \<noteq> r \<Longrightarrow> 0 < n \<Longrightarrow> et_fresh (et_new d0 d r s g) n"
  by (simp add: et_fresh_def nodes_fresh_def et_new_def enode_new_def en_keys_def less_Suc_eq)

theorem restore_starts_new_run_witness:
  "\<exists>m'. restore_exit (test_environment flat_win32) (restore_phase_new 1 4 0 None) recorded_run = Some m'
    \<and> g_run_id m' = 2 \<and> (\<exists>d. hist_view (th_history m') 5 2 0 = Some d \<and> ti_loaded d)
    \<and> hist_view (mo_history m') 16 2 9 = None"
proof -
  let ?E = "test_environment flat_win32 :: (addr \<Rightarrow> byte) environment" and ?p = "restore_phase_new 1 4 0 None"
  have p: "tr_target_run_id ?p = 1" "tr_target_run_sequence ?p = 4" by (simp_all add: restore_phase_new_def)
  have walk: "vq_loop flat_win32 b 0 None m = Some (None, m)" for b and m :: "(addr \<Rightarrow> byte) events"
    by (subst vq_loop.simps) (simp add: flat_win32_def)
  have mem: "restore_memory_at_sequence (en_win32 ?E) (tr_target_run_id ?p) (tr_target_run_sequence ?p) recorded_run =
      Some (recorded_run \<lparr> mm_history := [] \<rparr>)"
    by (simp add: restore_memory_at_sequence_def walk pmh_get_current_allocation_regions_def recorded_run_def)
  have ok: "threads_ok recorded_run" "modules_ok recorded_run" "et_wf (sl_history recorded_run)"
    using two_threads_facts(1) two_modules_ok
    by (simp_all add: threads_ok_def modules_ok_def recorded_run_def et_new_laws(1))
  have n: "(2 :: u32) = g_run_id recorded_run + 1" "tr_target_run_id ?p < 2"
    by (simp_all add: recorded_run_def p word_less_nat_alt)
  obtain x where x: "th_history one_thread = hist_track thread_zero 5 (thread_state 5 x True) 1 2 1 []"
    using track_thread_tables(1)[of flat_win32 5 1 1 2] unfolding one_thread_def by (metis thread_tables_init_simps(1))
  obtain y where y: "th_history two_threads = hist_track thread_zero 9 (thread_state 9 y True) 1 5 2 (th_history one_thread)"
    using track_thread_tables(1)[of flat_win32 9 2 1 5 one_thread] unfolding two_threads_def by blast
  have fresh: "threads_fresh recorded_run 2" "modules_fresh recorded_run 2" "et_fresh (sl_history recorded_run) 2"
    by (simp_all add: threads_fresh_def modules_fresh_def recorded_run_def x y hist_track_def et_new_fresh two_modules_def
        track_dll_def word_less_nat_alt)
  have b: "pmh_branchable (mm_history (recorded_run \<lparr> mm_history := [] \<rparr>)) 2" by (simp add: pmh_branchable_def)
  obtain m' where m': "restore_exit ?E ?p recorded_run = Some m'" "g_run_id m' = 2"
    "\<forall>t s. hist_view (th_history m') t 2 s = hist_view (th_history recorded_run) t 1 4"
    "\<forall>d s. hist_view (mo_history m') d 2 s = hist_view (mo_history recorded_run) d 1 4"
    using restore_starts_new_run[OF mem ok n fresh b] unfolding p by blast
  have "hist_view (mo_history recorded_run) 16 1 4 = None"
    by (simp add: recorded_run_def two_modules_history word_le_nat_alt)
  moreover have "\<exists>d. hist_view (th_history recorded_run) 5 1 4 = Some d \<and> ti_loaded d"
    using two_threads_view by (simp add: recorded_run_def)
  ultimately show ?thesis using m' by auto
qed

theorem dll_restore_stops_at_end_witness:
  "\<exists>m'. run_dll_restore (test_environment (flat_win32
        \<lparr> w_wait_event := \<lambda>w n. (Inr \<lparr> de_process_id = 1, de_thread_id = 4, de_info = DE_Exception STATUS_BREAKPOINT \<rparr>, w),
          w_get_context := \<lambda>w h. cpu_zero \<lparr> ctx_Rip := 0x1010 \<rparr> \<rparr>))
      (restore_phase_new 1 4 0 None \<lparr> tr_code_address := 0x1000, tr_code_size := 16 \<rparr>)
      (track_shell_code_breakpoint 0x100F watched) = Some (True, m')
    \<and> (\<exists>(n :: (addr \<Rightarrow> byte) events) tid. get_breakpoint_type 0x100F tid n = Some BP_ShellCode)"
proof -
  let ?W = "flat_win32 \<lparr> w_wait_event := \<lambda>w n. (Inr \<lparr> de_process_id = 1, de_thread_id = 4, de_info = DE_Exception STATUS_BREAKPOINT \<rparr>, w),
          w_get_context := \<lambda>w h. cpu_zero \<lparr> ctx_Rip := 0x1010 \<rparr> \<rparr>"
  let ?p = "restore_phase_new 1 4 0 None \<lparr> tr_code_address := 0x1000, tr_code_size := 16 \<rparr>"
  let ?m = "resume_thread_id ?W (g_main_thread_id watched) (track_shell_code_breakpoint 0x100F watched)"
  let ?de = "\<lparr> de_process_id = 1, de_thread_id = 4, de_info = DE_Exception STATUS_BREAKPOINT \<rparr>"
  have wait: "wait_event ?W INFINITE ?m = (Inr ?de, ?m)" by (simp add: wait_event_def)
  define n where "n = snd (get_rip_address ?W 4 ?m)"
  have rip: "get_rip_address ?W 4 ?m = (0x1010, n)" by (simp add: n_def get_rip_address_def split_def)
  have n: "n = snd (get_rip_address ?W 4 ?m)" by (simp add: rip)
  have "bm_address_to_bp n = bm_address_to_bp ?m" "bm_user_breakpoints n = []" "bm_permanent_bp_to_trampoline n = []"
    unfolding n by (simp_all add: get_rip_address_def get_thread_handle_def meta_subscript_def resume_thread_id_def
        track_shell_code_breakpoint_def Let_def split_def)
  then have "get_breakpoint_type 0x100F 4 n = Some BP_ShellCode"
    by (simp add: get_breakpoint_type_def resume_thread_id_def meta_subscript_def track_shell_code_breakpoint_def Let_def)
  then have "\<exists>m'. dll_restore_round (test_environment ?W) ?p ?m = Some (Inr (True, m'))"
    by (simp add: dll_restore_round_def wait rip Let_def)
  then obtain m' where "run_dll_restore (test_environment ?W) ?p (track_shell_code_breakpoint 0x100F watched) = Some (True, m')"
    by (auto simp: run_dll_restore_def track_shell_code_breakpoint_def)
  with dll_restore_stops_at_end[OF this] show ?thesis by fastforce
qed

end
