(* ===== verification/Process_Info.thy ===== *)
theory Process_Info
  imports Struct_Layout Step_Command Restore_Facts
begin

text \<open>
  \<open>src/src/utils/process_utils.cpp\<close>: printing the process environment block, the thread environment
  blocks, the handles and the TLS slots of the debuggee.  What a function prints is a list of lines.

  A failed \<open>NtQueryInformationProcess\<close> leaves the zeroed structure, so it is address 0 here.  The
  time formatted in the local zone, the narrowed characters and the kernel's answers about handles
  and object types come from the environment.
\<close>

section \<open>Reading out of the debuggee\<close>

definition read_remote :: "'w win32 \<Rightarrow> addr \<Rightarrow> nat \<Rightarrow> ('w, 'z) machine_scheme \<Rightarrow> byte list option" where
  "read_remote W address n m =
     (if address = 0 then None
      else let (ok, bs) = w_read W (m_world m) address (w_indeterminate W n) in if ok then Some bs else None)"

abbreviation read_struct :: "'w win32 \<Rightarrow> addr \<Rightarrow> ctype \<Rightarrow> ('w, 'z) machine_scheme \<Rightarrow> byte list option" where
  "read_struct W address t \<equiv> read_remote W address (size_of t)"

abbreviation kMaxUnicodeStringBytes :: u16 where "kMaxUnicodeStringBytes \<equiv> 8192"
abbreviation (input) kMaxModules :: nat where "kMaxModules \<equiv> 512"

fun wide_chars :: "byte list \<Rightarrow> u16 list" where
  "wide_chars (l # h # bs) = (ucast l + 256 * ucast h) # wide_chars bs"
| "wide_chars bs = []"

text \<open>A C string ends at its first zero character.\<close>

definition c_str :: "string \<Rightarrow> string" where
  "c_str s = takeWhile (\<lambda>c. c \<noteq> CHR 0x00) s"

definition wstring_to_string :: "'w environment \<Rightarrow> u16 list \<Rightarrow> string" where
  "wstring_to_string E s = (if s = [] then [] else map (en_narrow E) s)"

text \<open>The arguments are the length and the buffer of the string.\<close>

definition read_remote_unicode_string :: "'w environment \<Rightarrow> u16 \<Rightarrow> addr \<Rightarrow> ('w, 'z) machine_scheme \<Rightarrow> string option" where
  "read_remote_unicode_string E len buffer m =
     (if buffer = 0 \<or> len = 0 \<or> kMaxUnicodeStringBytes < len then None
      else
        (let (ok, bs) = w_read (en_win32 E) (m_world m) buffer (replicate (unat len) 0)
         in if ok then Some (wstring_to_string E (wide_chars bs)) else None))"

definition read_unicode_field :: "'w environment \<Rightarrow> ctype \<Rightarrow> string list \<Rightarrow> byte list \<Rightarrow> ('w, 'z) machine_scheme \<Rightarrow> string option" where
  "read_unicode_field E t path bs =
     read_remote_unicode_string E (ucast (field t (path @ [''Length'']) bs)) (field t (path @ [''Buffer'']) bs)"

definition remote_string_line :: "'w environment \<Rightarrow> string \<Rightarrow> ctype \<Rightarrow> string list \<Rightarrow> byte list \<Rightarrow> ('w, 'z) machine_scheme \<Rightarrow> string" where
  "remote_string_line E label t path bs m =
     ''    '' @ pad_right 14 label @
     (case read_unicode_field E t path bs m of
        Some v \<Rightarrow> [CHR 0x27] @ c_str v @ [CHR 0x27]
      | None \<Rightarrow> ''< Name not readable >'')"

section \<open>Modules\<close>

definition format_pe_timestamp :: "'w environment \<Rightarrow> u32 \<Rightarrow> string" where
  "format_pe_timestamp E stamp =
     (if stamp = 0 then replicate 20 CHR '' ''
      else case en_timestamp E stamp of Some s \<Rightarrow> s | None \<Rightarrow> replicate 20 CHR '' '')"

text \<open>The PE headers: their sizes, their signatures and the two fields that are read.\<close>

definition read_module_timestamp :: "'w win32 \<Rightarrow> addr \<Rightarrow> ('w, 'z) machine_scheme \<Rightarrow> u32" where
  "read_module_timestamp W dll_base m =
     (case read_remote W dll_base 64 m of
        None \<Rightarrow> 0
      | Some dos_header \<Rightarrow>
          if le_word (take 2 dos_header) \<noteq> 0x5A4D then 0
          else
            (let nt_header_address = dll_base + scast (le_u32 (take 4 (drop 60 dos_header)))
             in case read_remote W nt_header_address 264 m of
                  None \<Rightarrow> 0
                | Some nt_headers \<Rightarrow>
                    if le_word (take 4 nt_headers) \<noteq> 0x4550 then 0
                    else le_u32 (take 4 (drop 8 nt_headers))))"

definition nt_global_flags :: "(u32 \<times> string) list" where
  "nt_global_flags =
     [(0x00000001, ''FLG_STOP_ON_EXCEPTION''), (0x00000002, ''FLG_SHOW_LDR_SNAPS''), (0x00000004, ''FLG_DEBUG_INITIAL_COMMAND''),
      (0x00000008, ''FLG_STOP_ON_HUNG_GUI''), (0x00000010, ''FLG_HEAP_ENABLE_TAIL_CHECK''), (0x00000020, ''FLG_HEAP_ENABLE_FREE_CHECK''),
      (0x00000040, ''FLG_HEAP_VALIDATE_PARAMETERS''), (0x00000080, ''FLG_HEAP_VALIDATE_ALL''), (0x00000100, ''FLG_APPLICATION_VERIFIER''),
      (0x00000400, ''FLG_HEAP_ENABLE_TAGGING''), (0x00000800, ''FLG_USER_STACK_TRACE_DB''), (0x00001000, ''FLG_KERNEL_STACK_TRACE_DB''),
      (0x00002000, ''FLG_MAINTAIN_OBJECT_TYPELIST''), (0x00004000, ''FLG_HEAP_ENABLE_TAG_BY_DLL''),
      (0x00008000, ''FLG_DISABLE_STACK_EXTENSION''), (0x00010000, ''FLG_ENABLE_CSRDEBUG''), (0x00020000, ''FLG_ENABLE_KDEBUG_SYMBOL_LOAD''),
      (0x00040000, ''FLG_DISABLE_PAGE_KERNEL_STACKS''), (0x00080000, ''FLG_ENABLE_SYSTEM_CRIT_BREAKS''),
      (0x00100000, ''FLG_HEAP_DISABLE_COALESCING''), (0x00200000, ''FLG_ENABLE_CLOSE_EXCEPTIONS''),
      (0x00400000, ''FLG_ENABLE_EXCEPTION_LOGGING''), (0x00800000, ''FLG_ENABLE_HANDLE_TYPE_TAGGING''),
      (0x01000000, ''FLG_HEAP_PAGE_ALLOCS''), (0x02000000, ''FLG_DEBUG_INITIAL_COMMAND_EX''), (0x04000000, ''FLG_DISABLE_DBGPRINT''),
      (0x08000000, ''FLG_CRITSEC_EVENT_CREATION''), (0x40000000, ''FLG_ENABLE_HANDLE_EXCEPTIONS''), (0x80000000, ''FLG_DISABLE_PROTDLLS'')]"

definition global_flag_lines :: "u32 \<Rightarrow> string list" where
  "global_flag_lines nt_global_flag =
     map (\<lambda>(flag, name). ''        '' @ name @ '' ('' @ show_hex (unat flag) @ '')'')
       (filter (\<lambda>(flag, name). and nt_global_flag flag \<noteq> 0) nt_global_flags)"

definition print_nt_global_flags :: "u32 \<Rightarrow> ('w, 'z) machine_scheme \<Rightarrow> ('w, 'z) machine_scheme" where
  "print_nt_global_flags nt_global_flag = put_lines (global_flag_lines nt_global_flag)"

definition module_line :: "'w environment \<Rightarrow> byte list \<Rightarrow> ('w, 'z) machine_scheme \<Rightarrow> string" where
  "module_line E entry m =
     (let base = field full_ldr_data_table_entry [''DllBase''] entry in
      ''        '' @ pad_left 16 CHR '' '' (show_hex (unat base)) @ '' '' @
      c_str (format_pe_timestamp E (read_module_timestamp (en_win32 E) base m)) @ '' '' @
      (case read_unicode_field E full_ldr_data_table_entry [''FullDllName''] entry m of
         Some name \<Rightarrow> c_str name | None \<Rightarrow> ''< Name not readable >''))"

text \<open>The loop over the loader's list; \<open>budget\<close> is \<open>kMaxModules - module_count\<close>.\<close>

fun module_lines :: "'w environment \<Rightarrow> addr \<Rightarrow> nat \<Rightarrow> addr \<Rightarrow> ('w, 'z) machine_scheme \<Rightarrow> string list" where
  "module_lines E list_head budget current m =
     (if current = 0 \<or> current = list_head then []
      else case budget of
        0 \<Rightarrow> [''        < module list truncated after '' @ show_dec kMaxModules @ '' entries >'']
      | Suc n \<Rightarrow>
          (case read_struct (en_win32 E) current full_ldr_data_table_entry m of
             None \<Rightarrow> [''        < module list entry at '' @ show_pointer current @ '' not readable >'']
           | Some entry \<Rightarrow> module_line E entry m #
               module_lines E list_head n (field full_ldr_data_table_entry [''InLoadOrderLinks'', ''Flink''] entry) m))"

declare module_lines.simps [simp del]

definition print_module_list :: "'w environment \<Rightarrow> byte list \<Rightarrow> addr \<Rightarrow> ('w, 'z) machine_scheme \<Rightarrow> ('w, 'z) machine_scheme" where
  "print_module_list E ldr ldr_address m =
     put_lines (''            Base TimeStamp                     Module'' #
       module_lines E (ldr_address + of_nat (offset_of full_peb_ldr_data [''InLoadOrderModuleList''])) kMaxModules
         (field full_peb_ldr_data [''InLoadOrderModuleList'', ''Flink''] ldr) m) m"

definition print_process_parameters :: "'w environment \<Rightarrow> addr \<Rightarrow> ('w, 'z) machine_scheme \<Rightarrow> ('w, 'z) machine_scheme" where
  "print_process_parameters E address m =
     (let t = full_rtl_user_process_parameters;
          hex = (\<lambda>path bs. show_hex (unat (field t path bs)));
          head = ''    ProcessParameters: '' @ pad_left 16 CHR '' '' (show_hex (unat address))
      in case read_struct (en_win32 E) address t m of
           None \<Rightarrow> put_line (head @ ''  < not readable >'') m
         | Some bs \<Rightarrow>
             put_lines
               [head,
                remote_string_line E ''CurrentDirectory:'' t [''CurrentDirectory'', ''DosPath''] bs m,
                remote_string_line E ''WindowTitle:'' t [''WindowTitle''] bs m,
                remote_string_line E ''ImageFile:'' t [''ImagePathName''] bs m,
                remote_string_line E ''CommandLine:'' t [''CommandLine''] bs m,
                remote_string_line E ''DllPath:'' t [''DllPath''] bs m,
                ''    '' @ pad_right 14 ''Environment:'' @ pad_left 16 CHR '' '' (hex [''Environment''] bs),
                ''    '' @ pad_right 14 ''Std handles:'' @ pad_left 16 CHR '' '' (hex [''StandardInput''] bs) @ '' . '' @
                  hex [''StandardOutput''] bs @ '' . '' @ hex [''StandardError''] bs] m)"

section \<open>Thread environment blocks\<close>

definition print_teb_at :: "'w win32 \<Rightarrow> thread_id \<Rightarrow> addr \<Rightarrow> ('w, 'z) machine_scheme \<Rightarrow> ('w, 'z) machine_scheme" where
  "print_teb_at W tid teb_address m =
     (case read_struct W teb_address full_teb m of
        None \<Rightarrow> put_line (''TEB for thread '' @ show_dec (unat tid) @ '' at '' @ show_hex16 teb_address @ '' is not readable'') m
      | Some teb \<Rightarrow>
          (let value = (\<lambda>path. field full_teb path teb); hex = (\<lambda>path. show_hex16 (value path)); dec = (\<lambda>path. show_dec (unat (value path)))
           in put_lines
             [''TEB at '' @ show_hex16 teb_address @ '' (thread '' @ show_dec (unat tid) @ '')'',
              ''    ExceptionList:        '' @ hex [''NtTib'', ''ExceptionList''],
              ''    StackBase:            '' @ hex [''NtTib'', ''StackBase''],
              ''    StackLimit:           '' @ hex [''NtTib'', ''StackLimit''],
              ''    SubSystemTib:         '' @ hex [''NtTib'', ''SubSystemTib''],
              ''    FiberData:            '' @ hex [''NtTib'', ''FiberData''],
              ''    ArbitraryUserPointer: '' @ hex [''NtTib'', ''ArbitraryUserPointer''],
              ''    Self:                 '' @ hex [''NtTib'', ''Self''],
              ''    EnvironmentPointer:   '' @ hex [''EnvironmentPointer''],
              ''    ClientId:             '' @ hex [''UniqueProcess''] @ '' . '' @ hex [''UniqueThread''],
              ''    RpcHandle:            '' @ hex [''ActiveRpcHandle''],
              ''    Tls Storage:          '' @ hex [''ThreadLocalStoragePointer''],
              ''    PEB Address:          '' @ hex [''ProcessEnvironmentBlock''],
              ''    LastErrorValue:       '' @ dec [''LastErrorValue''],
              ''    LastStatusValue:      '' @ show_hex (unat (value [''LastStatusValue''])),
              ''    Count Owned Locks:    '' @ dec [''CountOfOwnedCriticalSections''],
              ''    HardErrorMode:        '' @ dec [''HardErrorMode''],
              ''    DeallocationStack:    '' @ hex [''DeallocationStack''],
              []] m))"

definition query_teb_address :: "'w win32 \<Rightarrow> thread_id \<Rightarrow> ('w, 'z) machine_scheme \<Rightarrow> addr \<times> ('w, 'z) machine_scheme" where
  "query_teb_address W tid m =
     (let (h, w) = w_open_thread W (m_world m) tid; m = m \<lparr> m_world := w \<rparr> in
      if h = 0 then (0, m)
      else (get_teb_address W h m, m \<lparr> m_world := w_close_handle W (m_world m) h \<rparr>))"

definition debuggee_thread_ids :: "'w win32 \<Rightarrow> ('w, 'z) machine_scheme \<Rightarrow> thread_id list" where
  "debuggee_thread_ids W m =
     (case w_thread_list W (m_world m) of
        None \<Rightarrow> [] | Some ts \<Rightarrow> map snd (filter (\<lambda>(owner, tid). owner = g_process_id m) ts))"

definition print_teb_of :: "'w win32 \<Rightarrow> string list \<Rightarrow> thread_id \<Rightarrow> ('w, 'z) machine_scheme \<Rightarrow> ('w, 'z) machine_scheme" where
  "print_teb_of W gap tid m =
     (let (teb_address, m) = query_teb_address W tid m in
      if teb_address = 0
      then put_lines ((''Could not resolve the TEB address for thread '' @ show_dec (unat tid)) # gap) m
      else print_teb_at W tid teb_address m)"

definition print_teb :: "'w win32 \<Rightarrow> thread_id \<Rightarrow> ('w, 'z) machine_scheme \<Rightarrow> ('w, 'z) machine_scheme" where
  "print_teb W tid m =
     (if tid \<noteq> 0 then print_teb_of W [] tid m
      else
        (let thread_ids = debuggee_thread_ids W m in
         if thread_ids = [] then put_line (''No threads found in process '' @ show_dec (unat (g_process_id m))) m
         else fold (print_teb_of W [[]]) thread_ids m))"

section \<open>The process environment block\<close>

definition yes_no :: "u64 \<Rightarrow> string" where "yes_no b = (if b \<noteq> 0 then ''Yes'' else ''No'')"

definition list_entry_line :: "string \<Rightarrow> string list \<Rightarrow> byte list \<Rightarrow> string" where
  "list_entry_line label path ldr =
     label @ show_hex16 (field full_peb_ldr_data (path @ [''Flink'']) ldr) @ '' . '' @
     show_hex16 (field full_peb_ldr_data (path @ [''Blink'']) ldr)"

definition print_loader_data :: "'w environment \<Rightarrow> addr \<Rightarrow> ('w, 'z) machine_scheme \<Rightarrow> ('w, 'z) machine_scheme" where
  "print_loader_data E ldr_address m =
     (case read_struct (en_win32 E) ldr_address full_peb_ldr_data m of
        None \<Rightarrow> put_line ''    Ldr.Initialized:          < loader data not readable >'' m
      | Some ldr \<Rightarrow>
          print_module_list E ldr ldr_address (put_lines
            [''    Ldr.Initialized:          '' @ yes_no (field full_peb_ldr_data [''Initialized''] ldr),
             list_entry_line ''    Ldr.InInitializationOrderModuleList: '' [''InInitializationOrderModuleList''] ldr,
             list_entry_line ''    Ldr.InLoadOrderModuleList:           '' [''InLoadOrderModuleList''] ldr,
             list_entry_line ''    Ldr.InMemoryOrderModuleList:         '' [''InMemoryOrderModuleList''] ldr] m))"

definition print_peb :: "'w environment \<Rightarrow> ('w, 'z) machine_scheme \<Rightarrow> ('w, 'z) machine_scheme" where
  "print_peb E m =
     (let W = en_win32 E; address = w_peb_address W (m_world m) in
      if address = 0
      then put_line (''Could not query the process'' @ [CHR 0x27] @ ''s PEB address (error '' @ show_dec (unat (w_last_error W (m_world m))) @ '')'') m
      else case read_struct W address full_peb m of
        None \<Rightarrow> put_line (''PEB at '' @ show_hex16 address @ '' is not readable'') m
      | Some peb \<Rightarrow>
          (let value = (\<lambda>name. field full_peb [name] peb); dec = (\<lambda>name. show_dec (unat (value name)));
               m = put_lines
                 [''PEB at '' @ show_hex16 address,
                  ''    InheritedAddressSpace:    '' @ yes_no (value ''InheritedAddressSpace''),
                  ''    ReadImageFileExecOptions: '' @ yes_no (value ''ReadImageFileExecOptions''),
                  ''    BeingDebugged:            '' @ yes_no (value ''BeingDebugged''),
                  ''    ImageBaseAddress:         '' @ show_hex16 (value ''ImageBaseAddress''),
                  ''    NtGlobalFlag:             '' @ show_hex (unat (value ''NtGlobalFlag''))] m;
               m = print_nt_global_flags (ucast (value ''NtGlobalFlag'')) m;
               m = put_line (''    Ldr                       '' @ show_hex16 (value ''Ldr'')) m;
               m = print_loader_data E (value ''Ldr'') m;
               m = put_lines
                 [''    SubSystemData:     '' @ pad_left 16 CHR '' '' (show_hex (unat (value ''SubSystemData''))),
                  ''    ProcessHeap:       '' @ pad_left 16 CHR '' '' (show_hex (unat (value ''ProcessHeap'')))] m;
               m = print_process_parameters E (value ''ProcessParameters'') m
           in put_lines
                [''    NumberOfProcessors:  '' @ dec ''NumberOfProcessors'',
                 ''    NumberOfHeaps:       '' @ dec ''NumberOfHeaps'' @ '' (max '' @ dec ''MaximumNumberOfHeaps'' @ '')'',
                 ''    SessionId:           '' @ dec ''SessionId'',
                 ''    OS Version:          '' @ dec ''OSMajorVersion'' @ ''.'' @ dec ''OSMinorVersion'' @ '' build '' @ dec ''OSBuildNumber'',
                 ''    ImageSubsystem:      '' @ dec ''ImageSubsystem'' @ '' ('' @ dec ''ImageSubsystemMajorVersion'' @ ''.'' @
                   dec ''ImageSubsystemMinorVersion'' @ '')'',
                 []] m))"

section \<open>Handles and kernel object types\<close>

definition align_up :: "u16 \<Rightarrow> u64 \<Rightarrow> u64" where
  "align_up n alignment = and (ucast n + alignment - 1) (not (alignment - 1))"

definition object_type_name :: "u16 \<Rightarrow> ('w, 'z) session_state_scheme \<Rightarrow> string \<times> ('w, 'z) session_state_scheme" where
  "object_type_name i m =
     (case se_object_type_names m i of
        Some s \<Rightarrow> (s, m) | None \<Rightarrow> ([], m \<lparr> se_object_type_names := (se_object_type_names m)(i \<mapsto> []) \<rparr>))"

text \<open>
  Asking with larger buffers until the answer fits; the state is the size of the buffer.  The kernel's
  answer holds the entries that it counts.
\<close>

definition query_handles_round :: "'w environment \<Rightarrow> ('w, 'z) machine_scheme \<Rightarrow> nat \<Rightarrow> (nat + byte list) option" where
  "query_handles_round E m n =
     (let ((mismatch, return_length), buffer) = en_query_handles E (m_world m) n
      in Some (if mismatch then Inl return_length else Inr buffer))"

definition print_handle_entry :: "byte list \<Rightarrow> nat \<Rightarrow> ('w, 'z) session_state_scheme \<Rightarrow> ('w, 'z) session_state_scheme" where
  "print_handle_entry buffer i m =
     (let t = system_handle_table_entry_info_ex;
          entry = drop (offset_of system_handle_information_ex [''Handles''] + i * size_of t) buffer
      in if field t [''UniqueProcessId''] entry = ucast (g_process_id m) then
           (let (type_name, m) = object_type_name (ucast (field t [''ObjectTypeIndex''] entry)) m
            in put_lines [''Handle '' @ show_hex (unat (field t [''HandleValue''] entry)) @ '':'', ''  Type          '' @ c_str type_name] m)
         else m)"

definition print_all_handles :: "'w environment \<Rightarrow> ('w, 'z) session_state_scheme \<Rightarrow> ('w, 'z) session_state_scheme option" where
  "print_all_handles E m =
     do { buffer \<leftarrow> loop (query_handles_round E m) 0x10000;
          let handles = unat (field system_handle_information_ex [''NumberOfHandles''] buffer);
          Some (fold (print_handle_entry buffer) [0..<handles] m) }"

abbreviation (input) ObjectBasicInformation :: nat where "ObjectBasicInformation \<equiv> 0"
abbreviation (input) ObjectTypeInformation :: nat where "ObjectTypeInformation \<equiv> 2"

text \<open>A type buffer that is too short for the structure has no type index to read.\<close>

definition print_handle_info :: "'w environment \<Rightarrow> handle \<Rightarrow> ('w, 'z) session_state_scheme \<Rightarrow> ('w, 'z) session_state_scheme option" where
  "print_handle_info E handle_value m =
     (let W = en_win32 E; (new_handle, w) = w_duplicate_handle W (m_world m) handle_value; m = m \<lparr> m_world := w \<rparr> in
      if new_handle = 0 then Some m
      else
        (let basic = en_query_object E (m_world m) new_handle ObjectBasicInformation (replicate (size_of object_basic_information) 0);
             value = (\<lambda>name. ucast (field object_basic_information [name] basic) :: u32);
             aligned_type_size = and (value ''TypeInfoSize'' + 7) (not 7);
             type_buffer = en_query_object E (m_world m) new_handle ObjectTypeInformation (replicate (unat aligned_type_size) 0);
             handle_name = (if 0 < value ''NameInfoSize'' then wstring_to_string E (en_object_name E (m_world m) new_handle)
                            else ''<None>'')
         in if unat aligned_type_size < size_of object_type_information then None
            else
              (let (type_name, m) = object_type_name (ucast (field object_type_information [''TypeIndex''] type_buffer)) m;
                   m = put_lines
                     [''Handle '' @ show_hex (unat handle_value) @ '':'',
                      ''  Type          '' @ c_str type_name,
                      ''  Attributes    '' @ show_int (sint (value ''Attributes'')),
                      ''  GrantedAccess 0x'' @ show_hex (unat (value ''GrantedAccess'')),
                      ''  HandleCount   '' @ show_int (sint (value ''HandleCount'')),
                      ''  PointerCount  '' @ show_int (sint (value ''PointerCount'')),
                      ''  Name          '' @ c_str handle_name] m
               in Some (m \<lparr> m_world := w_close_handle W (m_world m) new_handle \<rparr>))))"

definition print_handle_information :: "'w environment \<Rightarrow> handle \<Rightarrow> ('w, 'z) session_state_scheme \<Rightarrow> ('w, 'z) session_state_scheme option" where
  "print_handle_information E handle_value m =
     (if handle_value = 0 then print_all_handles E m else print_handle_info E handle_value m)"

text \<open>
  The table of object types: after the count, one structure per type, each followed by its name and
  aligned to 8 bytes.  The name is found through a pointer into the buffer, which lies at \<open>base\<close>; a
  pointer that leads elsewhere has no result.
\<close>

definition query_types_round :: "'w environment \<Rightarrow> ('w, 'z) machine_scheme \<Rightarrow> nat \<Rightarrow> (nat + nat \<times> u32 \<times> byte list) option" where
  "query_types_round E m n =
     (let ((status, return_length), buffer) = en_query_types E (m_world m) n
      in Some (if status = 0xC0000004 then Inl return_length else Inr (n, status, buffer)))"

definition object_type_entry_name :: "'w environment \<Rightarrow> addr \<Rightarrow> byte list \<Rightarrow> byte list \<Rightarrow> string option" where
  "object_type_entry_name E base buffer entry =
     (let len = unat (field object_type_information [''TypeName'', ''Length''] entry);
          start = unat (field object_type_information [''TypeName'', ''Buffer''] entry - base)
      in if len div 2 = 0 then Some []
         else if length buffer < start + 2 * (len div 2) then None
         else Some (wstring_to_string E (wide_chars (take (2 * (len div 2)) (drop start buffer)))))"

fun populate_types :: "'w environment \<Rightarrow> addr \<Rightarrow> byte list \<Rightarrow> nat \<Rightarrow> nat \<Rightarrow> (u16 \<Rightarrow> string option) \<Rightarrow> (u16 \<Rightarrow> string option) option" where
  "populate_types E base buffer 0 off names = Some names"
| "populate_types E base buffer (Suc left) off names =
     (let t = object_type_information; entry = drop off buffer in
      do { name \<leftarrow> object_type_entry_name E base buffer entry;
           let next = off + size_of t + unat (align_up (ucast (field t [''TypeName'', ''MaximumLength''] entry)) 8);
           populate_types E base buffer left next (names(ucast (field t [''TypeIndex''] entry) \<mapsto> name)) })"

definition populate_object_type_indexes :: "'w environment \<Rightarrow> ('w, 'z) session_state_scheme \<Rightarrow> ('w, 'z) session_state_scheme option" where
  "populate_object_type_indexes E m =
     do { (n, status, buffer) \<leftarrow> loop (query_types_round E m) (size_of object_types_information);
          if 0 \<le> sint status then
            do { names \<leftarrow> populate_types E (en_buffer_base E n) buffer
                   (unat (field object_types_information [''NumberOfTypes''] buffer))
                   (unat (align_up (of_nat (size_of object_types_information)) 8)) (se_object_type_names m);
                 Some (m \<lparr> se_object_type_names := names \<rparr>) }
          else Some m }"

section \<open>TLS slots\<close>

function true_bits :: "u32 \<Rightarrow> u64 \<Rightarrow> u64 list" where
  "true_bits bit_value index =
     (if bit_value = 0 then []
      else (if and bit_value 1 \<noteq> 0 then [index] else []) @ true_bits (drop_bit 1 bit_value) (index + 1))"
  by pat_completeness auto

termination
proof (relation "measure (\<lambda>(v, i). unat v)", goal_cases)
  case (2 v i)
  have "unat (drop_bit 1 v) = unat v div 2" by (simp only: unat_drop_bit_eq) (simp add: drop_bit_eq_div)
  moreover have "unat v \<noteq> 0" using 2 by (simp add: unat_eq_0)
  ultimately show ?case by simp
qed simp

declare true_bits.simps [simp del]

definition get_indices_of_true_bits :: "u32 \<Rightarrow> u32 \<Rightarrow> u64 list" where
  "get_indices_of_true_bits bit_value offset = true_bits bit_value (ucast offset)"

definition tls_line :: "u64 \<Rightarrow> u64 \<Rightarrow> string" where
  "tls_line index value = ''0x'' @ pad_left 4 CHR ''0'' (show_hex (unat index)) @ '' : '' @ show_int (sint value)"

definition print_tls_slot :: "'w win32 \<Rightarrow> thread_id \<Rightarrow> u64 \<Rightarrow> ('w, 'z) threads_scheme \<Rightarrow> ('w, 'z) threads_scheme" where
  "print_tls_slot W tid index m =
     (let (value, m) = read_thread_tls_index W tid (ucast index) m in put_line (tls_line index value) m)"

definition print_tls_information :: "'w win32 \<Rightarrow> u64 \<Rightarrow> thread_id \<Rightarrow> ('w, 'z) threads_scheme \<Rightarrow> ('w, 'z) threads_scheme" where
  "print_tls_information W tls_index tid m =
     (if tls_index = - 1 then
        (let address = w_peb_address W (m_world m) in
         if address = 0
         then put_line (''Could not query the process'' @ [CHR 0x27] @ ''s PEB address (error '' @ show_dec (unat (w_last_error W (m_world m))) @ '')'') m
         else
           (let peb = snd (w_read W (m_world m) address (w_indeterminate W (size_of full_peb)));
                m = put_line (''TLS slots on thread: '' @ show_hex (unat tid)) m;
                low = get_indices_of_true_bits (ucast (array_item full_peb [''TlsBitmapBits''] 0 peb)) 0;
                high = get_indices_of_true_bits (ucast (array_item full_peb [''TlsBitmapBits''] 1 peb)) 32
            in fold (print_tls_slot W tid) (low @ high) m))
      else print_tls_slot W tid tls_index m)"

section \<open>What is printed\<close>

lemma true_bits_filter:
  "drop_bit n v = 0 \<Longrightarrow> true_bits v index = map (\<lambda>i. index + of_nat i) (filter (bit v) [0..<n])"
proof (induction n arbitrary: v index)
  case 0
  then show ?case by (simp add: true_bits.simps)
next
  case (Suc n)
  have tail: "filter (bit v) (map Suc [0..<n]) = map Suc (filter (bit (drop_bit 1 v)) [0..<n])"
    by (simp add: filter_map comp_def bit_drop_bit_eq)
  have "drop_bit n (drop_bit 1 v) = 0" using Suc.prems by simp
  note IH = Suc.IH[OF this, of "index + 1"]
  have up: "[0..<Suc n] = 0 # map Suc [0..<n]" by (simp add: upt_conv_Cons map_Suc_upt del: upt_Suc)
  show ?case
  proof (cases "v = 0")
    case True
    then show ?thesis by (simp add: true_bits.simps[of 0])
  next
    case False
    have "(and v 1 \<noteq> 0) = bit v 0" by (simp add: and_one_eq bit_0 odd_iff_mod_2_eq_one)
    with False have "true_bits v index = (if bit v 0 then [index] else []) @ true_bits (drop_bit 1 v) (index + 1)"
      by (subst true_bits.simps) (simp only: if_False)
    then show ?thesis unfolding IH up by (simp add: tail comp_def add_ac)
  qed
qed

text \<open>
  The set bits of a TLS bitmap word.  get_indices_of_true_bits gives exactly the positions of the
  set bits, from the lowest to the highest, each moved up by the offset: shifting until nothing is
  left visits every bit of the word once.
\<close>

theorem tls_bitmap_indices:
  "get_indices_of_true_bits v offset = map (\<lambda>i. ucast offset + of_nat i) (filter (bit v) [0..<32])"
proof -
  have "drop_bit 32 v = 0" by (rule bit_word_eqI) (simp add: bit_drop_bit_eq bit_imp_le_length)
  then show ?thesis by (simp add: get_indices_of_true_bits_def true_bits_filter)
qed

text \<open>The loader's list as it lies in memory: the entries from \<open>current\<close> on, back to the head or to null.\<close>

fun loader_chain :: "'w win32 \<Rightarrow> addr \<Rightarrow> addr \<Rightarrow> byte list list \<Rightarrow> ('w, 'z) machine_scheme \<Rightarrow> bool" where
  "loader_chain W list_head current [] m = (current = 0 \<or> current = list_head)"
| "loader_chain W list_head current (e # es) m =
     (current \<noteq> 0 \<and> current \<noteq> list_head \<and> read_struct W current full_ldr_data_table_entry m = Some e
      \<and> loader_chain W list_head (field full_ldr_data_table_entry [''InLoadOrderLinks'', ''Flink''] e) es m)"

lemma module_lines_chain:
  "loader_chain (en_win32 E) list_head current es m \<Longrightarrow>
   module_lines E list_head n current m = map (\<lambda>e. module_line E e m) (take n es) @
     (if length es \<le> n then [] else [''        < module list truncated after '' @ show_dec kMaxModules @ '' entries >''])"
proof (induction es arbitrary: n current)
  case Nil
  then show ?case by (simp add: module_lines.simps)
next
  case (Cons e es)
  then show ?case by (cases n) (auto simp: module_lines.simps[of E list_head _ current])
qed

lemma module_lines_bound: "length (module_lines E list_head n current m) \<le> Suc n"
  by (induction n arbitrary: current) (auto simp: module_lines.simps split: option.split)


lemma loader_entry_layout: "size_of full_ldr_data_table_entry = 104"
    "field_at [''InLoadOrderLinks'', ''Flink''] full_ldr_data_table_entry = Some (0, C_ptr)"
    "field_at [''InLoadOrderModuleList'', ''Flink''] full_peb_ldr_data = Some (16, C_ptr)"
  by (simp_all add: full_ldr_data_table_entry_def full_peb_ldr_data_def list_entry_def round_up_def)


end
