(* ===== verification/Debugger.thy ===== *)
theory Debugger
  imports Process_Info
begin

text \<open>
  The interactive debugger: the dump command (\<open>src/src/cli/debugger/commands/dump_command.cpp\<close>), the
  choice of the command (\<open>src/src/cli/debugger/debugger_cli.cpp\<close>) and the prompt
  (\<open>src/src/execution_state_machine/execution_phase/debugger_phase.cpp\<close>).
\<close>

section \<open>\<open>dump_command.cpp\<close> and \<open>instruction_utils.cpp\<close>\<close>

definition print_instruction_at_address :: "'w environment \<Rightarrow> addr \<Rightarrow> ('w, 'z) machine_scheme \<Rightarrow> ('w, 'z) machine_scheme" where
  "print_instruction_at_address E address m =
     (case en_format E (read_zeroed (en_win32 E) address 32 m) of Some text \<Rightarrow> put_line text m | None \<Rightarrow> m)"

definition dump_instruction :: "'w environment \<Rightarrow> ('w, 'z) session_state_scheme \<Rightarrow> ('w, 'z) session_state_scheme option" where
  "dump_instruction E m =
     (let W = en_win32 E; (current_address, m) = get_rip_address W (g_main_thread_id m) m in
      if get_breakpoint_type current_address (g_main_thread_id m) m = Some BP_User then
        do { (_, m) \<leftarrow> disable_user_breakpoint W current_address m;
             let m = print_instruction_at_address E current_address m;
             (_, m) \<leftarrow> enable_user_breakpoint W current_address m;
             Some m }
      else Some (print_instruction_at_address E current_address m))"

definition dump_lines :: "'w environment \<Rightarrow> cli_args \<Rightarrow> ('w, 'z) session_state_scheme \<Rightarrow> ('w, 'z) session_state_scheme option" where
  "dump_lines E a m =
     (let lines = ca_i16s a ''--lines'' in
      if length lines = 2 \<and> sint (lines ! 1) \<le> sint (lines ! 0)
      then Some (put_line ''Second value must be strictly greater than the first value'' m)
      else
        (let (rip, m) = get_rip_address (en_win32 E) (g_main_thread_id m) m
         in do { (current_address, m) \<leftarrow> get_original_address ''cpp'' rip m; print_lines ''cpp'' current_address lines m }))"

definition dump_command :: "'w environment \<Rightarrow> cli_args \<Rightarrow> ('w, 'z) session_state_scheme \<Rightarrow> ('w, 'z) command_result" where
  "dump_command E a m = map_option (Pair None)
     (let W = en_win32 E; tid = g_main_thread_id m in
      if ca_flag a ''--variables'' then
        (let (rip, m) = get_rip_address W tid m in Some (print_all_scoped_variables rip tid m))
      else if ca_flag a ''--instruction'' then dump_instruction E m
      else if ca_flag a ''--address'' then
        (let (current_address, m) = get_rip_address W tid m in Some (put_line (show_pointer current_address) m))
      else if ca_used a ''--stack-frames'' then print_stack ''cpp'' (ca_u32 a ''--stack-frames'') m
      else if ca_used a ''--register'' then print_registers ''cpp'' (ca_u32 a ''--register'') m
      else if ca_used a ''--lines'' then dump_lines E a m
      else if ca_flag a ''--peb'' then Some (print_peb E m)
      else if ca_used a ''--teb'' then Some (print_teb W (ca_u32 a ''--teb'') m)
      else if ca_used a ''--handle'' then print_handle_information E (ca_u64 a ''--handle'') m
      else if ca_used a ''--display-type'' then print_object_type ''cpp'' (ca_string a ''--display-type'') [] 0 m
      else if ca_used a ''--tls'' then Some (print_tls_information W (ca_i64 a ''--tls'') tid m)
      else Some (put_line (en_help E ''dump'') m))"

section \<open>\<open>debugger_cli.cpp\<close>\<close>

definition handle_cli :: "'w environment \<Rightarrow> string list \<Rightarrow> ('w, 'z) session_state_scheme \<Rightarrow> ('w, 'z) command_result" where
  "handle_cli E args m =
     (if length args = 1 then no_transition (put_line (en_help E ''debugger'') m)
      else case en_parse E args of
        Inl what \<Rightarrow> no_transition (put_line (en_help E ''debugger'') (put_line what m))
      | Inr a \<Rightarrow>
          if ca_subcommand a = ''snapshot'' then snapshot_command E a m
          else if ca_subcommand a = ''bp'' then breakpoint_command E a m
          else if ca_subcommand a = ''dump'' then dump_command E a m
          else if ca_subcommand a = ''detach'' then detach_command E a m
          else if ca_subcommand a = ''resume'' then resume_command E a m
          else if ca_subcommand a = ''step'' then step_command E a m
          else no_transition m)"

section \<open>\<open>debugger_phase.cpp\<close>\<close>

text \<open>One prompt.  Without a suspended process the loop turns without doing anything.\<close>

definition debugger_round ::
    "'w environment \<Rightarrow> bool \<Rightarrow> ('w, 'z) session_state_scheme \<Rightarrow>
      (('w, 'z) session_state_scheme + transition \<times> ('w, 'z) session_state_scheme) option" where
  "debugger_round E process_suspended m =
     (if \<not> g_running m then Some (Inr (TransitionToError False 0, m))
      else if process_suspended then
        (let (input, m) = user_input (en_win32 E) ''chronoporia> '' m;
             args = split_input input
         in if args = [] then Some (Inl (put_line ''Bad string supplied'' m))
            else do { (transition, m) \<leftarrow> handle_cli E args m;
                      Some (case transition of Some t \<Rightarrow> Inr (t, m) | None \<Rightarrow> Inl m) })
      else Some (Inl m))"

definition debugger_run :: "'w environment \<Rightarrow> bool \<Rightarrow> ('w, 'z) session_state_scheme \<Rightarrow> (transition \<times> ('w, 'z) session_state_scheme) option" where
  "debugger_run E process_suspended = loop (debugger_round E process_suspended)"

end
