(* ===== verification/State_Machine.thy ===== *)
theory State_Machine
  imports Debugger
begin

text \<open>
  \<open>src/src/execution_state_machine/state_machine.cpp\<close>: the phases one after the other until the
  debugger stops running, and \<open>main\<close> of \<open>src/src/main.cpp\<close>.  A phase is a value of \<open>phase\<close>, with the
  members its constructor sets; \<open>phase_enter\<close>, \<open>phase_run\<close> and \<open>phase_exit\<close> are the three virtual
  functions.
\<close>

datatype phase =
    ProcessStartPhase
  | RecordingPhase bool addr
  | ErrorPhase u32
  | TimeRestorePhase restore_phase
  | ReconstructionPhase bool
  | DebuggerPhase bool
  | ReverseReplayPhase reverse_phase

definition transition_visitor :: "'w environment \<Rightarrow> transition \<Rightarrow> ('w, 'z) machine_scheme \<Rightarrow> phase" where
  "transition_visitor E t m =
     (case t of
        TransitionToRecording suspended \<Rightarrow> RecordingPhase suspended 0
      | TransitionToError suspended last_error \<Rightarrow> ErrorPhase last_error
      | TransitionToTimeRestore suspended run_id run_seq global_seq nxt \<Rightarrow>
          TimeRestorePhase (restore_phase_new run_id run_seq global_seq nxt)
      | TransitionToReconstruction suspended \<Rightarrow> ReconstructionPhase suspended
      | TransitionToDebugger suspended \<Rightarrow> DebuggerPhase suspended
      | TransitionToReverseReplay d \<Rightarrow> ReverseReplayPhase (reverse_phase_new d)
      | Transition suspended \<Rightarrow> ErrorPhase (w_last_error (en_win32 E) (m_world m)))"

definition phase_enter :: "'w environment \<Rightarrow> phase \<Rightarrow> ('w, 'z) session_state_scheme \<Rightarrow> (phase \<times> ('w, 'z) session_state_scheme) option" where
  "phase_enter E p m =
     (case p of
        ProcessStartPhase \<Rightarrow> Some (p, m)
      | RecordingPhase suspended _ \<Rightarrow>
          (let (child_entry_address, m) = recording_enter E suspended m in Some (RecordingPhase suspended child_entry_address, m))
      | ErrorPhase e \<Rightarrow> Some (p, error_enter m)
      | TimeRestorePhase r \<Rightarrow> map_option (\<lambda>(r, m). (TimeRestorePhase r, m)) (restore_enter E r m)
      | ReconstructionPhase suspended \<Rightarrow> Some (p, reconstruction_enter E suspended m)
      | DebuggerPhase suspended \<Rightarrow> Some (p, m)
      | ReverseReplayPhase r \<Rightarrow> map_option (\<lambda>(r, m). (ReverseReplayPhase r, m)) (reverse_enter E r m))"

definition phase_run ::
    "'w environment \<Rightarrow> phase \<Rightarrow> ('w, 'z) session_state_scheme \<Rightarrow> (transition \<times> phase \<times> ('w, 'z) session_state_scheme) option" where
  "phase_run E p m =
     (case p of
        ProcessStartPhase \<Rightarrow> map_option (\<lambda>(t, m). (t, p, m)) (process_start_run E m)
      | RecordingPhase suspended child_entry_address \<Rightarrow> map_option (\<lambda>(t, m). (t, p, m)) (recording_run E child_entry_address m)
      | ErrorPhase e \<Rightarrow> Some (error_run, p, m)
      | TimeRestorePhase r \<Rightarrow> map_option (\<lambda>(t, m). (t, p, m)) (restore_run E r m)
      | ReconstructionPhase suspended \<Rightarrow> map_option (\<lambda>(t, m). (t, p, m)) (reconstruction_run E m)
      | DebuggerPhase suspended \<Rightarrow> map_option (\<lambda>(t, m). (t, p, m)) (debugger_run E suspended m)
      | ReverseReplayPhase r \<Rightarrow> map_option (\<lambda>(t, r, m). (t, ReverseReplayPhase r, m)) (reverse_run E r m))"

definition phase_exit :: "'w environment \<Rightarrow> phase \<Rightarrow> ('w, 'z) session_state_scheme \<Rightarrow> ('w, 'z) session_state_scheme option" where
  "phase_exit E p m =
     (case p of
        ProcessStartPhase \<Rightarrow> Some (process_start_exit E m)
      | TimeRestorePhase r \<Rightarrow> restore_exit E r m
      | ReverseReplayPhase r \<Rightarrow> reverse_exit E r m
      | _ \<Rightarrow> Some m)"

definition run_phase :: "'w environment \<Rightarrow> phase \<Rightarrow> ('w, 'z) session_state_scheme \<Rightarrow> (transition \<times> ('w, 'z) session_state_scheme) option" where
  "run_phase E p m =
     do { (p, m) \<leftarrow> phase_enter E p m;
          (t, p, m) \<leftarrow> phase_run E p m;
          m \<leftarrow> phase_exit E p m;
          Some (t, m) }"

definition execution_round ::
    "'w environment \<Rightarrow> transition \<times> ('w, 'z) session_state_scheme \<Rightarrow>
      ((transition \<times> ('w, 'z) session_state_scheme) + ('w, 'z) session_state_scheme) option" where
  "execution_round E = (\<lambda>(t, m).
     if \<not> g_running m then Some (Inr m) else map_option Inl (run_phase E (transition_visitor E t m) m))"

definition run_execution :: "'w environment \<Rightarrow> ('w, 'z) session_state_scheme \<Rightarrow> ('w, 'z) session_state_scheme option" where
  "run_execution E m = do { s \<leftarrow> run_phase E ProcessStartPhase m; loop (execution_round E) s }"

text \<open>
  \<open>create\<close> is \<open>CreateProcessA\<close>: the process id of the debuggee started for a command line.  The
  result is the exit code.
\<close>

definition main_run ::
    "'w environment \<Rightarrow> ('w \<Rightarrow> string \<Rightarrow> (u32 \<times> 'w) option) \<Rightarrow> string list \<Rightarrow> ('w, 'z) session_state_scheme \<Rightarrow>
      (int \<times> ('w, 'z) session_state_scheme) option" where
  "main_run E create argv m =
     (case create (m_world m) (concat (map (\<lambda>a. a @ '' '') (tl argv))) of
        None \<Rightarrow> Some (1, m)
      | Some (process_id, w) \<Rightarrow>
          do { m \<leftarrow> populate_object_type_indexes E (m \<lparr> m_world := w \<rparr>);
               let m = m \<lparr> g_process_id := process_id, g_running := True \<rparr>;
               let m = snd (resume_process (en_win32 E) m);
               m \<leftarrow> run_execution E m;
               Some (0, m) })"

end
