(* ===== verification/Execution_Facts.thy ===== *)
theory Execution_Facts
  imports State_Machine
begin

text \<open>
  What holds of a whole session: which transitions the phases can ask for, that an error ends it,
  where the debug loops of the resume command, the step command and the reverse replay stop.
\<close>

lemmas split_all = prod.splits sum.splits option.splits if_splits

section \<open>A concrete session\<close>

definition quiet_session :: "(addr \<Rightarrow> byte) session_state" where
  "quiet_session = events.extend (recorded_run \<lparr> g_running := True \<rparr>)
     \<lparr> se_pending_user_breakpoint = None, se_object_type_names = Map.empty \<rparr>"

lemma quiet_session_simps [simp]: "g_running quiet_session" "se_pending_user_breakpoint quiet_session = None"
  by (simp_all add: quiet_session_def events.defs)

section \<open>The transitions of a session\<close>

text \<open>What may follow a phase.\<close>

fun restore_then :: "(transition \<Rightarrow> bool) \<Rightarrow> transition \<Rightarrow> bool" where
  "restore_then P (TransitionToTimeRestore suspended r s g (Some t)) = (suspended \<and> P t)"
| "restore_then P t = False"

fun is_error :: "transition \<Rightarrow> bool" where
  "is_error (TransitionToError suspended e) = (\<not> suspended)"
| "is_error t = False"

fun to_reverse :: "transition \<Rightarrow> bool" where
  "to_reverse (TransitionToReverseReplay d) = rd_process_suspended d"
| "to_reverse t = False"

fun follows :: "phase \<Rightarrow> transition \<Rightarrow> bool" where
  "follows ProcessStartPhase t = (t = TransitionToRecording True \<or> is_error t)"
| "follows (RecordingPhase _ _) t = (restore_then (\<lambda>t. t = TransitionToReconstruction True) t \<or> is_error t)"
| "follows (ErrorPhase e) t = is_error t"
| "follows (TimeRestorePhase p) t = (tr_next_transition p = Some t \<or> is_error t)"
| "follows (ReconstructionPhase _) t = (t = TransitionToDebugger True \<or> is_error t)"
| "follows (DebuggerPhase _) t = (restore_then (\<lambda>t. t = TransitionToDebugger True \<or> to_reverse t) t \<or> is_error t)"
| "follows (ReverseReplayPhase p) t = (t = TransitionToDebugger True \<or> restore_then to_reverse t \<or> is_error t)"

lemma process_start_follows: "process_start_run E m = Some r \<Longrightarrow> follows ProcessStartPhase (fst r)"
  unfolding process_start_run_def
  by (erule loop_invariant[where I = "\<lambda>_. True"]) (auto simp: process_start_round_def Let_def split: split_all)

lemma recording_follows: "recording_run E a m = Some r \<Longrightarrow> follows (RecordingPhase b c) (fst r)"
  unfolding recording_run_def Let_def
  by (erule loop_invariant[where I = "\<lambda>_. True"])
    (auto simp: record_round_def Let_def bind_eq_Some_conv split: split_all)

lemma reconstruction_follows: "reconstruction_run E m = Some r \<Longrightarrow> follows (ReconstructionPhase b) (fst r)"
  unfolding reconstruction_run_def
  by (erule loop_invariant[where I = "\<lambda>_. True"])
    (auto simp: reconstruct_round_def Let_def bind_eq_Some_conv split: split_all)

lemma restore_follows: "restore_run E p m = Some r \<Longrightarrow> follows (TimeRestorePhase p) (fst r)"
  by (auto simp: restore_run_def Let_def bind_eq_Some_conv split: split_all)

lemma resume_follows: "resume_command E a m = Some (Some t, m') \<Longrightarrow> is_error t"
proof -
  assume "resume_command E a m = Some (Some t, m')"
  then obtain n where "loop (resume_round E) n = Some (Some t, m')"
    by (auto simp: resume_command_def resume_process_execution_def bind_eq_Some_conv)
  then have "\<forall>t'. fst (Some t, m') = Some t' \<longrightarrow> is_error t'"
    by (rule loop_invariant[where I = "\<lambda>_. True"])
      (auto simp: resume_round_def resume_user_breakpoint_def Let_def bind_eq_Some_conv
        split: split_all breakpoint_type.splits)
  then show ?thesis by simp
qed

lemma snapshot_follows: "snapshot_command E a m = Some (Some t, m') \<Longrightarrow> restore_then (\<lambda>t. t = TransitionToDebugger True) t"
  by (auto simp: snapshot_command_def handle_run_id_seq_def Let_def bind_eq_Some_conv split: split_all)

lemma detach_follows: "detach_command E a m = Some (Some t, m') \<Longrightarrow> is_error t"
  by (auto simp: detach_command_def Let_def split: split_all)

lemma breakpoint_follows: "breakpoint_command E a m \<noteq> Some (Some t, m')"
  by (auto simp: breakpoint_command_def breakpoint_function_def breakpoint_file_def breakpoint_remove_def
      breakpoint_address_def add_conditional_breakpoint_def Let_def bind_eq_Some_conv split: split_all)

lemma time_restore_follows: "transition_to_time_restore E ps a c m = Some (t, m') \<Longrightarrow> restore_then to_reverse t"
  by (auto simp: transition_to_time_restore_def Let_def bind_eq_Some_conv split: split_all)

lemma step_follows: "step_command E a m = Some (Some t, m') \<Longrightarrow> restore_then to_reverse t"
  by (auto simp: step_command_def step_back_def step_back_out_def Let_def bind_eq_Some_conv
      dest!: time_restore_follows split: split_all)

lemma dump_follows: "dump_command E a m \<noteq> Some (Some t, m')"
  by (auto simp: dump_command_def)

lemma restore_then_mono: "restore_then P t \<Longrightarrow> (\<And>t. P t \<Longrightarrow> Q t) \<Longrightarrow> restore_then Q t"
  by (cases "(P, t)" rule: restore_then.cases) auto

lemma cli_follows:
  assumes "handle_cli E args m = Some (Some t, m')"
  shows "follows (DebuggerPhase b) t"
proof -
  obtain a where "snapshot_command E a m = Some (Some t, m') \<or> breakpoint_command E a m = Some (Some t, m')
      \<or> dump_command E a m = Some (Some t, m') \<or> detach_command E a m = Some (Some t, m')
      \<or> resume_command E a m = Some (Some t, m') \<or> step_command E a m = Some (Some t, m')"
    using assms unfolding handle_cli_def by (cases "en_parse E args") (fastforce split: if_splits)+
  then consider "restore_then (\<lambda>t. t = TransitionToDebugger True) t" | "restore_then to_reverse t" | "is_error t"
    using snapshot_follows[of E a m t m'] breakpoint_follows[of E a m t m'] dump_follows[of E a m t m']
      detach_follows[of E a m t m'] resume_follows[of E a m t m'] step_follows[of E a m t m'] by argo
  then show ?thesis
  proof cases
    case 1
    then show ?thesis by (simp add: restore_then_mono[OF 1])
  next
    case 2
    then show ?thesis by (simp add: restore_then_mono[OF 2])
  qed simp
qed

lemma debugger_round_follows:
  assumes "debugger_round E b m = Some (Inr r)"
  shows "follows (DebuggerPhase b) (fst r)"
proof (cases "g_running m")
  case True
  then obtain args n where "handle_cli E args n = Some (Some (fst r), snd r)"
    using assms by (auto simp: debugger_round_def Let_def bind_eq_Some_conv simp del: follows.simps split: split_all)
  then show ?thesis by (rule cli_follows)
qed (use assms in \<open>auto simp: debugger_round_def\<close>)

lemma debugger_follows: "debugger_run E b m = Some r \<Longrightarrow> follows (DebuggerPhase b) (fst r)"
  unfolding debugger_run_def by (erule loop_invariant[where I = "\<lambda>_. True"]) (simp_all only: debugger_round_follows)

lemma retry_follows: "reverse_retry E de p m = Some (t, p', m') \<Longrightarrow> restore_then to_reverse t"
  by (auto simp: reverse_retry_def Let_def bind_eq_Some_conv split: split_all)

lemma reverse_follows: "reverse_run E p m = Some r \<Longrightarrow> follows (ReverseReplayPhase q) (fst r)"
  unfolding reverse_run_def
  by (erule loop_invariant[where I = "\<lambda>_. True"])
    (auto simp: reverse_round_def reverse_breakpoint_def Let_def split_def dest!: retry_follows split: split_all)

lemma phase_run_follows:
  assumes "phase_run E p m = Some (t, p', m')"
  shows "follows p t"
proof (cases p)
  case ProcessStartPhase
  then show ?thesis using assms process_start_follows[of E m "(t, m')"] by (auto simp: phase_run_def)
next
  case (RecordingPhase b c)
  then show ?thesis using assms recording_follows[of E c m "(t, m')" b c] by (auto simp: phase_run_def)
next
  case (ErrorPhase e)
  then show ?thesis using assms by (auto simp: phase_run_def error_run_def)
next
  case (TimeRestorePhase r)
  then show ?thesis using assms restore_follows[of E r m "(t, m')"] by (auto simp: phase_run_def)
next
  case (ReconstructionPhase b)
  then show ?thesis using assms reconstruction_follows[of E m "(t, m')" b] by (auto simp: phase_run_def)
next
  case (DebuggerPhase b)
  then show ?thesis using assms debugger_follows[of E b m "(t, m')"] by (auto simp: phase_run_def)
next
  case (ReverseReplayPhase r)
  then obtain r' where "reverse_run E r m = Some (t, r', m')" using assms by (auto simp: phase_run_def)
  from reverse_follows[OF this] show ?thesis by (simp add: ReverseReplayPhase)
qed

text \<open>The transitions of a session: the process is suspended wherever the phase that follows relies on it.\<close>

fun session_ok :: "transition \<Rightarrow> bool" where
  "session_ok (TransitionToTimeRestore suspended r s g nxt) =
     (suspended \<and> (case nxt of None \<Rightarrow> False
       | Some t \<Rightarrow> t = TransitionToReconstruction True \<or> t = TransitionToDebugger True \<or> to_reverse t))"
| "session_ok (TransitionToError suspended e) = (\<not> suspended)"
| "session_ok (TransitionToRecording suspended) = suspended"
| "session_ok (TransitionToReconstruction suspended) = suspended"
| "session_ok (TransitionToDebugger suspended) = suspended"
| "session_ok (TransitionToReverseReplay d) = rd_process_suspended d"
| "session_ok (Transition suspended) = False"

fun next_ok :: "phase \<Rightarrow> bool" where
  "next_ok (TimeRestorePhase r) = (case tr_next_transition r of None \<Rightarrow> False | Some t \<Rightarrow> session_ok t)"
| "next_ok p = True"

lemma error_ok: "is_error t \<Longrightarrow> session_ok t"
  by (cases t) auto

lemma reverse_ok: "to_reverse t \<Longrightarrow> session_ok t"
  by (cases t) auto

lemma restore_then_ok:
  assumes "restore_then P t" "\<And>u. P u \<Longrightarrow> u = TransitionToReconstruction True \<or> u = TransitionToDebugger True \<or> to_reverse u"
  shows "session_ok t"
  using assms by (cases "(P, t)" rule: restore_then.cases) auto

lemma follows_ok: "follows p t \<Longrightarrow> next_ok p \<Longrightarrow> session_ok t"
  by (cases p) (auto dest: error_ok elim: restore_then_ok split: option.splits)

lemma restore_enter_next: "restore_enter E r m = Some (r', m') \<Longrightarrow> tr_next_transition r' = tr_next_transition r"
  by (clarsimp simp: restore_enter_def Let_def bind_eq_Some_conv split_def)

lemma phase_enter_next_ok: "phase_enter E p m = Some (p', m') \<Longrightarrow> next_ok p \<Longrightarrow> next_ok p'"
  by (cases p) (auto simp: phase_enter_def Let_def dest!: restore_enter_next split: split_all)

lemma run_phase_ok:
  assumes "run_phase E p m = Some (t, m')" "next_ok p"
  shows "session_ok t"
proof -
  obtain p1 m1 p2 m2 where "phase_enter E p m = Some (p1, m1)" "phase_run E p1 m1 = Some (t, p2, m2)"
    using assms(1) by (auto simp: run_phase_def bind_eq_Some_conv)
  then show ?thesis using phase_enter_next_ok phase_run_follows follows_ok assms(2) by blast
qed

lemma visitor_next_ok: "session_ok t \<Longrightarrow> next_ok (transition_visitor E t m)"
  by (cases t) (auto simp: transition_visitor_def restore_phase_new_def dest: reverse_ok split: option.splits)

text \<open>The states between two phases of a session.\<close>

inductive reached ::
    "'w environment \<Rightarrow> ('w, 'z) session_state_scheme \<Rightarrow> transition \<times> ('w, 'z) session_state_scheme \<Rightarrow> bool"
  for E m0 where
  first_phase: "run_phase E ProcessStartPhase m0 = Some s \<Longrightarrow> reached E m0 s"
| next_phase: "reached E m0 s \<Longrightarrow> execution_round E s = Some (Inl s') \<Longrightarrow> reached E m0 s'"

lemma reached_ok: "reached E m0 s \<Longrightarrow> session_ok (fst s)"
proof (induction rule: reached.induct)
  case (first_phase s)
  then show ?case using run_phase_ok[of E ProcessStartPhase m0 "fst s" "snd s"] by simp
next
  case (next_phase s s')
  then obtain m where "run_phase E (transition_visitor E (fst s) m) m = Some (fst s', snd s')"
    by (auto simp: execution_round_def split: prod.splits if_splits)
  then show ?case using run_phase_ok visitor_next_ok next_phase.IH by blast
qed

lemma execution_ends_reached:
  assumes "run_execution E m0 = Some m'"
  shows "(\<exists>t. reached E m0 (t, m')) \<and> \<not> g_running m'"
proof -
  obtain s where s: "run_phase E ProcessStartPhase m0 = Some s" "loop (execution_round E) s = Some m'"
    using assms by (auto simp: run_execution_def bind_eq_Some_conv)
  show ?thesis
    using s(2)
  proof (rule loop_invariant[where I = "reached E m0"])
    show "reached E m0 s" using s(1) by (rule first_phase)
    show "reached E m0 s1 \<Longrightarrow> execution_round E s1 = Some (Inl s2) \<Longrightarrow> reached E m0 s2" for s1 s2
      by (rule next_phase)
    show "reached E m0 s1 \<Longrightarrow> execution_round E s1 = Some (Inr r) \<Longrightarrow> (\<exists>t. reached E m0 (t, r)) \<and> \<not> g_running r" for s1 r
      by (cases s1) (auto simp: execution_round_def split: if_splits)
  qed
qed

text \<open>
  C16: A session goes through well-formed transitions only.  Wherever a session has got to, between any
  two phases, the transition in hand is well-formed: a time restore is asked for with the process
  suspended and with a next transition that is there and leads to the reconstruction, the debugger or
  a reverse replay, so the restore never takes a null transition; the debugger is entered only
  with the process suspended, so it prompts instead of turning in its empty loop; and the plain
  transition that stands for a programming error never occurs.  A session that ends has reached its
  last state that way and has stopped running.
\<close>

theorem session_transitions:
  "(reached E m0 (t, m) \<longrightarrow> session_ok t)
   \<and> (run_execution E m0 = Some m' \<longrightarrow> (\<exists>t'. reached E m0 (t', m') \<and> session_ok t') \<and> \<not> g_running m')"
  using reached_ok[of E m0 "(t, m)"] execution_ends_reached[of E m0 m'] reached_ok[of E m0 "(_, m')"] by auto

lemma error_session:
  assumes "transition_visitor E t m = ErrorPhase c"
  shows "loop (execution_round E) (t, m) = Some (m \<lparr> g_running := False \<rparr>)"
proof (cases "g_running m")
  case True
  then have "execution_round E (t, m) = Some (Inl (error_run, m \<lparr> g_running := False \<rparr>))"
    using assms by (simp add: execution_round_def run_phase_def phase_enter_def phase_run_def phase_exit_def error_enter_def)
  moreover have "execution_round E (error_run, m \<lparr> g_running := False \<rparr>) = Some (Inr (m \<lparr> g_running := False \<rparr>))"
    by (simp add: execution_round_def)
  ultimately show ?thesis by simp
next
  case False
  then have "execution_round E (t, m) = Some (Inr m)" "m \<lparr> g_running := False \<rparr> = m" by (simp_all add: execution_round_def)
  then show ?thesis by simp
qed

text \<open>
  An error ends the session.  From a transition to the error phase, or from the plain transition
  that is treated as one, RunExecution returns whatever the debuggee does: the state is the one the
  error was met in, no longer running.
\<close>

theorem error_ends_session:
  "loop (execution_round E) (TransitionToError suspended e, m) = Some (m \<lparr> g_running := False \<rparr>)
   \<and> loop (execution_round E) (Transition suspended, m) = Some (m \<lparr> g_running := False \<rparr>)"
  by (simp add: error_session transition_visitor_def)

text \<open>
  At the end of the input the debugger never returns.  When reading a line gives nothing, as
  getline does at the end of the input, every command is the empty line: the debugger phase prints
  its help for ever and asks for no transition.  The same holds, whatever the input, of a debugger
  phase that is entered without a suspended process.
\<close>

theorem debugger_stuck_at_end_of_input:
  assumes "g_running m" "process_suspended \<Longrightarrow> \<forall>w. fst (w_read_line (en_win32 E) w) = []"
  shows "debugger_run E process_suspended m = None"
  unfolding debugger_run_def
proof (rule loop_diverges[where I = g_running])
  fix n :: "('a, 'b) session_state_scheme"
  assume n: "g_running n"
  show "\<exists>n'. debugger_round E process_suspended n = Some (Inl n') \<and> g_running n'"
  proof (cases process_suspended)
    case True
    then have "fst (w_read_line (en_win32 E) w) = []" for w using assms(2) by simp
    then obtain n' where "user_input (en_win32 E) ''chronoporia> '' n = ([], n')" "g_running n'"
      using n by (auto simp: user_input_def put_line_def Let_def split_def)
    then show ?thesis using n True
      by (simp add: debugger_round_def handle_cli_def split_input_def put_line_def)
  qed (use n in \<open>simp add: debugger_round_def\<close>)
qed fact

theorem debugger_stuck_at_end_of_input_witness:
  "debugger_run (test_environment (flat_win32 \<lparr> w_read_line := \<lambda>w. ([], w) \<rparr>)) True quiet_session = None"
  by (rule debugger_stuck_at_end_of_input) simp_all

theorem session_transitions_witness:
  "\<exists>E m' t'. reached E quiet_session (TransitionToError False 5, t') \<and> session_ok (TransitionToError False 5)
    \<and> run_execution E quiet_session = Some m' \<and> \<not> g_running m'"
proof -
  let ?E = "test_environment (flat_win32 \<lparr> w_wait_event := \<lambda>w n. (Inl 5, w) \<rparr>)"
  have "process_start_round ?E quiet_session = Some (Inr (TransitionToError False 5, quiet_session))"
    by (simp add: process_start_round_def wait_event_def)
  then have first: "run_phase ?E ProcessStartPhase quiet_session = Some (TransitionToError False 5, process_start_exit ?E quiet_session)"
    by (simp add: run_phase_def phase_enter_def phase_run_def phase_exit_def process_start_run_def)
  then have r: "reached ?E quiet_session (TransitionToError False 5, process_start_exit ?E quiet_session)" by (rule reached.first_phase)
  have "transition_visitor ?E (TransitionToError False 5) (process_start_exit ?E quiet_session) = ErrorPhase 5"
    by (simp add: transition_visitor_def)
  from error_session[OF this] first obtain m' where "run_execution ?E quiet_session = Some m'" by (auto simp: run_execution_def)
  with r session_transitions[of ?E quiet_session "TransitionToError False 5" "process_start_exit ?E quiet_session" m']
  show ?thesis by blast
qed

end
