(* ===== verification/Stop_Facts.thy ===== *)
theory Stop_Facts
  imports Execution_Facts
begin

text \<open>
  Where the debug loops of the resume command, the step command and the reverse replay stop.
\<close>

section \<open>Resuming\<close>

text \<open>
  How the resume command leaves a program that stopped: the thread of the last event stands right
  behind a user breakpoint, which is remembered; the process is suspended, then the event continued.
\<close>

definition stopped_at_user_breakpoint :: "'w win32 \<Rightarrow> ('w, 'z) session_state_scheme \<Rightarrow> bool" where
  "stopped_at_user_breakpoint W m' =
     (\<exists>de (m1 :: ('w, 'z) session_state_scheme) rip m2 (m3 :: ('w, 'z) session_state_scheme).
        breakpoint_event de \<and> get_rip_address W (de_thread_id de) m1 = (rip, m2)
        \<and> get_breakpoint_type (rip - 1) (de_thread_id de) m2 = Some BP_User
        \<and> se_pending_user_breakpoint m3 = Some (rip - 1, de_thread_id de)
        \<and> m' = continue_event W de DBG_CONTINUE (snd (suspend_process W m3)))"

lemma user_breakpoint_stops:
  assumes "resume_user_breakpoint E de a m = Some (Inr r)"
  shows "\<exists>n. se_pending_user_breakpoint n = Some (a, de_thread_id de)
    \<and> r = (None, continue_event (en_win32 E) de DBG_CONTINUE (snd (suspend_process (en_win32 E) n)))"
proof -
  have "\<exists>n. r = (None, continue_event (en_win32 E) de DBG_CONTINUE
      (snd (suspend_process (en_win32 E) (n \<lparr> se_pending_user_breakpoint := Some (a, de_thread_id de) \<rparr>))))"
    using assms by (auto simp: resume_user_breakpoint_def Let_def bind_eq_Some_conv split: split_all)
  then obtain n where "r = (None, continue_event (en_win32 E) de DBG_CONTINUE
      (snd (suspend_process (en_win32 E) (n \<lparr> se_pending_user_breakpoint := Some (a, de_thread_id de) \<rparr>))))" ..
  then show ?thesis by (intro exI[of _ "n \<lparr> se_pending_user_breakpoint := Some (a, de_thread_id de) \<rparr>"]) simp
qed

lemma resume_round_stops:
  assumes "resume_round E s = Some (Inr (None, m'))"
  shows "stopped_at_user_breakpoint (en_win32 E) m'"
proof -
  obtain de m1 where ev: "g_running s" "wait_event (en_win32 E) INFINITE s = (Inr de, m1)" "breakpoint_event de"
    using assms by (auto simp: resume_round_def Let_def split: split_all)
  obtain rip m2 where rip: "get_rip_address (en_win32 E) (de_thread_id de) m1 = (rip, m2)" by force
  have user: "get_breakpoint_type (rip - 1) (de_thread_id de) m2 = Some BP_User"
    "resume_user_breakpoint E de (rip - 1) m2 = Some (Inr (None, m'))"
    using assms ev rip by (auto simp: resume_round_def Let_def split: option.splits breakpoint_type.splits)
  then show ?thesis
    using user_breakpoint_stops[OF user(2)] ev(3) rip unfolding stopped_at_user_breakpoint_def by blast
qed

text \<open>
  C18: The resume command stops the program only at a user breakpoint.  When it gives no transition,
  the last event was a breakpoint of a thread standing right behind an address with a user
  breakpoint; the whole process is suspended before the event is continued, and exactly this
  address and thread are remembered for the next resume to step over.
\<close>

theorem resume_stops_at_user_breakpoint:
  assumes "resume_command E a m = Some (None, m')"
  shows "stopped_at_user_breakpoint (en_win32 E) m'"
proof -
  obtain n where "loop (resume_round E) n = Some (None, m')"
    using assms by (auto simp: resume_command_def resume_process_execution_def bind_eq_Some_conv)
  then have "\<forall>m''. (None, m') = (None :: transition option, m'') \<longrightarrow> stopped_at_user_breakpoint (en_win32 E) m''"
    by (rule loop_invariant[where I = "\<lambda>_. True"]) (auto intro: resume_round_stops)
  then show ?thesis by simp
qed

section \<open>Stepping\<close>

text \<open>
  A step is given up at the first event that is not a breakpoint.  When the event after the
  stepping thread was resumed is any other one (a thread starts, a module is loaded, another
  exception), run_step_mode removes its breakpoints and reports that it stopped nowhere, as it does
  at a user breakpoint; the event has been continued and the thread, which was resumed, has not been
  suspended again: it goes on running.
\<close>

theorem step_given_up:
  assumes "m1 = resume_thread_id W tid (fold (\<lambda>stop. create_step_breakpoint W (sb_true_address stop) tid) stops m)"
    and "g_running m1" "wait_event W INFINITE m1 = (Inr de, m2)" "\<not> breakpoint_event de" "\<forall>code. de_info de \<noteq> DE_ExitProcess code"
  shows "run_step_mode W tid stops m =
    map_option (Pair None) (remove_step_breakpoints W tid stops (continue_event W de DBG_CONTINUE m2))"
proof -
  have "step_mode_round W tid stops (False, None, m1) = Some (Inr (None, continue_event W de DBG_CONTINUE m2))"
    using assms(2-5) by (cases "de_info de") (simp_all add: step_mode_round_def)
  then have "run_step_mode W tid stops m =
      do { m \<leftarrow> remove_step_breakpoints W tid stops (continue_event W de DBG_CONTINUE m2); Some (None, m) }"
    by (simp add: run_step_mode_def assms(1))
  then show ?thesis by (cases "remove_step_breakpoints W tid stops (continue_event W de DBG_CONTINUE m2)") simp_all
qed

section \<open>Replaying backward\<close>

text \<open>What the rounds of a reverse replay leave of the phase.\<close>

definition same_replay :: "reverse_phase \<Rightarrow> reverse_phase \<Rightarrow> bool" where
  "same_replay p q = (\<exists>seen. q = p \<lparr> rp_pred_last_seen_ctr := seen \<rparr>)"

lemma same_replay_refl: "same_replay p p"
  unfolding same_replay_def by (rule exI[of _ "rp_pred_last_seen_ctr p"]) simp

lemma same_replay_simps:
  assumes "same_replay p q"
  shows "rp_predecessors q = rp_predecessors p" "rp_replay_thread_id q = rp_replay_thread_id p"
    "rp_stopped_branch_counter q = rp_stopped_branch_counter p" "rp_reverse_catchers q = rp_reverse_catchers p"
    "rp_branch_target q = rp_branch_target p" "rp_frame_return_addresses q = rp_frame_return_addresses p"
    "rp_stopped_address q = rp_stopped_address p"
  using assms by (auto simp: same_replay_def)

lemma same_replay_seen: "same_replay p q \<Longrightarrow> same_replay p (q \<lparr> rp_pred_last_seen_ctr := seen \<rparr>)"
  by (auto simp: same_replay_def)

lemma reverse_round_same:
  assumes "reverse_round E (q, m) = Some (Inl (q', m'))" "same_replay p q"
  shows "same_replay p q'"
  using assms by (auto simp: reverse_round_def reverse_breakpoint_def Let_def split_def dest: same_replay_seen split: split_all)

text \<open>A result of a round that is no error comes from a breakpoint of the replayed thread.\<close>

lemma reverse_round_result:
  assumes "reverse_round E (q, m) = Some (Inr (t, q', m'))" "\<not> is_error t"
  obtains de m1 counter m2 rip m3 where "breakpoint_event de" "de_thread_id de = rp_replay_thread_id q"
    "read_thread_tls (en_win32 E) (de_thread_id de) BranchCounter m1 = (counter, m2)"
    "get_rip_address (en_win32 E) (de_thread_id de) m2 = (rip, m3)"
    "reverse_breakpoint E de q (rip - 1) counter m3 = Some (Inr (t, q', m'))"
proof -
  obtain de m1 where ev: "g_running m" "wait_event (en_win32 E) INFINITE m = (Inr de, m1)" "breakpoint_event de"
      "de_thread_id de = rp_replay_thread_id q"
    using assms by (auto simp: reverse_round_def Let_def split: split_all)
  obtain counter m2 where c: "read_thread_tls (en_win32 E) (de_thread_id de) BranchCounter m1 = (counter, m2)" by force
  obtain rip m3 where r: "get_rip_address (en_win32 E) (de_thread_id de) m2 = (rip, m3)" by force
  have "reverse_breakpoint E de q (rip - 1) counter m3 = Some (Inr (t, q', m'))"
    using assms(1) ev c r by (simp add: reverse_round_def Let_def)
  with ev(3,4) c r show thesis by (rule that)
qed

text \<open>
  How a reverse replay leaves the thread for the debugger: standing at a predecessor of the phase,
  with the branch counter that this predecessor was executed with.
\<close>

definition stopped_at_predecessor :: "'w win32 \<Rightarrow> reverse_phase \<Rightarrow> ('w, 'z) events_scheme \<Rightarrow> bool" where
  "stopped_at_predecessor W p m' =
     (\<exists>de (m1 :: ('w, 'z) events_scheme) counter m2 rip m3 predecessor.
        breakpoint_event de \<and> de_thread_id de = rp_replay_thread_id p
        \<and> read_thread_tls W (de_thread_id de) BranchCounter m1 = (counter, m2)
        \<and> get_rip_address W (de_thread_id de) m2 = (rip, m3)
        \<and> predecessor \<in> set (rp_predecessors p) \<and> pp_true_address predecessor = rip - 1
        \<and> pp_branch_counter predecessor = counter \<and> counter < rp_stopped_branch_counter p
        \<and> m' = continue_event W de DBG_CONTINUE (snd (suspend_process W
            (snd (roll_back_instruction_pointer W (de_thread_id de) m3)))))"

lemma reverse_round_stops:
  assumes round: "reverse_round E (q, m) = Some (Inr (TransitionToDebugger suspended, q', m'))" and q: "same_replay p q"
  shows "suspended \<and> stopped_at_predecessor (en_win32 E) p m'"
proof -
  have "\<not> is_error (TransitionToDebugger suspended)" by simp
  from reverse_round_result[OF round this] obtain de m1 counter m2 rip m3 where st:
    "breakpoint_event de" "de_thread_id de = rp_replay_thread_id q"
    "read_thread_tls (en_win32 E) (de_thread_id de) BranchCounter m1 = (counter, m2)"
    "get_rip_address (en_win32 E) (de_thread_id de) m2 = (rip, m3)"
    "reverse_breakpoint E de q (rip - 1) counter m3 = Some (Inr (TransitionToDebugger suspended, q', m'))"
    by blast
  from st(5) obtain predecessor where pr: "get_potential_predecessor q (rip - 1) = Some predecessor"
    "counter = pp_branch_counter predecessor" "counter < rp_stopped_branch_counter q" "suspended"
    "m' = continue_event (en_win32 E) de DBG_CONTINUE (snd (suspend_process (en_win32 E)
      (snd (roll_back_instruction_pointer (en_win32 E) (de_thread_id de) m3))))"
    by (auto simp: reverse_breakpoint_def Let_def dest!: retry_follows split: split_all)
  from pr(1) have "predecessor \<in> set (rp_predecessors q)" "pp_true_address predecessor = rip - 1"
    by (auto simp: get_potential_predecessor_def find_Some_iff)
  with st(1-4) pr(2-5) show ?thesis
    unfolding stopped_at_predecessor_def same_replay_simps[OF q] by blast
qed

lemma reverse_run_invariant:
  assumes "reverse_run E p m = Some r"
    and "\<And>q n r. same_replay p q \<Longrightarrow> reverse_round E (q, n) = Some (Inr r) \<Longrightarrow> Q r"
  shows "Q r"
  using assms(1) unfolding reverse_run_def
proof (rule loop_invariant[where I = "\<lambda>(q, n). same_replay p q"])
  show "case (p, snd (resume_process (en_win32 E) m)) of (q, n) \<Rightarrow> same_replay p q" by (simp add: same_replay_refl)
  show "case s of (q, n) \<Rightarrow> same_replay p q \<Longrightarrow> reverse_round E s = Some (Inl s') \<Longrightarrow> case s' of (q, n) \<Rightarrow> same_replay p q" for s s'
    using reverse_round_same by (cases s; cases s') fastforce
  show "case s of (q, n) \<Rightarrow> same_replay p q \<Longrightarrow> reverse_round E s = Some (Inr r) \<Longrightarrow> Q r" for s r
    using assms(2) by (cases s) simp
qed

text \<open>
  C7: A reverse replay hands over to the debugger only at a predecessor that was executed when it
  should be.  The last event was a breakpoint of the replayed thread at the address of one of the
  predecessors the phase was given, the thread's branch counter was exactly that predecessor's and
  still below the counter of the place the user stepped back from, and the process is suspended
  before the event is continued.
\<close>

theorem reverse_stops_at_predecessor:
  assumes "reverse_run E p m = Some (TransitionToDebugger suspended, p', m')"
  shows "suspended \<and> stopped_at_predecessor (en_win32 E) p m'"
  using reverse_run_invariant[OF assms, where Q = "\<lambda>(t, q, n). \<forall>s. t = TransitionToDebugger s \<longrightarrow>
      s \<and> stopped_at_predecessor (en_win32 E) p n"] reverse_round_stops[where E = E and p = p]
  by fastforce

text \<open>What a retry hands on and what it leaves.\<close>

lemma retry_result:
  assumes "reverse_retry E de q n = Some (TransitionToTimeRestore b r s g t, q', m')"
  shows "q' = q \<lparr> rp_predecessors := [], rp_frame_return_addresses := [] \<rparr>"
    "\<exists>d. t = Some (TransitionToReverseReplay d)
      \<and> rd_predecessors d = map (update_last_seen (rp_pred_last_seen_ctr q)) (rp_predecessors q)"
  using assms by (clarsimp simp: reverse_retry_def Let_def bind_eq_Some_conv)+

lemma update_last_seen_address [simp]: "pp_true_address (update_last_seen seen p) = pp_true_address p"
  by (simp add: update_last_seen_def split: option.split)

lemma reverse_round_retry:
  assumes round: "reverse_round E (q, m) = Some (Inr (TransitionToTimeRestore b r s g t, q', m'))" and q: "same_replay p q"
  shows "rp_predecessors q' = [] \<and> rp_branch_target q' = rp_branch_target p \<and> rp_reverse_catchers q' = rp_reverse_catchers p
    \<and> rp_replay_thread_id q' = rp_replay_thread_id p
    \<and> (\<exists>d. t = Some (TransitionToReverseReplay d) \<and>
         map pp_true_address (rd_predecessors d) = map pp_true_address (rp_predecessors p))"
proof -
  have "\<not> is_error (TransitionToTimeRestore b r s g t)" by simp
  from reverse_round_result[OF round this] obtain de counter rip n where
    "reverse_breakpoint E de q (rip - 1) counter n = Some (Inr (TransitionToTimeRestore b r s g t, q', m'))"
    by metis
  then have "reverse_retry E de q n = Some (TransitionToTimeRestore b r s g t, q', m')"
    by (auto simp: reverse_breakpoint_def Let_def split: split_all)
  note res = retry_result[OF this]
  from res(2) have "\<exists>d. t = Some (TransitionToReverseReplay d)
      \<and> map pp_true_address (rd_predecessors d) = map pp_true_address (rp_predecessors p)"
    by (auto simp: same_replay_simps(1)[OF q] comp_def)
  then show ?thesis by (simp add: res(1) same_replay_simps[OF q])
qed

lemma update_tls_breakpoints: "bm_address_to_bp (update_thread_tls W tid k v m) = bm_address_to_bp m"
  by (simp add: update_thread_tls_def tls_subscript_def tls_offset_def meta_subscript_def write_mem_def Let_def split_def
      split: option.split)

lemma remove_user_breakpoint_table:
  "remove_user_breakpoint W a m = Some (b, m') \<Longrightarrow> bm_address_to_bp m' = bm_address_to_bp m"
  by (auto simp: remove_user_breakpoint_def get_true_address_def call_plugin_def Let_def split_def bind_eq_Some_conv
      split: option.splits if_splits)

lemma remove_breakpoint_others:
  assumes "remove_breakpoint W a tid m = Some (b, m')" "x \<noteq> a"
  shows "bm_address_to_bp m' x = bm_address_to_bp m x"
proof (cases "map_of (bm_permanent_bp_to_trampoline m) a")
  case None
  show ?thesis
  proof (cases "bm_address_to_bp m a")
    case (Some bp)
    then show ?thesis using assms None
      by (auto simp: remove_breakpoint_def restore_memory_def Let_def split_def split: if_splits)
  next
    case None': None
    then show ?thesis using assms None remove_user_breakpoint_table[of W a m b m']
      by (auto simp: remove_breakpoint_def split: if_splits)
  qed
qed (use assms in \<open>simp add: remove_breakpoint_def\<close>)

text \<open>
  A reverse replay that has to try again forgets its breakpoints.  When the phase asks for another
  time restore, the predecessors were moved into the transition, so none is left in the phase: its
  exit takes away at most the breakpoint at the catch address, and the breakpoints it set at every
  other address stay in the table; the next replay gets the same addresses and sets them again.
\<close>

theorem retry_leaves_breakpoints:
  assumes "reverse_run E p m = Some (TransitionToTimeRestore b r s g t, p', m')"
    and "reverse_exit E p' m' = Some m''"
  shows "(\<forall>a. a \<noteq> rc_catch_address (rp_reverse_catchers p) \<longrightarrow> bm_address_to_bp m'' a = bm_address_to_bp m' a)
    \<and> (\<exists>d. t = Some (TransitionToReverseReplay d) \<and>
         map pp_true_address (rd_predecessors d) = map pp_true_address (rp_predecessors p))"
proof -
  have p': "rp_predecessors p' = []" "rp_reverse_catchers p' = rp_reverse_catchers p"
    "\<exists>d. t = Some (TransitionToReverseReplay d) \<and>
         map pp_true_address (rd_predecessors d) = map pp_true_address (rp_predecessors p)"
    using reverse_run_invariant[OF assms(1), where Q = "\<lambda>(u, q, n). \<forall>b r s g t. u = TransitionToTimeRestore b r s g t \<longrightarrow>
        rp_predecessors q = [] \<and> rp_reverse_catchers q = rp_reverse_catchers p \<and>
        (\<exists>d. t = Some (TransitionToReverseReplay d) \<and>
         map pp_true_address (rd_predecessors d) = map pp_true_address (rp_predecessors p))"]
      reverse_round_retry[where E = E and p = p] by fastforce+
  have "bm_address_to_bp m'' a = bm_address_to_bp m' a" if "a \<noteq> rc_catch_address (rp_reverse_catchers p)" for a
    using assms(2) that p'(2)
    by (auto simp: reverse_exit_def p'(1) Let_def bind_eq_Some_conv update_tls_breakpoints
        dest!: remove_breakpoint_others[where x = a] split: if_splits)
  with p'(3) show ?thesis by blast
qed

section \<open>Concrete stops\<close>

text \<open>A session with a plugin and a user breakpoint at 0x1000, and a debuggee that stops there.\<close>

definition stopping_win32 :: "(addr \<Rightarrow> byte) win32" where
  "stopping_win32 = flat_win32
     \<lparr> w_wait_event := \<lambda>w n. (Inr \<lparr> de_process_id = 1, de_thread_id = 4, de_info = DE_Exception STATUS_BREAKPOINT \<rparr>, w),
       w_get_context := \<lambda>w h. cpu_zero \<lparr> ctx_Rip := 0x1001 \<rparr> \<rparr>"

definition user_session :: "(addr \<Rightarrow> byte) session_state" where
  "user_session = quiet_session \<lparr> pm_plugin_apis := [(''cpp'', listing_plugin [] [] [])],
     bm_user_breakpoints := [(0x1000, \<lparr> ub_saved_byte = 0x90, ub_active = True, ub_original_addr = 0x1000,
        ub_true_addr = 0x1000, ub_line_number = 0, ub_length = 0, ub_file_name = [], ub_condition = [] \<rparr>)] \<rparr>"

text \<open>What reading and changing a thread's registers leaves alone.\<close>

lemma thread_ops_leave [simp]:
  "bm_user_breakpoints (snd (get_rip_address W tid m)) = bm_user_breakpoints m"
  "pm_plugin_apis (snd (get_rip_address W tid m)) = pm_plugin_apis m"
  "bm_user_breakpoints (snd (roll_back_instruction_pointer W tid m)) = bm_user_breakpoints m"
  "pm_plugin_apis (snd (roll_back_instruction_pointer W tid m)) = pm_plugin_apis m"
  by (simp_all add: get_rip_address_def roll_back_instruction_pointer_def change_context_def get_thread_handle_def
      meta_subscript_def Let_def split_def)

theorem resume_stops_at_user_breakpoint_witness:
  "\<exists>a m'. resume_command (test_environment stopping_win32) a user_session = Some (None, m')
    \<and> stopped_at_user_breakpoint stopping_win32 m'"
proof -
  let ?E = "test_environment stopping_win32"
  define m0 where "m0 = snd (resume_process stopping_win32 user_session)"
  have m0: "g_running m0" "bm_user_breakpoints m0 = bm_user_breakpoints user_session" "pm_plugin_apis m0 = pm_plugin_apis user_session"
    by (simp_all add: m0_def resume_process_def split_def Let_def user_session_def)
  define n where "n = snd (get_rip_address stopping_win32 4 m0)"
  have rip: "get_rip_address stopping_win32 4 m0 = (0x1001, n)"
    by (simp add: n_def get_rip_address_def split_def stopping_win32_def)
  have n: "bm_user_breakpoints n = bm_user_breakpoints user_session" "pm_plugin_apis n = pm_plugin_apis user_session"
    by (simp_all add: n_def m0)
  then have kind: "get_breakpoint_type 0x1000 4 n = Some BP_User"
    by (simp add: get_breakpoint_type_def user_session_def)
  have wait: "wait_event stopping_win32 INFINITE m0 =
      (Inr \<lparr> de_process_id = 1, de_thread_id = 4, de_info = DE_Exception STATUS_BREAKPOINT \<rparr>, m0)"
    by (simp add: wait_event_def stopping_win32_def)
  have "\<exists>m'. resume_round ?E m0 = Some (Inr (None, m'))"
    using n by (simp add: resume_round_def m0 wait rip kind resume_user_breakpoint_def is_user_breakpoint_conditional_def
        get_true_address_def call_plugin_def user_session_def listing_plugin_def Let_def)
  then obtain m' where "resume_round ?E m0 = Some (Inr (None, m'))" ..
  moreover have "resume_start ?E user_session = Some m0" by (simp add: resume_start_def m0_def user_session_def)
  ultimately have "resume_command ?E undefined user_session = Some (None, m')"
    by (simp add: resume_command_def resume_process_execution_def)
  with resume_stops_at_user_breakpoint[OF this] show ?thesis by auto
qed

theorem step_given_up_witness:
  "\<exists>m'. run_step_mode (flat_win32 \<lparr> w_wait_event := \<lambda>w n. (Inr \<lparr> de_process_id = 1, de_thread_id = 7, de_info = DE_CreateThread \<rparr>, w) \<rparr>)
      4 [] user_session = Some (None, m') \<and> g_running m'"
proof -
  let ?W = "flat_win32 \<lparr> w_wait_event := \<lambda>w n. (Inr \<lparr> de_process_id = 1, de_thread_id = 7, de_info = DE_CreateThread \<rparr>, w) \<rparr>"
  let ?m = "resume_thread_id ?W 4 user_session"
  have "g_running ?m" by (simp add: resume_thread_id_def meta_subscript_def user_session_def Let_def)
  from step_given_up[of ?m ?W 4 "[]" user_session, OF _ this] show ?thesis
    using \<open>g_running ?m\<close> by (simp add: wait_event_def remove_step_breakpoints_def continue_event_def)
qed

text \<open>A replay of thread 4 towards the predecessor at 0x1000, executed with the counter 0.\<close>

definition replay_to :: "u64 \<Rightarrow> reverse_phase" where
  "replay_to stopped = reverse_phase_new \<lparr> rd_process_suspended = True,
     rd_predecessors = [\<lparr> pp_true_address = 0x1000, pp_branch_counter = 0, pp_is_block_leader = False \<rparr>],
     rd_frame_return_addresses = [], rd_thread_id = 4, rd_branch_target = 0, rd_current_address = 0x2000,
     rd_current_branch_counter = stopped \<rparr>"

lemma replay_to_simps [simp]:
  "rp_replay_thread_id (replay_to n) = 4" "rp_stopped_branch_counter (replay_to n) = n"
  "rp_predecessors (replay_to n) = [\<lparr> pp_true_address = 0x1000, pp_branch_counter = 0, pp_is_block_leader = False \<rparr>]"
  "rc_catch_address (rp_reverse_catchers (replay_to n)) = 0" "rp_branch_target (replay_to n) = 0"
  by (simp_all add: replay_to_def reverse_phase_new_def)

text \<open>The round in which it stops there, with the branch counter 0 in the thread's slot.\<close>

lemma replay_round:
  fixes m :: "(addr \<Rightarrow> byte) events"
  defines "n1 \<equiv> snd (read_thread_tls stopping_win32 4 BranchCounter m)"
  assumes "g_running m" "fst (read_thread_tls stopping_win32 4 BranchCounter m) = 0"
  shows "reverse_round (test_environment stopping_win32) (replay_to k, m) =
    reverse_breakpoint (test_environment stopping_win32) \<lparr> de_process_id = 1, de_thread_id = 4, de_info = DE_Exception STATUS_BREAKPOINT \<rparr>
      (replay_to k) 0x1000 0 (snd (get_rip_address stopping_win32 4 n1))"
proof -
  have wait: "wait_event stopping_win32 INFINITE m =
      (Inr \<lparr> de_process_id = 1, de_thread_id = 4, de_info = DE_Exception STATUS_BREAKPOINT \<rparr>, m)"
    by (simp add: wait_event_def stopping_win32_def)
  have tls: "read_thread_tls stopping_win32 4 BranchCounter m = (0, n1)" using assms(3) by (simp add: n1_def prod_eq_iff)
  have rip: "fst (get_rip_address stopping_win32 4 n1) = 0x1001"
    by (simp add: get_rip_address_def split_def stopping_win32_def)
  then show ?thesis using assms(2) by (simp add: reverse_round_def wait tls split_def Let_def)
qed

definition replay_start :: "(addr \<Rightarrow> byte) events" where
  "replay_start = recorded_run \<lparr> m_world := \<lambda>a. 0, g_running := True, tu_tls_indexes := Map.empty,
     pm_plugin_apis := [(''cpp'', listing_plugin [] [] [])] \<rparr>"

lemma replay_start_facts:
  "snd (resume_process stopping_win32 replay_start) = replay_start"
  "g_running replay_start" "fst (read_thread_tls stopping_win32 4 BranchCounter replay_start) = 0"
  "g_run_id replay_start = 1" "g_run_sequence replay_start = 6" "sl_history replay_start = sl_history recorded_run"
  by (simp_all add: replay_start_def resume_process_def stopping_win32_def flat_win32_def read_thread_tls_def tls_subscript_def
      tls_offset_def meta_subscript_def read_uninit_def bytes_at_def span_def le_word_def recorded_run_def numeral_eq_Suc Let_def)

lemma replay_run:
  assumes "reverse_breakpoint (test_environment stopping_win32)
      \<lparr> de_process_id = 1, de_thread_id = 4, de_info = DE_Exception STATUS_BREAKPOINT \<rparr> (replay_to k) 0x1000 0
      (snd (get_rip_address stopping_win32 4 (snd (read_thread_tls stopping_win32 4 BranchCounter replay_start)))) = Some (Inr r)"
  shows "reverse_run (test_environment stopping_win32) (replay_to k) replay_start = Some r"
  using replay_round[OF replay_start_facts(2,3), of k] assms by (simp add: reverse_run_def replay_start_facts(1))

theorem reverse_stops_at_predecessor_witness:
  "\<exists>p' m'. reverse_run (test_environment stopping_win32) (replay_to 5) replay_start = Some (TransitionToDebugger True, p', m')
    \<and> stopped_at_predecessor stopping_win32 (replay_to 5) m'"
proof -
  obtain p' m' where "reverse_run (test_environment stopping_win32) (replay_to 5) replay_start = Some (TransitionToDebugger True, p', m')"
    using replay_run[of 5] by (simp add: reverse_breakpoint_def get_potential_predecessor_def Let_def)
  with reverse_stops_at_predecessor[OF this] show ?thesis by auto
qed

theorem retry_leaves_breakpoints_witness:
  "\<exists>p' m' m'' r s g t d. reverse_run (test_environment stopping_win32) (replay_to 0) replay_start =
        Some (TransitionToTimeRestore True r s g t, p', m')
    \<and> reverse_exit (test_environment stopping_win32) p' m' = Some m''
    \<and> bm_address_to_bp m'' 0x1000 = bm_address_to_bp m' 0x1000
    \<and> t = Some (TransitionToReverseReplay d) \<and> map pp_true_address (rd_predecessors d) = [0x1000]"
proof -
  let ?E = "test_environment stopping_win32"
  define n where "n = snd (get_rip_address stopping_win32 4 (snd (read_thread_tls stopping_win32 4 BranchCounter replay_start)))"
  have "same_logs replay_start n"
    unfolding n_def get_rip_address_def by (simp add: split_def Let_def same_logs_trans[OF logs_low(4) logs_low(2)])
  then have "sl_history n = sl_history recorded_run" "g_run_id n = 1" "g_run_sequence n = 6"
    using replay_start_facts(4-6) by (simp_all add: same_logsD)
  moreover have "et_wf (sl_history recorded_run)" by (simp add: recorded_run_def et_new_laws(1))
  moreover have "et_view (sl_history recorded_run) 1 6 =
      Some \<lparr> sn_type = CoarseSnapshot, sn_run_id = 1, sn_run_sequence = 3, sn_global_sequence = 0 \<rparr>"
    by (simp add: recorded_run_def et_new_laws(2) tl_create_def word_le_nat_alt)
  ultimately have near: "get_nearest_snapshot n =
      Some (Some \<lparr> sn_type = CoarseSnapshot, sn_run_id = 1, sn_run_sequence = 3, sn_global_sequence = 0 \<rparr>)"
    by (simp add: get_nearest_snapshot_def et_nearest_view)
  obtain t p' m' where run: "reverse_run ?E (replay_to 0) replay_start = Some (TransitionToTimeRestore True 1 3 0 t, p', m')"
      "p' = (replay_to 0) \<lparr> rp_predecessors := [], rp_frame_return_addresses := [] \<rparr>"
    using replay_run[of 0] near by (simp add: reverse_breakpoint_def reverse_retry_def n_def Let_def)
  obtain m'' where exit: "reverse_exit ?E p' m' = Some m''"
    using run(2) by (simp add: reverse_exit_def Let_def)
  from retry_leaves_breakpoints[OF run(1) exit] run(1) exit show ?thesis by fastforce
qed

end
