(* ===== verification/Pdb.thy ===== *)
theory Pdb
  imports Plugin_Manager Debugger_Input
begin

text \<open>
  \<open>src/plugins/cpp/pdb.cpp\<close>: what the C++ plugin reads out of the debug information (functions,
  lines, variables), and the value of a variable in a stopped thread.

  The debug information is read with Microsoft's DIA library, which is not part of the repository:
  the record \<open>dia\<close> holds what its queries give.  A query that fails is \<open>None\<close>; an enumerator is
  the list of the symbols it goes through.  A getter that fails leaves the variable it would have
  set, so the fields hold the source's initial value then.  Names are given as they are after the
  conversion from UTF-16, a missing name as \<open>None\<close>.  A call through a null session or a null symbol
  has no result.

  \<open>OriginalAddress\<close> and \<open>TrueAddress\<close> (\<open>src/plugins/opaque_type.h\<close>) are both a \<open>uintptr_t\<close> with a tag.
\<close>

type_synonym original_address = addr
type_synonym true_address = addr

section \<open>Debug information\<close>

datatype sym_tag =
    SymTagNull | SymTagCompiland | SymTagUDT | SymTagEnum | SymTagPointerType | SymTagArrayType | SymTagBaseType | SymTagOther u32

datatype base_type =
    btNoType | btVoid | btChar | btWChar | btInt | btUInt | btFloat | btBool | btLong | btULong | btOther u32

datatype loc_type = LocIsNull | LocIsStatic | LocIsRegRel | LocIsEnregistered | LocIsBitField | LocOther u32

datatype data_kind = DataIsGlobal | DataIsFileStatic | DataIsStaticLocal | DataOther u32

datatype cv_register =
    CV_AMD64_RAX | CV_AMD64_RBX | CV_AMD64_RCX | CV_AMD64_RDX | CV_AMD64_RSI | CV_AMD64_RDI | CV_AMD64_RBP | CV_AMD64_RSP
  | CV_AMD64_R8 | CV_AMD64_R9 | CV_AMD64_R10 | CV_AMD64_R11 | CV_AMD64_R12 | CV_AMD64_R13 | CV_AMD64_R14 | CV_AMD64_R15
  | CV_OTHER u32

text \<open>A type symbol: tag, name, base type, length in bytes, and the type behind a pointer or of an element.\<close>

datatype dia_type =
  Dia_Type (dt_tag: sym_tag) (dt_name: "string option") (dt_base: base_type) (dt_length: u64) (dt_type: "dia_type option")

record dia_symbol =
  ds_name :: "string option"
  ds_type :: "dia_type option"
  ds_location :: loc_type
  ds_register :: cv_register
  ds_offset :: u32
  ds_rva :: "u32 option"
  ds_length :: u64
  ds_data_kind :: data_kind
  ds_parent_tag :: sym_tag
  ds_parent_name :: string
  ds_bit_position :: u32

record dia_function = dia_symbol +
  df_data :: "dia_symbol list option"

record dia_udt =
  du_name :: string
  du_members :: "dia_symbol list"

record dia_line =
  dl_number :: u32
  dl_file :: "nat option"
  dl_compiland :: "nat option"
  dl_rva :: u32
  dl_length :: u32
  dl_statement :: bool

text \<open>
  \<open>dia_function_at\<close> distinguishes a failed query from one that finds no function and gives a null
  symbol.  Source files and compilands are numbered.
\<close>

record dia =
  dia_functions :: "dia_symbol list option"
  dia_functions_named :: "string \<Rightarrow> dia_symbol list option"
  dia_labels_named :: "string \<Rightarrow> dia_symbol list option"
  dia_globals :: "dia_symbol list option"
  dia_udts_named :: "string \<Rightarrow> dia_udt list"
  dia_function_at :: "u32 \<Rightarrow> dia_function option option"
  dia_lines_at :: "u32 \<Rightarrow> dia_line list option"
  dia_lines_of :: "nat \<Rightarrow> nat \<Rightarrow> u32 \<Rightarrow> dia_line list option"
  dia_files :: "nat list option"
  dia_file_name :: "nat \<Rightarrow> string option"
  dia_compilands_of :: "nat \<Rightarrow> nat list"

text \<open>Loading a program database: whether each step succeeds, and the session it opens.\<close>

record dia_source =
  dsrc_created :: bool
  dsrc_pdb_loaded :: bool
  dsrc_exe_loaded :: bool
  dsrc_session :: "dia option"
  dsrc_scope_found :: bool
  dsrc_compilands_found :: bool

section \<open>State\<close>

record 'w pdb_state =
  cp_world :: 'w
  cp_session :: "dia option"
  cp_scope :: "dia option"
  cp_source_locations :: "source_location list"

definition load_pdb :: "(string \<Rightarrow> dia_source) \<Rightarrow> string \<Rightarrow> ('w, 'z) pdb_state_scheme \<Rightarrow> bool \<times> ('w, 'z) pdb_state_scheme" where
  "load_pdb open_source path s =
     (let source = open_source path in
      if \<not> dsrc_created source then (False, s)
      else if \<not> dsrc_pdb_loaded source \<and> \<not> dsrc_exe_loaded source then (False, s)
      else case dsrc_session source of
        None \<Rightarrow> (False, s)
      | Some session \<Rightarrow>
          (let s = s \<lparr> cp_session := Some session \<rparr> in
           if \<not> dsrc_scope_found source then (False, s)
           else (let s = s \<lparr> cp_scope := Some session \<rparr> in (dsrc_compilands_found source, s))))"

definition unload_pdb :: "('w, 'z) pdb_state_scheme \<Rightarrow> ('w, 'z) pdb_state_scheme" where
  "unload_pdb s = s \<lparr> cp_session := None, cp_scope := None \<rparr>"

definition to_rva :: "original_address \<Rightarrow> addr \<Rightarrow> u32" where
  "to_rva original_address image_base = ucast (original_address - image_base)"

section \<open>Source locations\<close>

abbreviation (input) MAX_PATH :: nat where "MAX_PATH \<equiv> 260"

definition source_location_zero :: source_location where
  "source_location_zero = \<lparr> sl_file_name = '''', sl_line_number = 0, sl_code_address = 0, sl_statement_beginning = False \<rparr>"

text \<open>
  One line of the enumeration.  \<open>wcsncpy_s\<close> is told that the destination is as long as the source,
  but it has \<open>MAX_PATH\<close> characters: a longer name is written past its end, which has no result.
\<close>

definition locate_line :: "dia \<Rightarrow> dia_line \<Rightarrow> source_location \<Rightarrow> source_location option" where
  "locate_line d line source =
     (case Option.bind (dl_file line) (dia_file_name d) of
        None \<Rightarrow> Some source
      | Some file_name \<Rightarrow>
          if length file_name \<ge> MAX_PATH then None
          else Some (source \<lparr> sl_line_number := ucast (dl_number line), sl_file_name := file_name,
                              sl_statement_beginning := dl_statement line \<rparr>))"

definition load_breakpoint_from_pdb ::
    "original_address \<Rightarrow> addr \<Rightarrow> ('w, 'z) pdb_state_scheme \<Rightarrow> (source_location \<times> ('w, 'z) pdb_state_scheme) option" where
  "load_breakpoint_from_pdb original_address image_base s =
     (case find (\<lambda>l. sl_code_address l = original_address) (cp_source_locations s) of
        Some l \<Rightarrow> Some (l, s)
      | None \<Rightarrow>
          do { d \<leftarrow> cp_session s;
               source \<leftarrow> (case dia_lines_at d (to_rva original_address image_base) of
                            None \<Rightarrow> Some source_location_zero
                          | Some lines \<Rightarrow> foldM (locate_line d) lines source_location_zero);
               let source = source \<lparr> sl_code_address := original_address \<rparr>;
               Some (source, s \<lparr> cp_source_locations := cp_source_locations s @ [source] \<rparr>) })"

section \<open>Variables\<close>

datatype variable_kind =
    VK_Char | VK_WChar | VK_Bool | VK_Int8 | VK_Int16 | VK_Int32 | VK_Int64 | VK_Float | VK_Double | VK_Pointer
  | VK_UInt8 | VK_UInt16 | VK_UInt32 | VK_UInt64

datatype variable_location =
    VL_Register cv_register
  | VL_RegisterRelative cv_register u32
  | VL_Static original_address
  | VL_Optimized

record variable_info =
  vi_name :: string
  vi_cpp_type :: string
  vi_kind :: variable_kind
  vi_location :: variable_location

text \<open>
  A length that is none of 1, 2, 4 and 8 leaves the zeroed result, whose kind is the first
  enumerator.
\<close>

definition sized_kind :: "u64 \<Rightarrow> (variable_kind \<times> string) list \<Rightarrow> variable_kind \<times> string" where
  "sized_kind bytes kinds =
     (case map_of (zip [1, 2, 4, 8] kinds) bytes of Some k \<Rightarrow> k | None \<Rightarrow> (VK_Char, ''''))"

definition resolve_variable_type :: "dia_type option \<Rightarrow> (variable_kind \<times> string) option" where
  "resolve_variable_type type_symbol =
     (case type_symbol of
        None \<Rightarrow> None
      | Some t \<Rightarrow>
          if dt_tag t = SymTagPointerType then Some (VK_Pointer, ''void*'')
          else if dt_tag t \<noteq> SymTagBaseType then None
          else case dt_base t of
            btBool \<Rightarrow> Some (VK_Bool, ''bool'')
          | btChar \<Rightarrow> Some (VK_Char, ''char'')
          | btWChar \<Rightarrow> Some (VK_WChar, ''wchar_t'')
          | btInt \<Rightarrow> Some (sized_kind (dt_length t)
              [(VK_Int8, ''int8_t''), (VK_Int16, ''int16_t''), (VK_Int32, ''int32_t''), (VK_Int64, ''int64_t'')])
          | btLong \<Rightarrow> Some (sized_kind (dt_length t)
              [(VK_Int8, ''int8_t''), (VK_Int16, ''int16_t''), (VK_Int32, ''int32_t''), (VK_Int64, ''int64_t'')])
          | btUInt \<Rightarrow> Some (sized_kind (dt_length t)
              [(VK_UInt8, ''uint8_t''), (VK_UInt16, ''uint16_t''), (VK_UInt32, ''uint32_t''), (VK_UInt64, ''uint64_t'')])
          | btULong \<Rightarrow> Some (sized_kind (dt_length t)
              [(VK_UInt8, ''uint8_t''), (VK_UInt16, ''uint16_t''), (VK_UInt32, ''uint32_t''), (VK_UInt64, ''uint64_t'')])
          | btFloat \<Rightarrow> Some (if dt_length t > 4 then (VK_Double, ''double'') else (VK_Float, ''float''))
          | _ \<Rightarrow> None)"

definition name_or_empty :: "string option \<Rightarrow> string" where
  "name_or_empty n = (case n of None \<Rightarrow> '''' | Some n \<Rightarrow> n)"

text \<open>The location of a variable; a kind that is not supported drops the variable.\<close>

definition locate_variable :: "addr \<Rightarrow> dia_symbol \<Rightarrow> variable_location option" where
  "locate_variable image_base symbol =
     (case ds_location symbol of
        LocIsEnregistered \<Rightarrow> Some (VL_Register (ds_register symbol))
      | LocIsRegRel \<Rightarrow> Some (VL_RegisterRelative (ds_register symbol) (ds_offset symbol))
      | LocIsStatic \<Rightarrow> Some (VL_Static (image_base + ucast (case ds_rva symbol of None \<Rightarrow> 0 | Some rva \<Rightarrow> rva)))
      | LocIsNull \<Rightarrow> Some VL_Optimized
      | _ \<Rightarrow> None)"

definition resolve_variable :: "addr \<Rightarrow> dia_symbol \<Rightarrow> variable_info option" where
  "resolve_variable image_base symbol =
     do { (kind, cpp_type) \<leftarrow> resolve_variable_type (ds_type symbol);
          location \<leftarrow> locate_variable image_base symbol;
          Some \<lparr> vi_name = name_or_empty (ds_name symbol), vi_cpp_type = cpp_type, vi_kind = kind, vi_location = location \<rparr> }"

definition resolve_variables :: "original_address \<Rightarrow> addr \<Rightarrow> ('w, 'z) pdb_state_scheme \<Rightarrow> variable_info list" where
  "resolve_variables original_address image_base s =
     (case cp_session s of
        None \<Rightarrow> []
      | Some d \<Rightarrow>
          if original_address < image_base then []
          else case dia_function_at d (to_rva original_address image_base) of
            Some (Some f) \<Rightarrow> (case df_data f of None \<Rightarrow> [] | Some symbols \<Rightarrow> List.map_filter (resolve_variable image_base) symbols)
          | _ \<Rightarrow> [])"

text \<open>\<open>src/plugins/cpp/utils.cpp\<close>.\<close>

fun get_register_from_id :: "cpu_context \<Rightarrow> cv_register \<Rightarrow> u64" where
  "get_register_from_id ctx CV_AMD64_RAX = ctx_Rax ctx"
| "get_register_from_id ctx CV_AMD64_RBX = ctx_Rbx ctx"
| "get_register_from_id ctx CV_AMD64_RCX = ctx_Rcx ctx"
| "get_register_from_id ctx CV_AMD64_RDX = ctx_Rdx ctx"
| "get_register_from_id ctx CV_AMD64_RSI = ctx_Rsi ctx"
| "get_register_from_id ctx CV_AMD64_RDI = ctx_Rdi ctx"
| "get_register_from_id ctx CV_AMD64_RBP = ctx_Rbp ctx"
| "get_register_from_id ctx CV_AMD64_RSP = ctx_Rsp ctx"
| "get_register_from_id ctx CV_AMD64_R8 = ctx_R8 ctx"
| "get_register_from_id ctx CV_AMD64_R9 = ctx_R9 ctx"
| "get_register_from_id ctx CV_AMD64_R10 = ctx_R10 ctx"
| "get_register_from_id ctx CV_AMD64_R11 = ctx_R11 ctx"
| "get_register_from_id ctx CV_AMD64_R12 = ctx_R12 ctx"
| "get_register_from_id ctx CV_AMD64_R13 = ctx_R13 ctx"
| "get_register_from_id ctx CV_AMD64_R14 = ctx_R14 ctx"
| "get_register_from_id ctx CV_AMD64_R15 = ctx_R15 ctx"
| "get_register_from_id ctx (CV_OTHER n) = 0"

definition read_value :: "'w win32 \<Rightarrow> addr \<Rightarrow> ('w, 'z) pdb_state_scheme \<Rightarrow> u64" where
  "read_value W a s = le_word (snd (w_read W (cp_world s) a (replicate 8 0)))"

definition read_value_from_kind ::
    "'w win32 \<Rightarrow> variable_location \<Rightarrow> cpu_context \<Rightarrow> ('w, 'z) pdb_state_scheme \<Rightarrow> u64" where
  "read_value_from_kind W loc ctx s =
     (case loc of
        VL_Register r \<Rightarrow> get_register_from_id ctx r
      | VL_RegisterRelative r offset \<Rightarrow> read_value W (get_register_from_id ctx r + scast offset) s
      | VL_Static a \<Rightarrow> read_value W a s
      | VL_Optimized \<Rightarrow> 0)"

text \<open>A thread that cannot be opened leaves the zeroed context.\<close>

definition plugin_thread_context ::
    "'w win32 \<Rightarrow> thread_id \<Rightarrow> ('w, 'z) pdb_state_scheme \<Rightarrow> cpu_context \<times> ('w, 'z) pdb_state_scheme" where
  "plugin_thread_context W tid s =
     (let (h, w) = w_open_thread W (cp_world s) tid; s = s \<lparr> cp_world := w \<rparr> in
      if h = 0 then (cpu_zero, s)
      else (let ctx = w_get_context W (cp_world s) h in (ctx, s \<lparr> cp_world := w_close_handle W (cp_world s) h \<rparr>)))"

definition pack_incoming_args ::
    "'w win32 \<Rightarrow> variable_info list \<Rightarrow> thread_id \<Rightarrow> ('w, 'z) pdb_state_scheme \<Rightarrow> u64 list \<times> ('w, 'z) pdb_state_scheme" where
  "pack_incoming_args W vars tid s =
     (let (ctx, s) = plugin_thread_context W tid s
      in (map (\<lambda>v. read_value_from_kind W (vi_location v) ctx s) vars, s))"

section \<open>Addresses of names\<close>

text \<open>
  The first symbol of that name, if it has an address.  A call before the program database is loaded
  goes through a null pointer.
\<close>

definition first_symbol_address :: "dia_symbol list option \<Rightarrow> addr \<Rightarrow> original_address" where
  "first_symbol_address symbols image_base =
     (case symbols of
        Some (symbol # _) \<Rightarrow> (case ds_rva symbol of Some rva \<Rightarrow> ucast rva + image_base | None \<Rightarrow> 0)
      | _ \<Rightarrow> 0)"

definition get_address_from_func_name :: "string \<Rightarrow> addr \<Rightarrow> ('w, 'z) pdb_state_scheme \<Rightarrow> original_address option" where
  "get_address_from_func_name name image_base s =
     do { d \<leftarrow> cp_scope s; Some (first_symbol_address (dia_functions_named d name) image_base) }"

definition get_address_from_c_label :: "string \<Rightarrow> addr \<Rightarrow> ('w, 'z) pdb_state_scheme \<Rightarrow> original_address option" where
  "get_address_from_c_label name image_base s =
     do { d \<leftarrow> cp_scope s; Some (first_symbol_address (dia_labels_named d name) image_base) }"

text \<open>
  \<open>file:line\<close>: the first line entry with that number in a compiland of the first file whose path
  contains the name (every source file has one).  \<open>split[1]\<close> needs a colon and \<open>std::stoull\<close>, here in
  base 10, a number; \<open>findLinesByLinenum\<close> gets the number cut to 32 bits.
\<close>

definition contains_text :: "string \<Rightarrow> string \<Rightarrow> bool" where
  "contains_text part s = (\<exists>i\<in>{0..length s}. take (length part) (drop i s) = part)"

definition first_line_entry :: "dia \<Rightarrow> u32 \<Rightarrow> nat \<Rightarrow> dia_line option" where
  "first_line_entry d line_number f =
     (case List.map_filter (\<lambda>c. case dia_lines_of d c f line_number of Some (l # _) \<Rightarrow> Some l | _ \<Rightarrow> None)
             (dia_compilands_of d f) of
        [] \<Rightarrow> None | l # _ \<Rightarrow> Some l)"

definition get_address_from_file_line :: "string \<Rightarrow> addr \<Rightarrow> ('w, 'z) pdb_state_scheme \<Rightarrow> original_address option" where
  "get_address_from_file_line name image_base s =
     (case split_string name CHR '':'' of
        file # line # _ \<Rightarrow>
          do { target_line \<leftarrow> parse_unsigned 10 (2 ^ 64 - 1) line;
               d \<leftarrow> cp_session s;
               Some (case dia_files d of
                       None \<Rightarrow> 0
                     | Some fs \<Rightarrow>
                         (case List.map_filter (first_line_entry d (of_nat target_line))
                                 (filter (\<lambda>f. contains_text file (name_or_empty (dia_file_name d f))) fs) of
                            [] \<Rightarrow> 0 | l # _ \<Rightarrow> ucast (dl_rva l) + image_base)) }
      | _ \<Rightarrow> None)"

text \<open>The structure is not initialised when the query fails, and the symbol is null when no function is there.\<close>

definition get_function_bounds_from_address ::
    "original_address \<Rightarrow> addr \<Rightarrow> ('w, 'z) pdb_state_scheme \<Rightarrow> function_bounds option" where
  "get_function_bounds_from_address code_address image_base s =
     do { d \<leftarrow> cp_session s;
          found \<leftarrow> dia_function_at d (to_rva code_address image_base);
          f \<leftarrow> found;
          rva \<leftarrow> ds_rva f;
          let function_start = image_base + ucast rva;
          Some \<lparr> fb_start = function_start, fb_end = function_start + ds_length f \<rparr> }"

record function_range =
  fr_start :: original_address
  fr_end :: original_address
  fr_name :: string

definition function_range_of :: "addr \<Rightarrow> dia_symbol \<Rightarrow> function_range option" where
  "function_range_of image_base symbol =
     (let rva = (case ds_rva symbol of None \<Rightarrow> 0 | Some rva \<Rightarrow> rva) in
      if rva \<noteq> 0 \<and> ds_length symbol \<noteq> 0
      then (let start = image_base + ucast rva
            in Some \<lparr> fr_start = start, fr_end = start + ds_length symbol, fr_name = name_or_empty (ds_name symbol) \<rparr>)
      else None)"

definition get_all_functions :: "addr \<Rightarrow> ('w, 'z) pdb_state_scheme \<Rightarrow> function_range list option" where
  "get_all_functions image_base s =
     do { d \<leftarrow> cp_scope s;
          Some (case dia_functions d of None \<Rightarrow> [] | Some symbols \<Rightarrow> List.map_filter (function_range_of image_base) symbols) }"

section \<open>Line ranges\<close>

record line_range =
  lr_start :: original_address
  lr_end :: original_address

text \<open>
  The entries of the source line that an address belongs to.  The file name each entry is compared
  with is taken from \<open>line\<close>, the entry of the address itself, so the comparison always succeeds.
\<close>

definition line_entry_range :: "addr \<Rightarrow> dia_line \<Rightarrow> line_range option" where
  "line_entry_range image_base entry =
     (if dl_length entry \<noteq> 0
      then Some \<lparr> lr_start = image_base + ucast (dl_rva entry),
                  lr_end = image_base + ucast (dl_rva entry) + ucast (dl_length entry) \<rparr>
      else None)"

definition line_entries :: "dia \<Rightarrow> original_address \<Rightarrow> addr \<Rightarrow> line_range list" where
  "line_entries d original_address image_base =
     (case dia_lines_at d (to_rva original_address image_base) of
        Some (line # _) \<Rightarrow>
          (case (dl_file line, Option.bind (dl_file line) (dia_file_name d), dl_compiland line) of
             (Some f, Some _, Some c) \<Rightarrow>
               (case dia_lines_of d c f (dl_number line) of
                  Some entries \<Rightarrow> List.map_filter (line_entry_range image_base) entries
                | None \<Rightarrow> [])
           | _ \<Rightarrow> [])
      | _ \<Rightarrow> [])"

text \<open>
  Sorting by start and joining what touches.  \<open>std::sort\<close> leaves the order of entries with the
  same start open; it makes no difference, since they are joined.
\<close>

definition merge_step :: "line_range \<Rightarrow> line_range list \<Rightarrow> line_range list" where
  "merge_step r merged =
     (if merged \<noteq> [] \<and> lr_start r \<le> lr_end (last merged)
      then butlast merged @ [(last merged) \<lparr> lr_end := max (lr_end (last merged)) (lr_end r) \<rparr>]
      else merged @ [r])"

definition merge_ranges :: "line_range list \<Rightarrow> line_range list" where
  "merge_ranges ranges = fold merge_step (sort_key lr_start ranges) []"

definition get_line_ranges_from_address ::
    "original_address \<Rightarrow> addr \<Rightarrow> ('w, 'z) pdb_state_scheme \<Rightarrow> line_range list option" where
  "get_line_ranges_from_address original_address image_base s =
     do { d \<leftarrow> cp_session s; Some (merge_ranges (line_entries d original_address image_base)) }"

definition address_in_line_ranges :: "line_range list \<Rightarrow> original_address \<Rightarrow> bool" where
  "address_in_line_ranges line_ranges address =
     list_ex (\<lambda>r. address < lr_end r \<and> lr_start r \<le> address) line_ranges"

section \<open>Printing variables and types\<close>

text \<open>
  How the C++ library prints a floating-point number and a wide character is a parameter; the numbers
  it is given are those the code converts to, \<open>static_cast<float>(raw_value)\<close> being the number nearest
  to the integer \<open>raw_value\<close>.
\<close>

record text_format =
  tf_float :: "nat \<Rightarrow> string"
  tf_double :: "nat \<Rightarrow> string"
  tf_wide :: "u16 \<Rightarrow> string"

definition show_variable :: "text_format \<Rightarrow> variable_kind \<Rightarrow> u64 \<Rightarrow> string" where
  "show_variable F kind raw_value =
     (case kind of
        VK_Pointer \<Rightarrow> ''0x'' @ show_hex (unat raw_value)
      | VK_Bool \<Rightarrow> (if raw_value \<noteq> 0 then ''true'' else ''false'')
      | VK_Char \<Rightarrow> [char_of (unat (ucast raw_value :: byte))]
      | VK_WChar \<Rightarrow> tf_wide F (ucast raw_value)
      | VK_Float \<Rightarrow> tf_float F (unat raw_value)
      | VK_Double \<Rightarrow> tf_double F (unat raw_value)
      | VK_Int8 \<Rightarrow> show_int (sint (ucast raw_value :: byte))
      | VK_Int16 \<Rightarrow> show_int (sint (ucast raw_value :: u16))
      | VK_Int32 \<Rightarrow> show_int (sint (ucast raw_value :: u32))
      | VK_Int64 \<Rightarrow> show_int (sint raw_value)
      | VK_UInt8 \<Rightarrow> show_dec (unat (ucast raw_value :: byte))
      | VK_UInt16 \<Rightarrow> show_dec (unat (ucast raw_value :: u16))
      | VK_UInt32 \<Rightarrow> show_dec (unat (ucast raw_value :: u32))
      | VK_UInt64 \<Rightarrow> show_dec (unat raw_value))"

definition print_variable :: "text_format \<Rightarrow> variable_kind \<Rightarrow> string \<Rightarrow> string \<Rightarrow> u64 \<Rightarrow> string" where
  "print_variable F kind cpp_type name raw_value =
     ''    '' @ cpp_type @ '' '' @ name @ '' = '' @ show_variable F kind raw_value"

definition print_local ::
    "'w win32 \<Rightarrow> text_format \<Rightarrow> cpu_context \<Rightarrow> addr \<Rightarrow> ('w, 'z) pdb_state_scheme \<Rightarrow> dia_symbol \<Rightarrow> string option" where
  "print_local W F ctx image_base s symbol =
     do { (kind, cpp_type) \<leftarrow> resolve_variable_type (ds_type symbol);
          location \<leftarrow> locate_variable image_base symbol;
          Some (print_variable F kind cpp_type (name_or_empty (ds_name symbol)) (read_value_from_kind W location ctx s)) }"

definition print_locals ::
    "'w win32 \<Rightarrow> text_format \<Rightarrow> original_address \<Rightarrow> cpu_context \<Rightarrow> addr \<Rightarrow> ('w, 'z) pdb_state_scheme \<Rightarrow> string list option" where
  "print_locals W F original_address ctx image_base s =
     do { d \<leftarrow> cp_session s;
          Some (case dia_function_at d (to_rva original_address image_base) of
                  Some (Some f) \<Rightarrow>
                    (case df_data f of
                       None \<Rightarrow> []
                     | Some symbols \<Rightarrow> ''Local variables:'' # List.map_filter (print_local W F ctx image_base s) symbols)
                | _ \<Rightarrow> []) }"

definition print_global ::
    "'w win32 \<Rightarrow> text_format \<Rightarrow> cpu_context \<Rightarrow> addr \<Rightarrow> string \<Rightarrow> ('w, 'z) pdb_state_scheme \<Rightarrow> dia_symbol \<Rightarrow> string option" where
  "print_global W F ctx image_base file_name s symbol =
     (if ds_data_kind symbol \<notin> {DataIsGlobal, DataIsFileStatic, DataIsStaticLocal} then None
      else if ds_data_kind symbol = DataIsFileStatic
           \<and> (ds_parent_tag symbol \<noteq> SymTagCompiland \<or> file_name \<noteq> ds_parent_name symbol) then None
      else do { (kind, cpp_type) \<leftarrow> resolve_variable_type (ds_type symbol);
                if ds_location symbol = LocIsStatic
                then (let location = VL_Static (image_base + ucast (case ds_rva symbol of None \<Rightarrow> 0 | Some rva \<Rightarrow> rva))
                      in Some (print_variable F kind cpp_type (name_or_empty (ds_name symbol))
                                 (read_value_from_kind W location ctx s)))
                else None })"

definition print_globals ::
    "'w win32 \<Rightarrow> text_format \<Rightarrow> original_address \<Rightarrow> cpu_context \<Rightarrow> addr \<Rightarrow> ('w, 'z) pdb_state_scheme \<Rightarrow>
      (string list \<times> ('w, 'z) pdb_state_scheme) option" where
  "print_globals W F code_address ctx image_base s =
     do { d \<leftarrow> cp_scope s;
          case dia_globals d of
            None \<Rightarrow> Some ([], s)
          | Some symbols \<Rightarrow>
              do { (source, s) \<leftarrow> load_breakpoint_from_pdb code_address image_base s;
                   Some (''File/Global static variables: ''
                           # List.map_filter (print_global W F ctx image_base (sl_file_name source) s) symbols, s) } }"

definition print_all_pdb_scoped_variables ::
    "'w win32 \<Rightarrow> text_format \<Rightarrow> original_address \<Rightarrow> thread_id \<Rightarrow> addr \<Rightarrow> ('w, 'z) pdb_state_scheme \<Rightarrow>
      (string list \<times> ('w, 'z) pdb_state_scheme) option" where
  "print_all_pdb_scoped_variables W F code_address tid image_base s =
     (let (ctx, s) = plugin_thread_context W tid s in
      do { locals \<leftarrow> print_locals W F code_address ctx image_base s;
           (globals, s) \<leftarrow> print_globals W F code_address ctx image_base s;
           Some (locals @ globals, s) })"

fun base_type_code :: "base_type \<Rightarrow> nat" where
  "base_type_code btNoType = 0" | "base_type_code btVoid = 1" | "base_type_code btChar = 2" | "base_type_code btWChar = 3"
| "base_type_code btInt = 6" | "base_type_code btUInt = 7" | "base_type_code btFloat = 8" | "base_type_code btBool = 10"
| "base_type_code btLong = 13" | "base_type_code btULong = 14" | "base_type_code (btOther n) = unat n"

definition base_type_name :: "base_type \<Rightarrow> u64 \<Rightarrow> string" where
  "base_type_name b bytes =
     (case b of
        btInt \<Rightarrow> ''Int'' @ show_dec (unat bytes) @ ''B''
      | btUInt \<Rightarrow> ''UInt'' @ show_dec (unat bytes) @ ''B''
      | btFloat \<Rightarrow> ''Float'' @ show_dec (unat bytes) @ ''B''
      | btChar \<Rightarrow> ''Char''
      | btWChar \<Rightarrow> ''WChar''
      | btBool \<Rightarrow> ''Bool''
      | btVoid \<Rightarrow> ''Void''
      | _ \<Rightarrow> ''BaseType_'' @ show_dec (base_type_code b))"

fun get_type_name :: "dia_type \<Rightarrow> string" where
  "get_type_name (Dia_Type tag name base bytes inner) =
     (if (tag = SymTagUDT \<or> tag = SymTagEnum) \<and> name \<noteq> None then name_or_empty name
      else if tag = SymTagBaseType then base_type_name base bytes
      else case inner of
        None \<Rightarrow> ''complex_type''
      | Some t \<Rightarrow>
          if tag = SymTagPointerType then ''Ptr64 '' @ get_type_name t
          else if tag = SymTagArrayType
            then get_type_name t @ ''['' @ show_dec (if dt_length t = 0 then 0 else unat (bytes div dt_length t)) @ '']''
          else ''complex_type'')"

definition print_member :: "dia_symbol \<Rightarrow> string" where
  "print_member member =
     ''  +0x'' @ pad_left 3 CHR ''0'' (show_hex (unat (ds_offset member))) @ '' '' @ pad_right 20 (name_or_empty (ds_name member))
       @ '' : '' @ (if ds_location member = LocIsBitField
                    then ''Pos '' @ show_int (sint (ds_bit_position member)) @ '', '' @ show_dec (unat (ds_length member)) @ '' Bits''
                    else case ds_type member of None \<Rightarrow> '''' | Some t \<Rightarrow> get_type_name t)"

definition print_object_from_type :: "string \<Rightarrow> ('w, 'z) pdb_state_scheme \<Rightarrow> string list option" where
  "print_object_from_type object_type s =
     do { d \<leftarrow> cp_scope s;
          Some (case dia_udts_named d object_type of
                  [] \<Rightarrow> []
                | udt # _ \<Rightarrow> (''Struct: '' @ du_name udt) # map print_member (du_members udt)) }"

section \<open>The ranges of a line\<close>

fun gaps :: "line_range list \<Rightarrow> bool" where
  "gaps (r # r' # rs) = (lr_end r < lr_start r' \<and> gaps (r' # rs))"
| "gaps rs = True"

definition in_range :: "line_range \<Rightarrow> original_address \<Rightarrow> bool" where
  "in_range r a = (lr_start r \<le> a \<and> a < lr_end r)"

lemma gaps_snoc: "gaps (rs @ [r]) = (gaps rs \<and> (rs = [] \<or> lr_end (last rs) < lr_start r))"
  by (induction rs rule: gaps.induct) auto

lemma gaps_last_cong:
  "lr_start r = lr_start r' \<Longrightarrow> gaps (rs @ [r]) = gaps (rs @ [r'])"
  by (simp add: gaps_snoc)

lemma merge_step_spec:
  assumes "gaps ms" "ms = [] \<or> lr_start (last ms) \<le> lr_start r"
  shows "gaps (merge_step r ms)" "merge_step r ms \<noteq> []" "lr_start (last (merge_step r ms)) \<le> lr_start r"
    and "(\<exists>m\<in>set (merge_step r ms). in_range m a) \<longleftrightarrow> (\<exists>m\<in>set ms. in_range m a) \<or> in_range r a"
proof -
  have "gaps (merge_step r ms) \<and> merge_step r ms \<noteq> [] \<and> lr_start (last (merge_step r ms)) \<le> lr_start r
      \<and> ((\<exists>m\<in>set (merge_step r ms). in_range m a) \<longleftrightarrow> (\<exists>m\<in>set ms. in_range m a) \<or> in_range r a)"
  proof (cases "ms \<noteq> [] \<and> lr_start r \<le> lr_end (last ms)")
    case True
    then obtain ps p where ms: "ms = ps @ [p]" by (meson rev_exhaust)
    have starts: "lr_start p \<le> lr_start r" "lr_start r \<le> lr_end p" using True assms(2) ms by auto
    have "in_range (p \<lparr> lr_end := max (lr_end p) (lr_end r) \<rparr>) a \<longleftrightarrow> in_range p a \<or> in_range r a"
      using starts by (auto simp: in_range_def max_def)
    then show ?thesis
      using assms(1) starts True by (auto simp: ms merge_step_def gaps_snoc)
  next
    case False
    then show ?thesis using assms by (auto simp: merge_step_def gaps_snoc)
  qed
  then show "gaps (merge_step r ms)" "merge_step r ms \<noteq> []" "lr_start (last (merge_step r ms)) \<le> lr_start r"
    and "(\<exists>m\<in>set (merge_step r ms). in_range m a) \<longleftrightarrow> (\<exists>m\<in>set ms. in_range m a) \<or> in_range r a"
    by simp_all
qed

lemma merge_fold:
  assumes "sorted (map lr_start rs)" "gaps ms" "ms = [] \<or> (\<forall>r\<in>set rs. lr_start (last ms) \<le> lr_start r)"
  shows "gaps (fold merge_step rs ms)
    \<and> ((\<exists>m\<in>set (fold merge_step rs ms). in_range m a) \<longleftrightarrow> (\<exists>m\<in>set ms \<union> set rs. in_range m a))"
  using assms
proof (induction rs arbitrary: ms)
  case (Cons r rs)
  have "ms = [] \<or> lr_start (last ms) \<le> lr_start r" using Cons.prems(3) by auto
  note step = merge_step_spec[OF Cons.prems(2) this]
  have "\<forall>r'\<in>set rs. lr_start (last (merge_step r ms)) \<le> lr_start r'"
    using step(3) Cons.prems(1) by (auto intro: order_trans)
  then show ?case using Cons.IH[of "merge_step r ms"] Cons.prems(1) step(1) step(4)[of a] by auto
qed simp

text \<open>
  C26: The line ranges of an address are the line's entries, put in order.  The ranges that are
  returned lie one behind the other with a gap between any two, so control that falls out of the end
  of a range has left the line, and an address is in one of them exactly if it is in one of the
  entries of the line table.
\<close>

theorem line_ranges_merged:
  assumes "cp_session s = Some d" "get_line_ranges_from_address a0 image_base s = Some ranges"
  shows "gaps ranges
    \<and> (address_in_line_ranges ranges a \<longleftrightarrow> (\<exists>e\<in>set (line_entries d a0 image_base). lr_start e \<le> a \<and> a < lr_end e))"
  using assms merge_fold[of "sort_key lr_start (line_entries d a0 image_base)" "[]" a]
  by (auto simp: get_line_ranges_from_address_def merge_ranges_def address_in_line_ranges_def list_ex_iff in_range_def)

section \<open>Sample debug information\<close>

text \<open>
  One function of 64 bytes at offset 0x10 of the image; its line 7 has three entries, of which two
  touch, and line 8 the rest.
\<close>

definition sample_symbol :: dia_symbol where
  "sample_symbol = \<lparr> ds_name = Some ''main'', ds_type = None, ds_location = LocIsNull, ds_register = CV_OTHER 0, ds_offset = 0,
     ds_rva = Some 0x10, ds_length = 0x40, ds_data_kind = DataOther 0, ds_parent_tag = SymTagNull, ds_parent_name = '''',
     ds_bit_position = 0 \<rparr>"

definition sample_line :: "u32 \<Rightarrow> u32 \<Rightarrow> u32 \<Rightarrow> dia_line" where
  "sample_line n rva bytes =
     \<lparr> dl_number = n, dl_file = Some 0, dl_compiland = Some 0, dl_rva = rva, dl_length = bytes, dl_statement = True \<rparr>"

definition sample_lines :: "dia_line list" where
  "sample_lines = [sample_line 7 0x20 8, sample_line 7 0x10 4, sample_line 7 0x14 4, sample_line 8 0x18 8, sample_line 8 0x28 40]"

definition sample_dia :: dia where
  "sample_dia =
     \<lparr> dia_functions = Some [sample_symbol],
       dia_functions_named = (\<lambda>n. if n = ''main'' then Some [sample_symbol] else Some []),
       dia_labels_named = (\<lambda>n. Some []),
       dia_globals = Some [],
       dia_udts_named = (\<lambda>n. []),
       dia_function_at = (\<lambda>rva. Some None),
       dia_lines_at = (\<lambda>rva. Some (filter (\<lambda>l. dl_rva l \<le> rva \<and> rva < dl_rva l + dl_length l) sample_lines)),
       dia_lines_of = (\<lambda>c f n. Some (filter (\<lambda>l. dl_number l = n) sample_lines)),
       dia_files = Some [0],
       dia_file_name = (\<lambda>f. Some ''main.cpp''),
       dia_compilands_of = (\<lambda>f. [0]) \<rparr>"

definition sample_pdb :: "'w \<Rightarrow> 'w pdb_state" where
  "sample_pdb w = \<lparr> cp_world = w, cp_session = Some sample_dia, cp_scope = Some sample_dia, cp_source_locations = [] \<rparr>"

lemma sample_ranges:
  "get_line_ranges_from_address 0x1012 0x1000 (sample_pdb w) =
     Some [\<lparr> lr_start = 0x1010, lr_end = 0x1018 \<rparr>, \<lparr> lr_start = 0x1020, lr_end = 0x1028 \<rparr>]"
  by (simp add: get_line_ranges_from_address_def sample_pdb_def sample_dia_def sample_lines_def sample_line_def
      line_entries_def line_entry_range_def to_rva_def merge_ranges_def merge_step_def map_filter_def)

lemma line_ranges_merged_witness:
  "address_in_line_ranges [\<lparr> lr_start = 0x1010, lr_end = 0x1018 \<rparr>, \<lparr> lr_start = 0x1020, lr_end = 0x1028 \<rparr>] 0x1017
     \<longleftrightarrow> (\<exists>e\<in>set (line_entries sample_dia 0x1012 0x1000). lr_start e \<le> 0x1017 \<and> 0x1017 < lr_end e)"
  using line_ranges_merged[OF _ sample_ranges[of "\<lambda>_. 0 :: byte"], of sample_dia "0x1017"] by (simp add: sample_pdb_def)

section \<open>The cache of source locations\<close>

text \<open>What the debug information says about an address, and a cache that only holds such answers.\<close>

definition source_of :: "dia \<Rightarrow> original_address \<Rightarrow> addr \<Rightarrow> source_location option" where
  "source_of d a image_base =
     map_option (sl_code_address_update (\<lambda>_. a))
       (case dia_lines_at d (to_rva a image_base) of
          None \<Rightarrow> Some source_location_zero
        | Some lines \<Rightarrow> foldM (locate_line d) lines source_location_zero)"

definition cache_ok :: "addr \<Rightarrow> ('w, 'z) pdb_state_scheme \<Rightarrow> bool" where
  "cache_ok image_base s =
     (\<exists>d. cp_session s = Some d
        \<and> (\<forall>l\<in>set (cp_source_locations s). source_of d (sl_code_address l) image_base = Some l))"

definition same_but_cache :: "('w, 'z) pdb_state_scheme \<Rightarrow> ('w, 'z) pdb_state_scheme \<Rightarrow> bool" where
  "same_but_cache s s' = (\<exists>ls. s' = s \<lparr> cp_source_locations := ls \<rparr>)"

lemma same_but_cache_refl [simp]: "same_but_cache s s"
  unfolding same_but_cache_def by (rule exI[of _ "cp_source_locations s"]) simp

lemma same_but_cache_trans: "same_but_cache s s' \<Longrightarrow> same_but_cache s' s'' \<Longrightarrow> same_but_cache s s''"
  by (auto simp: same_but_cache_def)

lemma same_but_cache_session: "same_but_cache s s' \<Longrightarrow> cp_session s' = cp_session s"
  by (auto simp: same_but_cache_def)

lemma load_breakpoint_cached:
  assumes "cache_ok image_base s" "cp_session s = Some d"
  shows "load_breakpoint_from_pdb a image_base s = None \<longleftrightarrow> source_of d a image_base = None"
    and "load_breakpoint_from_pdb a image_base s = Some (l, s') \<Longrightarrow>
           source_of d a image_base = Some l \<and> cache_ok image_base s' \<and> same_but_cache s s'"
proof -
  have known: "source_of d (sl_code_address l) image_base = Some l" if "l \<in> set (cp_source_locations s)" for l
    using assms that by (auto simp: cache_ok_def)
  have code: "sl_code_address l = a" if "source_of d a image_base = Some l" for l
    using that by (auto simp: source_of_def)
  have both: "(load_breakpoint_from_pdb a image_base s = None \<longleftrightarrow> source_of d a image_base = None)
      \<and> (load_breakpoint_from_pdb a image_base s = Some (l, s') \<longrightarrow>
           source_of d a image_base = Some l \<and> cache_ok image_base s' \<and> same_but_cache s s')" for l s'
  proof (cases "find (\<lambda>l. sl_code_address l = a) (cp_source_locations s)")
    case (Some l0)
    then have "l0 \<in> set (cp_source_locations s)" "sl_code_address l0 = a" by (auto simp: find_Some_iff)
    then show ?thesis using known[of l0] Some assms(1) by (auto simp: load_breakpoint_from_pdb_def)
  next
    case None
    have load: "load_breakpoint_from_pdb a image_base s =
        map_option (\<lambda>l. (l, s \<lparr> cp_source_locations := cp_source_locations s @ [l] \<rparr>)) (source_of d a image_base)"
      using None assms(2) by (simp add: load_breakpoint_from_pdb_def source_of_def Let_def map_option_case split: option.split bind_split)
    have "cache_ok image_base (s \<lparr> cp_source_locations := cp_source_locations s @ [l] \<rparr>)"
      if "source_of d a image_base = Some l" for l
      using that known assms(2) code[OF that] by (auto simp: cache_ok_def)
    then show ?thesis unfolding load by (auto simp: same_but_cache_def)
  qed
  then show "load_breakpoint_from_pdb a image_base s = None \<longleftrightarrow> source_of d a image_base = None"
    and "load_breakpoint_from_pdb a image_base s = Some (l, s') \<Longrightarrow>
           source_of d a image_base = Some l \<and> cache_ok image_base s' \<and> same_but_cache s s'"
    by blast+
qed

end
