(* ===== verification/Branch_Stub.thy ===== *)
theory Branch_Stub
  imports Machine
begin

text \<open>
  The machine code that \<open>src/plugins/cpp/branch_instrumentation.cpp\<close> emits: the stub that counts a
  basic block (\<open>emit_tls_increment\<close>), the two jumps (\<open>emit_abs_jmp\<close>, \<open>emit_rel_jmp\<close>) and the table of
  the stack bytes the stub has in use at each of its instructions.

  The processor is not part of the repository.  The second half of the theory gives the documented
  behaviour of the thirteen instructions the stub consists of, with their encodings, as a step
  function, and shows what the stub does on it.  The code that runs is the list of emitted bytes;
  data (the stack and the thread-local-storage slots behind \<open>gs\<close>) is a memory of its own, so nothing
  here rests on where the region was allocated.
\<close>

section \<open>Emitted code\<close>

definition u32_le :: "u32 \<Rightarrow> byte list" where
  "u32_le v = map (\<lambda>i. ucast (drop_bit (8 * i) v)) [0..<4]"

definition emit_tls_increment :: "u32 \<Rightarrow> u32 \<Rightarrow> byte list" where
  "emit_tls_increment branch_tls_offset target_tls_offset =
     [0x50] @                                                          \<comment> \<open>0x00: push rax\<close>
     [0x0F, 0x90, 0xC0] @                                              \<comment> \<open>0x01: seto al\<close>
     [0x9F] @                                                          \<comment> \<open>0x04: lahf\<close>
     [0x65, 0x48, 0x83, 0x04, 0x25] @ u32_le branch_tls_offset @ [1] @ \<comment> \<open>0x05: add qword gs:[c], 1\<close>
     [0x51] @                                                          \<comment> \<open>0x0F: push rcx\<close>
     [0x65, 0x48, 0x8B, 0x0C, 0x25] @ u32_le target_tls_offset @       \<comment> \<open>0x10: mov rcx, gs:[t]\<close>
     [0x65, 0x48, 0x39, 0x0C, 0x25] @ u32_le branch_tls_offset @       \<comment> \<open>0x19: cmp gs:[c], rcx\<close>
     [0x72, 0x01] @                                                    \<comment> \<open>0x22: jb skip\<close>
     [0xCC] @                                                          \<comment> \<open>0x24: int3\<close>
     [0x59] @                                                          \<comment> \<open>0x25: skip: pop rcx\<close>
     [0x04, 0x7F] @                                                    \<comment> \<open>0x26: add al, 0x7f\<close>
     [0x9E] @                                                          \<comment> \<open>0x28: sahf\<close>
     [0x58]                                                            \<comment> \<open>0x29: pop rax\<close>"

definition emit_abs_jmp :: "addr \<Rightarrow> byte list" where
  "emit_abs_jmp dest = [0xFF, 0x25, 0, 0, 0, 0] @ word_le dest"

definition int32_min :: int where "int32_min = - (2 ^ 31)"
definition int32_max :: int where "int32_max = 2 ^ 31 - 1"

definition emit_rel_jmp :: "addr \<Rightarrow> addr \<Rightarrow> byte list option" where
  "emit_rel_jmp at dest =
     (let rel = sint dest - sint (at + 5) in
      if rel < int32_min \<or> rel > int32_max then None
      else Some ([0xE9] @ u32_le (word_of_int rel)))"

definition tls_instruction_offsets :: "(nat \<times> nat) list" where
  "tls_instruction_offsets =
     [(0x0, 0), (0x1, 8), (0x4, 8), (0x5, 8), (0xF, 8), (0x10, 16), (0x19, 16), (0x22, 16), (0x24, 16), (0x25, 16),
      (0x26, 8), (0x28, 8), (0x29, 8)]"

lemma length_u32_le [simp]: "length (u32_le v) = 4"
  by (simp add: u32_le_def)

lemma length_emit [simp]:
  "length (emit_tls_increment c t) = 42" "length (emit_abs_jmp d) = 14"
  by (simp_all add: emit_tls_increment_def emit_abs_jmp_def)

lemma le_u32_u32_le [simp]: "le_u32 (u32_le v) = v"
proof -
  have split: "ucast (ucast (x :: u32) :: byte) + 256 * drop_bit 8 x = x" for x
  proof -
    have "(ucast (ucast x :: byte) :: u32) = take_bit 8 x"
      by (rule bit_word_eqI) (auto simp: bit_unsigned_iff bit_take_bit_iff)
    then show ?thesis using bits_ident[of 8 x] by (simp add: push_bit_eq_mult ac_simps)
  qed
  have step: "ucast (ucast (drop_bit n v) :: byte) + 256 * drop_bit (n + 8) v = drop_bit n v" for n
    using split[of "drop_bit n v"] by (simp add: add.commute)
  have top: "drop_bit 32 v = 0"
    by (rule bit_word_eqI) (auto simp: bit_drop_bit_eq dest: bit_imp_le_length)
  have "le_u32 (u32_le v) = ucast (ucast (drop_bit 0 v) :: byte) + 256 * (ucast (ucast (drop_bit 8 v) :: byte)
      + 256 * (ucast (ucast (drop_bit 16 v) :: byte) + 256 * (ucast (ucast (drop_bit 24 v) :: byte)
      + 256 * drop_bit 32 v)))"
    unfolding top le_u32_def u32_le_def by (simp add: upt_rec)
  also have "\<dots> = v" using step[of 0] step[of 8] step[of 16] step[of 24] by simp
  finally show ?thesis .
qed

lemma scast_rel32:
  assumes "\<not> (r < int32_min \<or> r > int32_max)"
  shows "(scast (word_of_int r :: u32) :: u64) = word_of_int r"
proof -
  have "- (2 ^ 31) \<le> r" "r < 2 ^ 31" using assms by (simp_all add: int32_min_def int32_max_def)
  then have "sint (word_of_int r :: u32) = r" by (simp add: sint_sbintrunc' signed_take_bit_int_eq_self_iff)
  then show ?thesis by (simp only: scast_eq)
qed

lemma emit_rel_jmp_reaches:
  assumes "emit_rel_jmp at dest = Some bs"
  shows "length bs = 5" "hd bs = 0xE9" "at + 5 + scast (le_u32 (tl bs)) = dest"
proof -
  let ?r = "sint dest - sint (at + 5)"
  have bs: "bs = 0xE9 # u32_le (word_of_int ?r)" and range: "\<not> (?r < int32_min \<or> ?r > int32_max)"
    using assms by (auto simp: emit_rel_jmp_def Let_def split: if_splits)
  have "(scast (word_of_int ?r :: u32) :: addr) = dest - (at + 5)" unfolding scast_rel32[OF range] by simp
  then show "length bs = 5" "hd bs = 0xE9" "at + 5 + scast (le_u32 (tl bs)) = dest" by (simp_all add: bs)
qed

section \<open>The instructions of the stub\<close>

record cpu_flags =
  fl_CF :: bool
  fl_PF :: bool
  fl_AF :: bool
  fl_ZF :: bool
  fl_SF :: bool
  fl_OF :: bool

text \<open>
  \<open>sc_pc\<close> is the position in the emitted code; \<open>sc_traps\<close> are the positions of the \<open>int3\<close>
  instructions that were executed (the debugger is told and lets the thread go on behind it).
\<close>

record stub_cpu =
  sc_pc :: nat
  sc_rax :: u64
  sc_rcx :: u64
  sc_rsp :: u64
  sc_flags :: cpu_flags
  sc_gs :: addr
  sc_mem :: "addr \<Rightarrow> byte"
  sc_traps :: "nat list"

datatype stub_insn =
    Push_Rax | Push_Rcx | Pop_Rax | Pop_Rcx
  | Seto_Al | Lahf | Sahf
  | Add_Gs u32 byte | Mov_Rcx_Gs u32 | Cmp_Gs_Rcx u32
  | Add_Al byte | Jb byte | Int3

definition decode_stub :: "byte list \<Rightarrow> (stub_insn \<times> nat) option" where
  "decode_stub bs =
     (if take 1 bs = [0x50] then Some (Push_Rax, 1)
      else if take 1 bs = [0x51] then Some (Push_Rcx, 1)
      else if take 1 bs = [0x58] then Some (Pop_Rax, 1)
      else if take 1 bs = [0x59] then Some (Pop_Rcx, 1)
      else if take 3 bs = [0x0F, 0x90, 0xC0] then Some (Seto_Al, 3)
      else if take 1 bs = [0x9F] then Some (Lahf, 1)
      else if take 1 bs = [0x9E] then Some (Sahf, 1)
      else if take 5 bs = [0x65, 0x48, 0x83, 0x04, 0x25] then Some (Add_Gs (le_u32 (take 4 (drop 5 bs))) (bs ! 9), 10)
      else if take 5 bs = [0x65, 0x48, 0x8B, 0x0C, 0x25] then Some (Mov_Rcx_Gs (le_u32 (take 4 (drop 5 bs))), 9)
      else if take 5 bs = [0x65, 0x48, 0x39, 0x0C, 0x25] then Some (Cmp_Gs_Rcx (le_u32 (take 4 (drop 5 bs))), 9)
      else if take 1 bs = [0x04] then Some (Add_Al (bs ! 1), 2)
      else if take 1 bs = [0x72] then Some (Jb (bs ! 1), 2)
      else if take 1 bs = [0xCC] then Some (Int3, 1)
      else None)"

definition load64 :: "(addr \<Rightarrow> byte) \<Rightarrow> addr \<Rightarrow> u64" where
  "load64 f a = le_word (bytes_at f a 8)"

definition store64 :: "addr \<Rightarrow> u64 \<Rightarrow> (addr \<Rightarrow> byte) \<Rightarrow> addr \<Rightarrow> byte" where
  "store64 a v f = store_bytes a (word_le v) f"

definition set_al :: "byte \<Rightarrow> u64 \<Rightarrow> u64" where
  "set_al b r = or (and r (not 0xFF)) (ucast b)"

definition set_ah :: "byte \<Rightarrow> u64 \<Rightarrow> u64" where
  "set_ah b r = or (and r (not 0xFF00)) (push_bit 8 (ucast b))"

definition get_al :: "u64 \<Rightarrow> byte" where "get_al r = ucast r"
definition get_ah :: "u64 \<Rightarrow> byte" where "get_ah r = ucast (drop_bit 8 r)"

definition even_parity :: "byte \<Rightarrow> bool" where
  "even_parity b = even (length (filter (bit b) [0..<8]))"

text \<open>The flags of an addition and of a comparison (a subtraction whose result is dropped).\<close>

definition add_flags :: "'a::len word \<Rightarrow> 'a word \<Rightarrow> cpu_flags" where
  "add_flags a b =
     (let r = a + b; top = LENGTH('a) - 1 in
      \<lparr> fl_CF = r < a, fl_PF = even_parity (ucast r), fl_AF = (bit (xor a (xor b r)) 4), fl_ZF = (r = 0), fl_SF = bit r top,
        fl_OF = (bit a top = bit b top \<and> bit r top \<noteq> bit a top) \<rparr>)"

definition cmp_flags :: "'a::len word \<Rightarrow> 'a word \<Rightarrow> cpu_flags" where
  "cmp_flags a b =
     (let r = a - b; top = LENGTH('a) - 1 in
      \<lparr> fl_CF = a < b, fl_PF = even_parity (ucast r), fl_AF = (bit (xor a (xor b r)) 4), fl_ZF = (r = 0), fl_SF = bit r top,
        fl_OF = (bit a top \<noteq> bit b top \<and> bit r top \<noteq> bit a top) \<rparr>)"

text \<open>\<open>lahf\<close>: SF, ZF, 0, AF, 0, PF, 1, CF from the top bit down; \<open>sahf\<close> loads the five flags back.\<close>

definition lahf_byte :: "cpu_flags \<Rightarrow> byte" where
  "lahf_byte fl =
     (if fl_SF fl then 0x80 else 0) + (if fl_ZF fl then 0x40 else 0) + (if fl_AF fl then 0x10 else 0)
       + (if fl_PF fl then 4 else 0) + 2 + (if fl_CF fl then 1 else 0)"

definition sahf_flags :: "byte \<Rightarrow> cpu_flags \<Rightarrow> cpu_flags" where
  "sahf_flags b fl =
     fl \<lparr> fl_CF := bit b 0, fl_PF := bit b 2, fl_AF := bit b 4, fl_ZF := bit b 6, fl_SF := bit b 7 \<rparr>"

definition push64 :: "u64 \<Rightarrow> stub_cpu \<Rightarrow> stub_cpu" where
  "push64 v s = s \<lparr> sc_rsp := sc_rsp s - 8, sc_mem := store64 (sc_rsp s - 8) v (sc_mem s) \<rparr>"

fun exec_stub :: "stub_insn \<Rightarrow> stub_cpu \<Rightarrow> stub_cpu" where
  "exec_stub Push_Rax s = push64 (sc_rax s) s"
| "exec_stub Push_Rcx s = push64 (sc_rcx s) s"
| "exec_stub Pop_Rax s = s \<lparr> sc_rax := load64 (sc_mem s) (sc_rsp s), sc_rsp := sc_rsp s + 8 \<rparr>"
| "exec_stub Pop_Rcx s = s \<lparr> sc_rcx := load64 (sc_mem s) (sc_rsp s), sc_rsp := sc_rsp s + 8 \<rparr>"
| "exec_stub Seto_Al s = s \<lparr> sc_rax := set_al (if fl_OF (sc_flags s) then 1 else 0) (sc_rax s) \<rparr>"
| "exec_stub Lahf s = s \<lparr> sc_rax := set_ah (lahf_byte (sc_flags s)) (sc_rax s) \<rparr>"
| "exec_stub Sahf s = s \<lparr> sc_flags := sahf_flags (get_ah (sc_rax s)) (sc_flags s) \<rparr>"
| "exec_stub (Add_Gs d i) s =
     (let a = sc_gs s + scast d; v = load64 (sc_mem s) a in
      s \<lparr> sc_mem := store64 a (v + scast i) (sc_mem s), sc_flags := add_flags v (scast i) \<rparr>)"
| "exec_stub (Mov_Rcx_Gs d) s = s \<lparr> sc_rcx := load64 (sc_mem s) (sc_gs s + scast d) \<rparr>"
| "exec_stub (Cmp_Gs_Rcx d) s = s \<lparr> sc_flags := cmp_flags (load64 (sc_mem s) (sc_gs s + scast d)) (sc_rcx s) \<rparr>"
| "exec_stub (Add_Al i) s =
     s \<lparr> sc_rax := set_al (get_al (sc_rax s) + i) (sc_rax s), sc_flags := add_flags (get_al (sc_rax s)) i \<rparr>"
| "exec_stub (Jb d) s = (if fl_CF (sc_flags s) then s \<lparr> sc_pc := nat (int (sc_pc s) + sint d) \<rparr> else s)"
| "exec_stub Int3 s = s \<lparr> sc_traps := sc_traps s @ [sc_pc s - 1] \<rparr>"

text \<open>One instruction; the program counter already stands behind it while it executes.\<close>

definition stub_step :: "byte list \<Rightarrow> stub_cpu \<Rightarrow> stub_cpu option" where
  "stub_step code s =
     (case decode_stub (drop (sc_pc s) code) of
        None \<Rightarrow> None
      | Some (insn, n) \<Rightarrow> Some (exec_stub insn (s \<lparr> sc_pc := sc_pc s + n \<rparr>)))"

fun stub_steps :: "nat \<Rightarrow> byte list \<Rightarrow> stub_cpu \<Rightarrow> stub_cpu option" where
  "stub_steps 0 code s = Some s"
| "stub_steps (Suc n) code s = Option.bind (stub_step code s) (stub_steps n code)"

section \<open>Registers, flags and cells\<close>

lemma al_ah [simp]:
  "get_al (set_al b r) = b" "get_ah (set_al b r) = get_ah r" "get_ah (set_ah b r) = b" "get_al (set_ah b r) = get_al r"
proof -
  have m: "(0xFF :: u64) = mask 8" "(0xFF00 :: u64) = push_bit 8 (mask 8)" by (simp_all add: mask_eq_exp_minus_1)
  show "get_al (set_al b r) = b" "get_ah (set_al b r) = get_ah r" "get_ah (set_ah b r) = b" "get_al (set_ah b r) = get_al r"
    unfolding get_al_def get_ah_def set_al_def set_ah_def m
    by (rule bit_word_eqI; auto simp: bit_unsigned_iff bit_or_iff bit_and_iff bit_not_iff bit_push_bit_iff
        bit_drop_bit_eq bit_mask_iff dest: bit_imp_le_length)+
qed

lemma flags_restored:
  "sahf_flags (lahf_byte fl) (add_flags (if fl_OF fl then 1 else 0 :: byte) 0x7F) = fl"
  by (cases fl) (auto simp: sahf_flags_def lahf_byte_def add_flags_def Let_def bit_numeral_simps)

definition apart8 :: "addr \<Rightarrow> addr \<Rightarrow> bool" where
  "apart8 a b = (set (span a 8) \<inter> set (span b 8) = {})"

lemma load_store_same [simp]: "load64 (store64 a v f) a = v"
  using bytes_at_store[of "word_le v" a f] by (simp add: load64_def store64_def)

lemma store64_outside: "x \<notin> set (span a 8) \<Longrightarrow> store64 a v f x = f x"
  using store_bytes_outside[of x a "word_le v"] by (simp add: store64_def)

lemma load_store_apart: "apart8 a b \<Longrightarrow> load64 (store64 a v f) b = load64 f b"
  unfolding load64_def bytes_at_def apart8_def
  by (rule arg_cong[where f = le_word], rule map_cong[OF refl], rule store64_outside) blast

lemma apart8_sym: "apart8 a b \<Longrightarrow> apart8 b a"
  by (auto simp: apart8_def)

section \<open>The run of the stub\<close>

lemma decode_emitted:
  fixes c t rest
  defines "code \<equiv> emit_tls_increment c t @ rest"
  shows "decode_stub (drop 0x00 code) = Some (Push_Rax, 1)"
    and "decode_stub (drop 0x01 code) = Some (Seto_Al, 3)"
    and "decode_stub (drop 0x04 code) = Some (Lahf, 1)"
    and "decode_stub (drop 0x05 code) = Some (Add_Gs c 1, 10)"
    and "decode_stub (drop 0x0F code) = Some (Push_Rcx, 1)"
    and "decode_stub (drop 0x10 code) = Some (Mov_Rcx_Gs t, 9)"
    and "decode_stub (drop 0x19 code) = Some (Cmp_Gs_Rcx c, 9)"
    and "decode_stub (drop 0x22 code) = Some (Jb 1, 2)"
    and "decode_stub (drop 0x24 code) = Some (Int3, 1)"
    and "decode_stub (drop 0x25 code) = Some (Pop_Rcx, 1)"
    and "decode_stub (drop 0x26 code) = Some (Add_Al 0x7F, 2)"
    and "decode_stub (drop 0x28 code) = Some (Sahf, 1)"
    and "decode_stub (drop 0x29 code) = Some (Pop_Rax, 1)"
  by (simp_all add: code_def emit_tls_increment_def decode_stub_def nth_append drop_Cons' take_Cons')

text \<open>
  The four cells the stub uses do not overlap: the two stack cells below the stack pointer, the
  counter's and the target's thread-local-storage slot.
\<close>

definition stub_cells :: "u32 \<Rightarrow> u32 \<Rightarrow> stub_cpu \<Rightarrow> bool" where
  "stub_cells c t s =
     (let P = sc_rsp s - 8; Q = sc_rsp s - 16; C = sc_gs s + scast c; T = sc_gs s + scast t in
      apart8 P Q \<and> apart8 P C \<and> apart8 P T \<and> apart8 Q C \<and> apart8 Q T \<and> apart8 C T)"

text \<open>
  The states the run goes through, one before every instruction and one behind the last.
\<close>

definition stub_states :: "u32 \<Rightarrow> u32 \<Rightarrow> stub_cpu \<Rightarrow> stub_cpu list" where
  "stub_states c t s =
     (let C = sc_gs s + scast c; T = sc_gs s + scast t; n = load64 (sc_mem s) C + 1; target = load64 (sc_mem s) T;
          fl = sc_flags s;
          m1 = store64 (sc_rsp s - 8) (sc_rax s) (sc_mem s);
          m2 = store64 C n m1;
          m3 = store64 (sc_rsp s - 16) (sc_rcx s) m2;
          al = set_al (if fl_OF fl then 1 else 0) (sc_rax s);
          ax = set_ah (lahf_byte fl) al;
          s1 = s \<lparr> sc_pc := 1, sc_rsp := sc_rsp s - 8, sc_mem := m1 \<rparr>;
          s4 = s1 \<lparr> sc_pc := 4, sc_rax := al \<rparr>;
          s5 = s4 \<lparr> sc_pc := 5, sc_rax := ax \<rparr>;
          sF = s5 \<lparr> sc_pc := 0xF, sc_mem := m2, sc_flags := add_flags (n - 1) 1 \<rparr>;
          s10 = sF \<lparr> sc_pc := 0x10, sc_rsp := sc_rsp s - 16, sc_mem := m3 \<rparr>;
          s19 = s10 \<lparr> sc_pc := 0x19, sc_rcx := target \<rparr>;
          s22 = s19 \<lparr> sc_pc := 0x22, sc_flags := cmp_flags n target \<rparr>;
          s24 = s22 \<lparr> sc_pc := 0x24 \<rparr>;
          s25 = s22 \<lparr> sc_pc := 0x25, sc_traps := sc_traps s @ (if n < target then [] else [0x24]) \<rparr>;
          s26 = s25 \<lparr> sc_pc := 0x26, sc_rcx := sc_rcx s, sc_rsp := sc_rsp s - 8 \<rparr>;
          s28 = s26 \<lparr> sc_pc := 0x28, sc_rax := set_al (get_al ax + 0x7F) ax, sc_flags := add_flags (get_al ax) 0x7F \<rparr>;
          s29 = s28 \<lparr> sc_pc := 0x29, sc_flags := fl \<rparr>;
          s2A = s29 \<lparr> sc_pc := 0x2A, sc_rax := sc_rax s, sc_rsp := sc_rsp s \<rparr>
      in [s, s1, s4, s5, sF, s10, s19, s22] @ (if n < target then [] else [s24]) @ [s25, s26, s28, s29, s2A])"

fun run_through :: "byte list \<Rightarrow> stub_cpu list \<Rightarrow> bool" where
  "run_through code (x # y # xs) = (stub_step code x = Some y \<and> run_through code (y # xs))"
| "run_through code xs = True"

lemma run_through_steps:
  "run_through code (x # xs) \<Longrightarrow> k \<le> length xs \<Longrightarrow> stub_steps k code x = Some ((x # xs) ! k)"
proof (induction k arbitrary: x xs)
  case (Suc k)
  then obtain y ys where "xs = y # ys" by (cases xs) auto
  then show ?case using Suc by simp
qed simp

lemma stub_run:
  assumes "stub_cells c t s" "sc_pc s = 0"
  shows "run_through (emit_tls_increment c t @ rest) (stub_states c t s)"
proof -
  let ?P = "sc_rsp s - 8" and ?Q = "sc_rsp s - 16" and ?C = "sc_gs s + scast c" and ?T = "sc_gs s + scast t"
  have apart: "apart8 ?P ?Q" "apart8 ?P ?C" "apart8 ?P ?T" "apart8 ?Q ?C" "apart8 ?Q ?T" "apart8 ?C ?T"
    using assms(1) by (simp_all add: stub_cells_def Let_def)
  note loads = apart apart[THEN apart8_sym] load_store_apart
  define code where "code = emit_tls_increment c t @ rest"
  note dec = decode_emitted[of c t rest, folded code_def, simplified]
  show ?thesis
    unfolding stub_states_def Let_def code_def[symmetric]
    by (cases "load64 (sc_mem s) ?C + 1 < load64 (sc_mem s) ?T")
      (simp_all add: stub_step_def dec assms(2) push64_def loads Let_def flags_restored cmp_flags_def split del: if_split)
qed

lemma stub_states_simps:
  "hd (stub_states c t s) = s" "length (stub_states c t s) = 13 \<or> length (stub_states c t s) = 14" "stub_states c t s \<noteq> []"
  by (simp_all add: stub_states_def Let_def)

lemma stub_steps_nth:
  assumes "stub_cells c t s" "sc_pc s = 0" "k < length (stub_states c t s)"
  shows "stub_steps k (emit_tls_increment c t @ rest) s = Some (stub_states c t s ! k)"
  using run_through_steps[of _ s "tl (stub_states c t s)" k] stub_run[OF assms(1,2), of rest] assms(3)
    stub_states_simps[of c t s] by (cases "stub_states c t s") auto

lemma stub_end:
  "last (stub_states c t s) =
     s \<lparr> sc_pc := 42,
         sc_mem := store64 (sc_rsp s - 16) (sc_rcx s) (store64 (sc_gs s + scast c) (load64 (sc_mem s) (sc_gs s + scast c) + 1)
           (store64 (sc_rsp s - 8) (sc_rax s) (sc_mem s))),
         sc_traps := sc_traps s @ (if load64 (sc_mem s) (sc_gs s + scast c) + 1 < load64 (sc_mem s) (sc_gs s + scast t)
                                   then [] else [0x24]) \<rparr>"
  by (simp add: stub_states_def Let_def)

text \<open>
  C9: The instrumentation is transparent and counts.  Running the emitted stub from its first byte,
  with the two stack cells and the two thread-local-storage cells apart, gets to its end after at
  most 13 instructions with every register, the six arithmetic flags and the stack pointer as they
  were; the counter has gone up by one, the target is unchanged, no byte outside the counter and the
  two cells below the stack pointer has changed, and the breakpoint in the stub was hit exactly if
  the new count is not below the target.
\<close>

theorem stub_counts_block:
  assumes "stub_cells c t s" "sc_pc s = 0"
  shows "\<exists>k s'. k \<le> 13 \<and> stub_steps k (emit_tls_increment c t @ rest) s = Some s' \<and> sc_pc s' = 42
      \<and> sc_rax s' = sc_rax s \<and> sc_rcx s' = sc_rcx s \<and> sc_rsp s' = sc_rsp s \<and> sc_flags s' = sc_flags s \<and> sc_gs s' = sc_gs s
      \<and> load64 (sc_mem s') (sc_gs s + scast c) = load64 (sc_mem s) (sc_gs s + scast c) + 1
      \<and> load64 (sc_mem s') (sc_gs s + scast t) = load64 (sc_mem s) (sc_gs s + scast t)
      \<and> (\<forall>a. sc_mem s' a = sc_mem s a \<or> a \<in> set (span (sc_gs s + scast c) 8) \<or> a \<in> set (span (sc_rsp s - 16) 8)
            \<or> a \<in> set (span (sc_rsp s - 8) 8))
      \<and> sc_traps s' = sc_traps s @ (if load64 (sc_mem s) (sc_gs s + scast c) + 1 < load64 (sc_mem s) (sc_gs s + scast t)
                                     then [] else [0x24])"
proof -
  let ?xs = "stub_states c t s"
  have apart: "apart8 (sc_rsp s - 8) (sc_gs s + scast c)" "apart8 (sc_rsp s - 16) (sc_gs s + scast c)" "apart8 (sc_rsp s - 8) (sc_gs s + scast t)"
      "apart8 (sc_rsp s - 16) (sc_gs s + scast t)" "apart8 (sc_gs s + scast c) (sc_gs s + scast t)"
    using assms(1) by (simp_all add: stub_cells_def Let_def)
  have run: "stub_steps (length ?xs - 1) (emit_tls_increment c t @ rest) s = Some (last ?xs)"
    using stub_steps_nth[OF assms, of "length ?xs - 1" rest] stub_states_simps[of c t s] by (simp add: last_conv_nth)
  have few: "length ?xs - 1 \<le> 13" using stub_states_simps(2)[of c t s] by auto
  have outside: "sc_mem (last ?xs) a = sc_mem s a"
    if "a \<notin> set (span (sc_gs s + scast c) 8)" "a \<notin> set (span (sc_rsp s - 16) 8)" "a \<notin> set (span (sc_rsp s - 8) 8)" for a
    using that by (simp add: stub_end store64_outside)
  show ?thesis
    by (rule exI[of _ "length ?xs - 1"], rule exI[of _ "last ?xs"], intro conjI few run allI)
      (use outside in \<open>auto simp: stub_end load_store_apart apart apart[THEN apart8_sym]\<close>)
qed

text \<open>
  Before every instruction of the stub, its position is in the table of stack bytes and the stack
  pointer plus the bytes of the table is the stack pointer the block was entered with.
\<close>

lemma stub_stack_bytes:
  assumes "stub_cells c t s" "sc_pc s = 0" "k \<le> 12"
    and "stub_steps k (emit_tls_increment c t @ rest) s = Some s'" "sc_pc s' < 42"
  shows "\<exists>d. map_of tls_instruction_offsets (sc_pc s') = Some d \<and> sc_rsp s' + of_nat d = sc_rsp s"
proof -
  have "s' = stub_states c t s ! k" "k < length (stub_states c t s)"
    using stub_steps_nth[OF assms(1,2), of k rest] assms(3,4) stub_states_simps(2)[of c t s] by auto
  then have "s' \<in> set (stub_states c t s)" by simp
  moreover have "list_all (\<lambda>x. sc_pc x < 42 \<longrightarrow>
      (\<exists>d. map_of tls_instruction_offsets (sc_pc x) = Some d \<and> sc_rsp x + of_nat d = sc_rsp s)) (stub_states c t s)"
    using assms(2) by (simp add: stub_states_def tls_instruction_offsets_def Let_def)
  ultimately show ?thesis using assms(5) by (simp add: list_all_iff)
qed

definition stub_entry :: stub_cpu where
  "stub_entry = \<lparr> sc_pc = 0, sc_rax = 7, sc_rcx = 9, sc_rsp = 0x8000,
     sc_flags = \<lparr> fl_CF = True, fl_PF = False, fl_AF = True, fl_ZF = False, fl_SF = True, fl_OF = True \<rparr>,
     sc_gs = 0x1000, sc_mem = store64 0x2488 1 (\<lambda>_. 0), sc_traps = [] \<rparr>"

lemma stub_entry_cells: "stub_cells 0x1480 0x1488 stub_entry"
  by code_simp

lemma stub_counts_block_witness:
  "\<exists>k s'. k \<le> 13 \<and> stub_steps k (emit_tls_increment 0x1480 0x1488 @ []) stub_entry = Some s'
      \<and> sc_flags s' = sc_flags stub_entry \<and> sc_traps s' = [0x24]"
proof -
  have "load64 (sc_mem stub_entry) 0x2480 + 1 = 1" "load64 (sc_mem stub_entry) 0x2488 = 1" by code_simp+
  then show ?thesis
    using stub_counts_block[OF stub_entry_cells, of "[]"] by (auto simp: stub_entry_def)
qed

end
