(* ===== verification/Branch_Analysis.thy ===== *)
theory Branch_Analysis
  imports Pdb Branch_Stub
begin

text \<open>
  The disassembling half of \<open>src/plugins/cpp/branch_instrumentation.cpp\<close>: finding the branches of every
  function (\<open>classify\<close>, \<open>analyze_module\<close>), the basic blocks between them (\<open>discover_blocks\<close>), and
  moving the first instructions of a block to another place (\<open>relocate_leader\<close>).

  The instruction decoder is Zydis, which is not part of the repository: the record \<open>zydis\<close> holds what
  its calls give.  What the theorems need of it, \<open>zydis_ok\<close>, is documented: an instruction has at
  least one byte, none beyond the buffer, and a 32-bit displacement lies inside it.  A decoder that
  gave an instruction without bytes would keep the loops below from ending; that has no result.
\<close>

section \<open>Instructions\<close>

datatype insn_category = Cat_CondBr | Cat_UncondBr | Cat_Call | Cat_Ret | Cat_Other

text \<open>An immediate may be relative to the instruction; a memory operand may be based on \<open>rip\<close>.\<close>

datatype operand = Op_Immediate bool | Op_Memory bool | Op_Other

record insn =
  in_length :: nat
  in_category :: insn_category
  in_operands :: "operand list"
  in_disp_size :: nat
  in_disp_offset :: nat

text \<open>
  \<open>ZydisDecoderDecodeFull\<close>, \<open>ZydisDecoderDecodeInstruction\<close>, and \<open>ZydisCalcAbsoluteAddress\<close> for the
  operand with an index of an instruction at an address.
\<close>

record zydis =
  zy_decode_full :: "byte list \<Rightarrow> insn option"
  zy_decode_instruction :: "byte list \<Rightarrow> insn option"
  zy_absolute :: "insn \<Rightarrow> nat \<Rightarrow> addr \<Rightarrow> addr option"

definition insn_fits :: "insn \<Rightarrow> byte list \<Rightarrow> bool" where
  "insn_fits i bs = (0 < in_length i \<and> in_length i \<le> length bs \<and> in_length i \<le> 15
     \<and> (in_disp_size i = 32 \<longrightarrow> in_disp_offset i + 4 \<le> in_length i))"

definition zydis_ok :: "zydis \<Rightarrow> bool" where
  "zydis_ok Z = (\<forall>bs i. (zy_decode_full Z bs = Some i \<longrightarrow> insn_fits i bs)
     \<and> (zy_decode_instruction Z bs = Some i \<longrightarrow> insn_fits i bs))"

section \<open>Branches\<close>

datatype branch_kind = BK_Conditional | BK_UnconditionalJmp | BK_Call | BK_Return | BK_IndirectJump | BK_IndirectCall

record branch_site =
  bs_address :: original_address
  bs_next_address :: original_address
  bs_target :: original_address
  bs_length :: nat
  bs_kind :: branch_kind
  bs_is_back_edge :: bool

record loop_info =
  li_header :: original_address
  li_back_edge :: original_address

record function_analysis =
  fa_info :: function_range
  fa_branches :: "branch_site list"
  fa_loops :: "loop_info list"

definition resolve_rel :: "zydis \<Rightarrow> insn \<Rightarrow> original_address \<Rightarrow> original_address option" where
  "resolve_rel Z i a =
     (case List.map_filter (\<lambda>k. if in_operands i ! k = Op_Immediate True then zy_absolute Z i k a else None)
             [0..<length (in_operands i)] of
        [] \<Rightarrow> None | target # _ \<Rightarrow> Some target)"

definition classify :: "zydis \<Rightarrow> insn \<Rightarrow> original_address \<Rightarrow> (original_address \<times> branch_kind) option" where
  "classify Z i a =
     (case in_category i of
        Cat_CondBr \<Rightarrow> (case resolve_rel Z i a of Some t \<Rightarrow> Some (t, BK_Conditional) | None \<Rightarrow> None)
      | Cat_UncondBr \<Rightarrow> (case resolve_rel Z i a of Some t \<Rightarrow> Some (t, BK_UnconditionalJmp) | None \<Rightarrow> Some (0, BK_IndirectJump))
      | Cat_Call \<Rightarrow> (case resolve_rel Z i a of Some t \<Rightarrow> Some (t, BK_Call) | None \<Rightarrow> Some (0, BK_IndirectCall))
      | Cat_Ret \<Rightarrow> Some (0, BK_Return)
      | Cat_Other \<Rightarrow> None)"

definition record_branch :: "zydis \<Rightarrow> insn \<Rightarrow> original_address \<Rightarrow> function_analysis \<Rightarrow> function_analysis" where
  "record_branch Z i a analysis =
     (case classify Z i a of
        None \<Rightarrow> analysis
      | Some (target, kind) \<Rightarrow>
          (let back_edge = (target \<noteq> 0 \<and> fr_start (fa_info analysis) \<le> target \<and> target < a
                            \<and> (kind = BK_Conditional \<or> kind = BK_UnconditionalJmp));
               site = \<lparr> bs_address = a, bs_next_address = a + of_nat (in_length i), bs_target = target,
                        bs_length = in_length i, bs_kind = kind, bs_is_back_edge = back_edge \<rparr>
           in analysis \<lparr> fa_branches := fa_branches analysis @ [site],
                         fa_loops := fa_loops analysis
                           @ (if back_edge then [\<lparr> li_header = target, li_back_edge = a \<rparr>] else []) \<rparr>))"

function analyze_bytes :: "zydis \<Rightarrow> byte list \<Rightarrow> nat \<Rightarrow> function_analysis \<Rightarrow> function_analysis option" where
  "analyze_bytes Z bytes offset analysis =
     (if offset < length bytes then
        case zy_decode_full Z (drop offset bytes) of
          None \<Rightarrow> Some analysis
        | Some i \<Rightarrow>
            if in_length i = 0 then None
            else analyze_bytes Z bytes (offset + in_length i)
                   (record_branch Z i (fr_start (fa_info analysis) + of_nat offset) analysis)
      else Some analysis)"
  by pat_completeness auto
termination by (relation "measure (\<lambda>(Z, bytes, offset, analysis). length bytes - offset)") auto

declare analyze_bytes.simps [simp del]

text \<open>A read that reports success has filled the whole buffer.\<close>

definition analyze_function ::
    "'w win32 \<Rightarrow> zydis \<Rightarrow> function_range \<Rightarrow> ('w, 'z) pdb_state_scheme \<Rightarrow> function_analysis option option" where
  "analyze_function W Z fn s =
     (let size = unat (fr_end fn - fr_start fn) in
      case w_read W (cp_world s) (fr_start fn) (replicate size 0) of
        (False, _) \<Rightarrow> Some None
      | (True, bytes) \<Rightarrow> map_option Some (analyze_bytes Z bytes 0 \<lparr> fa_info = fn, fa_branches = [], fa_loops = [] \<rparr>))"

definition analyze_module ::
    "'w win32 \<Rightarrow> zydis \<Rightarrow> addr \<Rightarrow> ('w, 'z) pdb_state_scheme \<Rightarrow> function_analysis list option" where
  "analyze_module W Z image_base s =
     do { functions \<leftarrow> get_all_functions image_base s;
          foldM (\<lambda>fn result. do { analysis \<leftarrow> analyze_function W Z fn s;
                                   Some (result @ (case analysis of None \<Rightarrow> [] | Some a \<Rightarrow> [a])) }) functions [] }"

section \<open>Basic blocks\<close>

record basic_block =
  bb_start :: original_address
  bb_end :: original_address

definition splits :: "branch_site \<Rightarrow> bool" where
  "splits b = (bs_kind b \<noteq> BK_Call \<and> bs_kind b \<noteq> BK_IndirectCall \<and> bs_kind b \<noteq> BK_Return)"

definition branch_leaders :: "function_range \<Rightarrow> branch_site \<Rightarrow> original_address set" where
  "branch_leaders info b =
     (if splits b \<and> bs_next_address b < fr_end info then {bs_next_address b} else {})
     \<union> (if fr_start info \<le> bs_target b \<and> bs_target b < fr_end info then {bs_target b} else {})"

definition block_leaders :: "function_analysis \<Rightarrow> original_address set" where
  "block_leaders fn =
     fold (\<lambda>b leaders. leaders \<union> branch_leaders (fa_info fn) b) (fa_branches fn) {fr_start (fa_info fn)}"

text \<open>\<open>std::set\<close> is iterated in ascending order.\<close>

definition discover_blocks :: "function_analysis \<Rightarrow> basic_block list" where
  "discover_blocks fn =
     (let leaders = sorted_list_of_set (block_leaders fn) in
      map (\<lambda>i. \<lparr> bb_start = leaders ! i,
                 bb_end = (if i + 1 < length leaders then leaders ! (i + 1) else fr_end (fa_info fn)) \<rparr>)
        [0..<length leaders])"

section \<open>Moving instructions\<close>

definition rip_relative :: "insn \<Rightarrow> bool" where
  "rip_relative i = (Op_Memory True \<in> set (in_operands i) \<and> in_disp_size i = 32)"

function relocate_loop ::
    "zydis \<Rightarrow> byte list \<Rightarrow> original_address \<Rightarrow> addr \<Rightarrow> nat \<Rightarrow> byte list \<Rightarrow> nat list \<Rightarrow> (byte list \<times> nat list) option option" where
  "relocate_loop Z src old_start region_base off out instruction_offsets =
     (if off < length src then
        case zy_decode_full Z (drop off src) of
          None \<Rightarrow> Some None
        | Some i \<Rightarrow>
            if in_length i = 0 then None
            else
              (let insn_start = length out;
                   out = out @ take (in_length i) (drop off src);
                   instruction_offsets = instruction_offsets @ [insn_start];
                   old_disp = le_u32 (take 4 (drop (off + in_disp_offset i) src));
                   delta = sint (old_start + of_nat off) - sint (region_base + of_nat insn_start);
                   nd = sint old_disp + delta
               in if rip_relative i \<and> (nd < int32_min \<or> nd > int32_max) then Some None
                  else relocate_loop Z src old_start region_base (off + in_length i)
                         (if rip_relative i then memcpy_at (insn_start + in_disp_offset i) (u32_le (word_of_int nd)) out else out)
                         instruction_offsets)
      else Some (Some (out, instruction_offsets)))"
  by pat_completeness auto
termination by (relation "measure (\<lambda>(Z, src, old_start, region_base, off, out, offs). length src - off)") auto

declare relocate_loop.simps [simp del]

text \<open>The bytes to move are \<open>src\<close>; what was emitted so far is \<open>out\<close>.\<close>

definition relocate_leader ::
    "zydis \<Rightarrow> byte list \<Rightarrow> original_address \<Rightarrow> addr \<Rightarrow> byte list \<Rightarrow> (byte list \<times> nat list) option option" where
  "relocate_leader Z src old_start region_base out = relocate_loop Z src old_start region_base 0 out []"
section \<open>Blocks tile the function\<close>

lemma fold_union: "fold (\<lambda>x A. A \<union> f x) xs B = B \<union> (\<Union>x\<in>set xs. f x)"
  by (induction xs arbitrary: B) auto

lemma block_leaders_eq: "block_leaders fn = insert (fr_start (fa_info fn)) (\<Union>b\<in>set (fa_branches fn). branch_leaders (fa_info fn) b)"
  by (simp add: block_leaders_def fold_union)

lemma finite_leaders [simp]: "finite (block_leaders fn)"
  by (auto simp: block_leaders_eq branch_leaders_def)

lemma strict_between:
  fixes xs :: "'a::linorder list"
  assumes "sorted xs" "distinct xs" "i < length xs" "xs ! i < a" "Suc i < length xs \<Longrightarrow> a < xs ! Suc i"
  shows "a \<notin> set xs"
proof
  assume "a \<in> set xs"
  then obtain j where j: "j < length xs" "xs ! j = a" by (auto simp: in_set_conv_nth)
  have "i < j" using assms(1,3,4) j by (metis leD leI sorted_nth_mono)
  then have "Suc i < length xs" "xs ! Suc i \<le> xs ! j" using j assms(1) by (auto intro: sorted_nth_mono)
  then show False using assms(5) j(2) by simp
qed

lemma discover_blocks_spec:
  assumes "fr_start (fa_info fn) < fr_end (fa_info fn)"
    and "\<And>b. b \<in> set (fa_branches fn) \<Longrightarrow> fr_start (fa_info fn) \<le> bs_next_address b"
    and "blocks = discover_blocks fn"
  shows "blocks \<noteq> []" "bb_start (hd blocks) = fr_start (fa_info fn)" "bb_end (last blocks) = fr_end (fa_info fn)"
    and "Suc i < length blocks \<Longrightarrow> bb_end (blocks ! i) = bb_start (blocks ! Suc i)"
    and "b \<in> set blocks \<Longrightarrow> bb_start b < bb_end b"
    and "b \<in> set blocks \<Longrightarrow> site \<in> set (fa_branches fn) \<Longrightarrow> \<not> (bb_start b < bs_target site \<and> bs_target site < bb_end b)"
    and "b \<in> set blocks \<Longrightarrow> site \<in> set (fa_branches fn) \<Longrightarrow> splits site \<Longrightarrow>
           \<not> (bb_start b < bs_next_address site \<and> bs_next_address site < bb_end b)"
proof -
  let ?start = "fr_start (fa_info fn)" and ?stop = "fr_end (fa_info fn)"
  define L where "L = sorted_list_of_set (block_leaders fn)"
  have L: "sorted L" "distinct L" "set L = block_leaders fn" by (simp_all add: L_def)
  have bounds: "?start \<le> a \<and> a < ?stop" if "a \<in> set L" for a
    using that assms(1,2) by (auto simp: L(3) block_leaders_eq branch_leaders_def split: if_splits)
  have start: "?start \<in> set L" by (simp add: L(3) block_leaders_eq)
  then have ne: "L \<noteq> []" by auto
  have L0: "L ! 0 = ?start"
    using start bounds[of "L ! 0"] ne L(1) by (metis antisym in_set_conv_nth le0 length_greater_0_conv nth_mem sorted_nth_mono)
  have blocks: "blocks = map (\<lambda>i. \<lparr> bb_start = L ! i, bb_end = (if i + 1 < length L then L ! (i + 1) else ?stop) \<rparr>) [0..<length L]"
    unfolding assms(3) discover_blocks_def L_def[symmetric] Let_def ..
  show "blocks \<noteq> []" using ne by (simp add: blocks)
  show "bb_start (hd blocks) = ?start" using ne L0 by (simp add: blocks hd_map)
  show "bb_end (last blocks) = ?stop" using ne by (simp add: blocks last_map)
  show "Suc i < length blocks \<Longrightarrow> bb_end (blocks ! i) = bb_start (blocks ! Suc i)" by (simp add: blocks)
  have next_above: "L ! k < L ! Suc k" if "Suc k < length L" for k
    using that L(1,2) sorted_wrt_nth_less[of "(<)" L k "Suc k"] by (simp add: strict_sorted_iff)
  have last_below: "L ! k < ?stop" if "k < length L" for k using bounds[of "L ! k"] that by simp
  show "b \<in> set blocks \<Longrightarrow> bb_start b < bb_end b" by (auto simp: blocks next_above last_below)
  have inside: "a \<notin> set L" if b: "b \<in> set blocks" "bb_start b < a" "a < bb_end b" for a
  proof -
    obtain k where k: "k < length L" "bb_start b = L ! k" "bb_end b = (if Suc k < length L then L ! Suc k else ?stop)"
      using b(1) unfolding blocks by auto
    show ?thesis by (rule strict_between[OF L(1,2) k(1)]) (use b(2,3) k in auto)
  qed
  have below: "bb_end b \<le> ?stop" if "b \<in> set blocks" using that by (auto simp: blocks intro: less_imp_le[OF last_below])
  have above: "?start \<le> bb_start b" if "b \<in> set blocks" using that bounds[OF nth_mem] by (auto simp: blocks)
  have leader: "a \<in> set L" if "site \<in> set (fa_branches fn)" "a \<in> branch_leaders (fa_info fn) site" for a
    using that by (auto simp: L(3) block_leaders_eq)
  have inside_bounds: "?start \<le> a" "a < ?stop" if "b \<in> set blocks" "bb_start b < a" "a < bb_end b" for a
    using that above[OF that(1)] below[OF that(1)] by order+
  show "\<not> (bb_start b < bs_target site \<and> bs_target site < bb_end b)" if b: "b \<in> set blocks" "site \<in> set (fa_branches fn)"
    using inside[OF b(1)] inside_bounds[OF b(1)] leader[OF b(2), of "bs_target site"] unfolding branch_leaders_def by auto
  show "\<not> (bb_start b < bs_next_address site \<and> bs_next_address site < bb_end b)"
    if b: "b \<in> set blocks" "site \<in> set (fa_branches fn)" "splits site"
    using inside[OF b(1)] inside_bounds[OF b(1)] leader[OF b(2), of "bs_next_address site"] b(3)
    unfolding branch_leaders_def by auto
qed

lemma word_within:
  fixes a b :: addr
  assumes "a \<le> b" "n \<le> unat (b - a)"
  shows "unat (a + of_nat n) = unat a + n" "a \<le> a + of_nat n" "a + of_nat n \<le> b"
proof -
  have diff: "unat (b - a) = unat b - unat a" using assms(1) by (simp add: unat_sub word_le_nat_alt)
  have "unat b < 2 ^ 64" using unsigned_less[of b] by simp
  then have small: "unat a + n < 2 ^ 64" "unat a + n \<le> unat b"
    using assms diff by (auto simp: word_le_nat_alt)
  have "unat (of_nat n :: addr) = n" using small(1) by (simp add: unat_of_nat take_bit_nat_eq_self)
  then show u: "unat (a + of_nat n) = unat a + n" using small(1) unat_add_lem[of a "of_nat n"] by simp
  show "a \<le> a + of_nat n" "a + of_nat n \<le> b" using u small(2) by (simp_all add: word_le_nat_alt)
qed

text \<open>Where the branches lie that the linear disassembly finds.\<close>

definition site_in :: "function_range \<Rightarrow> nat \<Rightarrow> branch_site \<Rightarrow> bool" where
  "site_in info n b =
     (\<exists>k. k + bs_length b \<le> n \<and> 0 < bs_length b \<and> bs_address b = fr_start info + of_nat k
        \<and> bs_next_address b = fr_start info + of_nat (k + bs_length b))"

lemma record_branch_simps [simp]: "fa_info (record_branch Z i a an) = fa_info an"
  by (simp add: record_branch_def Let_def split: option.split)

lemma analyze_bytes_sites:
  assumes "zydis_ok Z" "\<forall>b\<in>set (fa_branches an). site_in (fa_info an) (length bytes) b"
  shows "\<exists>an'. analyze_bytes Z bytes offset an = Some an' \<and> fa_info an' = fa_info an
    \<and> (\<forall>b\<in>set (fa_branches an'). site_in (fa_info an) (length bytes) b)"
  using assms(2)
proof (induction "length bytes - offset" arbitrary: offset an rule: less_induct)
  case less
  show ?case
  proof (cases "offset < length bytes \<and> zy_decode_full Z (drop offset bytes) \<noteq> None")
    case False
    then show ?thesis using less.prems by (auto simp: analyze_bytes.simps[of Z bytes offset an])
  next
    case True
    then obtain i where i: "zy_decode_full Z (drop offset bytes) = Some i" by auto
    then have "insn_fits i (drop offset bytes)" using assms(1) by (simp add: zydis_ok_def)
    then have fits: "0 < in_length i" "offset + in_length i \<le> length bytes" using True by (auto simp: insn_fits_def)
    let ?an = "record_branch Z i (fr_start (fa_info an) + of_nat offset) an"
    have "\<forall>b\<in>set (fa_branches ?an). site_in (fa_info ?an) (length bytes) b"
      using less.prems fits by (auto simp: record_branch_def Let_def site_in_def split: option.splits)
    moreover have "length bytes - (offset + in_length i) < length bytes - offset" using fits True by auto
    ultimately show ?thesis
      using less.hyps[of "offset + in_length i" ?an] True fits i by (simp add: analyze_bytes.simps[of Z bytes offset an])
  qed
qed

lemma site_in_bounds:
  assumes "site_in info (unat (fr_end info - fr_start info)) b" "fr_start info \<le> fr_end info"
  shows "fr_start info \<le> bs_address b" "bs_address b < bs_next_address b" "fr_start info \<le> bs_next_address b"
    and "bs_next_address b \<le> fr_end info"
proof -
  obtain k where k: "k + bs_length b \<le> unat (fr_end info - fr_start info)" "0 < bs_length b"
      "bs_address b = fr_start info + of_nat k" "bs_next_address b = fr_start info + of_nat (k + bs_length b)"
    using assms(1) unfolding site_in_def by blast
  then show "fr_start info \<le> bs_address b" "fr_start info \<le> bs_next_address b" "bs_next_address b \<le> fr_end info"
    using word_within[OF assms(2), of k] word_within[OF assms(2) k(1)] by simp_all
  show "bs_address b < bs_next_address b"
    using k word_within(1)[OF assms(2), of k] word_within(1)[OF assms(2) k(1)] by (simp add: word_less_nat_alt)
qed

lemma analyze_function_spec:
  assumes "w_bytes_ok W mem" "zydis_ok Z" "fr_start f \<le> fr_end f"
  shows "\<exists>an. analyze_function W Z f s = Some (Some an) \<and> fa_info an = f
    \<and> (\<forall>b\<in>set (fa_branches an). site_in f (unat (fr_end f - fr_start f)) b)"
proof -
  let ?n = "unat (fr_end f - fr_start f)"
  have read: "w_read W (cp_world s) (fr_start f) (replicate ?n 0) = (True, bytes_at (mem (cp_world s)) (fr_start f) ?n)"
    using w_bytes_okD(1)[OF assms(1), of "cp_world s" "fr_start f" "replicate ?n 0"] by simp
  show ?thesis
    using analyze_bytes_sites[OF assms(2), of "\<lparr> fa_info = f, fa_branches = [], fa_loops = [] \<rparr>"
        "bytes_at (mem (cp_world s)) (fr_start f) ?n" 0]
    by (auto simp: analyze_function_def Let_def read)
qed

text \<open>
  C20: The basic blocks of a function tile it.  The disassembly of a function that is not empty always
  ends, and the blocks found from it start at the function's first byte and end at its end; each
  one begins where the one before ends and has at least one byte; and control enters a block only at
  its first instruction: no direct branch of the function targets an address inside a block, and none
  but calls and returns has its following instruction there.
\<close>

theorem blocks_tile_function:
  assumes "w_bytes_ok W mem" "zydis_ok Z" "fr_start f < fr_end f"
  shows "\<exists>an blocks. analyze_function W Z f s = Some (Some an) \<and> blocks = discover_blocks an \<and> blocks \<noteq> []
    \<and> bb_start (hd blocks) = fr_start f \<and> bb_end (last blocks) = fr_end f
    \<and> (\<forall>i. Suc i < length blocks \<longrightarrow> bb_end (blocks ! i) = bb_start (blocks ! Suc i))
    \<and> (\<forall>b\<in>set blocks. bb_start b < bb_end b
         \<and> (\<forall>site\<in>set (fa_branches an). \<not> (bb_start b < bs_target site \<and> bs_target site < bb_end b)
              \<and> (splits site \<longrightarrow> \<not> (bb_start b < bs_next_address site \<and> bs_next_address site < bb_end b))))"
proof -
  obtain an where an: "analyze_function W Z f s = Some (Some an)" "fa_info an = f"
      "\<forall>b\<in>set (fa_branches an). site_in f (unat (fr_end f - fr_start f)) b"
    using analyze_function_spec[OF assms(1,2) less_imp_le[OF assms(3)]] by blast
  have start: "fr_start (fa_info an) < fr_end (fa_info an)" using an(2) assms(3) by simp
  have nexts: "fr_start (fa_info an) \<le> bs_next_address b" if "b \<in> set (fa_branches an)" for b
    using site_in_bounds(3)[of f b] an(2,3) assms(3) that by (simp add: less_imp_le)
  note spec = discover_blocks_spec[OF start nexts refl]
  show ?thesis
    by (rule exI[of _ an], rule exI[of _ "discover_blocks an"], intro conjI an(1) refl allI ballI impI)
      (use spec an(2) in \<open>simp_all\<close>)
qed

section \<open>Moved instructions mean the same\<close>

text \<open>The instructions of a byte list, with their offsets, as the linear disassembly finds them.\<close>

function decoded :: "zydis \<Rightarrow> byte list \<Rightarrow> nat \<Rightarrow> (nat \<times> insn) list option" where
  "decoded Z src off =
     (if off < length src then
        case zy_decode_full Z (drop off src) of
          None \<Rightarrow> None
        | Some i \<Rightarrow> if in_length i = 0 then None
                     else map_option (\<lambda>is. (off, i) # is) (decoded Z src (off + in_length i))
      else Some [])"
  by pat_completeness auto
termination by (relation "measure (\<lambda>(Z, src, off). length src - off)") auto

declare decoded.simps [simp del]

text \<open>
  Where a \<open>rip\<close>-relative operand of an instruction points: the end of the instruction plus the
  signed displacement in its bytes.
\<close>

definition operand_target :: "addr \<Rightarrow> insn \<Rightarrow> byte list \<Rightarrow> addr" where
  "operand_target a i bs = a + of_nat (in_length i) + scast (le_u32 (take 4 (drop (in_disp_offset i) bs)))"

lemma memcpy_at_append: "memcpy_at (length xs + k) d (xs @ ys) = xs @ memcpy_at k d ys"
  by (simp add: memcpy_at_def)

definition same_meaning :: "addr \<Rightarrow> addr \<Rightarrow> insn \<Rightarrow> byte list \<Rightarrow> byte list \<Rightarrow> bool" where
  "same_meaning old_address new_address i old new =
     (if rip_relative i
      then operand_target new_address i new = operand_target old_address i old
           \<and> take (in_disp_offset i) new = take (in_disp_offset i) old
           \<and> drop (in_disp_offset i + 4) new = drop (in_disp_offset i + 4) old
      else new = old)"

lemma relocated_bytes:
  fixes old :: "byte list"
  assumes "in_disp_offset i + 4 \<le> length old"
    and "nd = sint (le_u32 (take 4 (drop (in_disp_offset i) old))) + (sint old_address - sint new_address)"
    and "\<not> (nd < int32_min \<or> nd > int32_max)" "rip_relative i"
  shows "same_meaning old_address new_address i old (memcpy_at (in_disp_offset i) (u32_le (word_of_int nd)) old)"
proof -
  have "(scast (word_of_int nd :: u32) :: addr) = scast (le_u32 (take 4 (drop (in_disp_offset i) old))) + old_address - new_address"
    unfolding scast_rel32[OF assms(3)] unfolding assms(2) of_int_add of_int_diff by (simp add: add_diff_eq)
  then show ?thesis using assms(1,4) by (simp add: same_meaning_def operand_target_def memcpy_at_def)
qed

lemma relocate_loop_spec:
  assumes "zydis_ok Z" "relocate_loop Z src old_start region_base off out offs = Some (Some (out', offs'))"
    and "length out = L + off" "off \<le> length src"
  shows "\<exists>is. decoded Z src off = Some is \<and> offs' = offs @ map (\<lambda>(o1, _). L + o1) is
    \<and> length out' = L + length src \<and> take (length out) out' = out
    \<and> (\<forall>(o1, i)\<in>set is. same_meaning (old_start + of_nat o1) (region_base + of_nat (L + o1)) i
          (take (in_length i) (drop o1 src)) (take (in_length i) (drop (L + o1) out')))"
  using assms(2-4)
proof (induction "length src - off" arbitrary: off out offs rule: less_induct)
  case less
  show ?case
  proof (cases "off < length src")
    case False
    then show ?thesis using less.prems by (simp add: relocate_loop.simps decoded.simps)
  next
    case True
    then obtain i where i: "zy_decode_full Z (drop off src) = Some i"
      using less.prems(1) by (subst (asm) relocate_loop.simps) (auto split: option.splits)
    then have "insn_fits i (drop off src)" using assms(1) by (simp add: zydis_ok_def)
    then have fits: "0 < in_length i" "off + in_length i \<le> length src" "in_disp_size i = 32 \<Longrightarrow> in_disp_offset i + 4 \<le> in_length i"
      using True by (auto simp: insn_fits_def)
    let ?old = "take (in_length i) (drop off src)"
    have old: "length ?old = in_length i" using fits(2) by simp
    define nd where "nd = sint (le_u32 (take 4 (drop (off + in_disp_offset i) src)))
      + (sint (old_start + of_nat off) - sint (region_base + of_nat (length out)))"
    define new where "new = (if rip_relative i then memcpy_at (in_disp_offset i) (u32_le (word_of_int nd)) ?old else ?old)"
    have next_out: "(if rip_relative i then memcpy_at (length out + in_disp_offset i) (u32_le (word_of_int nd)) (out @ ?old)
        else out @ ?old) = out @ new"
      by (simp add: new_def memcpy_at_append)
    have "relocate_loop Z src old_start region_base off out offs =
        (if rip_relative i \<and> (nd < int32_min \<or> nd > int32_max) then Some None
         else relocate_loop Z src old_start region_base (off + in_length i) (out @ new) (offs @ [length out]))"
      using True i fits(1) unfolding next_out[symmetric] nd_def
      by (subst relocate_loop.simps) (simp add: Let_def)
    then have loop: "relocate_loop Z src old_start region_base (off + in_length i) (out @ new) (offs @ [length out])
        = Some (Some (out', offs'))" and fit: "rip_relative i \<Longrightarrow> \<not> (nd < int32_min \<or> nd > int32_max)"
      using less.prems(1) by (auto split: if_splits)
    have meaning: "same_meaning (old_start + of_nat off) (region_base + of_nat (L + off)) i ?old new"
    proof (cases "rip_relative i")
      case rel: True
      then have d: "in_disp_offset i + 4 \<le> in_length i" using fits(3) by (simp add: rip_relative_def)
      then have "take 4 (drop (off + in_disp_offset i) src) = take 4 (drop (in_disp_offset i) ?old)"
        by (simp add: drop_take add.commute)
      then have "nd = sint (le_u32 (take 4 (drop (in_disp_offset i) ?old)))
          + (sint (old_start + of_nat off) - sint (region_base + of_nat (L + off)))"
        using less.prems(2) by (simp add: nd_def)
      then show ?thesis using relocated_bytes[of i ?old nd] d old rel fit by (simp add: new_def)
    next
      case False
      then show ?thesis by (simp add: same_meaning_def new_def)
    qed
    have new: "length new = in_length i"
      using old fits(3) by (auto simp: new_def rip_relative_def)
    have smaller: "length src - (off + in_length i) < length src - off" using True fits(1) by auto
    have "length (out @ new) = L + (off + in_length i)" using less.prems(2) new by simp
    from less.hyps[OF smaller loop this fits(2)] obtain "is" where rest:
        "decoded Z src (off + in_length i) = Some is" "offs' = (offs @ [length out]) @ map (\<lambda>(o1, _). L + o1) is"
        "length out' = L + length src" "take (length (out @ new)) out' = out @ new"
        "\<forall>(o1, i)\<in>set is. same_meaning (old_start + of_nat o1) (region_base + of_nat (L + o1)) i
          (take (in_length i) (drop o1 src)) (take (in_length i) (drop (L + o1) out'))"
      by blast
    have kept: "take (length out) out' = out" using arg_cong[OF rest(4), of "take (length out)"] by simp
    have "take (in_length i) (drop (L + off) out') = new"
      using arg_cong[OF rest(4), of "drop (length out)"] less.prems(2) new by (simp add: drop_take)
    then show ?thesis
      using rest kept meaning True i fits(1) less.prems(2)
      by (intro exI[of _ "(off, i) # is"]) (simp add: decoded.simps[of Z src off])
  qed
qed

text \<open>
  C14: Instructions that are moved into a stub mean what they meant.  When relocation succeeds, the
  new code is what was there, followed by one copy of every instruction at the offsets that are
  reported; each copy is the original byte for byte, except that an instruction with a 32-bit
  displacement from \<open>rip\<close> has a new displacement, with which the operand is at the address it was at
  before.
\<close>

theorem relocated_leader_meaning:
  assumes "zydis_ok Z" "relocate_leader Z src old_start region_base out = Some (Some (out', offs))"
  shows "\<exists>is. decoded Z src 0 = Some is \<and> offs = map (\<lambda>(o1, _). length out + o1) is
    \<and> length out' = length out + length src \<and> take (length out) out' = out
    \<and> (\<forall>(o1, i)\<in>set is. same_meaning (old_start + of_nat o1) (region_base + of_nat (length out + o1)) i
          (take (in_length i) (drop o1 src)) (take (in_length i) (drop (length out + o1) out')))"
  using relocate_loop_spec[OF assms(1), of src old_start region_base 0 out "[]" out' offs "length out"] assms(2)
  by (simp add: relocate_leader_def)

section \<open>A sample decoder\<close>

text \<open>
  A decoder that knows six instructions: \<open>nop\<close>, \<open>ret\<close>, \<open>push rbp\<close>, short jumps (conditional and not)
  and \<open>mov rax, [rip + disp32]\<close>.
\<close>

definition plain_insn :: "nat \<Rightarrow> insn_category \<Rightarrow> insn" where
  "plain_insn n c = \<lparr> in_length = n, in_category = c, in_operands = [], in_disp_size = 0, in_disp_offset = 0 \<rparr>"

definition sample_decode :: "byte list \<Rightarrow> insn option" where
  "sample_decode bs =
     (if bs = [] then None
      else if hd bs = 0x90 \<or> hd bs = 0x55 then Some (plain_insn 1 Cat_Other)
      else if hd bs = 0xC3 then Some (plain_insn 1 Cat_Ret)
      else if hd bs = 0xEB \<and> 2 \<le> length bs then Some ((plain_insn 2 Cat_UncondBr) \<lparr> in_operands := [Op_Immediate True] \<rparr>)
      else if hd bs = 0x75 \<and> 2 \<le> length bs then Some ((plain_insn 2 Cat_CondBr) \<lparr> in_operands := [Op_Immediate True] \<rparr>)
      else if take 3 bs = [0x48, 0x8B, 0x05] \<and> 7 \<le> length bs
        then Some \<lparr> in_length = 7, in_category = Cat_Other, in_operands = [Op_Other, Op_Memory True], in_disp_size = 32,
                    in_disp_offset = 3 \<rparr>
      else None)"

definition sample_zydis :: zydis where
  "sample_zydis = \<lparr> zy_decode_full = sample_decode, zy_decode_instruction = sample_decode,
     zy_absolute = (\<lambda>i k a. Some (a + 2)) \<rparr>"

lemma sample_zydis_ok: "zydis_ok sample_zydis"
  by (auto simp: zydis_ok_def sample_zydis_def sample_decode_def insn_fits_def plain_insn_def Suc_le_eq split: if_splits)

lemma relocated_leader_meaning_witness:
  "\<exists>is. decoded sample_zydis [0x55, 0x48, 0x8B, 0x05, 0x10, 0, 0, 0] 0 = Some is \<and> [42, 43] = map (\<lambda>(o1, _). 42 + o1) is"
proof -
  have run: "relocate_leader sample_zydis [0x55, 0x48, 0x8B, 0x05, 0x10, 0, 0, 0] 0x1000 0x5000 (replicate 42 0)
      = Some (Some (replicate 42 0 @ [0x55, 0x48, 0x8B, 0x05, 0xE6, 0xBF, 0xFF, 0xFF], [42, 43]))"
    by code_simp
  show ?thesis using relocated_leader_meaning[OF sample_zydis_ok run] by auto
qed

lemma blocks_tile_function_witness:
  "\<exists>an. analyze_function flat_win32 sample_zydis \<lparr> fr_start = 0x1010, fr_end = 0x1050, fr_name = ''main'' \<rparr> (sample_pdb (\<lambda>_. 0x90))
      = Some (Some an) \<and> bb_start (hd (discover_blocks an)) = 0x1010"
  using blocks_tile_function[OF flat_win32_ok sample_zydis_ok,
      of "\<lparr> fr_start = 0x1010, fr_end = 0x1050, fr_name = ''main'' \<rparr>" "sample_pdb (\<lambda>_. 0x90)"] by auto

lemma decoded_offsets:
  assumes "zydis_ok Z" "decoded Z src off = Some is"
  shows "sorted_wrt (<) (map fst is) \<and> (\<forall>x\<in>set is. off \<le> fst x \<and> fst x < length src)"
  using assms(2)
proof (induction "length src - off" arbitrary: off "is" rule: less_induct)
  case less
  show ?case
  proof (cases "off < length src")
    case False
    then show ?thesis using less.prems by (simp add: decoded.simps)
  next
    case True
    obtain i rest where i: "zy_decode_full Z (drop off src) = Some i" "0 < in_length i"
        "decoded Z src (off + in_length i) = Some rest" "is = (off, i) # rest"
      using less.prems True by (subst (asm) decoded.simps) (auto split: option.splits if_splits)
    then have "length src - (off + in_length i) < length src - off" using True by auto
    from less.hyps[OF this i(3)] show ?thesis using i True by fastforce
  qed
qed

end
