(* ===== verification/Instrumentation.thy ===== *)
theory Instrumentation
  imports Branch_Analysis Memory_Manager Loops
begin

text \<open>
  The instrumenting half of \<open>src/plugins/cpp/branch_instrumentation.cpp\<close>: a region of code near the
  module, one stub per basic block in it, the detours into the stubs, and the translation between the
  address an instruction had and the address it has been moved to.

  The maps of the source are only looked up, so they are functions.  \<open>bi_rsp_fix\<close> is
  \<open>prologue_rsp_fix_instructions\<close>.
\<close>

record 'w instrumentation = "'w pdb_state" +
  bi_tls_counter_offset :: u32
  bi_tls_target_offset :: u32
  bi_region_base :: addr
  bi_region_size :: u64
  bi_code :: "byte list"
  bi_patches :: "(original_address \<times> byte list) list"
  bi_remap :: "original_address \<rightharpoonup> true_address \<times> u64"
  bi_to_original :: "true_address \<rightharpoonup> original_address"
  bi_rsp_fix :: "true_address \<rightharpoonup> u16"
  bi_skipped :: "original_address list"

section \<open>The region\<close>

abbreviation (input) kReach :: u64 where "kReach \<equiv> 0x40000000"

definition distance :: "addr \<Rightarrow> addr \<Rightarrow> u64" where
  "distance a b = (if a > b then a - b else b - a)"

definition slot_in :: "bool \<Rightarrow> u64 \<Rightarrow> u64 \<Rightarrow> mbi \<Rightarrow> addr" where
  "slot_in up gran room mbi =
     (let region = mbi_BaseAddress mbi in
      if up then and (region + gran - 1) (not (gran - 1))
      else and (region + mbi_RegionSize mbi - room) (not (gran - 1)))"

text \<open>One pass of the search: the address that is looked at next, or what the search returns.\<close>

definition search_round ::
    "'w win32 \<Rightarrow> u64 \<Rightarrow> addr \<Rightarrow> u64 \<Rightarrow> bool \<Rightarrow> addr \<times> 'w \<Rightarrow> ((addr \<times> 'w) + (addr \<times> 'w)) option" where
  "search_round W gran image_base room up = (\<lambda>(a, w).
     case w_virtual_query W w a of
       None \<Rightarrow> Some (Inr (0, w))
     | Some mbi \<Rightarrow>
         (let region = mbi_BaseAddress mbi;
              base = slot_in up gran room mbi;
              fits = (mbi_State mbi = MEM_FREE \<and> mbi_RegionSize mbi \<ge> room
                      \<and> region \<le> base \<and> base + room \<le> region + mbi_RegionSize mbi) in
          if fits \<and> distance base image_base > kReach then Some (Inr (0, w))
          else
            (let (p, w) = (if fits then w_virtual_alloc W w base room (or MEM_COMMIT MEM_RESERVE) PAGE_EXECUTE_READWRITE
                           else (0, w)) in
             if p \<noteq> 0 then Some (Inr (p, w))
             else (let a' = (if up then region + mbi_RegionSize mbi else region - 1) in
                   if \<not> up \<and> region \<le> gran \<or> distance a' image_base > kReach then Some (Inr (0, w))
                   else Some (Inl (a', w))))))"

definition search_near ::
    "'w win32 \<Rightarrow> u64 \<Rightarrow> addr \<Rightarrow> u64 \<Rightarrow> bool \<Rightarrow> 'w \<Rightarrow> (addr \<times> 'w) option" where
  "search_near W gran image_base room up w = loop (search_round W gran image_base room up) (image_base, w)"

definition alloc_near :: "'w win32 \<Rightarrow> u64 \<Rightarrow> addr \<Rightarrow> u64 \<Rightarrow> 'w \<Rightarrow> (addr \<times> 'w) option" where
  "alloc_near W gran image_base room w =
     do { (p, w) \<leftarrow> search_near W gran image_base room True w;
          if p \<noteq> 0 then Some (p, w) else search_near W gran image_base room False w }"

definition create_instrumentation_region ::
    "'w win32 \<Rightarrow> u64 \<Rightarrow> u32 \<Rightarrow> u32 \<Rightarrow> addr \<Rightarrow> u64 \<Rightarrow> ('w, 'z) instrumentation_scheme \<Rightarrow>
      (bool \<times> ('w, 'z) instrumentation_scheme) option" where
  "create_instrumentation_region W gran tls_counter_offset tls_target_offset image_base region_size s =
     do { (base, w) \<leftarrow> alloc_near W gran image_base region_size (cp_world s);
          Some (base \<noteq> 0,
                s \<lparr> cp_world := w, bi_tls_counter_offset := tls_counter_offset, bi_tls_target_offset := tls_target_offset,
                    bi_region_base := base, bi_region_size := region_size \<rparr>) }"

section \<open>One block\<close>

datatype displacement =
    Block_Too_Small
  | Cannot_Displace
  | Displaced nat "(original_address \<times> u64) list"

text \<open>The instructions that make room for the detour: whole ones, at least five bytes, no branch.\<close>

function grow_patch ::
    "zydis \<Rightarrow> byte list \<Rightarrow> original_address \<Rightarrow> original_address \<Rightarrow> nat \<Rightarrow> (original_address \<times> u64) list \<Rightarrow> displacement option" where
  "grow_patch Z buf block_start block_end patch_len displacing =
     (if patch_len < 5 then
        if block_start + of_nat patch_len \<ge> block_end then Some Block_Too_Small
        else case zy_decode_instruction Z (drop patch_len buf) of
          None \<Rightarrow> Some Cannot_Displace
        | Some i \<Rightarrow>
            if in_category i \<in> {Cat_CondBr, Cat_UncondBr, Cat_Call, Cat_Ret} then Some Cannot_Displace
            else if in_length i = 0 then None
            else grow_patch Z buf block_start block_end (patch_len + in_length i)
                   (displacing @ [(block_start + of_nat patch_len, of_nat (in_length i))])
      else Some (Displaced patch_len displacing))"
  by pat_completeness auto
termination by (relation "measure (\<lambda>(Z, buf, s, e, patch_len, d). 5 - patch_len)") auto

declare grow_patch.simps [simp del]

definition skip_block :: "original_address \<Rightarrow> ('w, 'z) instrumentation_scheme \<Rightarrow> ('w, 'z) instrumentation_scheme" where
  "skip_block block_start s = s \<lparr> bi_skipped := bi_skipped s @ [block_start] \<rparr>"

text \<open>The entries of the maps for one stub that begins at \<open>code_mark\<close>.\<close>

definition map_stub ::
    "addr \<Rightarrow> nat \<Rightarrow> original_address \<Rightarrow> ('w, 'z) instrumentation_scheme \<Rightarrow> ('w, 'z) instrumentation_scheme" where
  "map_stub region_base code_mark original =
     fold (\<lambda>(offset, bytes) s.
             (let new_addr = region_base + of_nat offset + of_nat code_mark in
              s \<lparr> bi_to_original := (bi_to_original s)(new_addr \<mapsto> original),
                  bi_rsp_fix := (if offset \<ge> 1 \<and> bi_rsp_fix s new_addr = None
                                 then (bi_rsp_fix s)(new_addr \<mapsto> of_nat bytes) else bi_rsp_fix s) \<rparr>))
       tls_instruction_offsets"

definition map_displaced ::
    "addr \<Rightarrow> ((original_address \<times> u64) \<times> nat) list \<Rightarrow> ('w, 'z) instrumentation_scheme \<Rightarrow> ('w, 'z) instrumentation_scheme" where
  "map_displaced region_base =
     fold (\<lambda>((original, n), offset) s.
             (let new_addr = region_base + of_nat offset in
              s \<lparr> bi_remap := (bi_remap s)(original \<mapsto> (new_addr, n)),
                  bi_to_original := (bi_to_original s)(new_addr \<mapsto> original) \<rparr>))"

definition emit_block ::
    "zydis \<Rightarrow> byte list \<Rightarrow> original_address \<Rightarrow> nat \<Rightarrow> (original_address \<times> u64) list \<Rightarrow> ('w, 'z) instrumentation_scheme \<Rightarrow>
      (addr \<times> ('w, 'z) instrumentation_scheme) option" where
  "emit_block Z buf block_start patch_len displacing s =
     (let region_base = bi_region_base s;
          code_mark = length (bi_code s);
          stub_addr = region_base + of_nat code_mark;
          code = bi_code s @ emit_tls_increment (bi_tls_counter_offset s) (bi_tls_target_offset s) in
      do { relocated \<leftarrow> relocate_leader Z (take patch_len buf) block_start region_base code;
           case relocated of
             None \<Rightarrow> Some (0, skip_block block_start s)
           | Some (code, instruction_offsets) \<Rightarrow>
               (let jmp_offset = length code;
                    code = code @ emit_abs_jmp (block_start + of_nat patch_len) in
                case emit_rel_jmp block_start stub_addr of
                  None \<Rightarrow> Some (0, skip_block block_start s)
                | Some patch \<Rightarrow>
                    if displacing = [] \<or> length instruction_offsets < length displacing then None
                    else
                      (let s = s \<lparr> bi_code := code,
                                   bi_patches := bi_patches s @ [(block_start, resize patch_len 0x90 patch)] \<rparr>;
                           s = map_stub region_base code_mark (fst (hd displacing)) s;
                           s = map_displaced region_base (zip displacing instruction_offsets) s;
                           new_addr = region_base + of_nat jmp_offset
                       in Some (stub_addr, s \<lparr> bi_to_original := (bi_to_original s)(new_addr \<mapsto> block_start + of_nat patch_len) \<rparr>))) })"

definition instrument_block ::
    "'w win32 \<Rightarrow> zydis \<Rightarrow> original_address \<Rightarrow> original_address \<Rightarrow> ('w, 'z) instrumentation_scheme \<Rightarrow>
      (addr \<times> ('w, 'z) instrumentation_scheme) option" where
  "instrument_block W Z block_start block_end s =
     (if bi_region_base s = 0 then Some (0, s)
      else
        (let want = min 32 (unat (block_end - block_start)) in
         case w_read W (cp_world s) block_start (replicate want 0) of
           (False, _) \<Rightarrow> Some (0, skip_block block_start s)
         | (True, buf) \<Rightarrow>
             do { displaced \<leftarrow> grow_patch Z buf block_start block_end 0 [];
                  case displaced of
                    Block_Too_Small \<Rightarrow> Some (0, s)
                  | Cannot_Displace \<Rightarrow> Some (0, skip_block block_start s)
                  | Displaced patch_len displacing \<Rightarrow> emit_block Z buf block_start patch_len displacing s }))"

section \<open>Writing the code\<close>

definition apply_patch ::
    "'w win32 \<Rightarrow> original_address \<times> byte list \<Rightarrow> ('w, 'z) instrumentation_scheme \<Rightarrow> ('w, 'z) instrumentation_scheme" where
  "apply_patch W patch s =
     (let (a, bytes) = patch;
          n = of_nat (length bytes);
          (old_protect, w) = w_virtual_protect W (cp_world s) a n PAGE_EXECUTE_READWRITE;
          w = snd (w_write W w a bytes);
          w = snd (w_virtual_protect W w a n old_protect)
      in s \<lparr> cp_world := w_flush W w a (length bytes) \<rparr>)"

definition commit_instrumentation_region ::
    "'w win32 \<Rightarrow> ('w, 'z) instrumentation_scheme \<Rightarrow> addr \<times> ('w, 'z) instrumentation_scheme" where
  "commit_instrumentation_region W s =
     (if bi_region_base s = 0 then (0, s)
      else
        (let (ok, w) = w_write W (cp_world s) (bi_region_base s) (bi_code s); s = s \<lparr> cp_world := w \<rparr> in
         if \<not> ok then (0, s)
         else (let s = s \<lparr> cp_world := w_flush W (cp_world s) (bi_region_base s) (length (bi_code s)) \<rparr>;
                   s = fold (apply_patch W) (bi_patches s) s
               in (bi_region_base s, s))))"

definition destroy :: "'w win32 \<Rightarrow> ('w, 'z) instrumentation_scheme \<Rightarrow> ('w, 'z) instrumentation_scheme" where
  "destroy W s =
     (let s = (if bi_region_base s \<noteq> 0
               then s \<lparr> cp_world := snd (w_virtual_free W (cp_world s) (bi_region_base s) 0 MEM_RELEASE) \<rparr> else s)
      in s \<lparr> bi_region_base := 0 \<rparr>)"

section \<open>Addresses before and after\<close>

definition get_true_instruction_address ::
    "original_address \<Rightarrow> ('w, 'z) instrumentation_scheme \<Rightarrow> true_address \<times> u64" where
  "get_true_instruction_address original_address s =
     (case bi_remap s original_address of Some r \<Rightarrow> r | None \<Rightarrow> (original_address, 0))"

definition get_original_instruction_address ::
    "true_address \<Rightarrow> ('w, 'z) instrumentation_scheme \<Rightarrow> original_address" where
  "get_original_instruction_address true_address s =
     (case bi_to_original s true_address of Some a \<Rightarrow> a | None \<Rightarrow> true_address)"

definition address_rsp_fix_bytes :: "true_address \<Rightarrow> ('w, 'z) instrumentation_scheme \<Rightarrow> u16" where
  "address_rsp_fix_bytes true_address s = (case bi_rsp_fix s true_address of Some n \<Rightarrow> n | None \<Rightarrow> 0)"

text \<open>
  \<open>instruction_remap_[original_address]\<close> gives a pair of zeros for an address that was not moved, and
  enters it into the map.  The count is a \<open>uint8_t\<close> that goes up by the size of the same
  instruction every time round; with size 0 it stays, and the loop does not end.
\<close>

partial_function (option) count_displaced :: "u64 \<Rightarrow> byte \<Rightarrow> byte option" where
  "count_displaced step c = (if c < 5 then count_displaced step (c + ucast step) else Some c)"

definition get_original_bytes ::
    "'w win32 \<Rightarrow> true_address \<Rightarrow> ('w, 'z) instrumentation_scheme \<Rightarrow> (byte list option \<times> ('w, 'z) instrumentation_scheme) option" where
  "get_original_bytes W true_address s =
     (let original_address = get_original_instruction_address true_address s in
      if original_address = true_address then Some (None, s)
      else
        (let (first_true, step) = (case bi_remap s original_address of Some r \<Rightarrow> r | None \<Rightarrow> (0, 0));
             s = s \<lparr> bi_remap := (bi_remap s)(original_address \<mapsto> (first_true, step)) \<rparr> in
         do { c \<leftarrow> count_displaced step 0;
              let n = unat c;
              Some (Some (snd (w_read W (cp_world s) first_true (replicate n 0))), s) }))"

section \<open>The region is near\<close>

text \<open>
  A successful allocation at an address that is given starts there: the addresses asked for are
  multiples of the allocation granularity.
\<close>

definition w_alloc_ok :: "'w win32 \<Rightarrow> bool" where
  "w_alloc_ok W = (\<forall>w a n t p. fst (w_virtual_alloc W w a n t p) = 0 \<or> fst (w_virtual_alloc W w a n t p) = a)"

lemma search_round_cases:
  assumes "vq_ok W" "w_alloc_ok W"
  shows "(\<exists>a' w'. search_round W gran image_base room up (a, w) = Some (Inl (a', w'))
            \<and> (if up then unat a < unat a' else unat a' < unat a))
       \<or> (\<exists>p w'. search_round W gran image_base room up (a, w) = Some (Inr (p, w')) \<and> (p = 0 \<or> distance p image_base \<le> kReach))"
proof (cases "w_virtual_query W w a")
  case None
  then show ?thesis by (simp add: search_round_def)
next
  case (Some mbi)
  have up: "unat a < unat (mbi_BaseAddress mbi + mbi_RegionSize mbi)" using vq_ok_next(1,2)[OF assms(1) Some] by simp
  have "unat (mbi_BaseAddress mbi) \<le> unat a" using assms(1) Some by (auto simp: vq_ok_def)
  then have down: "unat (mbi_BaseAddress mbi - 1) < unat a" if g: "gran < mbi_BaseAddress mbi"
  proof -
    have "mbi_BaseAddress mbi \<noteq> 0" using g by auto
    then have "unat (mbi_BaseAddress mbi - 1) = unat (mbi_BaseAddress mbi) - 1" "0 < unat (mbi_BaseAddress mbi)"
      by (simp_all add: unat_minus_one unat_gt_0)
    then show ?thesis using \<open>unat (mbi_BaseAddress mbi) \<le> unat a\<close> by linarith
  qed
  let ?base = "slot_in up gran room mbi"
  obtain p w' where p: "w_virtual_alloc W w ?base room (or MEM_COMMIT MEM_RESERVE) PAGE_EXECUTE_READWRITE = (p, w')"
    by force
  then have "p = 0 \<or> p = ?base" using assms(2) unfolding w_alloc_ok_def by (metis fst_conv)
  then show ?thesis
    using up down Some p by (cases up) (auto simp: search_round_def Let_def not_le)
qed


section \<open>What one block adds\<close>

definition code_addr :: "('w, 'z) instrumentation_scheme \<Rightarrow> nat \<Rightarrow> addr" where
  "code_addr s k = bi_region_base s + of_nat k"

text \<open>
  The maps agree with each other and speak of the emitted code only: of its first \<open>n\<close> bytes the
  targets of moved instructions, of its first \<open>N\<close> bytes everything else.
\<close>

definition maps_ok :: "nat \<Rightarrow> nat \<Rightarrow> ('w, 'z) instrumentation_scheme \<Rightarrow> bool" where
  "maps_ok n N s =
     ((\<forall>a t m. bi_remap s a = Some (t, m) \<longrightarrow> bi_to_original s t = Some a \<and> t \<in> code_addr s ` {..<n})
      \<and> dom (bi_to_original s) \<subseteq> code_addr s ` {..<N} \<and> dom (bi_rsp_fix s) \<subseteq> code_addr s ` {..<N})"

lemma code_addr_inj:
  assumes "code_addr s j = code_addr s k" "j < 2 ^ 64" "k < 2 ^ 64"
  shows "j = k"
proof -
  have "unat (of_nat j :: addr) = unat (of_nat k :: addr)" using assms(1) by (simp add: code_addr_def)
  then show ?thesis using assms(2,3) by (simp add: unat_of_nat take_bit_nat_eq_self)
qed

lemma maps_ok_mono:
  assumes "maps_ok n N s" "n \<le> n'" "N \<le> N'"
  shows "maps_ok n' N' s"
proof -
  have "code_addr s ` {..<n} \<subseteq> code_addr s ` {..<n'}" "code_addr s ` {..<N} \<subseteq> code_addr s ` {..<N'}"
    using assms(2,3) by (simp_all add: image_mono)
  then show ?thesis using assms(1) unfolding maps_ok_def by blast
qed

lemma maps_ok_fresh:
  assumes "maps_ok n N s" "n \<le> k" "k < 2 ^ 64"
  shows "bi_remap s a \<noteq> Some (code_addr s k, m)"
proof
  assume "bi_remap s a = Some (code_addr s k, m)"
  then obtain j where "j < n" "code_addr s k = code_addr s j" using assms(1) unfolding maps_ok_def by blast
  then show False using code_addr_inj[of s k j] assms(2,3) by simp
qed

text \<open>\<open>later s s'\<close>: s' comes from s by emitting code behind it and entering its addresses.\<close>

definition later :: "('w, 'z) instrumentation_scheme \<Rightarrow> ('w, 'z) instrumentation_scheme \<Rightarrow> bool" where
  "later s s' =
     (bi_region_base s' = bi_region_base s \<and> cp_world s' = cp_world s
      \<and> bi_tls_counter_offset s' = bi_tls_counter_offset s \<and> bi_tls_target_offset s' = bi_tls_target_offset s
      \<and> take (length (bi_code s)) (bi_code s') = bi_code s \<and> set (bi_patches s) \<subseteq> set (bi_patches s')
      \<and> (\<forall>k < length (bi_code s). bi_to_original s' (code_addr s k) = bi_to_original s (code_addr s k)
            \<and> bi_rsp_fix s' (code_addr s k) = bi_rsp_fix s (code_addr s k)))"

definition same_but_maps :: "('w, 'z) instrumentation_scheme \<Rightarrow> ('w, 'z) instrumentation_scheme \<Rightarrow> bool" where
  "same_but_maps s s' =
     (bi_region_base s' = bi_region_base s \<and> cp_world s' = cp_world s
      \<and> bi_tls_counter_offset s' = bi_tls_counter_offset s \<and> bi_tls_target_offset s' = bi_tls_target_offset s
      \<and> bi_code s' = bi_code s \<and> bi_patches s' = bi_patches s)"

lemma code_addr_cong: "bi_region_base s' = bi_region_base s \<Longrightarrow> code_addr s' = code_addr s"
  by (simp add: code_addr_def fun_eq_iff)

text \<open>Entering the addresses of a stub's own instructions, by induction over the table.\<close>

definition fix_entry :: "nat \<Rightarrow> nat \<Rightarrow> u16 option" where
  "fix_entry offset bytes = (if offset \<ge> 1 then Some (of_nat bytes) else None)"

definition enter_stub_address ::
    "addr \<Rightarrow> nat \<Rightarrow> original_address \<Rightarrow> nat \<times> nat \<Rightarrow> ('w, 'z) instrumentation_scheme \<Rightarrow> ('w, 'z) instrumentation_scheme" where
  "enter_stub_address region_base code_mark original = (\<lambda>(offset, bytes) s.
     (let new_addr = region_base + of_nat offset + of_nat code_mark in
      s \<lparr> bi_to_original := (bi_to_original s)(new_addr \<mapsto> original),
          bi_rsp_fix := (if offset \<ge> 1 \<and> bi_rsp_fix s new_addr = None
                         then (bi_rsp_fix s)(new_addr \<mapsto> of_nat bytes) else bi_rsp_fix s) \<rparr>))"

lemma map_stub_eq: "map_stub region_base code_mark original = fold (enter_stub_address region_base code_mark original) tls_instruction_offsets"
  unfolding map_stub_def enter_stub_address_def ..

lemma enter_stub_spec:
  assumes "maps_ok n N s" "n \<le> mark + o1" "mark + o1 < N'" "N \<le> N'" "N' \<le> 2 ^ 64"
    and "s' = enter_stub_address (bi_region_base s) mark original (o1, b) s"
  shows "same_but_maps s s'" "bi_remap s' = bi_remap s" "maps_ok n N' s'"
    and "bi_to_original s' (code_addr s (mark + o1)) = Some original"
    and "bi_rsp_fix s (code_addr s (mark + o1)) = None \<Longrightarrow> bi_rsp_fix s' (code_addr s (mark + o1)) = fix_entry o1 b"
    and "\<And>k. k < 2 ^ 64 \<Longrightarrow> k \<noteq> mark + o1 \<Longrightarrow> bi_to_original s' (code_addr s k) = bi_to_original s (code_addr s k)
           \<and> bi_rsp_fix s' (code_addr s k) = bi_rsp_fix s (code_addr s k)"
proof -
  have key: "bi_region_base s + of_nat o1 + of_nat mark = code_addr s (mark + o1)"
    by (simp add: code_addr_def ac_simps)
  have s': "s' = s \<lparr> bi_to_original := (bi_to_original s)(code_addr s (mark + o1) \<mapsto> original),
      bi_rsp_fix := (if o1 \<ge> 1 \<and> bi_rsp_fix s (code_addr s (mark + o1)) = None
                     then (bi_rsp_fix s)(code_addr s (mark + o1) \<mapsto> of_nat b) else bi_rsp_fix s) \<rparr>"
    unfolding assms(6) enter_stub_address_def by (simp add: key Let_def)
  have base: "code_addr s' = code_addr s" by (rule code_addr_cong) (simp add: s')
  have fresh: "bi_remap s a \<noteq> Some (code_addr s (mark + o1), m)" for a m
    using maps_ok_fresh[OF assms(1,2)] assms(3,5) by simp
  show "same_but_maps s s'" "bi_remap s' = bi_remap s" by (simp_all add: s' same_but_maps_def)
  show "bi_to_original s' (code_addr s (mark + o1)) = Some original" by (simp add: s')
  show "bi_rsp_fix s (code_addr s (mark + o1)) = None \<Longrightarrow> bi_rsp_fix s' (code_addr s (mark + o1)) = fix_entry o1 b"
    by (simp add: s' fix_entry_def)
  show "bi_to_original s' (code_addr s k) = bi_to_original s (code_addr s k)
      \<and> bi_rsp_fix s' (code_addr s k) = bi_rsp_fix s (code_addr s k)" if "k < 2 ^ 64" "k \<noteq> mark + o1" for k
    using code_addr_inj[of s k "mark + o1"] that assms(3,5) by (auto simp: s')
  have N: "dom (bi_to_original s) \<subseteq> code_addr s ` {..<N'}" "dom (bi_rsp_fix s) \<subseteq> code_addr s ` {..<N'}"
    using maps_ok_mono[OF assms(1) order_refl assms(4)] by (simp_all add: maps_ok_def)
  have new: "code_addr s (mark + o1) \<in> code_addr s ` {..<N'}" using assms(3) by simp
  have "bi_to_original s' t = Some a \<and> t \<in> code_addr s ` {..<n}" if "bi_remap s' a = Some (t, m)" for a t m
    using that assms(1) fresh[of a m] by (auto simp: maps_ok_def s')
  then show "maps_ok n N' s'"
    unfolding maps_ok_def base using N new by (auto simp: s' split: if_splits)
qed

lemma same_but_maps_trans: "same_but_maps s s' \<Longrightarrow> same_but_maps s' s'' \<Longrightarrow> same_but_maps s s''"
  by (simp add: same_but_maps_def)

lemma same_but_maps_base: "same_but_maps s s' \<Longrightarrow> bi_region_base s' = bi_region_base s \<and> code_addr s' = code_addr s"
  by (intro conjI code_addr_cong) (simp_all add: same_but_maps_def)

lemma enter_stubs_spec:
  assumes "maps_ok n N s" "N \<le> N'" "N' \<le> 2 ^ 64" "distinct (map fst xs)"
    and "\<forall>(o1, b)\<in>set xs. n \<le> mark + o1 \<and> mark + o1 < N' \<and> bi_rsp_fix s (code_addr s (mark + o1)) = None"
    and "s' = fold (enter_stub_address (bi_region_base s) mark original) xs s"
  shows "same_but_maps s s' \<and> bi_remap s' = bi_remap s \<and> maps_ok n N' s'
    \<and> (\<forall>(o1, b)\<in>set xs. bi_to_original s' (code_addr s (mark + o1)) = Some original
         \<and> bi_rsp_fix s' (code_addr s (mark + o1)) = fix_entry o1 b)
    \<and> (\<forall>k < 2 ^ 64. k \<notin> (\<lambda>(o1, b). mark + o1) ` set xs \<longrightarrow> bi_to_original s' (code_addr s k) = bi_to_original s (code_addr s k)
         \<and> bi_rsp_fix s' (code_addr s k) = bi_rsp_fix s (code_addr s k))"
  using assms
proof (induction xs arbitrary: s N)
  case Nil
  then show ?case by (simp add: same_but_maps_def maps_ok_mono[OF Nil.prems(1) order_refl Nil.prems(2)])
next
  case (Cons x xs)
  obtain o1 b where x: "x = (o1, b)" by force
  have bounds: "n \<le> mark + o1" "mark + o1 < N'" "bi_rsp_fix s (code_addr s (mark + o1)) = None"
    using Cons.prems(5) x by auto
  define s1 where "s1 = enter_stub_address (bi_region_base s) mark original (o1, b) s"
  note one = enter_stub_spec[OF Cons.prems(1) bounds(1,2) Cons.prems(2,3) s1_def]
  note base = same_but_maps_base[OF one(1)]
  have others: "mark + o2 \<noteq> mark + o1 \<and> mark + o2 < 2 ^ 64" if "(o2, b2) \<in> set xs" for o2 b2
    using that Cons.prems(3,4,5) x by force
  have fresh: "\<forall>(o2, b2)\<in>set xs. n \<le> mark + o2 \<and> mark + o2 < N' \<and> bi_rsp_fix s1 (code_addr s1 (mark + o2)) = None"
  proof (clarify)
    fix o2 b2
    assume mem: "(o2, b2) \<in> set xs"
    then have "n \<le> mark + o2" "mark + o2 < N'" "bi_rsp_fix s (code_addr s (mark + o2)) = None" using Cons.prems(5) by auto
    then show "n \<le> mark + o2 \<and> mark + o2 < N' \<and> bi_rsp_fix s1 (code_addr s1 (mark + o2)) = None"
      using one(6)[of "mark + o2"] others[OF mem] base by simp
  qed
  have "distinct (map fst xs)" using Cons.prems(4) by simp
  have "s' = fold (enter_stub_address (bi_region_base s1) mark original) xs s1" using Cons.prems(6) base by (simp add: x s1_def)
  note IH = Cons.IH[OF one(3) order_refl Cons.prems(3) \<open>distinct (map fst xs)\<close> fresh this, unfolded base[THEN conjunct2]]
  have first: "mark + o1 < 2 ^ 64" "mark + o1 \<notin> (\<lambda>(o1, b). mark + o1) ` set xs"
    using bounds(2) Cons.prems(3) others[of o1] by auto
  have kept: "bi_to_original s' (code_addr s (mark + o1)) = Some original"
      "bi_rsp_fix s' (code_addr s (mark + o1)) = fix_entry o1 b"
    using IH first one(4) one(5)[OF bounds(3)] by auto
  have rest: "bi_to_original s' (code_addr s k) = bi_to_original s (code_addr s k)
      \<and> bi_rsp_fix s' (code_addr s k) = bi_rsp_fix s (code_addr s k)"
    if "k < 2 ^ 64" "k \<notin> (\<lambda>(o1, b). mark + o1) ` set (x # xs)" for k
    using that IH one(6)[of k] x by auto
  show ?case
    using IH kept rest one(2) same_but_maps_trans[OF one(1)] by (auto simp: x)
qed

definition enter_displaced ::
    "addr \<Rightarrow> (original_address \<times> u64) \<times> nat \<Rightarrow> ('w, 'z) instrumentation_scheme \<Rightarrow> ('w, 'z) instrumentation_scheme" where
  "enter_displaced region_base = (\<lambda>((original, n), offset) s.
     (let new_addr = region_base + of_nat offset in
      s \<lparr> bi_remap := (bi_remap s)(original \<mapsto> (new_addr, n)),
          bi_to_original := (bi_to_original s)(new_addr \<mapsto> original) \<rparr>))"

lemma map_displaced_eq: "map_displaced region_base = fold (enter_displaced region_base)"
  unfolding map_displaced_def enter_displaced_def ..

lemma enter_displaced_spec:
  assumes "maps_ok n N s" "n \<le> k" "k < N'" "N \<le> N'" "N' \<le> 2 ^ 64"
    and "s' = enter_displaced (bi_region_base s) ((original, m), k) s"
  shows "same_but_maps s s'" "bi_rsp_fix s' = bi_rsp_fix s" "maps_ok (Suc k) N' s'"
    and "\<And>j. j < k \<Longrightarrow> bi_to_original s' (code_addr s j) = bi_to_original s (code_addr s j)"
proof -
  have s': "s' = s \<lparr> bi_remap := (bi_remap s)(original \<mapsto> (code_addr s k, m)),
      bi_to_original := (bi_to_original s)(code_addr s k \<mapsto> original) \<rparr>"
    unfolding assms(6) enter_displaced_def by (simp add: code_addr_def Let_def)
  have base: "code_addr s' = code_addr s" by (rule code_addr_cong) (simp add: s')
  have fresh: "bi_remap s a \<noteq> Some (code_addr s k, m')" for a m'
    using maps_ok_fresh[OF assms(1,2)] assms(3,5) by simp
  show "same_but_maps s s'" "bi_rsp_fix s' = bi_rsp_fix s" by (simp_all add: s' same_but_maps_def)
  show "bi_to_original s' (code_addr s j) = bi_to_original s (code_addr s j)" if "j < k" for j
    using code_addr_inj[of s j k] that assms(3,5) by (auto simp: s')
  have mono: "maps_ok (Suc k) N' s" by (rule maps_ok_mono[OF assms(1)]) (use assms in auto)
  have new: "code_addr s k \<in> code_addr s ` {..<Suc k}" "code_addr s k \<in> code_addr s ` {..<N'}" using assms(3) by auto
  have "bi_to_original s' t = Some a \<and> t \<in> code_addr s ` {..<Suc k}" if r: "bi_remap s' a = Some (t, m')" for a t m'
  proof (cases "a = original")
    case True
    then show ?thesis using r new(1) by (simp add: s')
  next
    case False
    then have old: "bi_remap s a = Some (t, m')" using r by (simp add: s')
    then have "t \<noteq> code_addr s k" using fresh[of a m'] by auto
    then show ?thesis using old mono by (auto simp: maps_ok_def s')
  qed
  then show "maps_ok (Suc k) N' s'"
    unfolding maps_ok_def base using mono new(2) by (auto simp: maps_ok_def s')
qed

lemma enter_all_displaced_spec:
  assumes "maps_ok n N s" "n \<le> N'" "N \<le> N'" "N' \<le> 2 ^ 64" "sorted_wrt (<) (map snd xs)" "\<forall>x\<in>set xs. n \<le> snd x \<and> snd x < N'"
    and "s' = fold (enter_displaced (bi_region_base s)) xs s"
  shows "same_but_maps s s' \<and> bi_rsp_fix s' = bi_rsp_fix s \<and> maps_ok N' N' s'
    \<and> (\<forall>j < n. bi_to_original s' (code_addr s j) = bi_to_original s (code_addr s j))"
  using assms
proof (induction xs arbitrary: s n N)
  case Nil
  then show ?case by (simp add: same_but_maps_def maps_ok_mono[OF Nil.prems(1-3)])
next
  case (Cons x xs)
  obtain original m k where x: "x = ((original, m), k)" by (metis surj_pair)
  have k: "n \<le> k" "k < N'" using Cons.prems(6) x by auto
  define s1 where "s1 = enter_displaced (bi_region_base s) ((original, m), k) s"
  note one = enter_displaced_spec[OF Cons.prems(1) k Cons.prems(3,4) s1_def]
  note base = same_but_maps_base[OF one(1)]
  have above: "\<forall>y\<in>set xs. Suc k \<le> snd y \<and> snd y < N'" using Cons.prems(5,6) x by (auto simp: Suc_le_eq)
  have "Suc k \<le> N'" "sorted_wrt (<) (map snd xs)" using k(2) Cons.prems(5) by auto
  have "s' = fold (enter_displaced (bi_region_base s1)) xs s1" using Cons.prems(7) base by (simp add: x s1_def)
  note IH = Cons.IH[OF one(3) \<open>Suc k \<le> N'\<close> order_refl Cons.prems(4) \<open>sorted_wrt (<) (map snd xs)\<close> above this,
      unfolded base[THEN conjunct2]]
  show ?case
    using IH one(2) one(4) k(1) same_but_maps_trans[OF one(1)] by auto
qed

lemma enter_code [simp]:
  "bi_code (enter_stub_address r m a x s) = bi_code s"
  "bi_code (fold (enter_stub_address r m a) xs s) = bi_code s"
  "bi_code (fold (enter_displaced r) ys s) = bi_code s"
proof -
  show *: "bi_code (enter_stub_address r m a x s) = bi_code s" for x and s :: "('w, 'z) instrumentation_scheme"
    by (simp add: enter_stub_address_def Let_def split: prod.split)
  show "bi_code (fold (enter_stub_address r m a) xs s) = bi_code s" by (induction xs arbitrary: s) (simp_all add: *)
  show "bi_code (fold (enter_displaced r) ys s) = bi_code s"
    by (induction ys arbitrary: s) (simp_all add: enter_displaced_def Let_def split: prod.split)
qed

lemma tls_offsets: "distinct (map fst tls_instruction_offsets)" "\<forall>(o1, b)\<in>set tls_instruction_offsets. o1 < 42"
  "(o1, b) \<in> set tls_instruction_offsets \<Longrightarrow> \<not> 1 \<le> o1 \<Longrightarrow> b = 0"
  by (auto simp: tls_instruction_offsets_def)

lemma emit_block_cases:
  assumes "emit_block Z buf b p displacing s = Some (stub, s')"
  shows "(stub = 0 \<and> s' = skip_block b s)
    \<or> (\<exists>code offs patch. relocate_leader Z (take p buf) b (bi_region_base s)
            (bi_code s @ emit_tls_increment (bi_tls_counter_offset s) (bi_tls_target_offset s)) = Some (Some (code, offs))
         \<and> emit_rel_jmp b (bi_region_base s + of_nat (length (bi_code s))) = Some patch
         \<and> stub = bi_region_base s + of_nat (length (bi_code s))
         \<and> s' = (let s1 = s \<lparr> bi_code := code @ emit_abs_jmp (b + of_nat p),
                                bi_patches := bi_patches s @ [(b, resize p 0x90 patch)] \<rparr>;
                      s2 = map_stub (bi_region_base s) (length (bi_code s)) (fst (hd displacing)) s1;
                      s3 = map_displaced (bi_region_base s) (zip displacing offs) s2
                  in s3 \<lparr> bi_to_original := (bi_to_original s3)(bi_region_base s + of_nat (length code) \<mapsto> b + of_nat p) \<rparr>))"
  using assms by (auto simp: emit_block_def Let_def split: option.splits if_splits bind_splits prod.splits)

lemma emit_block_failed:
  assumes "zydis_ok Z" "emit_block Z buf b p displacing s = Some (0, s')" "bi_region_base s \<noteq> 0"
    and "unat (bi_region_base s) + length (bi_code s') < 2 ^ 64"
  shows "s' = skip_block b s"
proof (rule ccontr)
  assume "s' \<noteq> skip_block b s"
  then obtain code offs where run: "relocate_leader Z (take p buf) b (bi_region_base s)
      (bi_code s @ emit_tls_increment (bi_tls_counter_offset s) (bi_tls_target_offset s)) = Some (Some (code, offs))"
      "0 = bi_region_base s + of_nat (length (bi_code s))" "bi_code s' = code @ emit_abs_jmp (b + of_nat p)"
    using emit_block_cases[OF assms(2)] by (auto simp: Let_def map_stub_eq map_displaced_eq)
  have "length (bi_code s) \<le> length code" using relocated_leader_meaning[OF assms(1) run(1)] by auto
  then have small: "unat (bi_region_base s) + length (bi_code s) < 2 ^ 64" using assms(4) run(3) by simp
  then have "unat (of_nat (length (bi_code s)) :: addr) = length (bi_code s)" by (simp add: unat_of_nat take_bit_nat_eq_self)
  then have "unat (bi_region_base s + of_nat (length (bi_code s))) = unat (bi_region_base s) + length (bi_code s)"
    using small unat_add_lem[of "bi_region_base s" "of_nat (length (bi_code s))"] by simp
  then have "unat (bi_region_base s) = 0" using run(2) by simp
  then show False using assms(3) by (simp add: unat_eq_0)
qed

lemma emit_block_spec:
  assumes "zydis_ok Z" "maps_ok (length (bi_code s)) (length (bi_code s)) s" "bi_region_base s \<noteq> 0"
    and "emit_block Z buf b p displacing s = Some (stub, s')" "unat (bi_region_base s) + length (bi_code s') < 2 ^ 64"
    and "stub \<noteq> 0"
  shows "stub = code_addr s (length (bi_code s)) \<and> later s s' \<and> maps_ok (length (bi_code s')) (length (bi_code s')) s'
    \<and> (\<exists>moved patch. bi_code s' = bi_code s @ emit_tls_increment (bi_tls_counter_offset s) (bi_tls_target_offset s)
              @ moved @ emit_abs_jmp (b + of_nat p)
         \<and> emit_rel_jmp b stub = Some patch \<and> bi_patches s' = bi_patches s @ [(b, resize p 0x90 patch)])
    \<and> (\<forall>(o1, d)\<in>set tls_instruction_offsets.
         bi_to_original s' (code_addr s (length (bi_code s) + o1)) = Some (fst (hd displacing))
         \<and> bi_rsp_fix s' (code_addr s (length (bi_code s) + o1)) = fix_entry o1 d)"
proof -
  let ?base = "bi_region_base s" and ?mark = "length (bi_code s)"
  define pre where "pre = bi_code s @ emit_tls_increment (bi_tls_counter_offset s) (bi_tls_target_offset s)"
  have lpre: "length pre = ?mark + 42" by (simp add: pre_def)
  obtain code offs patch where run: "relocate_leader Z (take p buf) b ?base pre = Some (Some (code, offs))"
      "emit_rel_jmp b (?base + of_nat ?mark) = Some patch" "stub = ?base + of_nat ?mark"
      "s' = (let s1 = s \<lparr> bi_code := code @ emit_abs_jmp (b + of_nat p), bi_patches := bi_patches s @ [(b, resize p 0x90 patch)] \<rparr>;
                 s2 = map_stub ?base ?mark (fst (hd displacing)) s1;
                 s3 = map_displaced ?base (zip displacing offs) s2
             in s3 \<lparr> bi_to_original := (bi_to_original s3)(?base + of_nat (length code) \<mapsto> b + of_nat p) \<rparr>)"
    using emit_block_cases[OF assms(4)] assms(6) unfolding pre_def[symmetric] Let_def by blast
  obtain "is" where moved: "decoded Z (take p buf) 0 = Some is" "offs = map (\<lambda>(o1, _). length pre + o1) is"
      "length code = length pre + length (take p buf)" "take (length pre) code = pre"
    using relocated_leader_meaning[OF assms(1) run(1)] by blast
  let ?jmp = "length code" and ?code = "code @ emit_abs_jmp (b + of_nat p)"
  define s1 where "s1 = s \<lparr> bi_code := ?code, bi_patches := bi_patches s @ [(b, resize p 0x90 patch)] \<rparr>"
  define s2 where "s2 = map_stub ?base ?mark (fst (hd displacing)) s1"
  define s3 where "s3 = map_displaced ?base (zip displacing offs) s2"
  have s': "s' = enter_stub_address ?base ?jmp (b + of_nat p) (0, 0) s3"
    unfolding run(4) s1_def[symmetric] Let_def s2_def[symmetric] s3_def[symmetric] by (simp add: enter_stub_address_def Let_def)
  have base1: "bi_region_base s1 = ?base" "code_addr s1 = code_addr s"
    by (simp_all add: s1_def code_addr_def fun_eq_iff)
  have ok1: "maps_ok ?mark ?mark s1" using assms(2) unfolding maps_ok_def base1 by (simp add: s1_def)
  have code': "bi_code s' = ?code" unfolding s' s3_def s2_def s1_def map_stub_eq map_displaced_eq by simp
  have small: "?jmp + 14 < 2 ^ 64" using assms(5) by (simp add: code')
  have jmp: "?mark + 42 \<le> ?jmp" using moved(3) lpre by simp
  have fresh: "bi_rsp_fix s1 (code_addr s1 k) = None" if "?mark \<le> k" "k < 2 ^ 64" for k
  proof (rule ccontr)
    assume "bi_rsp_fix s1 (code_addr s1 k) \<noteq> None"
    then obtain j where "j < ?mark" "code_addr s1 k = code_addr s1 j" using ok1 unfolding maps_ok_def by blast
    then show False using code_addr_inj[of s1 k j] that by simp
  qed
  have "\<forall>(o1, d)\<in>set tls_instruction_offsets. ?mark \<le> ?mark + o1 \<and> ?mark + o1 < ?mark + 42
      \<and> bi_rsp_fix s1 (code_addr s1 (?mark + o1)) = None"
    using tls_offsets(2) fresh small jmp by fastforce
  note two = enter_stubs_spec[OF ok1 _ _ tls_offsets(1) this, of s2 "fst (hd displacing)", unfolded base1, OF _ _
      s2_def[unfolded map_stub_eq]]
  have bounds: "?mark \<le> ?mark + 42" "?mark + 42 \<le> 2 ^ 64" using small jmp by simp_all
  note two = two[OF bounds]
  have before: "k < 2 ^ 64 \<and> k \<notin> (\<lambda>(o1, b). ?mark + o1) ` set tls_instruction_offsets" if "k < ?mark" for k
    using that bounds by auto
  have two: "same_but_maps s1 s2" "maps_ok ?mark (?mark + 42) s2"
      "\<forall>(o1, d)\<in>set tls_instruction_offsets. bi_to_original s2 (code_addr s (?mark + o1)) = Some (fst (hd displacing))
         \<and> bi_rsp_fix s2 (code_addr s (?mark + o1)) = fix_entry o1 d"
      "\<And>k. k < ?mark \<Longrightarrow> bi_to_original s2 (code_addr s k) = bi_to_original s (code_addr s k)
         \<and> bi_rsp_fix s2 (code_addr s k) = bi_rsp_fix s (code_addr s k)"
  proof -
    show "same_but_maps s1 s2" "maps_ok ?mark (?mark + 42) s2"
      "\<forall>(o1, d)\<in>set tls_instruction_offsets. bi_to_original s2 (code_addr s (?mark + o1)) = Some (fst (hd displacing))
         \<and> bi_rsp_fix s2 (code_addr s (?mark + o1)) = fix_entry o1 d"
      using two by simp_all
    show "bi_to_original s2 (code_addr s k) = bi_to_original s (code_addr s k)
         \<and> bi_rsp_fix s2 (code_addr s k) = bi_rsp_fix s (code_addr s k)" if "k < ?mark" for k
      using two before[OF that] by (simp add: s1_def)
  qed
  have base2: "bi_region_base s2 = ?base" "code_addr s2 = code_addr s"
    using same_but_maps_base[OF two(1)] base1 by simp_all
  note dec = decoded_offsets[OF assms(1) moved(1)]
  have sorted: "sorted_wrt (<) offs" using dec by (simp add: moved(2) sorted_wrt_map case_prod_unfold)
  have within: "?mark + 42 \<le> k \<and> k < ?jmp" if "k \<in> set offs" for k
    using that dec moved(3) lpre by (auto simp: moved(2))
  have offs: "sorted_wrt (<) (map snd (zip displacing offs))" "\<forall>x\<in>set (zip displacing offs). ?mark + 42 \<le> snd x \<and> snd x < ?jmp"
  proof -
    show "sorted_wrt (<) (map snd (zip displacing offs))" using sorted by (simp add: map_snd_zip_take sorted_wrt_take)
    show "\<forall>x\<in>set (zip displacing offs). ?mark + 42 \<le> snd x \<and> snd x < ?jmp"
      using within by (metis set_zip_rightD surjective_pairing)
  qed
  have ok2: "maps_ok (?mark + 42) (?mark + 42) s2" by (rule maps_ok_mono[OF two(2)]) simp_all
  note three = enter_all_displaced_spec[OF ok2 jmp jmp _ offs, of s3, unfolded base2, OF _ s3_def[unfolded map_displaced_eq]]
  have three: "same_but_maps s2 s3" "bi_rsp_fix s3 = bi_rsp_fix s2" "maps_ok ?jmp ?jmp s3"
      "\<And>j. j < ?mark + 42 \<Longrightarrow> bi_to_original s3 (code_addr s j) = bi_to_original s2 (code_addr s j)"
    using three small by auto
  have base3: "bi_region_base s3 = ?base" "code_addr s3 = code_addr s"
    using same_but_maps_base[OF three(1)] base2 by simp_all
  have four: "same_but_maps s3 s'" "maps_ok ?jmp (?jmp + 14) s'"
      "\<And>k. k < 2 ^ 64 \<Longrightarrow> k \<noteq> ?jmp \<Longrightarrow> bi_to_original s' (code_addr s k) = bi_to_original s3 (code_addr s k)
           \<and> bi_rsp_fix s' (code_addr s k) = bi_rsp_fix s3 (code_addr s k)"
    using enter_stub_spec[OF three(3), of ?jmp 0 "?jmp + 14" s' "b + of_nat p" 0, unfolded base3, OF _ _ _ _ s'] small by simp_all
  have kept: "bi_to_original s' (code_addr s k) = bi_to_original s2 (code_addr s k)
      \<and> bi_rsp_fix s' (code_addr s k) = bi_rsp_fix s2 (code_addr s k)" if "k < ?mark + 42" for k
  proof -
    have "k < 2 ^ 64" "k \<noteq> ?jmp" using that small jmp by auto
    then show ?thesis using four(3)[of k] three(2) three(4)[OF that] by simp
  qed
  have fields: "same_but_maps s1 s'" using two(1) three(1) four(1) same_but_maps_trans by blast
  have code: "code = pre @ drop (length pre) code" using moved(4) by (metis append_take_drop_id)
  show ?thesis
  proof (intro conjI)
    show "stub = code_addr s ?mark" using run(3) by (simp add: code_addr_def)
    show "maps_ok (length (bi_code s')) (length (bi_code s')) s'" using maps_ok_mono[OF four(2)] by (simp add: code')
    have "take ?mark ?code = bi_code s" using code by (metis pre_def append.assoc append_eq_conv_conj)
    then show "later s s'"
      unfolding later_def using fields kept two(4) by (auto simp: same_but_maps_def s1_def code')
    show "\<exists>moved patch. bi_code s' = bi_code s @ emit_tls_increment (bi_tls_counter_offset s) (bi_tls_target_offset s)
              @ moved @ emit_abs_jmp (b + of_nat p)
         \<and> emit_rel_jmp b stub = Some patch \<and> bi_patches s' = bi_patches s @ [(b, resize p 0x90 patch)]"
    proof (intro exI conjI)
      show "bi_code s' = bi_code s @ emit_tls_increment (bi_tls_counter_offset s) (bi_tls_target_offset s)
          @ drop (length pre) code @ emit_abs_jmp (b + of_nat p)"
        unfolding code' by (subst code) (simp add: pre_def)
      show "emit_rel_jmp b stub = Some patch" using run(2,3) by simp
      show "bi_patches s' = bi_patches s @ [(b, resize p 0x90 patch)]" using fields by (simp add: same_but_maps_def s1_def)
    qed
    show "\<forall>(o1, d)\<in>set tls_instruction_offsets. bi_to_original s' (code_addr s (?mark + o1)) = Some (fst (hd displacing))
         \<and> bi_rsp_fix s' (code_addr s (?mark + o1)) = fix_entry o1 d"
      using two(3) kept tls_offsets(2) by fastforce
  qed
qed

section \<open>Instrumenting many blocks\<close>

lemma grow_patch_spec:
  assumes "grow_patch Z buf b e n acc = Some (Displaced p ds)"
  shows "5 \<le> p \<and> (\<exists>more. ds = acc @ more \<and> (n < 5 \<longrightarrow> more \<noteq> [] \<and> fst (hd more) = b + of_nat n))"
  using assms
proof (induction "5 - n" arbitrary: n acc rule: less_induct)
  case less
  show ?case
  proof (cases "n < 5")
    case False
    then show ?thesis using less.prems by (simp add: grow_patch.simps)
  next
    case True
    obtain i :: insn where i: "0 < in_length i"
        "grow_patch Z buf b e (n + in_length i) (acc @ [(b + of_nat n, of_nat (in_length i))]) = Some (Displaced p ds)"
      using less.prems[unfolded grow_patch.simps[of Z buf b e n acc]] True by (auto split: option.splits if_splits)
    have "5 - (n + in_length i) < 5 - n" using True i(1) by simp
    from less.hyps[OF this i(2)] show ?thesis by auto
  qed
qed

definition stub_ok :: "('w, 'z) instrumentation_scheme \<Rightarrow> original_address \<Rightarrow> byte list \<Rightarrow> bool" where
  "stub_ok s b patch =
     (\<exists>pre moved rest p rel.
        bi_code s = pre @ emit_tls_increment (bi_tls_counter_offset s) (bi_tls_target_offset s) @ moved
                      @ emit_abs_jmp (b + of_nat p) @ rest
        \<and> emit_rel_jmp b (code_addr s (length pre)) = Some rel \<and> patch = resize p 0x90 rel \<and> 5 \<le> p
        \<and> (\<forall>(o1, d)\<in>set tls_instruction_offsets.
             bi_to_original s (code_addr s (length pre + o1)) = Some b
             \<and> bi_rsp_fix s (code_addr s (length pre + o1)) = fix_entry o1 d))"

definition bi_ok :: "('w, 'z) instrumentation_scheme \<Rightarrow> bool" where
  "bi_ok s = (maps_ok (length (bi_code s)) (length (bi_code s)) s \<and> bi_region_base s \<noteq> 0
     \<and> (\<forall>(b, patch)\<in>set (bi_patches s). stub_ok s b patch))"

lemma laterD:
  assumes "later s s'"
  shows "\<exists>more. bi_code s' = bi_code s @ more" "code_addr s' = code_addr s" "bi_region_base s' = bi_region_base s"
  using assms code_addr_cong[of s' s] unfolding later_def by (metis append_take_drop_id)+

lemma stub_ok_later:
  assumes "later s s'" "stub_ok s b patch"
  shows "stub_ok s' b patch"
proof -
  obtain pre moved rest p rel where st:
      "bi_code s = pre @ emit_tls_increment (bi_tls_counter_offset s) (bi_tls_target_offset s) @ moved
         @ emit_abs_jmp (b + of_nat p) @ rest"
      "emit_rel_jmp b (code_addr s (length pre)) = Some rel" "patch = resize p 0x90 rel" "5 \<le> p"
      "\<forall>(o1, d)\<in>set tls_instruction_offsets. bi_to_original s (code_addr s (length pre + o1)) = Some b
         \<and> bi_rsp_fix s (code_addr s (length pre + o1)) = fix_entry o1 d"
    using assms(2) unfolding stub_ok_def by blast
  obtain more where more: "bi_code s' = bi_code s @ more" using laterD(1)[OF assms(1)] by blast
  have "length pre + o1 < length (bi_code s)" if "(o1, d) \<in> set tls_instruction_offsets" for o1 d
    using that tls_offsets(2) by (force simp: st(1))
  then have kept: "\<forall>(o1, d)\<in>set tls_instruction_offsets. bi_to_original s' (code_addr s (length pre + o1)) = Some b
         \<and> bi_rsp_fix s' (code_addr s (length pre + o1)) = fix_entry o1 d"
    using st(5) assms(1) unfolding later_def by fastforce
  show ?thesis
    unfolding stub_ok_def laterD(2)[OF assms(1)]
    by (rule exI[of _ pre], rule exI[of _ moved], rule exI[of _ "rest @ more"], rule exI[of _ p], rule exI[of _ rel])
      (use st more kept assms(1) in \<open>simp add: later_def\<close>)
qed

text \<open>One block: nothing but the list of skipped blocks changes, or a stub is added.\<close>

lemma instrument_block_cases:
  assumes "zydis_ok Z" "instrument_block W Z b e s = Some (stub, s')" "bi_ok s"
    and "unat (bi_region_base s) + length (bi_code s') < 2 ^ 64"
  shows "stub = 0 \<and> (s' = s \<or> s' = skip_block b s)
    \<or> stub \<noteq> 0 \<and> later s s' \<and> bi_ok s' \<and> map fst (bi_patches s') = map fst (bi_patches s) @ [b] \<and> stub \<in> code_addr s ` {length (bi_code s)..<length (bi_code s')}"
proof -
  have base: "bi_region_base s \<noteq> 0" and maps: "maps_ok (length (bi_code s)) (length (bi_code s)) s"
      and old: "\<And>b p. (b, p) \<in> set (bi_patches s) \<Longrightarrow> stub_ok s b p"
    using assms(3) by (auto simp: bi_ok_def)
  consider "stub = 0 \<and> (s' = s \<or> s' = skip_block b s)"
    | buf p ds where "grow_patch Z buf b e 0 [] = Some (Displaced p ds)" "emit_block Z buf b p ds s = Some (stub, s')"
    using assms(2) base by (auto simp: instrument_block_def Let_def split: prod.splits bool.splits bind_splits displacement.splits)
  then show ?thesis
  proof cases
    case 2
    from grow_patch_spec[OF 2(1)] have p: "5 \<le> p" "fst (hd ds) = b" by auto
    show ?thesis
    proof (cases "stub = 0")
      case True
      have "s' = skip_block b s" by (rule emit_block_failed[OF assms(1) _ base assms(4)]) (use 2(2) True in simp)
      then show ?thesis using True by simp
    next
      case False
      note spec = emit_block_spec[OF assms(1) maps base 2(2) assms(4) False, unfolded p(2)]
      obtain moved patch where st: "bi_code s' = bi_code s @ emit_tls_increment (bi_tls_counter_offset s) (bi_tls_target_offset s)
            @ moved @ emit_abs_jmp (b + of_nat p)" "emit_rel_jmp b stub = Some patch"
          "bi_patches s' = bi_patches s @ [(b, resize p 0x90 patch)]" and stub: "stub = code_addr s (length (bi_code s))"
          and lat: "later s s'" and maps': "maps_ok (length (bi_code s')) (length (bi_code s')) s'"
          and table: "\<forall>(o1, d)\<in>set tls_instruction_offsets. bi_to_original s' (code_addr s (length (bi_code s) + o1)) = Some b
             \<and> bi_rsp_fix s' (code_addr s (length (bi_code s) + o1)) = fix_entry o1 d"
        using spec by blast
      have "stub_ok s' b (resize p 0x90 patch)"
        unfolding stub_ok_def laterD(2)[OF lat]
        by (rule exI[of _ "bi_code s"], rule exI[of _ moved], rule exI[of _ "[]"], rule exI[of _ p], rule exI[of _ patch])
          (use st stub table p(1) lat in \<open>simp add: later_def\<close>)
      then have "bi_ok s'"
        using maps' base old stub_ok_later[OF lat] st(3) laterD(3)[OF lat] by (auto simp: bi_ok_def)
      then show ?thesis using False lat st(1,3) stub by (auto simp: image_iff)
    qed
  qed blast
qed

lemma emit_block_grows:
  assumes "zydis_ok Z" "emit_block Z buf b p displacing s = Some (stub, s')"
  shows "length (bi_code s) \<le> length (bi_code s')"
proof -
  consider "s' = skip_block b s"
    | code offs where "relocate_leader Z (take p buf) b (bi_region_base s)
        (bi_code s @ emit_tls_increment (bi_tls_counter_offset s) (bi_tls_target_offset s)) = Some (Some (code, offs))"
      "bi_code s' = code @ emit_abs_jmp (b + of_nat p)"
    using emit_block_cases[OF assms(2)] by (auto simp: Let_def map_stub_eq map_displaced_eq)
  then show ?thesis
  proof cases
    case 2
    then show ?thesis using relocated_leader_meaning[OF assms(1) 2(1)] by auto
  qed (simp add: skip_block_def)
qed

lemma instrument_block_grows:
  assumes "zydis_ok Z" "instrument_block W Z b e s = Some (stub, s')"
  shows "length (bi_code s) \<le> length (bi_code s')"
  using assms(2) emit_block_grows[OF assms(1)]
  by (auto simp: instrument_block_def Let_def skip_block_def split: prod.splits bool.splits bind_splits displacement.splits if_splits)

definition instrument_blocks ::
    "'w win32 \<Rightarrow> zydis \<Rightarrow> (original_address \<times> original_address) list \<Rightarrow> ('w, 'z) instrumentation_scheme \<Rightarrow>
      ('w, 'z) instrumentation_scheme option" where
  "instrument_blocks W Z = foldM (\<lambda>(b, e) s. map_option snd (instrument_block W Z b e s))"

lemma instrument_blocks_grows:
  assumes "zydis_ok Z" "instrument_blocks W Z blocks s = Some s'"
  shows "length (bi_code s) \<le> length (bi_code s')"
  using assms(2)
proof (induction blocks arbitrary: s)
  case (Cons be blocks)
  obtain b e stub s1 where s1: "be = (b, e)" "instrument_block W Z b e s = Some (stub, s1)" "instrument_blocks W Z blocks s1 = Some s'"
    using Cons.prems by (cases be) (auto simp: instrument_blocks_def bind_eq_Some_conv)
  then show ?case using Cons.IH[OF s1(3)] instrument_block_grows[OF assms(1) s1(2)] by simp
qed (simp add: instrument_blocks_def)

lemma bi_ok_skip: "bi_ok s \<Longrightarrow> bi_ok (skip_block b s)"
proof -
  assume "bi_ok s"
  moreover have "code_addr (skip_block b s) = code_addr s" by (rule code_addr_cong) (simp add: skip_block_def)
  ultimately show ?thesis unfolding bi_ok_def maps_ok_def stub_ok_def by (simp add: skip_block_def)
qed

definition same_setup :: "('w, 'z) instrumentation_scheme \<Rightarrow> ('w, 'z) instrumentation_scheme \<Rightarrow> bool" where
  "same_setup s s' = (bi_region_base s' = bi_region_base s \<and> cp_world s' = cp_world s
     \<and> bi_tls_counter_offset s' = bi_tls_counter_offset s \<and> bi_tls_target_offset s' = bi_tls_target_offset s)"

lemma instrument_blocks_ok:
  assumes "zydis_ok Z" "instrument_blocks W Z blocks s = Some s'" "bi_ok s"
    and "unat (bi_region_base s) + length (bi_code s') < 2 ^ 64"
  shows "bi_ok s' \<and> same_setup s s'"
  using assms(2-4)
proof (induction blocks arbitrary: s)
  case (Cons be blocks)
  obtain b e stub s1 where s1: "be = (b, e)" "instrument_block W Z b e s = Some (stub, s1)" "instrument_blocks W Z blocks s1 = Some s'"
    using Cons.prems(1) by (cases be) (auto simp: instrument_blocks_def bind_eq_Some_conv)
  have "unat (bi_region_base s) + length (bi_code s1) < 2 ^ 64"
    using Cons.prems(3) instrument_blocks_grows[OF assms(1) s1(3)] by simp
  from instrument_block_cases[OF assms(1) s1(2) Cons.prems(2) this]
  have "bi_ok s1 \<and> same_setup s s1"
    using Cons.prems(2) bi_ok_skip[OF Cons.prems(2)] by (auto simp: same_setup_def skip_block_def later_def)
  then show ?case using Cons.IH[OF s1(3)] Cons.prems(3) by (simp add: same_setup_def)
qed (simp add: instrument_blocks_def same_setup_def)

definition no_stubs :: "('w, 'z) instrumentation_scheme \<Rightarrow> bool" where
  "no_stubs s = (bi_region_base s \<noteq> 0 \<and> bi_code s = [] \<and> bi_patches s = [] \<and> bi_remap s = Map.empty
     \<and> bi_to_original s = Map.empty \<and> bi_rsp_fix s = Map.empty)"

lemma no_stubs_ok: "no_stubs s \<Longrightarrow> bi_ok s"
  by (simp add: no_stubs_def bi_ok_def maps_ok_def)

text \<open>
  C12: Addresses can be translated back and forth.  After any number of blocks have been instrumented,
  whether they succeeded or not, an instruction address outside the region, moved or not, is given
  back by the translation to where the instruction runs now and back again; and every address the
  reverse translation changes lies in the code that was emitted.
\<close>

theorem addresses_translate_back:
  assumes "zydis_ok Z" "no_stubs s" "instrument_blocks W Z blocks s = Some s'"
    and "unat (bi_region_base s) + length (bi_code s') < 2 ^ 64"
    and "\<And>k. k < length (bi_code s') \<Longrightarrow> a \<noteq> code_addr s' k"
  shows "get_original_instruction_address (fst (get_true_instruction_address a s')) s' = a
    \<and> (get_original_instruction_address t s' \<noteq> t \<longrightarrow> t \<in> code_addr s' ` {..<length (bi_code s')})"
proof -
  have "bi_ok s'" using instrument_blocks_ok[OF assms(1,3) no_stubs_ok[OF assms(2)] assms(4)] by blast
  then have maps: "maps_ok (length (bi_code s')) (length (bi_code s')) s'" unfolding bi_ok_def by blast
  then have keys: "dom (bi_to_original s') \<subseteq> code_addr s' ` {..<length (bi_code s')}"
    and returns: "\<And>t m. bi_remap s' a = Some (t, m) \<Longrightarrow> bi_to_original s' t = Some a" unfolding maps_ok_def by blast+
  have outside: "bi_to_original s' a = None" using keys assms(5) by blast
  have inside: "t \<in> code_addr s' ` {..<length (bi_code s')}" if "bi_to_original s' t = Some x" for x
    using keys that by blast
  show ?thesis
    using returns outside inside
    by (auto simp: get_original_instruction_address_def get_true_instruction_address_def split: option.splits)
qed

section \<open>Writing the code gives working detours\<close>

definition ranges_apart :: "(addr \<times> byte list) list \<Rightarrow> bool" where
  "ranges_apart = sorted_wrt (\<lambda>(a, x) (b, y). set (span a (length x)) \<inter> set (span b (length y)) = {})"

definition store_all :: "(addr \<times> byte list) list \<Rightarrow> (addr \<Rightarrow> byte) \<Rightarrow> addr \<Rightarrow> byte" where
  "store_all = fold (\<lambda>(a, bs) f. store_bytes a bs f)"

lemma store_all_outside:
  "\<forall>(a, bs)\<in>set rs. x \<notin> set (span a (length bs)) \<Longrightarrow> store_all rs f x = f x"
proof (induction rs arbitrary: f)
  case (Cons r rs)
  obtain a bs where r: "r = (a, bs)" by force
  have "store_all (r # rs) f x = store_all rs (store_bytes a bs f) x" by (simp add: store_all_def r)
  also have "\<dots> = store_bytes a bs f x" using Cons.prems by (intro Cons.IH) simp
  also have "\<dots> = f x" using Cons.prems r by (intro store_bytes_outside) simp
  finally show ?case .
qed (simp add: store_all_def)

lemma store_all_read:
  assumes "ranges_apart rs" "(a, bs) \<in> set rs" "length bs < 2 ^ 64"
  shows "bytes_at (store_all rs f) a (length bs) = bs"
  using assms(1,2)
proof (induction rs arbitrary: f)
  case (Cons r rs)
  have split: "store_all (r # rs) f = store_all rs (store_bytes (fst r) (snd r) f)" by (simp add: store_all_def split_def)
  show ?case
  proof (cases "(a, bs) \<in> set rs")
    case True
    then show ?thesis using Cons.IH Cons.prems(1) unfolding split by (simp add: ranges_apart_def)
  next
    case False
    then have r: "r = (a, bs)" using Cons.prems(2) by simp
    have "bytes_at (store_all rs (store_bytes a bs f)) a (length bs) = bytes_at (store_bytes a bs f) a (length bs)"
      by (rule bytes_at_cong, rule store_all_outside) (use Cons.prems(1) r in \<open>fastforce simp: ranges_apart_def\<close>)
    then show ?thesis using bytes_at_store[OF assms(3)] unfolding split unfolding r by simp
  qed
qed simp

lemma apply_patch_mem:
  assumes "w_bytes_ok W mem" "w_vm_ok W mem"
  shows "mem (cp_world (apply_patch W (a, bs) s)) = store_bytes a bs (mem (cp_world s))"
    and "apply_patch W (a, bs) s = s \<lparr> cp_world := cp_world (apply_patch W (a, bs) s) \<rparr>"
proof -
  have protect: "mem (snd (w_virtual_protect W w x n p)) = mem w" for w x n p using assms(2) by (simp add: w_vm_ok_def)
  show "mem (cp_world (apply_patch W (a, bs) s)) = store_bytes a bs (mem (cp_world s))"
    using w_bytes_okD(3,4)[OF assms(1)] protect
    by (simp add: apply_patch_def Let_def split_def)
  show "apply_patch W (a, bs) s = s \<lparr> cp_world := cp_world (apply_patch W (a, bs) s) \<rparr>"
    by (simp add: apply_patch_def Let_def split_def)
qed

lemma apply_patches_mem:
  assumes "w_bytes_ok W mem" "w_vm_ok W mem"
  shows "mem (cp_world (fold (apply_patch W) ps s)) = store_all ps (mem (cp_world s))
    \<and> (\<exists>w. fold (apply_patch W) ps s = s \<lparr> cp_world := w \<rparr>)"
proof (induction ps arbitrary: s)
  case Nil
  show ?case by (intro conjI exI[of _ "cp_world s"]) (simp_all add: store_all_def)
next
  case (Cons p ps)
  obtain a bs where p: "p = (a, bs)" by force
  let ?s1 = "apply_patch W (a, bs) s"
  obtain w where w: "fold (apply_patch W) ps ?s1 = ?s1 \<lparr> cp_world := w \<rparr>" using Cons.IH[of ?s1] by blast
  have "?s1 \<lparr> cp_world := w \<rparr> = s \<lparr> cp_world := w \<rparr>"
    by (subst apply_patch_mem(2)[OF assms]) simp
  then show ?case using Cons.IH[of ?s1] apply_patch_mem(1)[OF assms, of a bs s] w p by (auto simp: store_all_def)
qed

lemma commit_mem:
  assumes "w_bytes_ok W mem" "w_vm_ok W mem" "bi_region_base s \<noteq> 0" "commit_instrumentation_region W s = (r, s')"
  shows "r = bi_region_base s"
    "mem (cp_world s') = store_all ((bi_region_base s, bi_code s) # bi_patches s) (mem (cp_world s))"
    "\<exists>w. s' = s \<lparr> cp_world := w \<rparr>"
proof -
  obtain w1 where w1: "w_write W (cp_world s) (bi_region_base s) (bi_code s) = (True, w1)"
    using w_bytes_okD(2)[OF assms(1), of "cp_world s" "bi_region_base s" "bi_code s"] by (metis prod.collapse)
  have m1: "mem w1 = store_bytes (bi_region_base s) (bi_code s) (mem (cp_world s))"
    using w_bytes_okD(3)[OF assms(1), of "cp_world s" "bi_region_base s" "bi_code s"] w1 by simp
  let ?s1 = "s \<lparr> cp_world := w_flush W w1 (bi_region_base s) (length (bi_code s)) \<rparr>"
  note ap = apply_patches_mem[OF assms(1,2), of "bi_patches s" ?s1]
  have "bi_region_base (fold (apply_patch W) (bi_patches s) ?s1) = bi_region_base s" using ap by auto
  then have s': "r = bi_region_base s" "s' = fold (apply_patch W) (bi_patches s) ?s1"
    using assms(3,4) w1 by (auto simp: commit_instrumentation_region_def Let_def)
  show "r = bi_region_base s" by (rule s'(1))
  show "mem (cp_world s') = store_all ((bi_region_base s, bi_code s) # bi_patches s) (mem (cp_world s))"
    using ap m1 w_bytes_okD(4)[OF assms(1)] by (simp add: s'(2) store_all_def)
  obtain w where "fold (apply_patch W) (bi_patches s) ?s1 = ?s1 \<lparr> cp_world := w \<rparr>" using ap by blast
  then show "\<exists>w. s' = s \<lparr> cp_world := w \<rparr>" unfolding s'(2) by auto
qed

text \<open>A detour in memory: the jump, the stub it leads to, and the jump back.\<close>

definition detour_in :: "(addr \<Rightarrow> byte) \<Rightarrow> u32 \<Rightarrow> u32 \<Rightarrow> original_address \<Rightarrow> addr \<Rightarrow> bool" where
  "detour_in m counter target b stub =
     (\<exists>disp moved p. 5 \<le> p \<and> bytes_at m b 5 = 0xE9 # disp \<and> b + 5 + scast (le_u32 disp) = stub
        \<and> bytes_at m stub (56 + length moved) = emit_tls_increment counter target @ moved @ emit_abs_jmp (b + of_nat p))"

lemma committed_detours:
  assumes "w_bytes_ok W mem" "w_vm_ok W mem" "bi_ok s1" "unat (bi_region_base s1) + length (bi_code s1) < 2 ^ 64"
    and "ranges_apart ((bi_region_base s1, bi_code s1) # bi_patches s1)" "\<forall>(b, patch)\<in>set (bi_patches s1). length patch < 2 ^ 64"
    and "commit_instrumentation_region W s1 = (r, s2)" "(b, patch) \<in> set (bi_patches s1)"
  shows "\<exists>stub. detour_in (mem (cp_world s2)) (bi_tls_counter_offset s1) (bi_tls_target_offset s1) b stub
    \<and> (\<forall>(o1, d)\<in>set tls_instruction_offsets. get_original_instruction_address (stub + of_nat o1) s2 = b
         \<and> address_rsp_fix_bytes (stub + of_nat o1) s2 = of_nat d)"
proof -
  let ?m = "mem (cp_world s2)"
  have base: "bi_region_base s1 \<noteq> 0" and "stub_ok s1 b patch" using assms(3,8) unfolding bi_ok_def by blast+
  then obtain pre moved rest p rel where st: "bi_code s1 = pre @ emit_tls_increment (bi_tls_counter_offset s1) (bi_tls_target_offset s1)
        @ moved @ emit_abs_jmp (b + of_nat p) @ rest"
      "emit_rel_jmp b (code_addr s1 (length pre)) = Some rel" "patch = resize p 0x90 rel" "5 \<le> p"
      "\<forall>(o1, d)\<in>set tls_instruction_offsets. bi_to_original s1 (code_addr s1 (length pre + o1)) = Some b
         \<and> bi_rsp_fix s1 (code_addr s1 (length pre + o1)) = fix_entry o1 d"
    unfolding stub_ok_def by blast
  note mem = commit_mem[OF assms(1,2) base assms(7)]
  note rel = emit_rel_jmp_reaches[OF st(2)]
  let ?stub = "code_addr s1 (length pre)" and ?n = "56 + length moved"
  have code: "bytes_at ?m (bi_region_base s1) (length (bi_code s1)) = bi_code s1"
    unfolding mem(2) by (rule store_all_read[OF assms(5)]) (use assms(4) in simp_all)
  have "length pre + ?n \<le> length (bi_code s1)" by (simp add: st(1))
  from bytes_at_slice[OF this, of ?m "bi_region_base s1"]
  have "bytes_at ?m ?stub ?n = take ?n (drop (length pre) (bi_code s1))" unfolding code code_addr_def .
  then have stub: "bytes_at ?m ?stub ?n =
      emit_tls_increment (bi_tls_counter_offset s1) (bi_tls_target_offset s1) @ moved @ emit_abs_jmp (b + of_nat p)"
    using st(1) by simp
  have "bytes_at ?m b (length patch) = patch"
    unfolding mem(2) by (rule store_all_read[OF assms(5)]) (use assms(6,8) in auto)
  moreover have "length patch = p" "take 5 patch = rel" using st(3,4) rel(1) by (simp_all add: resize_def)
  ultimately have patch: "bytes_at ?m b 5 = rel" using bytes_at_take[of 5 p ?m b] st(4) by simp
  have "rel \<noteq> []" using rel(1) by auto
  then have rel_eq: "rel = 0xE9 # tl rel" using rel(2) by (cases rel) auto
  obtain w where s2: "s2 = s1 \<lparr> cp_world := w \<rparr>" using mem(3) by blast
  have "get_original_instruction_address (?stub + of_nat o1) s2 = b
      \<and> address_rsp_fix_bytes (?stub + of_nat o1) s2 = of_nat d" if "(o1, d) \<in> set tls_instruction_offsets" for o1 d
  proof -
    have "?stub + of_nat o1 = code_addr s1 (length pre + o1)" by (simp add: code_addr_def ac_simps)
    then have "bi_to_original s1 (?stub + of_nat o1) = Some b" "bi_rsp_fix s1 (?stub + of_nat o1) = fix_entry o1 d"
      using st(5) that by auto
    then show ?thesis
      using tls_offsets(3)[OF that]
      by (auto simp: s2 get_original_instruction_address_def address_rsp_fix_bytes_def fix_entry_def split: if_splits)
  qed
  moreover have "detour_in ?m (bi_tls_counter_offset s1) (bi_tls_target_offset s1) b ?stub"
    unfolding detour_in_def
    using patch rel_eq rel(3) stub st(4) by (intro exI[of _ "tl rel"] exI[of _ moved] exI[of _ p]) auto
  ultimately show ?thesis by (intro exI[of _ ?stub]) auto
qed


section \<open>The displaced bytes\<close>

lemma count_displaced_sizes:
  assumes "0 < n" "n \<le> 15"
  shows "count_displaced (of_nat n) 0 = Some (of_nat (n * ((4 + n) div n)))"
proof -
  have "list_all (\<lambda>n. count_displaced (of_nat n) 0 = Some (of_nat (n * ((4 + n) div n)))) [1..<16]"
    by (simp add: upt_rec count_displaced.simps numeral_2_eq_2[symmetric])
  then show ?thesis using assms by (simp add: list_all_iff)
qed

lemma count_displaced_stuck: "count_displaced 0 0 = None"
proof (cases "count_displaced 0 0")
  case (Some r)
  have "\<not> (step = 0 \<and> c < 5)" if "count_displaced step c = Some r" for step c
    by (rule count_displaced.raw_induct[where P = "\<lambda>step c r. \<not> (step = 0 \<and> c < 5)", OF _ that])
      (auto split: if_splits)
  then show ?thesis using Some by force
qed simp

text \<open>
  C40: The bytes given for a stop inside a stub are counted wrongly.  For a thread that is stopped in the
  stub of the block at \<open>a\<close>, the bytes that are returned are read from where the block's first
  instruction has been moved to, and their number is the first multiple of that instruction's size
  that is at least five, however many bytes were displaced and whatever instructions they are; and for
  an address whose original is not a moved instruction, as for the jump at the end of a stub, the
  call does not return.
\<close>

theorem original_bytes_miscounted:
  assumes "w_bytes_ok W mem" "get_original_instruction_address t s = a" "a \<noteq> t"
  shows "(\<forall>t1 n. bi_remap s a = Some (t1, of_nat n) \<and> 0 < n \<and> n \<le> 15 \<longrightarrow>
            get_original_bytes W t s = Some (Some (bytes_at (mem (cp_world s)) t1 (n * ((4 + n) div n))), s))
       \<and> (bi_remap s a = None \<longrightarrow> get_original_bytes W t s = None)"
proof (intro conjI allI impI)
  fix t1 n
  assume n: "bi_remap s a = Some (t1, of_nat n) \<and> 0 < n \<and> n \<le> 15"
  have le: "n * ((4 + n) div n) < 256"
  proof -
    have "n * ((4 + n) div n) \<le> 4 + n" by (rule times_div_less_eq_dividend)
    also have "\<dots> < 256" using n by simp
    finally show ?thesis .
  qed
  then have u: "unat (of_nat (n * ((4 + n) div n)) :: byte) = n * ((4 + n) div n)"
    by (simp only: unat_of_nat take_bit_nat_eq_self) simp
  have "(bi_remap s)(a \<mapsto> (t1, of_nat n)) = bi_remap s" using n by (auto simp: fun_eq_iff)
  then show "get_original_bytes W t s = Some (Some (bytes_at (mem (cp_world s)) t1 (n * ((4 + n) div n))), s)"
    using assms(2,3) n count_displaced_sizes[of n] u w_bytes_okD(1)[OF assms(1)]
    by (simp add: get_original_bytes_def Let_def)
next
  assume "bi_remap s a = None"
  then show "get_original_bytes W t s = None"
    using assms(2,3) count_displaced_stuck by (simp add: get_original_bytes_def Let_def)
qed

section \<open>A sample block\<close>

definition sample_memory :: "addr \<Rightarrow> byte" where
  "sample_memory = store_bytes 0x1010 [0x55, 0x48, 0x8B, 0x05, 0x10, 0, 0, 0, 0xC3] (\<lambda>_. 0x90)"

definition sample_instrumentation :: "(addr \<Rightarrow> byte) instrumentation" where
  "sample_instrumentation =
     \<lparr> cp_world = sample_memory, cp_session = Some sample_dia, cp_scope = Some sample_dia, cp_source_locations = [],
       bi_tls_counter_offset = 0x1480, bi_tls_target_offset = 0x1488, bi_region_base = 0x20000, bi_region_size = 0x10000,
       bi_code = [], bi_patches = [], bi_remap = Map.empty, bi_to_original = Map.empty, bi_rsp_fix = Map.empty, bi_skipped = [] \<rparr>"

definition sample_run :: "(addr \<Rightarrow> byte) instrumentation option" where
  "sample_run = instrument_blocks flat_win32 sample_zydis [(0x1010, 0x1019)] sample_instrumentation"

lemma sample_run_code:
  "map_option bi_code sample_run =
     Some (emit_tls_increment 0x1480 0x1488 @ [0x55, 0x48, 0x8B, 0x05, 0xF6, 0x0F, 0xFE, 0xFF] @ emit_abs_jmp 0x1018)"
  by code_simp

lemma sample_run_patches:
  "map_option bi_patches sample_run = Some [(0x1010, [0xE9, 0xEB, 0xEF, 0x01, 0, 0x90, 0x90, 0x90])]"
  by code_simp

lemma sample_run_result:
  "\<exists>s1. sample_run = Some s1 \<and> length (bi_code s1) = 64 \<and> bi_patches s1 = [(0x1010, [0xE9, 0xEB, 0xEF, 0x01, 0, 0x90, 0x90, 0x90])]"
proof -
  obtain s1 where "sample_run = Some s1" using sample_run_code by (cases sample_run) simp_all
  note s1 = this
  have "bi_code s1 = emit_tls_increment 0x1480 0x1488 @ [0x55, 0x48, 0x8B, 0x05, 0xF6, 0x0F, 0xFE, 0xFF] @ emit_abs_jmp 0x1018"
    using sample_run_code unfolding s1 option.map option.inject .
  moreover have "bi_patches s1 = [(0x1010, [0xE9, 0xEB, 0xEF, 0x01, 0, 0x90, 0x90, 0x90])]"
    using sample_run_patches unfolding s1 option.map option.inject .
  ultimately show ?thesis using s1 by (intro exI[of _ s1]) simp
qed

lemma sample_no_stubs: "no_stubs sample_instrumentation"
  by (simp add: no_stubs_def sample_instrumentation_def)

lemma sample_outside:
  assumes "sample_run = Some s1" "k < length (bi_code s1)" "a < (0x20000 :: addr)"
  shows "a \<noteq> code_addr s1 k"
proof -
  obtain s2 where s2: "sample_run = Some s2" "length (bi_code s2) = 64" using sample_run_result by blast
  then have len: "length (bi_code s1) = 64" using assms(1) by (metis option.inject)
  have run: "instrument_blocks flat_win32 sample_zydis [(0x1010, 0x1019)] sample_instrumentation = Some s1"
    using assms(1) by (simp add: sample_run_def)
  have bound: "unat (bi_region_base sample_instrumentation) + length (bi_code s1) < 2 ^ 64"
    by (simp add: len sample_instrumentation_def)
  have base: "bi_region_base s1 = 0x20000"
    using instrument_blocks_ok[OF sample_zydis_ok run no_stubs_ok[OF sample_no_stubs] bound]
    by (simp add: same_setup_def sample_instrumentation_def)
  have "unat (of_nat k :: addr) = k" using assms(2) len by (simp add: unat_of_nat take_bit_nat_eq_self)
  then have "unat (code_addr s1 k) = 0x20000 + k"
    using assms(2) len unat_add_lem[of "0x20000 :: addr" "of_nat k"] by (simp add: code_addr_def base)
  then show ?thesis using assms(3) by (auto simp: word_less_nat_alt)
qed

lemma addresses_translate_back_witness:
  "\<exists>s1. sample_run = Some s1 \<and> get_original_instruction_address (fst (get_true_instruction_address 0x1011 s1)) s1 = 0x1011"
proof -
  obtain s1 where s1: "sample_run = Some s1" "length (bi_code s1) = 64" using sample_run_result by blast
  have run: "instrument_blocks flat_win32 sample_zydis [(0x1010, 0x1019)] sample_instrumentation = Some s1"
    using s1(1) by (simp add: sample_run_def)
  have bound: "unat (bi_region_base sample_instrumentation) + length (bi_code s1) < 2 ^ 64"
    by (simp add: s1(2) sample_instrumentation_def)
  have "(0x1011 :: addr) \<noteq> code_addr s1 k" if "k < length (bi_code s1)" for k
    by (rule sample_outside[OF s1(1) that]) simp
  from addresses_translate_back[OF sample_zydis_ok sample_no_stubs run bound this] show ?thesis using s1(1) by blast
qed


definition roomy_win32 :: "(addr \<Rightarrow> byte) win32" where
  "roomy_win32 = paged_win32 \<lparr> w_virtual_alloc := (\<lambda>w a n t p. (a, w)) \<rparr>"


definition stopped_instrumentation :: "(addr \<Rightarrow> byte) instrumentation" where
  "stopped_instrumentation = sample_instrumentation
     \<lparr> bi_remap := [0x1010 \<mapsto> (0x2002A, 1), 0x1011 \<mapsto> (0x2002B, 7)], bi_to_original := [0x20024 \<mapsto> 0x1010, 0x20032 \<mapsto> 0x1018] \<rparr>"

lemma original_bytes_miscounted_witness:
  "get_original_bytes flat_win32 0x20024 stopped_instrumentation = Some (Some (bytes_at sample_memory 0x2002A 5), stopped_instrumentation)
   \<and> get_original_bytes flat_win32 0x20032 stopped_instrumentation = None"
proof -
  have "get_original_instruction_address 0x20024 stopped_instrumentation = 0x1010"
      "get_original_instruction_address 0x20032 stopped_instrumentation = 0x1018"
    by (simp_all add: stopped_instrumentation_def get_original_instruction_address_def)
  from original_bytes_miscounted[OF flat_win32_ok this(1)] original_bytes_miscounted[OF flat_win32_ok this(2)]
  show ?thesis by (auto simp: stopped_instrumentation_def sample_instrumentation_def dest: spec[of _ 1])
qed

end
