(* ===== verification/Predecessors.thy ===== *)
theory Predecessors
  imports Instrumentation
begin

text \<open>
  \<open>src/plugins/cpp/predecessor_analysis.cpp\<close>: which instructions can have run just before a given
  one, and what the branch counter was then.  The set of instrumented leaders is a list in ascending
  order.
\<close>

record 'w predecessors = "'w instrumentation" +
  pa_analysis :: "function_analysis list"
  pa_leaders :: "original_address list"

definition init_reverse_step_analysis ::
    "function_analysis list \<Rightarrow> original_address list \<Rightarrow> ('w, 'z) predecessors_scheme \<Rightarrow> ('w, 'z) predecessors_scheme" where
  "init_reverse_step_analysis analysis instrumented_leaders s =
     s \<lparr> pa_analysis := analysis, pa_leaders := instrumented_leaders \<rparr>"

definition function_analysis_containing_address ::
    "original_address \<Rightarrow> ('w, 'z) predecessors_scheme \<Rightarrow> function_analysis option" where
  "function_analysis_containing_address a s =
     find (\<lambda>fn. fr_start (fa_info fn) \<le> a \<and> a < fr_end (fa_info fn)) (pa_analysis s)"

definition is_instrumented_leader :: "original_address \<Rightarrow> ('w, 'z) predecessors_scheme \<Rightarrow> bool" where
  "is_instrumented_leader rip s = (rip \<in> set (pa_leaders s))"

definition branch_sources_targeting :: "original_address \<Rightarrow> ('w, 'z) predecessors_scheme \<Rightarrow> original_address list" where
  "branch_sources_targeting rip s =
     concat (map (\<lambda>fn. map bs_address (filter (\<lambda>b. bs_target b = rip) (fa_branches fn))) (pa_analysis s))"

section \<open>Falling through\<close>

text \<open>
  The bytes the disassembly looks at: an instruction that has been moved is read back from its new
  place.  A copy beyond the end of the buffer has no result.
\<close>

definition restore_moved ::
    "'w win32 \<Rightarrow> original_address \<Rightarrow> nat \<Rightarrow> byte list \<Rightarrow> ('w, 'z) predecessors_scheme \<Rightarrow> byte list option" where
  "restore_moved W a off bytes s =
     (let (true_address, n) = get_true_instruction_address a s in
      if true_address = a then Some bytes
      else if off + unat n > length bytes then None
      else Some (memcpy_at off (snd (w_read W (cp_world s) true_address (replicate (unat n) 0))) bytes))"

text \<open>
  The disassembly from the function's start up to \<open>rip\<close>.  The result is the last instruction before
  the anchor with its address; \<open>Inl\<close> is the early return when an instruction does not decode.
\<close>

partial_function (option) fallthrough_loop ::
    "'w win32 \<Rightarrow> zydis \<Rightarrow> original_address \<Rightarrow> original_address \<Rightarrow> ('w, 'z) predecessors_scheme \<Rightarrow> byte list \<Rightarrow> nat \<Rightarrow>
      (original_address \<times> insn) option \<Rightarrow> (unit + (original_address \<times> insn) option) option" where
  "fallthrough_loop W Z start rip s bytes off prev =
     (if off < length bytes \<and> start + of_nat off \<noteq> rip
      then do { bytes \<leftarrow> restore_moved W (start + of_nat off) off bytes s;
                case zy_decode_instruction Z (drop off bytes) of
                  None \<Rightarrow> Some (Inl ())
                | Some i \<Rightarrow> fallthrough_loop W Z start rip s bytes (off + in_length i) (Some (start + of_nat off, i)) }
      else Some (Inr prev))"

definition fallthrough_predecessor ::
    "'w win32 \<Rightarrow> zydis \<Rightarrow> original_address \<Rightarrow> ('w, 'z) predecessors_scheme \<Rightarrow> original_address option" where
  "fallthrough_predecessor W Z rip s =
     (case function_analysis_containing_address rip s of
        None \<Rightarrow> Some 0
      | Some fn \<Rightarrow>
          (let start = fr_start (fa_info fn) in
           if rip = start then Some 0
           else case w_read W (cp_world s) start (replicate (unat (fr_end (fa_info fn) - start)) 0) of
             (False, _) \<Rightarrow> Some 0
           | (True, bytes) \<Rightarrow>
               do { found \<leftarrow> fallthrough_loop W Z start rip s bytes 0 None;
                    Some (case found of
                            Inr (Some (prev_addr, i)) \<Rightarrow>
                              if prev_addr + of_nat (in_length i) \<noteq> rip then 0
                              else if in_category i \<in> {Cat_UncondBr, Cat_Ret, Cat_Call} then 0
                              else prev_addr
                          | _ \<Rightarrow> 0) }))"

section \<open>Predecessors\<close>

definition get_instruction_predecessors_of_address ::
    "'w win32 \<Rightarrow> zydis \<Rightarrow> original_address \<Rightarrow> u64 \<Rightarrow> ('w, 'z) predecessors_scheme \<Rightarrow> potential_predecessor list option" where
  "get_instruction_predecessors_of_address W Z a current_branch_counter s =
     (let leader = is_instrumented_leader a s;
          counter = (if leader then current_branch_counter - 1 else current_branch_counter);
          predecessor = (\<lambda>x. \<lparr> pp_true_address = x, pp_branch_counter = counter, pp_is_block_leader = leader \<rparr>) in
      do { fallthrough \<leftarrow> fallthrough_predecessor W Z a s;
           Some ((if leader then map predecessor (branch_sources_targeting a s) else [])
                 @ (if fallthrough \<noteq> 0 then [predecessor (fst (get_true_instruction_address fallthrough s))] else [])) })"

text \<open>
  The range the address lies in, and whether one of its addresses is an instrumented leader.  The
  leader that is found is assigned to \<open>line_start\<close>, which is then set to the start of the range
  whether a leader was found or not.
\<close>

definition line_leader :: "line_range list \<Rightarrow> original_address \<Rightarrow> ('w, 'z) predecessors_scheme \<Rightarrow> bool \<times> original_address" where
  "line_leader ranges a s =
     fold (\<lambda>r (leader, line_start).
             if lr_start r \<le> a \<and> a < lr_end r
             then (leader \<or> list_ex (\<lambda>l. lr_start r \<le> l \<and> l < lr_end r) (pa_leaders s), lr_start r)
             else (leader, line_start))
       ranges (False, 0)"

text \<open>The starts of the line ranges of an address, where they run now.\<close>

definition line_starts ::
    "original_address \<Rightarrow> addr \<Rightarrow> ('w, 'z) predecessors_scheme \<Rightarrow> true_address list option" where
  "line_starts a image_base s =
     map_option (map (\<lambda>r. fst (get_true_instruction_address (lr_start r) s))) (get_line_ranges_from_address a image_base s)"

definition get_line_predecessors_of_address ::
    "'w win32 \<Rightarrow> zydis \<Rightarrow> original_address \<Rightarrow> u64 \<Rightarrow> addr \<Rightarrow> ('w, 'z) predecessors_scheme \<Rightarrow> potential_predecessor list option" where
  "get_line_predecessors_of_address W Z a current_branch_counter image_base s =
     do { ranges \<leftarrow> get_line_ranges_from_address a image_base s;
          let (leader, line_start) = line_leader ranges a s;
          let counter = (if leader then current_branch_counter - 1 else current_branch_counter);
          let predecessor = (\<lambda>x. \<lparr> pp_true_address = x, pp_branch_counter = counter, pp_is_block_leader = leader \<rparr>);
          branches \<leftarrow> (if leader
                       then foldM (\<lambda>br out. do { xs \<leftarrow> line_starts br image_base s; Some (out @ xs) })
                              (branch_sources_targeting line_start s) []
                       else Some []);
          fallthrough \<leftarrow> fallthrough_predecessor W Z line_start s;
          fallthroughs \<leftarrow> (if fallthrough \<noteq> 0 then line_starts fallthrough image_base s else Some []);
          Some (map predecessor (branches @ fallthroughs)) }"

text \<open>The line that holds the last return of a function, where it runs now, or 0.\<close>

definition last_return_line :: "function_analysis \<Rightarrow> addr \<Rightarrow> ('w, 'z) predecessors_scheme \<Rightarrow> true_address option" where
  "last_return_line fn image_base s =
     foldM (\<lambda>b found.
              if bs_kind b = BK_Return
              then do { ranges \<leftarrow> get_line_ranges_from_address (bs_address b) image_base s;
                        Some (fold (\<lambda>r found. if lr_start r \<le> bs_address b \<and> bs_address b < lr_end r
                                              then fst (get_true_instruction_address (lr_start r) s) else found) ranges found) }
              else Some found)
       (fa_branches fn) 0"

text \<open>The call, the latest before the address, whose callee has a return with source information.\<close>

definition called_before ::
    "branch_site list \<Rightarrow> original_address \<Rightarrow> addr \<Rightarrow> ('w, 'z) predecessors_scheme \<Rightarrow> true_address option" where
  "called_before calls a image_base s =
     foldM (\<lambda>b found.
              if found \<noteq> 0 \<or> bs_address b \<ge> a then Some found
              else case function_analysis_containing_address (bs_target b) s of
                None \<Rightarrow> Some found
              | Some callee \<Rightarrow> last_return_line callee image_base s)
       calls 0"

definition into_predecessor ::
    "function_analysis \<Rightarrow> original_address \<Rightarrow> addr \<Rightarrow> ('w, 'z) predecessors_scheme \<Rightarrow> potential_predecessor \<Rightarrow>
      potential_predecessor option" where
  "into_predecessor fn a image_base s p =
     do { ranges \<leftarrow> get_line_ranges_from_address (get_original_instruction_address (pp_true_address p) s) image_base s;
          let calls = filter (\<lambda>b. address_in_line_ranges ranges (bs_address b) \<and> bs_kind b = BK_Call) (fa_branches fn);
          if ranges = [] \<or> calls = [] then Some p
          else do { found \<leftarrow> called_before (rev (sort_key bs_address calls)) a image_base s;
                    Some (if found \<noteq> 0
                          then \<lparr> pp_true_address = found, pp_branch_counter = pp_branch_counter p, pp_is_block_leader = False \<rparr>
                          else p) } }"

definition get_into_predecessors_of_address ::
    "'w win32 \<Rightarrow> zydis \<Rightarrow> original_address \<Rightarrow> u64 \<Rightarrow> addr \<Rightarrow> ('w, 'z) predecessors_scheme \<Rightarrow> potential_predecessor list option" where
  "get_into_predecessors_of_address W Z a current_branch_counter image_base s =
     do { line_predecessors \<leftarrow> get_line_predecessors_of_address W Z a current_branch_counter image_base s;
          case function_analysis_containing_address a s of
            None \<Rightarrow> Some line_predecessors
          | Some fn \<Rightarrow> mapM (into_predecessor fn a image_base s) line_predecessors }"

definition get_predecessors_of_address ::
    "'w win32 \<Rightarrow> zydis \<Rightarrow> true_address \<Rightarrow> u64 \<Rightarrow> reverse_step_mode \<Rightarrow> addr \<Rightarrow> ('w, 'z) predecessors_scheme \<Rightarrow>
      potential_predecessor list option" where
  "get_predecessors_of_address W Z current_address current_branch_counter mode image_base s =
     (let a = get_original_instruction_address current_address s in
      case mode of
        Reverse_Instruction \<Rightarrow> get_instruction_predecessors_of_address W Z a current_branch_counter s
      | Reverse_Line \<Rightarrow> get_line_predecessors_of_address W Z a current_branch_counter image_base s
      | Reverse_Into \<Rightarrow> get_into_predecessors_of_address W Z a current_branch_counter image_base s)"

end
