(* ===== verification/Stack_Walk.thy ===== *)
theory Stack_Walk
  imports Predecessors
begin

text \<open>
  \<open>src/plugins/cpp/utils.cpp\<close>: walking the stack of a thread that may be stopped inside a stub,
  finding a module, and printing registers, stacks and source lines.

  The stack walker and the symbol handler (\<open>dbghelp\<close>) are not part of the repository: they are fields
  of \<open>'w stack_api\<close>.  The walker gets the routine it reads memory with as an argument; a step of it
  has no result when that routine does not return, and fails with an inner \<open>None\<close>.  What
  \<open>get_original_bytes\<close> enters into the map is already there when it returns, so reading changes
  nothing.
\<close>

record stack_frame =
  sf_pc :: addr
  sf_stack :: addr
  sf_frame :: addr

record 'w stack_api =
  sa_walk :: "'w \<Rightarrow> handle \<Rightarrow> (addr \<Rightarrow> nat \<Rightarrow> byte list option) \<Rightarrow> stack_frame \<times> cpu_context \<Rightarrow>
                (stack_frame \<times> cpu_context) option option"
  sa_context :: "'w \<Rightarrow> handle \<Rightarrow> cpu_context option"
  sa_modules :: "'w \<Rightarrow> u32 \<Rightarrow> (string \<times> addr \<times> u32) list option"
  sa_symbol :: "'w \<Rightarrow> addr \<Rightarrow> (string \<times> u64) option"
  sa_module_name :: "'w \<Rightarrow> addr \<Rightarrow> string option"
  sa_line :: "'w \<Rightarrow> addr \<Rightarrow> (string \<times> u32) option"
  sa_segments :: "cpu_context \<Rightarrow> u16 list"
  sa_source :: "'w \<Rightarrow> string \<Rightarrow> string list option"

abbreviation (input) kMaxStackFrames :: nat where "kMaxStackFrames \<equiv> 64"

text \<open>\<open>memcpy\<close> of more bytes than there are reads past the end of the vector.\<close>

definition read_process_routine ::
    "'w win32 \<Rightarrow> ('w, 'z) predecessors_scheme \<Rightarrow> original_address \<Rightarrow> nat \<Rightarrow> byte list option" where
  "read_process_routine W s a n =
     (let true_address = fst (get_true_instruction_address a s) in
      case get_original_bytes W true_address s of
        None \<Rightarrow> None
      | Some (None, _) \<Rightarrow> Some (snd (w_read W (cp_world s) true_address (w_indeterminate W n)))
      | Some (Some bytes, _) \<Rightarrow> if n > length bytes then None else Some (take n bytes))"

definition fix_thread_ctx :: "cpu_context \<Rightarrow> ('w, 'z) instrumentation_scheme \<Rightarrow> cpu_context" where
  "fix_thread_ctx ctx s =
     (let true_address = ctx_Rip ctx;
          a = get_original_instruction_address true_address s;
          ctx = (if a \<noteq> true_address then ctx \<lparr> ctx_Rsp := ctx_Rsp ctx + ucast (address_rsp_fix_bytes true_address s) \<rparr> else ctx)
      in ctx \<lparr> ctx_Rip := a \<rparr>)"

definition first_frame :: "cpu_context \<Rightarrow> stack_frame" where
  "first_frame ctx = \<lparr> sf_pc = ctx_Rip ctx, sf_stack = ctx_Rsp ctx, sf_frame = ctx_Rbp ctx \<rparr>"

text \<open>At most \<open>n\<close> steps; the addresses of the frames up to and with the first that the caller stops at.\<close>

fun walk_frames ::
    "(stack_frame \<times> cpu_context \<Rightarrow> (stack_frame \<times> cpu_context) option option) \<Rightarrow> (addr \<Rightarrow> bool) \<Rightarrow> nat \<Rightarrow>
      stack_frame \<times> cpu_context \<Rightarrow> addr list option" where
  "walk_frames step stop 0 f = Some []"
| "walk_frames step stop (Suc n) f =
     do { r \<leftarrow> step f;
          case r of
            None \<Rightarrow> Some []
          | Some f \<Rightarrow>
              if sf_pc (fst f) = 0 then Some []
              else if stop (sf_pc (fst f)) then Some [sf_pc (fst f)]
              else map_option ((#) (sf_pc (fst f))) (walk_frames step stop n f) }"

definition walk_thread ::
    "'w win32 \<Rightarrow> 'w stack_api \<Rightarrow> handle \<Rightarrow> (addr \<Rightarrow> bool) \<Rightarrow> nat \<Rightarrow> cpu_context \<Rightarrow> ('w, 'z) predecessors_scheme \<Rightarrow>
      addr list option" where
  "walk_thread W A h stop n ctx s =
     (let ctx = fix_thread_ctx ctx s
      in walk_frames (sa_walk A (cp_world s) h (read_process_routine W s)) stop n (first_frame ctx, ctx))"

text \<open>Opening a thread, walking it, closing the handle; \<open>None\<close> inside when it could not be read.\<close>

definition walk_open_thread ::
    "'w win32 \<Rightarrow> 'w stack_api \<Rightarrow> thread_id \<Rightarrow> (addr \<Rightarrow> bool) \<Rightarrow> nat \<Rightarrow> ('w, 'z) predecessors_scheme \<Rightarrow>
      (addr list option \<times> ('w, 'z) predecessors_scheme) option" where
  "walk_open_thread W A tid stop n s =
     (let (h, w) = w_open_thread W (cp_world s) tid; s = s \<lparr> cp_world := w \<rparr> in
      if h = 0 then Some (None, s)
      else case sa_context A (cp_world s) h of
        None \<Rightarrow> Some (None, s \<lparr> cp_world := w_close_handle W (cp_world s) h \<rparr>)
      | Some ctx \<Rightarrow>
          do { frames \<leftarrow> walk_thread W A h stop n ctx s;
               Some (Some frames, s \<lparr> cp_world := w_close_handle W (cp_world s) h \<rparr>) })"

definition frames_of :: "addr list option \<Rightarrow> addr list" where
  "frames_of fs = (case fs of None \<Rightarrow> [] | Some fs \<Rightarrow> fs)"

record module_range =
  mr_base :: addr
  mr_size :: u64

definition in_module :: "module_range \<Rightarrow> addr \<Rightarrow> bool" where
  "in_module r a = (mr_base r \<le> a \<and> a < mr_base r + mr_size r)"

definition find_rip_in_module ::
    "'w win32 \<Rightarrow> 'w stack_api \<Rightarrow> thread_id \<Rightarrow> module_range \<Rightarrow> ('w, 'z) predecessors_scheme \<Rightarrow>
      (original_address option \<times> ('w, 'z) predecessors_scheme) option" where
  "find_rip_in_module W A tid r s =
     (if mr_size r = 0 then Some (None, s)
      else do { (frames, s) \<leftarrow> walk_open_thread W A tid (in_module r) 64 s;
                Some (find (in_module r) (frames_of frames), s) })"

definition get_return_address ::
    "'w win32 \<Rightarrow> 'w stack_api \<Rightarrow> thread_id \<Rightarrow> ('w, 'z) predecessors_scheme \<Rightarrow>
      (original_address \<times> ('w, 'z) predecessors_scheme) option" where
  "get_return_address W A tid s =
     do { (frames, s) \<leftarrow> walk_open_thread W A tid (\<lambda>_. False) 2 s;
          Some (case frames_of frames of [_, a] \<Rightarrow> a | _ \<Rightarrow> 0, s) }"

definition get_all_return_addresses ::
    "'w win32 \<Rightarrow> 'w stack_api \<Rightarrow> thread_id \<Rightarrow> ('w, 'z) predecessors_scheme \<Rightarrow>
      (original_address list \<times> ('w, 'z) predecessors_scheme) option" where
  "get_all_return_addresses W A tid s =
     do { (frames, s) \<leftarrow> walk_open_thread W A tid (\<lambda>_. False) kMaxStackFrames s;
          Some (tl (frames_of frames), s) }"

text \<open>The first module whose name contains the given one.\<close>

definition get_module_range :: "'w stack_api \<Rightarrow> u32 \<Rightarrow> string \<Rightarrow> 'w \<Rightarrow> module_range" where
  "get_module_range A process_id dll_name w =
     (case sa_modules A w process_id of
        None \<Rightarrow> \<lparr> mr_base = 0, mr_size = 0 \<rparr>
      | Some ms \<Rightarrow> (case find (\<lambda>(name, base, n). contains_text dll_name name) ms of
                      None \<Rightarrow> \<lparr> mr_base = 0, mr_size = 0 \<rparr>
                    | Some (name, base, n) \<Rightarrow> \<lparr> mr_base = base, mr_size = ucast n \<rparr>))"

definition get_image_base :: "'w stack_api \<Rightarrow> u32 \<Rightarrow> string \<Rightarrow> 'w \<Rightarrow> addr" where
  "get_image_base A process_id dll_name w = mr_base (get_module_range A process_id dll_name w)"

section \<open>Printing\<close>

definition print_frame :: "'w stack_api \<Rightarrow> 'w \<Rightarrow> nat \<Rightarrow> addr \<Rightarrow> string" where
  "print_frame A w index program_counter =
     (let lookup_address = (if index = 0 then program_counter else program_counter - 1) in
      ''    #'' @ pad_right 2 (show_dec index) @ '' 0x'' @ show_hex16 program_counter
      @ (case sa_symbol A w lookup_address of
           Some (name, displacement) \<Rightarrow> '' '' @ name @ ''+0x'' @ show_hex (unat displacement)
         | None \<Rightarrow> '' <unknown>'')
      @ (case sa_module_name A w lookup_address of Some name \<Rightarrow> '' ['' @ name @ '']'' | None \<Rightarrow> '''')
      @ (case sa_line A w lookup_address of
           Some (file, line) \<Rightarrow> '' ('' @ file @ '':'' @ show_dec (unat line) @ '')''
         | None \<Rightarrow> ''''))"

text \<open>A handle to every thread of the process, or only to the one with the given id.\<close>

definition collect_thread ::
    "'w win32 \<Rightarrow> u32 \<Rightarrow> thread_id \<Rightarrow> u32 \<times> thread_id \<Rightarrow> (handle \<times> thread_id) list \<times> ('w, 'z) predecessors_scheme \<Rightarrow>
      (handle \<times> thread_id) list \<times> ('w, 'z) predecessors_scheme" where
  "collect_thread W process_id tid entry acc =
     (let (infos, s) = acc; (owner, t) = entry in
      if owner \<noteq> process_id \<or> tid \<noteq> 0 \<and> t \<noteq> tid then (infos, s)
      else (let (h, w) = w_open_thread W (cp_world s) t; s = s \<lparr> cp_world := w \<rparr>
            in (if h = 0 then infos else infos @ [(h, t)], s)))"

definition collect_threads ::
    "'w win32 \<Rightarrow> u32 \<Rightarrow> thread_id \<Rightarrow> ('w, 'z) predecessors_scheme \<Rightarrow>
      (handle \<times> thread_id) list \<times> ('w, 'z) predecessors_scheme" where
  "collect_threads W process_id tid s =
     (case w_thread_list W (cp_world s) of
        None \<Rightarrow> ([], s)
      | Some entries \<Rightarrow> fold (collect_thread W process_id tid) entries ([], s))"

definition thread_stack_lines ::
    "'w win32 \<Rightarrow> 'w stack_api \<Rightarrow> handle \<times> thread_id \<Rightarrow> ('w, 'z) predecessors_scheme \<Rightarrow> string list option" where
  "thread_stack_lines W A info s =
     (let (h, t) = info in
      case sa_context A (cp_world s) h of
        None \<Rightarrow> Some [''Thread: ['' @ show_hex (unat t) @ ''] could not read thread context (error ''
                      @ show_dec (unat (w_last_error W (cp_world s))) @ '')'']
      | Some ctx \<Rightarrow>
          do { frames \<leftarrow> walk_thread W A h (\<lambda>_. False) kMaxStackFrames ctx s;
               Some ((''Thread: [0x'' @ show_hex (unat t) @ '']'')
                     # map (\<lambda>(i, pc). print_frame A (cp_world s) i pc) (enumerate 0 frames)
                     @ (if length frames = kMaxStackFrames then [''    ... (stopped after 64 frames)''] else [])) })"

definition print_stack_of ::
    "'w win32 \<Rightarrow> 'w stack_api \<Rightarrow> handle \<Rightarrow> u32 \<Rightarrow> thread_id \<Rightarrow> ('w, 'z) predecessors_scheme \<Rightarrow>
      (string list \<times> ('w, 'z) predecessors_scheme) option" where
  "print_stack_of W A process_handle process_id tid s =
     (if process_handle = 0 then Some ([''No handle to the debuggee process; cannot walk the stack''], s)
      else
        (let (infos, s) = collect_threads W process_id tid s in
         if infos = [] then Some ([''No threads found for process '' @ show_dec (unat process_id)], s)
         else foldM (\<lambda>info (out, s). do { lines \<leftarrow> thread_stack_lines W A info s;
                                           Some (out @ lines, s \<lparr> cp_world := w_close_handle W (cp_world s) (fst info) \<rparr>) })
                infos ([], s)))"

definition flag_bit :: "u32 \<Rightarrow> nat \<Rightarrow> u32 \<Rightarrow> string" where
  "flag_bit flags n low = show_dec (unat (and (drop_bit n flags) low))"

definition print_rflags :: "cpu_context \<Rightarrow> string list" where
  "print_rflags ctx =
     ''    RFLAGS Register:''
     # map (\<lambda>(name, n, low). ''        '' @ name @ '': '' @ flag_bit (ctx_EFlags ctx) n low)
         [(''CF'', 0, 1), (''PF'', 2, 1), (''AF'', 4, 1), (''ZF'', 6, 1), (''SF'', 7, 1), (''TF'', 8, 1), (''IF'', 9, 1),
          (''DF'', 10, 1), (''OF'', 11, 1), (''IOPL'', 12, 3), (''NT'', 14, 1), (''RF'', 16, 1), (''VM'', 17, 1), (''AC'', 18, 1),
          (''VIF'', 19, 1), (''VIP'', 20, 1), (''ID'', 21, 1)]"

definition register_lines :: "'w stack_api \<Rightarrow> thread_id \<Rightarrow> cpu_context \<Rightarrow> string list" where
  "register_lines A t ctx =
     [''Thread: [0x'' @ show_hex (unat t) @ '']'', ''    General Purpose Registers:'']
     @ map (\<lambda>(name, v). ''        '' @ name @ '': '' @ show_dec (unat v))
         [(''RAX'', ctx_Rax ctx), (''RBX'', ctx_Rbx ctx), (''RCX'', ctx_Rcx ctx), (''RDX'', ctx_Rdx ctx), (''RIP'', ctx_Rip ctx),
          (''RSP'', ctx_Rsp ctx), (''RBP'', ctx_Rbp ctx), (''RSI'', ctx_Rsi ctx), (''RDI'', ctx_Rdi ctx), (''R8'', ctx_R8 ctx),
          (''R9'', ctx_R9 ctx), (''R10'', ctx_R10 ctx), (''R11'', ctx_R11 ctx), (''R12'', ctx_R12 ctx), (''R13'', ctx_R13 ctx),
          (''R14'', ctx_R14 ctx), (''R15'', ctx_R15 ctx)]
     @ [''    Segment Registers:'']
     @ map (\<lambda>(name, v). ''        '' @ name @ '': '' @ show_dec (unat v))
         (zip [''CS'', ''DS'', ''SS'', ''ES'', ''FS'', ''GS''] (sa_segments A ctx))
     @ print_rflags ctx"

text \<open>A context that cannot be read is printed as zeros.\<close>

definition print_registers_of ::
    "'w win32 \<Rightarrow> 'w stack_api \<Rightarrow> thread_id \<Rightarrow> u32 \<Rightarrow> ('w, 'z) predecessors_scheme \<Rightarrow>
      string list \<times> ('w, 'z) predecessors_scheme" where
  "print_registers_of W A tid process_id s =
     (let (infos, s) = collect_threads W process_id tid s in
      fold (\<lambda>(h, t) (out, s).
              (let ctx = (case sa_context A (cp_world s) h of None \<Rightarrow> cpu_zero | Some ctx \<Rightarrow> ctx)
               in (out @ register_lines A t ctx, s \<lparr> cp_world := w_close_handle W (cp_world s) h \<rparr>)))
        infos ([], s))"

text \<open>
  The lines of a file with their numbers, from \<open>line_number\<close> on: those up to the last are read, those
  from the first are printed.  The second result is the number of the last line that was read.
\<close>

fun source_lines :: "u64 \<Rightarrow> int \<Rightarrow> int \<Rightarrow> int \<Rightarrow> string list \<Rightarrow> string list \<times> int" where
  "source_lines current first_line last_line line_number [] = ([], line_number)"
| "source_lines current first_line last_line line_number (line # rest) =
     (if line_number < last_line
      then (let line_number = line_number + 1;
                (out, n) = source_lines current first_line last_line line_number rest
            in (if line_number < first_line then out
                else ((if line_number = uint current then ''->'' else ''  '') @ '' '' @ pad_left 6 CHR '' '' (show_int line_number)
                      @ ''  '' @ line) # out, n))
      else ([], line_number))"

definition print_source_lines :: "string list option \<Rightarrow> string \<Rightarrow> u64 \<Rightarrow> u32 \<Rightarrow> u32 \<Rightarrow> string list" where
  "print_source_lines source file_path current_line start_offset end_offset =
     (if file_path = [] then [''No source file is recorded for the current address'']
      else case source of
        None \<Rightarrow> [''Could not open source file '' @ file_path]
      | Some file_lines \<Rightarrow>
          (let requested_first = sint current_line + sint start_offset;
               requested_last = sint current_line + sint end_offset;
               first_line = max 1 requested_first in
           if requested_last < 1 \<or> requested_last < first_line then []
           else (let (out, n) = source_lines current_line first_line requested_last 0 file_lines in
                 file_path # out
                 @ (if n < first_line
                    then [''Requested line '' @ show_int first_line @ '' is past the end of the file ('' @ show_int n @ '' lines)'']
                    else []))))"

section \<open>Threads stopped in a stub\<close>

lemma fix_entry_value: "(o1, d) \<in> set tls_instruction_offsets \<Longrightarrow>
    ucast (case fix_entry o1 d of Some n \<Rightarrow> n | None \<Rightarrow> (0 :: u16)) = (of_nat d :: u64)"
  by (auto simp: tls_instruction_offsets_def fix_entry_def)

text \<open>
  C25: A thread that is stopped anywhere in a stub is shown where it would be without it.  For every
  block that has a detour there is the stub the detour jumps to, such that, whenever the counting
  code has been entered at that stub with its four cells apart and has run up to any of its
  instructions, correcting the thread's context gives the address of the block and the stack pointer
  it was entered with.
\<close>

theorem stub_context_corrected:
  assumes "zydis_ok Z" "no_stubs s" "instrument_blocks W Z blocks s = Some s1"
    and "unat (bi_region_base s) + length (bi_code s1) < 2 ^ 64" "(b, patch) \<in> set (bi_patches s1)"
    and "\<And>k. k < length (bi_code s1) \<Longrightarrow> b \<noteq> code_addr s1 k"
  shows "\<exists>stub rel. emit_rel_jmp b stub = Some rel \<and> take 5 patch = rel
    \<and> (\<forall>u k u' ctx. stub_cells (bi_tls_counter_offset s) (bi_tls_target_offset s) u \<and> sc_pc u = 0 \<and> k \<le> 12
          \<and> stub_steps k (emit_tls_increment (bi_tls_counter_offset s) (bi_tls_target_offset s)) u = Some u' \<and> sc_pc u' < 42
          \<and> ctx_Rip ctx = stub + of_nat (sc_pc u') \<and> ctx_Rsp ctx = sc_rsp u'
          \<longrightarrow> ctx_Rip (fix_thread_ctx ctx s1) = b \<and> ctx_Rsp (fix_thread_ctx ctx s1) = sc_rsp u)"
proof -
  have run: "bi_ok s1" by (rule instrument_blocks_ok[OF assms(1,3) no_stubs_ok[OF assms(2)] assms(4), THEN conjunct1])
  then have "stub_ok s1 b patch" using assms(5) unfolding bi_ok_def by blast
  then obtain pre moved rest p rel where st: "bi_code s1 = pre @ emit_tls_increment (bi_tls_counter_offset s1) (bi_tls_target_offset s1)
        @ moved @ emit_abs_jmp (b + of_nat p) @ rest"
      "emit_rel_jmp b (code_addr s1 (length pre)) = Some rel" "patch = resize p 0x90 rel" "5 \<le> p"
      "\<forall>(o1, d)\<in>set tls_instruction_offsets. bi_to_original s1 (code_addr s1 (length pre + o1)) = Some b
         \<and> bi_rsp_fix s1 (code_addr s1 (length pre + o1)) = fix_entry o1 d"
    unfolding stub_ok_def by blast
  let ?stub = "code_addr s1 (length pre)"
  have "length rel = 5" by (rule emit_rel_jmp_reaches(1)[OF st(2)])
  then have patch: "take 5 patch = rel" using st(3,4) by (simp add: resize_def)
  have ctx: "ctx_Rip (fix_thread_ctx ctx s1) = b \<and> ctx_Rsp (fix_thread_ctx ctx s1) = sc_rsp u"
    if cells: "stub_cells (bi_tls_counter_offset s) (bi_tls_target_offset s) u" "sc_pc u = 0" "k \<le> 12"
      and steps: "stub_steps k (emit_tls_increment (bi_tls_counter_offset s) (bi_tls_target_offset s)) u = Some u'" "sc_pc u' < 42"
      and stopped: "ctx_Rip ctx = ?stub + of_nat (sc_pc u')" "ctx_Rsp ctx = sc_rsp u'" for u k u' ctx
  proof -
    obtain d where d: "map_of tls_instruction_offsets (sc_pc u') = Some d" "sc_rsp u' + of_nat d = sc_rsp u"
      using stub_stack_bytes[OF cells, of "[]" u'] steps by auto
    have key: "?stub + of_nat (sc_pc u') = code_addr s1 (length pre + sc_pc u')" by (simp add: code_addr_def ac_simps)
    have "bi_to_original s1 (?stub + of_nat (sc_pc u')) = Some b"
        "bi_rsp_fix s1 (?stub + of_nat (sc_pc u')) = fix_entry (sc_pc u') d"
      using st(5) map_of_SomeD[OF d(1)] unfolding key by auto
    moreover have "b \<noteq> ?stub + of_nat (sc_pc u')" unfolding key by (rule assms(6)) (simp add: st(1), use steps(2) in linarith)
    ultimately show ?thesis
      using d(2) fix_entry_value[OF map_of_SomeD[OF d(1)]] stopped
      by (simp add: fix_thread_ctx_def get_original_instruction_address_def address_rsp_fix_bytes_def Let_def)
  qed
  show ?thesis using st(2) patch ctx by blast
qed

lemma stub_context_corrected_witness:
  "\<exists>s1 stub. sample_run = Some s1 \<and> ctx_Rip (fix_thread_ctx (cpu_zero \<lparr> ctx_Rip := stub, ctx_Rsp := 0x8000 \<rparr>) s1) = 0x1010"
proof -
  obtain s1 where s1: "sample_run = Some s1" "length (bi_code s1) = 64"
      "bi_patches s1 = [(0x1010, [0xE9, 0xEB, 0xEF, 0x01, 0, 0x90, 0x90, 0x90])]"
    using sample_run_result by blast
  have run: "instrument_blocks flat_win32 sample_zydis [(0x1010, 0x1019)] sample_instrumentation = Some s1"
    using s1(1) by (simp add: sample_run_def)
  have bound: "unat (bi_region_base sample_instrumentation) + length (bi_code s1) < 2 ^ 64"
    by (simp add: s1(2) sample_instrumentation_def)
  have patch: "(0x1010, [0xE9, 0xEB, 0xEF, 0x01, 0, 0x90, 0x90, 0x90]) \<in> set (bi_patches s1)" by (simp add: s1(3))
  have outside: "(0x1010 :: addr) \<noteq> code_addr s1 k" if "k < length (bi_code s1)" for k
    by (rule sample_outside[OF s1(1) that]) simp
  let ?c = "bi_tls_counter_offset sample_instrumentation" and ?t = "bi_tls_target_offset sample_instrumentation"
  obtain stub where "\<forall>u k u' ctx. stub_cells ?c ?t u \<and> sc_pc u = 0 \<and> k \<le> 12
      \<and> stub_steps k (emit_tls_increment ?c ?t) u = Some u' \<and> sc_pc u' < 42
      \<and> ctx_Rip ctx = stub + of_nat (sc_pc u') \<and> ctx_Rsp ctx = sc_rsp u'
      \<longrightarrow> ctx_Rip (fix_thread_ctx ctx s1) = 0x1010 \<and> ctx_Rsp (fix_thread_ctx ctx s1) = sc_rsp u"
    using stub_context_corrected[OF sample_zydis_ok sample_no_stubs run bound patch outside] by blast
  from this[rule_format, of stub_entry 0 stub_entry "cpu_zero \<lparr> ctx_Rip := stub, ctx_Rsp := 0x8000 \<rparr>"] stub_entry_cells s1(1)
  show ?thesis
    by (intro exI[of _ s1] exI[of _ stub] conjI) (simp_all add: stub_entry_def sample_instrumentation_def)
qed

end
