(* ===== verification/Cpp_Plugin.thy ===== *)
theory Cpp_Plugin
  imports Stack_Walk
begin

text \<open>
  The exported functions of the C++ plugin, \<open>src/plugins/cpp/cpp_breakpoint_plugin.cpp\<close>, and the text
  of the compiled conditions, \<open>src/plugins/cpp/compiler.cpp\<close>.

  What the plugin calls outside the repository is in \<open>'w plugin_env\<close>: the operating system, Zydis,
  DIA and \<open>dbghelp\<close>, the allocation granularity, how numbers are formatted, the file calls, and the
  command interpreter, which runs a command line and gives its exit code if it could be started.  Loading a
  library gives a handle, and its export, if there is one, a predicate on the packed arguments.
  Messages about failures are not modelled.
\<close>

record 'w plugin_env =
  pe_win32 :: "'w win32"
  pe_zydis :: zydis
  pe_stack :: "'w stack_api"
  pe_format :: text_format
  pe_granularity :: u64
  pe_open_source :: "string \<Rightarrow> dia_source"
  pe_open_process :: "'w \<Rightarrow> u32 \<Rightarrow> handle \<times> 'w"
  pe_temp_path :: string
  pe_temp_file_name :: "'w \<Rightarrow> string \<Rightarrow> string \<Rightarrow> string \<times> 'w"
  pe_create_file :: "'w \<Rightarrow> string \<Rightarrow> handle option \<times> 'w"
  pe_write_file :: "'w \<Rightarrow> handle \<Rightarrow> string \<Rightarrow> 'w"
  pe_delete_file :: "'w \<Rightarrow> string \<Rightarrow> 'w"
  pe_run :: "'w \<Rightarrow> string \<Rightarrow> u32 option \<times> 'w"
  pe_load_library :: "'w \<Rightarrow> string \<Rightarrow> handle \<times> 'w"
  pe_evaluate :: "'w \<Rightarrow> handle \<Rightarrow> (u64 list \<Rightarrow> bool) option"
  pe_free_library :: "'w \<Rightarrow> handle \<Rightarrow> 'w"

record compiled_condition =
  cc_module :: handle
  cc_evaluate :: "u64 list \<Rightarrow> bool"
  cc_variables :: "variable_info list"

record 'w cpp_plugin = "'w predecessors" +
  cp_image_base :: addr
  cp_module_range :: module_range
  cp_process_handle :: handle
  cp_process_id :: u32
  cp_conditions :: "(original_address \<times> compiled_condition) list"

section \<open>Starting and stopping\<close>

definition get_metadata :: string where "get_metadata = ''c++;cpp''"

definition initialize_plugin ::
    "'w plugin_env \<Rightarrow> u32 \<Rightarrow> string \<Rightarrow> string \<Rightarrow> ('w, 'z) cpp_plugin_scheme \<Rightarrow> bool \<times> ('w, 'z) cpp_plugin_scheme" where
  "initialize_plugin E debugee_process_id dll_name pdb_path s =
     (let (success, s) = load_pdb (pe_open_source E) pdb_path s in
      if \<not> success then (False, s)
      else
        (let r = get_module_range (pe_stack E) debugee_process_id dll_name (cp_world s);
             (h, w) = pe_open_process E (cp_world s) debugee_process_id
         in (h \<noteq> 0, s \<lparr> cp_world := w, cp_module_range := r, cp_image_base := mr_base r, cp_process_id := debugee_process_id,
                        cp_process_handle := h \<rparr>)))"

definition free_condition :: "'w plugin_env \<Rightarrow> compiled_condition \<Rightarrow> 'w \<Rightarrow> 'w" where
  "free_condition E c w = (if cc_module c \<noteq> 0 then pe_free_library E w (cc_module c) else w)"

definition uninitialize_plugin :: "'w plugin_env \<Rightarrow> ('w, 'z) cpp_plugin_scheme \<Rightarrow> ('w, 'z) cpp_plugin_scheme" where
  "uninitialize_plugin E s =
     (let w = fold (\<lambda>(a, c). free_condition E c) (cp_conditions s) (cp_world s);
          w = (if cp_process_handle s \<noteq> 0 then w_close_handle (pe_win32 E) w (cp_process_handle s) else w)
      in unload_pdb (s \<lparr> cp_world := w, cp_conditions := [], cp_process_handle := 0, cp_process_id := 0 \<rparr>))"

section \<open>Conditions\<close>

definition condition_line :: "nat \<Rightarrow> variable_info \<Rightarrow> string" where
  "condition_line i v =
     (let arg = ''args['' @ show_dec i @ '']''; name = vi_name v in
      case vi_kind v of
        VK_Bool \<Rightarrow> ''    bool '' @ name @ '' = '' @ arg @ '' != 0;''
      | VK_Float \<Rightarrow> ''    float '' @ name @ ''; { int32_t _bits = (int32_t)'' @ arg @ ''; memcpy(&'' @ name @ '', &_bits, sizeof(''
                      @ name @ '')); }''
      | VK_Double \<Rightarrow> ''    double '' @ name @ ''; memcpy(&'' @ name @ '', &'' @ arg @ '', sizeof('' @ name @ ''));''
      | VK_Pointer \<Rightarrow> ''    void* '' @ name @ '' = reinterpret_cast<void*>('' @ arg @ '');''
      | _ \<Rightarrow> ''    '' @ vi_cpp_type v @ '' '' @ name @ '' = ('' @ vi_cpp_type v @ '')'' @ arg @ '';'')"

definition newline :: string where "newline = [CHR 0x0A]"

definition build_conditional_source_code :: "string \<Rightarrow> variable_info list \<Rightarrow> string" where
  "build_conditional_source_code expression vars =
     ''#include <cstring>'' @ newline @ ''#include <cstdint>'' @ newline
     @ ''extern '' @ [CHR 0x22] @ ''C'' @ [CHR 0x22]
     @ '' __declspec(dllexport) bool __cdecl evaluate_condition(const int64_t* args) {'' @ newline
     @ concat (map (\<lambda>(i, v). condition_line i v @ newline) (enumerate 0 vars))
     @ ''    return ('' @ expression @ '');'' @ newline @ ''}'' @ newline"

section \<open>The compiler\<close>

text \<open>Every occurrence is replaced, from left to right, and the search goes on behind the replacement.\<close>

function replace_all :: "string \<Rightarrow> string \<Rightarrow> string \<Rightarrow> string" where
  "replace_all old new str =
     (if str = [] \<or> old = [] then str
      else if take (length old) str = old then new @ replace_all old new (drop (length old) str)
      else hd str # replace_all old new (tl str))"
  by pat_completeness auto
termination by (relation "measure (\<lambda>(old, new, str). length str)") auto

declare replace_all.simps [simp del]

definition compiler_command :: string where
  "compiler_command =
     ''cmd.exe /C '' @ [CHR 0x22]
     @ concat (map (\<lambda>d. d @ [CHR 0x5C])
         [''C:'', ''Program Files'', ''Microsoft Visual Studio'', ''2022'', ''Community'', ''VC'', ''Auxiliary'', ''Build''])
     @ ''vcvars64.bat'' @ [CHR 0x22] @ '' && cl.exe /nologo /LD /EHsc /std:c++20 /Fe:{output} {source}''"

definition compile_condition :: "'w plugin_env \<Rightarrow> string \<Rightarrow> string \<Rightarrow> 'w \<Rightarrow> bool \<times> 'w" where
  "compile_condition E source output_dll_path w =
     (let (source_path, w) = pe_temp_file_name E w (pe_temp_path E) ''cnd'';
          cpp_path = source_path @ ''.cpp'';
          w = pe_delete_file E w source_path
      in case pe_create_file E w cpp_path of
        (None, w) \<Rightarrow> (False, w)
      | (Some file_handle, w) \<Rightarrow>
          (let w = w_close_handle (pe_win32 E) (pe_write_file E w file_handle source) file_handle;
               command = replace_all ''{output}'' output_dll_path (replace_all ''{source}'' cpp_path compiler_command);
               (exit_code, w) = pe_run E w command;
               w = pe_delete_file E w cpp_path
           in (exit_code = Some 0, w)))"

definition condition_dll :: "'w plugin_env \<Rightarrow> original_address \<Rightarrow> string" where
  "condition_dll E a = pe_temp_path E @ ''cnd_'' @ show_dec (unat a) @ ''.dll''"

definition create_conditional_expression ::
    "'w plugin_env \<Rightarrow> original_address \<Rightarrow> string \<Rightarrow> ('w, 'z) cpp_plugin_scheme \<Rightarrow> bool \<times> ('w, 'z) cpp_plugin_scheme" where
  "create_conditional_expression E a expression s =
     (let vars = resolve_variables a (cp_image_base s) s;
          source = build_conditional_source_code expression vars;
          (compiled, w) = compile_condition E source (condition_dll E a) (cp_world s);
          s = s \<lparr> cp_world := w \<rparr> in
      if \<not> compiled then (False, s)
      else
        (let (module, w) = pe_load_library E (cp_world s) (condition_dll E a); s = s \<lparr> cp_world := w \<rparr> in
         if module = 0 then (False, s)
         else case pe_evaluate E (cp_world s) module of
           None \<Rightarrow> (False, s \<lparr> cp_world := pe_free_library E (cp_world s) module \<rparr>)
         | Some evaluate \<Rightarrow>
             (let w = (case map_of (cp_conditions s) a of None \<Rightarrow> cp_world s | Some c \<Rightarrow> free_condition E c (cp_world s));
                  condition = \<lparr> cc_module = module, cc_evaluate = evaluate, cc_variables = vars \<rparr>
              in (True, s \<lparr> cp_world := w,
                            cp_conditions := (a, condition) # filter (\<lambda>(x, _). x \<noteq> a) (cp_conditions s) \<rparr>))))"

definition plugin_reached_breakpoint ::
    "'w plugin_env \<Rightarrow> true_address \<Rightarrow> thread_id \<Rightarrow> ('w, 'z) cpp_plugin_scheme \<Rightarrow> bool \<times> ('w, 'z) cpp_plugin_scheme" where
  "plugin_reached_breakpoint E true_address tid s =
     (case map_of (cp_conditions s) (get_original_instruction_address true_address s) of
        None \<Rightarrow> (True, s)
      | Some c \<Rightarrow> (let (args, s) = pack_incoming_args (pe_win32 E) (cc_variables c) tid s in (cc_evaluate c args, s)))"

section \<open>Addresses\<close>

definition get_address_from_name ::
    "string \<Rightarrow> string \<Rightarrow> ('w, 'z) cpp_plugin_scheme \<Rightarrow> original_address option" where
  "get_address_from_name name symbol_type s =
     (if symbol_type = ''function'' then get_address_from_func_name name (cp_image_base s) s
      else if symbol_type = ''label'' then get_address_from_c_label name (cp_image_base s) s
      else if symbol_type = ''file_line'' then get_address_from_file_line name (cp_image_base s) s
      else Some 0)"

definition plugin_function_bounds :: "original_address \<Rightarrow> ('w, 'z) cpp_plugin_scheme \<Rightarrow> function_bounds option" where
  "plugin_function_bounds a s = get_function_bounds_from_address a (cp_image_base s) s"

definition plugin_source_info ::
    "original_address \<Rightarrow> ('w, 'z) cpp_plugin_scheme \<Rightarrow> (source_location \<times> ('w, 'z) cpp_plugin_scheme) option" where
  "plugin_source_info a s = load_breakpoint_from_pdb a (cp_image_base s) s"

definition plugin_true_address :: "original_address \<Rightarrow> ('w, 'z) cpp_plugin_scheme \<Rightarrow> true_address" where
  "plugin_true_address a s = fst (get_true_instruction_address a s)"

definition plugin_original_address :: "true_address \<Rightarrow> ('w, 'z) cpp_plugin_scheme \<Rightarrow> original_address" where
  "plugin_original_address a s = get_original_instruction_address a s"

section \<open>Instrumenting a module\<close>

definition kTlsSlots :: u32 where "kTlsSlots = 0x1480"

text \<open>One block of a function; the leaders so far are in ascending order.\<close>

definition instrument_leader ::
    "'w plugin_env \<Rightarrow> basic_block \<Rightarrow> original_address list \<times> ('w, 'z) cpp_plugin_scheme \<Rightarrow>
      (original_address list \<times> ('w, 'z) cpp_plugin_scheme) option" where
  "instrument_leader E block acc =
     (let (leaders, s) = acc in
      do { (stub, s) \<leftarrow> instrument_block (pe_win32 E) (pe_zydis E) (bb_start block) (bb_end block) s;
           Some (if stub = 0 then leaders else List.insort_insert (bb_start block) leaders, s) })"

definition add_branch_instrumentation ::
    "'w plugin_env \<Rightarrow> u32 \<Rightarrow> u32 \<Rightarrow> ('w, 'z) cpp_plugin_scheme \<Rightarrow> (bool \<times> ('w, 'z) cpp_plugin_scheme) option" where
  "add_branch_instrumentation E tls_counter_index tls_target_index s =
     (if \<not> tls_counter_index < 64 \<or> \<not> tls_target_index < 64 then Some (False, s)
      else
        do { (created, s) \<leftarrow> create_instrumentation_region (pe_win32 E) (pe_granularity E)
               (kTlsSlots + 8 * tls_counter_index) (kTlsSlots + 8 * tls_target_index) (cp_image_base s) 0x10000 s;
             if \<not> created then Some (False, s)
             else
               do { analysis \<leftarrow> analyze_module (pe_win32 E) (pe_zydis E) (cp_image_base s) s;
                    (leaders, s) \<leftarrow> foldM (\<lambda>fn. foldM (instrument_leader E) (discover_blocks fn)) analysis ([], s);
                    let s = init_reverse_step_analysis analysis leaders s;
                    Some (True, snd (commit_instrumentation_region (pe_win32 E) s)) } })"

section \<open>Stepping backward\<close>

definition plugin_address_predecessors ::
    "'w plugin_env \<Rightarrow> true_address \<Rightarrow> u64 \<Rightarrow> reverse_step_mode \<Rightarrow> potential_predecessor list \<Rightarrow> ('w, 'z) cpp_plugin_scheme \<Rightarrow>
      (nat \<times> potential_predecessor list) option" where
  "plugin_address_predecessors E true_address current_branch_counter mode buf s =
     do { found \<leftarrow> get_predecessors_of_address (pe_win32 E) (pe_zydis E) true_address current_branch_counter mode
            (cp_image_base s) s;
          Some (length found, take (length buf) found @ drop (length found) buf) }"

definition plugin_branch_target :: "true_address \<Rightarrow> u64 \<Rightarrow> ('w, 'z) cpp_plugin_scheme \<Rightarrow> u64" where
  "plugin_branch_target true_address current_branch_counter s =
     (if is_instrumented_leader (get_original_instruction_address true_address s) s
      then current_branch_counter - 1 else current_branch_counter)"

section \<open>Stepping forward\<close>

definition add_step_breakpoint ::
    "addr \<Rightarrow> original_address \<Rightarrow> step_breakpoint_kind \<Rightarrow> step_breakpoint list \<times> ('w, 'z) cpp_plugin_scheme \<Rightarrow>
      (step_breakpoint list \<times> ('w, 'z) cpp_plugin_scheme) option" where
  "add_step_breakpoint image_base a kind acc =
     (let (bps, s) = acc in
      if list_ex (\<lambda>bp. sb_original_address bp = a) bps then Some (bps, s)
      else do { let true_address = fst (get_true_instruction_address a s);
                (location, s) \<leftarrow> load_breakpoint_from_pdb a image_base s;
                Some (bps @ [\<lparr> sb_original_address = a, sb_true_address = true_address, sb_step_kind = kind,
                               sb_has_source_info = (sl_line_number location \<noteq> 0) \<rparr>], s) })"

text \<open>Whether control can walk off the end of a range, from the branch that ends there, if any.\<close>

definition falls_through :: "branch_site list \<Rightarrow> line_range \<Rightarrow> bool" where
  "falls_through branches r =
     (case find (\<lambda>b. bs_next_address b = lr_end r) branches of
        None \<Rightarrow> True
      | Some b \<Rightarrow> bs_kind b \<notin> {BK_UnconditionalJmp, BK_IndirectJump, BK_Return})"

definition branch_breakpoint :: "step_mode \<Rightarrow> line_range list \<Rightarrow> branch_site \<Rightarrow> (original_address \<times> step_breakpoint_kind) option" where
  "branch_breakpoint mode ranges b =
     (case bs_kind b of
        BK_Conditional \<Rightarrow> if address_in_line_ranges ranges (bs_target b) then None else Some (bs_target b, SB_Line)
      | BK_UnconditionalJmp \<Rightarrow> if address_in_line_ranges ranges (bs_target b) then None else Some (bs_target b, SB_Line)
      | BK_Call \<Rightarrow> if mode = Step_Into then Some (bs_address b, SB_Call) else None
      | BK_IndirectCall \<Rightarrow> if mode = Step_Into then Some (bs_address b, SB_Call) else None
      | BK_IndirectJump \<Rightarrow> Some (bs_address b, SB_IndirectJump)
      | BK_Return \<Rightarrow> Some (bs_address b, SB_Return))"

text \<open>The breakpoints a step asks for, in the order they are asked for.\<close>

definition step_requests ::
    "step_mode \<Rightarrow> line_range list \<Rightarrow> branch_site list \<Rightarrow> (original_address \<times> step_breakpoint_kind) list" where
  "step_requests mode ranges branches =
     map (\<lambda>r. (lr_end r, SB_Line)) (filter (falls_through branches) ranges)
     @ List.map_filter (branch_breakpoint mode ranges) (filter (\<lambda>b. address_in_line_ranges ranges (bs_address b)) branches)"

definition step_breakpoints_for ::
    "true_address \<Rightarrow> step_mode \<Rightarrow> ('w, 'z) cpp_plugin_scheme \<Rightarrow>
      (step_breakpoint list \<times> ('w, 'z) cpp_plugin_scheme) option" where
  "step_breakpoints_for true_address mode s =
     (let a = get_original_instruction_address true_address s in
      do { ranges \<leftarrow> get_line_ranges_from_address a (cp_image_base s) s;
           if ranges = [] then Some ([], s)
           else case function_analysis_containing_address a s of
             None \<Rightarrow> Some ([], s)
           | Some fn \<Rightarrow>
               foldM (\<lambda>(a, kind). add_step_breakpoint (cp_image_base s) a kind) (step_requests mode ranges (fa_branches fn)) ([], s) })"

text \<open>An output buffer that is too small is left as it was.\<close>

definition fill_or_count :: "'a list \<Rightarrow> 'a list \<Rightarrow> nat \<times> 'a list" where
  "fill_or_count items buf = (length items, if length items > length buf then buf else items @ drop (length items) buf)"

definition step_mode_of :: "u32 \<Rightarrow> step_mode" where
  "step_mode_of code = (if code = 1 then Step_Into else Step_Line)"

definition plugin_breakpoints_for_step ::
    "true_address \<Rightarrow> u32 \<Rightarrow> step_breakpoint list \<Rightarrow> ('w, 'z) cpp_plugin_scheme \<Rightarrow>
      ((nat \<times> step_breakpoint list) \<times> ('w, 'z) cpp_plugin_scheme) option" where
  "plugin_breakpoints_for_step true_address code buf s =
     do { (bps, s) \<leftarrow> step_breakpoints_for true_address (step_mode_of code) s; Some (fill_or_count bps buf, s) }"

section \<open>Frames and printing\<close>

definition plugin_frame_return_address ::
    "'w plugin_env \<Rightarrow> thread_id \<Rightarrow> ('w, 'z) cpp_plugin_scheme \<Rightarrow> (original_address \<times> ('w, 'z) cpp_plugin_scheme) option" where
  "plugin_frame_return_address E tid s = get_return_address (pe_win32 E) (pe_stack E) tid s"

definition with_symbols ::
    "addr \<Rightarrow> original_address list \<Rightarrow> ('w, 'z) cpp_plugin_scheme \<Rightarrow> (return_address list \<times> ('w, 'z) cpp_plugin_scheme) option" where
  "with_symbols image_base frames s =
     foldM (\<lambda>a (out, s). do { (location, s) \<leftarrow> load_breakpoint_from_pdb a image_base s;
                               Some (out @ [\<lparr> ra_original_address = a, ra_has_symbols = (sl_line_number location \<noteq> 0) \<rparr>], s) })
       frames ([], s)"

definition plugin_all_frame_return_addresses ::
    "'w plugin_env \<Rightarrow> thread_id \<Rightarrow> return_address list \<Rightarrow> ('w, 'z) cpp_plugin_scheme \<Rightarrow>
      ((nat \<times> return_address list) \<times> ('w, 'z) cpp_plugin_scheme) option" where
  "plugin_all_frame_return_addresses E tid buf s =
     do { (frames, s) \<leftarrow> get_all_return_addresses (pe_win32 E) (pe_stack E) tid s;
          if length frames > length buf then Some ((length frames, buf), s)
          else do { (out, s) \<leftarrow> with_symbols (cp_image_base s) frames s;
                    Some ((length frames, out @ drop (length frames) buf), s) } }"

definition plugin_print_all_scoped_variables ::
    "'w plugin_env \<Rightarrow> original_address \<Rightarrow> thread_id \<Rightarrow> ('w, 'z) cpp_plugin_scheme \<Rightarrow>
      (string list \<times> ('w, 'z) cpp_plugin_scheme) option" where
  "plugin_print_all_scoped_variables E a tid s =
     do { (found, s) \<leftarrow> (if in_module (cp_module_range s) a then Some (Some a, s)
                         else find_rip_in_module (pe_win32 E) (pe_stack E) tid (cp_module_range s) s);
          case found of
            None \<Rightarrow> Some ([''No frame within the target module was found on this thread's stack''], s)
          | Some a \<Rightarrow> print_all_pdb_scoped_variables (pe_win32 E) (pe_format E) a tid (cp_image_base s) s }"

definition plugin_print_process_info ::
    "'w plugin_env \<Rightarrow> original_address \<Rightarrow> thread_id \<Rightarrow> process_information_type \<Rightarrow> ('w, 'z) cpp_plugin_scheme \<Rightarrow>
      (string list \<times> ('w, 'z) cpp_plugin_scheme) option" where
  "plugin_print_process_info E a tid information_type s =
     (if information_type = PI_ScopedVariables then plugin_print_all_scoped_variables E a tid s else Some ([], s))"

definition plugin_print_stack ::
    "'w plugin_env \<Rightarrow> thread_id \<Rightarrow> ('w, 'z) cpp_plugin_scheme \<Rightarrow> (string list \<times> ('w, 'z) cpp_plugin_scheme) option" where
  "plugin_print_stack E tid s =
     print_stack_of (pe_win32 E) (pe_stack E) (cp_process_handle s) (cp_process_id s) tid s"

definition plugin_print_registers ::
    "'w plugin_env \<Rightarrow> thread_id \<Rightarrow> ('w, 'z) cpp_plugin_scheme \<Rightarrow> string list \<times> ('w, 'z) cpp_plugin_scheme" where
  "plugin_print_registers E tid s = print_registers_of (pe_win32 E) (pe_stack E) tid (cp_process_id s) s"

definition plugin_print_lines ::
    "'w plugin_env \<Rightarrow> original_address \<Rightarrow> u16 \<Rightarrow> u16 \<Rightarrow> ('w, 'z) cpp_plugin_scheme \<Rightarrow>
      (string list \<times> ('w, 'z) cpp_plugin_scheme) option" where
  "plugin_print_lines E a line_start line_end s =
     do { (location, s) \<leftarrow> plugin_source_info a s;
          Some (if sl_line_number location = 0 then [''No line information for address 0x'' @ show_hex (unat a)]
                else print_source_lines (sa_source (pe_stack E) (cp_world s) (sl_file_name location)) (sl_file_name location)
                       (sl_line_number location) (scast line_start) (scast line_end), s) }"

definition plugin_print_object_type :: "string \<Rightarrow> string \<Rightarrow> ('w, 'z) cpp_plugin_scheme \<Rightarrow> string list option" where
  "plugin_print_object_type type_name dll_name s = print_object_from_type type_name s"

end
