(* ===== verification/Step_Facts.thy ===== *)
theory Step_Facts
  imports Cpp_Plugin
begin

text \<open>
  What the breakpoints of a source step are worth: control that leaves the line meets one of them
  (\<open>step_stops_on_exit\<close>), and the list that \<open>cpp_breakpoint_plugin.cpp\<close> computes is the list the
  debugger gets through \<open>plugin_manager.cpp\<close> (\<open>cpp_lists_arrive\<close>).
\<close>

section \<open>The instructions behind an analysis\<close>

text \<open>The instructions the linear disassembly sees, with their offsets, up to the first that does not decode.\<close>

function linear :: "zydis \<Rightarrow> byte list \<Rightarrow> nat \<Rightarrow> (nat \<times> insn) list" where
  "linear Z bytes off =
     (if off < length bytes then
        case zy_decode_full Z (drop off bytes) of
          None \<Rightarrow> []
        | Some i \<Rightarrow> if in_length i = 0 then [] else (off, i) # linear Z bytes (off + in_length i)
      else [])"
  by pat_completeness auto
termination by (relation "measure (\<lambda>(Z, bytes, off). length bytes - off)") auto

declare linear.simps [simp del]

definition site_at :: "zydis \<Rightarrow> addr \<Rightarrow> nat \<times> insn \<Rightarrow> branch_site option" where
  "site_at Z start x =
     (let a = start + of_nat (fst x) in
      map_option (\<lambda>(target, kind).
          \<lparr> bs_address = a, bs_next_address = a + of_nat (in_length (snd x)), bs_target = target, bs_length = in_length (snd x),
            bs_kind = kind, bs_is_back_edge = (target \<noteq> 0 \<and> start \<le> target \<and> target < a
              \<and> (kind = BK_Conditional \<or> kind = BK_UnconditionalJmp)) \<rparr>) (classify Z (snd x) a))"

lemma linear_cases:
  obtains "linear Z bytes off = []"
    | j where "off < length bytes" "zy_decode_full Z (drop off bytes) = Some j" "in_length j \<noteq> 0"
        "linear Z bytes off = (off, j) # linear Z bytes (off + in_length j)"
proof (cases "linear Z bytes off = []")
  case False
  then obtain j where "off < length bytes" "zy_decode_full Z (drop off bytes) = Some j" "in_length j \<noteq> 0"
    by (auto simp: linear.simps[of Z bytes off] split: if_splits option.splits)
  then show ?thesis using that(2) by (simp add: linear.simps[of Z bytes off])
qed (use that(1) in simp)

lemma record_branch_site:
  "fa_branches (record_branch Z i (fr_start (fa_info an) + of_nat off) an) =
     fa_branches an @ List.map_filter (site_at Z (fr_start (fa_info an))) [(off, i)]"
  by (cases "classify Z i (fr_start (fa_info an) + of_nat off)")
    (auto simp: record_branch_def site_at_def Let_def map_filter_def split: prod.split)

lemma analyze_bytes_linear:
  assumes "analyze_bytes Z bytes off an = Some an'"
  shows "fa_info an' = fa_info an
    \<and> fa_branches an' = fa_branches an @ List.map_filter (site_at Z (fr_start (fa_info an))) (linear Z bytes off)"
  using assms
proof (induction "length bytes - off" arbitrary: off an rule: less_induct)
  case less
  show ?case
  proof (cases "off < length bytes \<and> zy_decode_full Z (drop off bytes) \<noteq> None")
    case False
    then have "analyze_bytes Z bytes off an = Some an" "linear Z bytes off = []"
      by (auto simp: analyze_bytes.simps[of Z bytes off] linear.simps[of Z bytes off])
    then show ?thesis using less.prems by (simp add: map_filter_def)
  next
    case True
    then obtain i where i: "zy_decode_full Z (drop off bytes) = Some i" by auto
    let ?an = "record_branch Z i (fr_start (fa_info an) + of_nat off) an"
    have run: "in_length i \<noteq> 0" "analyze_bytes Z bytes (off + in_length i) ?an = Some an'"
      using less.prems True i by (auto simp: analyze_bytes.simps[of Z bytes off] split: if_splits)
    have "length bytes - (off + in_length i) < length bytes - off" using True run(1) by auto
    from less.hyps[OF this run(2)] show ?thesis
      using True i run(1) by (simp add: linear.simps[of Z bytes off] record_branch_site split: option.splits)
  qed
qed

lemma linear_bounds:
  assumes "zydis_ok Z" "(k, i) \<in> set (linear Z bytes off)"
  shows "off \<le> k \<and> 0 < in_length i \<and> k + in_length i \<le> length bytes"
  using assms(2)
proof (induction "length bytes - off" arbitrary: off rule: less_induct)
  case less
  then obtain j where j: "off < length bytes" "zy_decode_full Z (drop off bytes) = Some j" "in_length j \<noteq> 0"
      "(k, i) = (off, j) \<or> (k, i) \<in> set (linear Z bytes (off + in_length j))"
    by (cases rule: linear_cases[of Z bytes off]) auto
  have "insn_fits j (drop off bytes)" using assms(1) j(2) by (simp add: zydis_ok_def)
  then have "off + in_length j \<le> length bytes" using j(1) by (auto simp: insn_fits_def)
  then show ?case using j less.hyps[of "off + in_length j"] by (cases "(k, i) = (off, j)") force+
qed

text \<open>Two instructions of the disassembly that end at the same place are the same.\<close>

lemma linear_ends:
  assumes "zydis_ok Z" "(k, i) \<in> set (linear Z bytes off)" "(k', i') \<in> set (linear Z bytes off)"
    and "k + in_length i = k' + in_length i'"
  shows "(k, i) = (k', i')"
  using assms(2,3)
proof (induction "length bytes - off" arbitrary: off rule: less_induct)
  case less
  then obtain j where j: "off < length bytes" "in_length j \<noteq> 0"
      "linear Z bytes off = (off, j) # linear Z bytes (off + in_length j)"
    by (cases rule: linear_cases[of Z bytes off]) auto
  let ?rest = "linear Z bytes (off + in_length j)"
  have beyond: "off + in_length j < a + in_length b" if "(a, b) \<in> set ?rest" for a b
    using linear_bounds[OF assms(1) that] by simp
  consider "(k, i) = (off, j)" "(k', i') = (off, j)" | "(k, i) = (off, j)" "(k', i') \<in> set ?rest"
    | "(k, i) \<in> set ?rest" "(k', i') = (off, j)" | "(k, i) \<in> set ?rest" "(k', i') \<in> set ?rest"
    using less.prems j(3) by auto
  then show ?case
  proof cases
    case 4
    then show ?thesis using less.hyps[of "off + in_length j"] j(1,2) by auto
  qed (use beyond assms(4) in fastforce)+
qed

section \<open>Leaving a line\<close>

text \<open>
  Where control can go from an instruction without the processor or memory deciding: to its direct
  target and, unless it is a jump or a return, to the instruction behind it (a call comes back there).
\<close>

definition successors :: "zydis \<Rightarrow> insn \<Rightarrow> addr \<Rightarrow> addr set" where
  "successors Z i a =
     (let behind = a + of_nat (in_length i) in
      case classify Z i a of
        None \<Rightarrow> {behind}
      | Some (target, kind) \<Rightarrow>
          (case kind of
             BK_Conditional \<Rightarrow> {target, behind}
           | BK_UnconditionalJmp \<Rightarrow> {target}
           | BK_Call \<Rightarrow> {behind}
           | BK_IndirectCall \<Rightarrow> {behind}
           | BK_IndirectJump \<Rightarrow> {}
           | BK_Return \<Rightarrow> {}))"

text \<open>The instruction itself is stopped at: it leaves for a place only the processor knows, or it is a call to step into.\<close>

definition stop_here :: "zydis \<Rightarrow> step_mode \<Rightarrow> insn \<Rightarrow> addr \<Rightarrow> bool" where
  "stop_here Z mode i a =
     (case classify Z i a of
        None \<Rightarrow> False
      | Some (_, kind) \<Rightarrow> kind \<in> {BK_IndirectJump, BK_Return} \<or> (mode = Step_Into \<and> kind \<in> {BK_Call, BK_IndirectCall}))"

lemma gaps_beyond:
  assumes "gaps (r # rs)" "\<forall>r\<in>set rs. lr_start r \<le> lr_end r" "r' \<in> set rs"
  shows "lr_end r < lr_start r'"
  using assms
proof (induction rs arbitrary: r)
  case (Cons q rs)
  have "lr_end r < lr_start q" "gaps (q # rs)" "lr_start q \<le> lr_end q" using Cons.prems by auto
  then show ?case using Cons.IH[of q] Cons.prems by (cases "r' = q") (auto intro: order.strict_trans order_le_less_trans)
qed simp

text \<open>The end of a range belongs to no range.\<close>

lemma range_end_outside:
  assumes "gaps rs" "\<forall>r\<in>set rs. lr_start r \<le> lr_end r" "r \<in> set rs"
  shows "\<not> address_in_line_ranges rs (lr_end r)"
  using assms
proof (induction rs)
  case (Cons q rs)
  have rest: "gaps rs" using Cons.prems(1) by (cases rs) auto
  show ?case
  proof (cases "r = q")
    case True
    then show ?thesis using gaps_beyond[OF Cons.prems(1)] Cons.prems(2)
      by (auto simp: address_in_line_ranges_def list_ex_iff not_less not_le)
  next
    case False
    then have r: "r \<in> set rs" using Cons.prems(3) by simp
    have "lr_end q < lr_start r" using gaps_beyond[OF Cons.prems(1) _ r] Cons.prems(2) by simp
    then have "lr_end q < lr_end r" using Cons.prems(2) r by (auto intro: order_less_le_trans)
    then show ?thesis using Cons.IH[OF rest _ r] Cons.prems(2) by (auto simp: address_in_line_ranges_def)
  qed
qed simp

lemma line_ranges_gaps: "get_line_ranges_from_address a image_base s = Some ranges \<Longrightarrow> gaps ranges"
  using merge_fold[of "sort_key lr_start es" "[]" 0 for es] by (auto simp: get_line_ranges_from_address_def merge_ranges_def split: bind_splits)

section \<open>Asking for breakpoints\<close>

lemma load_breakpoint_same: "load_breakpoint_from_pdb a image_base s = Some (l, s') \<Longrightarrow> same_but_cache s s'"
  unfolding load_breakpoint_from_pdb_def Let_def
  by (auto split: option.splits bind_splits) (auto simp: same_but_cache_def)

lemma same_but_cache_maps:
  assumes "same_but_cache s s'"
  shows "get_true_instruction_address a s' = get_true_instruction_address a s"
    and "get_original_instruction_address a s' = get_original_instruction_address a s"
  using assms by (auto simp: same_but_cache_def get_true_instruction_address_def get_original_instruction_address_def)

definition asked_for :: "(original_address \<times> step_breakpoint_kind) list \<Rightarrow> ('w, 'z) instrumentation_scheme \<Rightarrow> step_breakpoint \<Rightarrow> bool" where
  "asked_for reqs s bp = ((sb_original_address bp, sb_step_kind bp) \<in> set reqs
     \<and> sb_true_address bp = fst (get_true_instruction_address (sb_original_address bp) s))"

lemma add_step_breakpoint_cases:
  assumes "add_step_breakpoint image_base a kind (bps, s) = Some (bps', s')"
  obtains "a \<in> sb_original_address ` set bps" "bps' = bps" "s' = s"
    | bp where "a \<notin> sb_original_address ` set bps" "bps' = bps @ [bp]" "asked_for [(a, kind)] s bp" "sb_original_address bp = a"
        "same_but_cache s s'"
proof (cases "a \<in> sb_original_address ` set bps")
  case True
  then have "list_ex (\<lambda>bp. sb_original_address bp = a) bps" by (auto simp: list_ex_iff)
  then show ?thesis using assms that(1)[OF True] by (simp add: add_step_breakpoint_def)
next
  case False
  then obtain l where l: "load_breakpoint_from_pdb a image_base s = Some (l, s')"
      "bps' = bps @ [\<lparr> sb_original_address = a, sb_true_address = fst (get_true_instruction_address a s), sb_step_kind = kind,
                        sb_has_source_info = (sl_line_number l \<noteq> 0) \<rparr>]"
    using assms by (auto simp: add_step_breakpoint_def list_ex_iff Let_def image_iff split: if_splits bind_splits)
  show ?thesis by (rule that(2)[OF False l(2)]) (simp_all add: asked_for_def load_breakpoint_same[OF l(1)])
qed

lemma add_step_breakpoints:
  assumes "foldM (\<lambda>(a, kind). add_step_breakpoint image_base a kind) reqs (bps, s) = Some (bps', s')"
    and "distinct (map sb_original_address bps)"
  shows "same_but_cache s s' \<and> distinct (map sb_original_address bps')
    \<and> sb_original_address ` set bps' = sb_original_address ` set bps \<union> fst ` set reqs
    \<and> (\<forall>bp\<in>set bps'. bp \<in> set bps \<or> asked_for reqs s bp)"
  using assms
proof (induction reqs arbitrary: bps s)
  case (Cons req reqs)
  obtain a kind where req: "req = (a, kind)" by force
  obtain bps1 s1 where step: "add_step_breakpoint image_base a kind (bps, s) = Some (bps1, s1)"
      "foldM (\<lambda>(a, kind). add_step_breakpoint image_base a kind) reqs (bps1, s1) = Some (bps', s')"
    using Cons.prems(1) req by (auto split: bind_splits)
  have sofar: "same_but_cache s s1 \<and> distinct (map sb_original_address bps1)
      \<and> sb_original_address ` set bps1 = insert a (sb_original_address ` set bps)
      \<and> (\<forall>bp\<in>set bps1. bp \<in> set bps \<or> asked_for [req] s bp)"
    using step(1) by (cases rule: add_step_breakpoint_cases) (use Cons.prems(2) req in auto)
  have "asked_for reqs s1 bp \<Longrightarrow> asked_for reqs s bp" for bp
    using same_but_cache_maps(1)[of s s1 "sb_original_address bp"] sofar by (auto simp: asked_for_def)
  then show ?case
    using Cons.IH[OF step(2)] sofar req same_but_cache_trans by (auto simp: asked_for_def)
qed simp

lemma step_breakpoints_cases:
  assumes "step_breakpoints_for t mode s = Some (bps, s')"
    and "get_line_ranges_from_address (get_original_instruction_address t s) (cp_image_base s) s = Some ranges"
    and "function_analysis_containing_address (get_original_instruction_address t s) s = Some fn"
  shows "ranges = [] \<and> bps = []
    \<or> foldM (\<lambda>(a, kind). add_step_breakpoint (cp_image_base s) a kind) (step_requests mode ranges (fa_branches fn)) ([], s)
        = Some (bps, s')"
  using assms by (auto simp: step_breakpoints_for_def Let_def split: if_splits)

section \<open>Every way out of a line\<close>

lemma site_requested:
  assumes "fa_branches fn = List.map_filter (site_at Z start) is" "(k, i) \<in> set is"
    and "site_at Z start (k, i) = Some b" "address_in_line_ranges ranges (bs_address b)"
    and "branch_breakpoint mode ranges b = Some req"
  shows "req \<in> set (step_requests mode ranges (fa_branches fn))"
proof -
  have "b \<in> set (fa_branches fn)" using assms(1-3) by (force simp: map_filter_def)
  then show ?thesis using assms(4,5) by (force simp: step_requests_def map_filter_def)
qed

lemma stop_requested:
  assumes "fa_branches fn = List.map_filter (site_at Z start) is" "(k, i) \<in> set is"
    and "address_in_line_ranges ranges (start + of_nat k)" "stop_here Z mode i (start + of_nat k)"
  shows "start + of_nat k \<in> fst ` set (step_requests mode ranges (fa_branches fn))"
proof -
  obtain target kind where c: "classify Z i (start + of_nat k) = Some (target, kind)"
      "kind \<in> {BK_IndirectJump, BK_Return} \<or> (mode = Step_Into \<and> kind \<in> {BK_Call, BK_IndirectCall})"
    using assms(4) by (auto simp: stop_here_def split: option.splits)
  then obtain b where b: "site_at Z start (k, i) = Some b" "bs_address b = start + of_nat k" "bs_kind b = kind"
    by (simp add: site_at_def Let_def)
  then obtain k where "branch_breakpoint mode ranges b = Some (bs_address b, k)"
    using c(2) by (auto simp: branch_breakpoint_def)
  then show ?thesis using site_requested[OF assms(1,2) b(1)] assms(3) b(2) by force
qed

lemma jump_requested:
  assumes "fa_branches fn = List.map_filter (site_at Z start) is" "(k, i) \<in> set is"
    and "address_in_line_ranges ranges (start + of_nat k)" "\<not> address_in_line_ranges ranges target"
    and "classify Z i (start + of_nat k) = Some (target, kind)" "kind \<in> {BK_Conditional, BK_UnconditionalJmp}"
  shows "target \<in> fst ` set (step_requests mode ranges (fa_branches fn))"
proof -
  obtain b where b: "site_at Z start (k, i) = Some b" "bs_address b = start + of_nat k" "bs_kind b = kind" "bs_target b = target"
    using assms(5) by (simp add: site_at_def Let_def)
  then have "branch_breakpoint mode ranges b = Some (target, SB_Line)"
    using assms(4,6) by (auto simp: branch_breakpoint_def)
  then show ?thesis using site_requested[OF assms(1,2) b(1)] assms(3) b(2) by force
qed

lemma fall_requested:
  assumes zy: "zydis_ok Z" and bs: "fa_branches fn = List.map_filter (site_at Z (fr_start f)) (linear Z bytes 0)"
    and size: "length bytes = unat (fr_end f - fr_start f)" "fr_start f \<le> fr_end f"
    and i: "(k, i) \<in> set (linear Z bytes 0)" "r \<in> set ranges" "fr_start f + of_nat k + of_nat (in_length i) = lr_end r"
    and behind: "\<And>t kind. classify Z i (fr_start f + of_nat k) = Some (t, kind) \<Longrightarrow> kind \<notin> {BK_UnconditionalJmp, BK_IndirectJump, BK_Return}"
  shows "lr_end r \<in> fst ` set (step_requests mode ranges (fa_branches fn))"
proof -
  have ends: "unat (fr_start f + of_nat k + of_nat (in_length i)) = unat (fr_start f) + (k + in_length i)"
    if "(k, i) \<in> set (linear Z bytes 0)" for k i
    using word_within(1)[OF size(2), of "k + in_length i"] linear_bounds[OF zy that] size(1) by (simp add: add.assoc)
  have "falls_through (fa_branches fn) r"
  proof (cases "find (\<lambda>b. bs_next_address b = lr_end r) (fa_branches fn)")
    case (Some b)
    then have "b \<in> set (fa_branches fn)" "bs_next_address b = lr_end r" by (auto simp: find_Some_iff)
    then obtain k' i' where k': "(k', i') \<in> set (linear Z bytes 0)" "site_at Z (fr_start f) (k', i') = Some b"
      by (auto simp: bs map_filter_def)
    then have "fr_start f + of_nat k' + of_nat (in_length i') = lr_end r"
      using \<open>bs_next_address b = lr_end r\<close> by (auto simp: site_at_def Let_def)
    then have "k + in_length i = k' + in_length i'" using ends[OF i(1)] ends[OF k'(1)] i(3) by simp
    then have "(k, i) = (k', i')" by (rule linear_ends[OF zy i(1) k'(1)])
    then obtain t where "classify Z i (fr_start f + of_nat k) = Some (t, bs_kind b)"
      using k'(2) by (auto simp: site_at_def Let_def)
    then show ?thesis using behind Some by (auto simp: falls_through_def)
  qed (simp add: falls_through_def)
  then show ?thesis using i(2) by (force simp: step_requests_def)
qed

text \<open>The line table ends a range only where an instruction ends.\<close>

definition whole_instructions :: "zydis \<Rightarrow> addr \<Rightarrow> byte list \<Rightarrow> line_range list \<Rightarrow> bool" where
  "whole_instructions Z start bytes ranges =
     (list_all (\<lambda>r. lr_start r \<le> lr_end r) ranges
      \<and> list_all (\<lambda>(k, i). list_all (\<lambda>r. in_range r (start + of_nat k) \<longrightarrow> start + of_nat k + of_nat (in_length i) \<le> lr_end r)
                      ranges) (linear Z bytes 0))"

lemma in_rangesE:
  assumes "address_in_line_ranges ranges a"
  obtains r where "r \<in> set ranges" "in_range r a"
  using assms by (auto simp: address_in_line_ranges_def in_range_def list_ex_iff)

lemma in_rangesI: "r \<in> set ranges \<Longrightarrow> in_range r a \<Longrightarrow> address_in_line_ranges ranges a"
  by (auto simp: address_in_line_ranges_def in_range_def list_ex_iff)

lemma exits_requested:
  assumes zy: "zydis_ok Z" and bs: "fa_branches fn = List.map_filter (site_at Z (fr_start f)) (linear Z bytes 0)"
    and size: "length bytes = unat (fr_end f - fr_start f)" "fr_start f \<le> fr_end f"
    and whole: "whole_instructions Z (fr_start f) bytes ranges"
    and i: "(k, i) \<in> set (linear Z bytes 0)" "a = fr_start f + of_nat k" "address_in_line_ranges ranges a"
    and c: "c \<in> successors Z i a" "\<not> address_in_line_ranges ranges c"
  shows "c \<in> fst ` set (step_requests mode ranges (fa_branches fn))"
proof (cases "\<exists>kind. classify Z i a = Some (c, kind) \<and> kind \<in> {BK_Conditional, BK_UnconditionalJmp}")
  case True
  then show ?thesis using jump_requested[OF bs i(1)] i(2,3) c(2) by blast
next
  case False
  let ?stop = "a + of_nat (in_length i)"
  from False have fall: "c = ?stop" "\<And>t kind. classify Z i a = Some (t, kind) \<Longrightarrow> kind \<notin> {BK_UnconditionalJmp, BK_IndirectJump, BK_Return}"
    using c(1) by (auto simp: successors_def Let_def split: option.splits branch_kind.splits)
  obtain r where r: "r \<in> set ranges" "in_range r a" using i(3) by (rule in_rangesE)
  have "?stop \<le> lr_end r" using whole i(1) r unfolding whole_instructions_def list_all_iff i(2) by blast
  moreover have "k + in_length i \<le> unat (fr_end f - fr_start f)" using linear_bounds[OF zy i(1)] size(1) by simp
  then have "a \<le> ?stop"
    using word_within(1)[OF size(2), of "k + in_length i"] word_within(1)[OF size(2), of k] i(2)
    by (simp add: word_le_nat_alt add.assoc)
  ultimately have "?stop = lr_end r"
    using c(2) r in_rangesI[OF r(1), of ?stop] unfolding fall(1) in_range_def by (meson order.not_eq_order_implies_strict order.trans)
  then show ?thesis using fall_requested[OF zy bs size i(1) r(1), of mode] fall i(2) by simp
qed

lemma line_request:
  assumes "(a, SB_Line) \<in> set (step_requests mode ranges branches)"
  shows "(\<exists>r\<in>set ranges. a = lr_end r) \<or> \<not> address_in_line_ranges ranges a"
proof -
  have "branch_breakpoint mode ranges b = Some (a, SB_Line) \<Longrightarrow> \<not> address_in_line_ranges ranges a" for b
    by (cases "bs_kind b") (auto simp: branch_breakpoint_def split: if_splits)
  then show ?thesis using assms by (auto simp: step_requests_def map_filter_def)
qed

text \<open>
  C8: A step over a source line stops wherever control leaves the line.  Take the function's bytes, the
  analysis made of them and the breakpoints the plugin computes for the line of an address, in
  either mode.  No address is listed twice, each is listed with the address its instruction has
  been moved to, and the ones of kind \<open>Line\<close> lie outside the line.  For every instruction of the line
  that the disassembly finds, each place control can go to next is in the line again or has a
  breakpoint, and the instruction has one itself when it is a return or an indirect jump or, when stepping
  into, a call.
\<close>

theorem step_stops_on_exit:
  assumes "zydis_ok Z" "fr_start f \<le> fr_end f" "length bytes = unat (fr_end f - fr_start f)"
    and "analyze_bytes Z bytes 0 \<lparr> fa_info = f, fa_branches = [], fa_loops = [] \<rparr> = Some fn"
    and "function_analysis_containing_address (get_original_instruction_address t s) s = Some fn"
    and "get_line_ranges_from_address (get_original_instruction_address t s) (cp_image_base s) s = Some ranges"
    and "whole_instructions Z (fr_start f) bytes ranges"
    and "step_breakpoints_for t mode s = Some (bps, s')"
  shows "distinct (map sb_original_address bps)
    \<and> (\<forall>bp\<in>set bps. sb_true_address bp = fst (get_true_instruction_address (sb_original_address bp) s)
         \<and> (sb_step_kind bp = SB_Line \<longrightarrow> \<not> address_in_line_ranges ranges (sb_original_address bp)))
    \<and> (\<forall>(k, i)\<in>set (linear Z bytes 0). \<forall>a. a = fr_start f + of_nat k \<longrightarrow> address_in_line_ranges ranges a \<longrightarrow>
         (\<forall>c\<in>successors Z i a. address_in_line_ranges ranges c \<or> c \<in> sb_original_address ` set bps)
         \<and> (stop_here Z mode i a \<longrightarrow> a \<in> sb_original_address ` set bps))"
proof -
  have bs: "fa_branches fn = List.map_filter (site_at Z (fr_start f)) (linear Z bytes 0)"
    using analyze_bytes_linear[OF assms(4)] by simp
  let ?reqs = "step_requests mode ranges (fa_branches fn)"
  have run: "distinct (map sb_original_address bps) \<and> (\<forall>bp\<in>set bps. asked_for ?reqs s bp)
      \<and> (ranges = [] \<or> sb_original_address ` set bps = fst ` set ?reqs)"
    using step_breakpoints_cases[OF assms(8,6,5)]
    by (elim disjE conjE) (simp, (drule add_step_breakpoints; simp))
  have outside: "\<not> address_in_line_ranges ranges (sb_original_address bp)" if "asked_for ?reqs s bp" "sb_step_kind bp = SB_Line" for bp
  proof -
    have "\<forall>r\<in>set ranges. lr_start r \<le> lr_end r" using assms(7) by (auto simp: whole_instructions_def list_all_iff)
    then have "\<not> address_in_line_ranges ranges a" if "(a, SB_Line) \<in> set ?reqs" for a
      using line_request[OF that] range_end_outside[OF line_ranges_gaps[OF assms(6)]] by blast
    then show ?thesis using that by (simp add: asked_for_def)
  qed
  have empty: "ranges = [] \<Longrightarrow> \<not> address_in_line_ranges ranges a" for a by (simp add: address_in_line_ranges_def)
  have d: "distinct (map sb_original_address bps)" using run by simp
  have each: "sb_true_address bp = fst (get_true_instruction_address (sb_original_address bp) s)
      \<and> (sb_step_kind bp = SB_Line \<longrightarrow> \<not> address_in_line_ranges ranges (sb_original_address bp))" if "bp \<in> set bps" for bp
    using outside[of bp] run that by (auto simp: asked_for_def)
  have left: "(\<forall>c\<in>successors Z i a. address_in_line_ranges ranges c \<or> c \<in> sb_original_address ` set bps)
      \<and> (stop_here Z mode i a \<longrightarrow> a \<in> sb_original_address ` set bps)"
    if "(k, i) \<in> set (linear Z bytes 0)" "a = fr_start f + of_nat k" "address_in_line_ranges ranges a" for k i a
  proof -
    have eq: "sb_original_address ` set bps = fst ` set ?reqs" using run empty that(3) by blast
    show ?thesis unfolding eq
      using exits_requested[OF assms(1) bs assms(3,2,7) that] stop_requested[OF bs that(1)] that(2,3) by blast
  qed
  show ?thesis
  proof (intro conjI ballI d each)
    fix x assume x: "x \<in> set (linear Z bytes 0)"
    obtain k i where "x = (k, i)" by force
    then show "case x of (k, i) \<Rightarrow> \<forall>a. a = fr_start f + of_nat k \<longrightarrow> address_in_line_ranges ranges a \<longrightarrow>
        (\<forall>c\<in>successors Z i a. address_in_line_ranges ranges c \<or> c \<in> sb_original_address ` set bps)
         \<and> (stop_here Z mode i a \<longrightarrow> a \<in> sb_original_address ` set bps)"
      using left[of k i] x by simp
  qed (use each in simp_all)
qed

text \<open>A function with a conditional jump in the middle of line 7 and a return at its end.\<close>

definition sample_step_bytes :: "byte list" where
  "sample_step_bytes = replicate 2 0x90 @ [0x75, 0] @ replicate 19 0x90 @ [0xC3] @ replicate 40 0x90"

definition sample_main :: function_range where
  "sample_main = \<lparr> fr_start = 0x1010, fr_end = 0x1050, fr_name = ''main'' \<rparr>"

definition sample_analysis :: function_analysis where
  "sample_analysis = \<lparr> fa_info = sample_main,
     fa_branches = [\<lparr> bs_address = 0x1012, bs_next_address = 0x1014, bs_target = 0x1014, bs_length = 2, bs_kind = BK_Conditional, bs_is_back_edge = False \<rparr>,
       \<lparr> bs_address = 0x1027, bs_next_address = 0x1028, bs_target = 0, bs_length = 1, bs_kind = BK_Return, bs_is_back_edge = False \<rparr>],
     fa_loops = [] \<rparr>"

definition sample_plugin :: "(addr \<Rightarrow> byte) cpp_plugin" where
  "sample_plugin =
     \<lparr> cp_world = sample_memory, cp_session = Some sample_dia, cp_scope = Some sample_dia, cp_source_locations = [],
       bi_tls_counter_offset = 0x1480, bi_tls_target_offset = 0x1488, bi_region_base = 0x20000, bi_region_size = 0x10000,
       bi_code = [], bi_patches = [], bi_remap = Map.empty, bi_to_original = Map.empty, bi_rsp_fix = Map.empty, bi_skipped = [],
       pa_analysis = [sample_analysis], pa_leaders = [0x1010],
       cp_image_base = 0x1000, cp_module_range = \<lparr> mr_base = 0x1000, mr_size = 0x100 \<rparr>, cp_process_handle = 4,
       cp_process_id = 7, cp_conditions = [] \<rparr>"

definition sample_steps :: "step_breakpoint list" where
  "sample_steps =
     [\<lparr> sb_original_address = 0x1018, sb_true_address = 0x1018, sb_step_kind = SB_Line, sb_has_source_info = True \<rparr>,
      \<lparr> sb_original_address = 0x1027, sb_true_address = 0x1027, sb_step_kind = SB_Return, sb_has_source_info = True \<rparr>]"

lemma sample_ranges_plugin:
  "get_line_ranges_from_address (get_original_instruction_address 0x1012 sample_plugin) (cp_image_base sample_plugin) sample_plugin =
     Some [\<lparr> lr_start = 0x1010, lr_end = 0x1018 \<rparr>, \<lparr> lr_start = 0x1020, lr_end = 0x1028 \<rparr>]"
  by code_simp

lemma sample_step_run: "map_option fst (step_breakpoints_for 0x1012 Step_Line sample_plugin) = Some sample_steps"
  by code_simp

lemma sample_step_analysis:
  "analyze_bytes sample_zydis sample_step_bytes 0 \<lparr> fa_info = sample_main, fa_branches = [], fa_loops = [] \<rparr> = Some sample_analysis"
  by code_simp

lemma sample_whole: "whole_instructions sample_zydis (fr_start sample_main) sample_step_bytes
    [\<lparr> lr_start = 0x1010, lr_end = 0x1018 \<rparr>, \<lparr> lr_start = 0x1020, lr_end = 0x1028 \<rparr>]"
  by code_simp

lemma sample_return_insn: "list_ex (\<lambda>x. x = (23, plain_insn 1 Cat_Ret)) (linear sample_zydis sample_step_bytes 0)"
  by code_simp

lemma sample_analysis_found:
  "function_analysis_containing_address (get_original_instruction_address 0x1012 sample_plugin) sample_plugin = Some sample_analysis"
  by code_simp

theorem step_stops_on_exit_witness:
  "distinct (map sb_original_address sample_steps) \<and> 0x1027 \<in> sb_original_address ` set sample_steps"
proof -
  obtain s' where run: "step_breakpoints_for 0x1012 Step_Line sample_plugin = Some (sample_steps, s')"
    using sample_step_run by auto
  have insn: "(23, plain_insn 1 Cat_Ret) \<in> set (linear sample_zydis sample_step_bytes 0)"
    using sample_return_insn by (auto simp: list_ex_iff)
  have facts: "fr_start sample_main \<le> fr_end sample_main"
      "length sample_step_bytes = unat (fr_end sample_main - fr_start sample_main)"
      "address_in_line_ranges [\<lparr> lr_start = 0x1010, lr_end = 0x1018 \<rparr>, \<lparr> lr_start = 0x1020, lr_end = 0x1028 \<rparr>]
         (fr_start sample_main + of_nat 23)"
      "stop_here sample_zydis Step_Line (plain_insn 1 Cat_Ret) (fr_start sample_main + of_nat 23)"
    by code_simp+
  note stops = step_stops_on_exit[OF sample_zydis_ok facts(1,2) sample_step_analysis sample_analysis_found
      sample_ranges_plugin sample_whole run]
  have "fr_start sample_main + of_nat 23 \<in> sb_original_address ` set sample_steps"
    using bspec[OF stops[THEN conjunct2, THEN conjunct2] insn] facts(3,4) by simp
  moreover have "fr_start sample_main + of_nat 23 = 0x1027" by code_simp
  ultimately show ?thesis using stops by simp
qed

end
