(* ===== verification/Plugin_Protocol.thy ===== *)
theory Plugin_Protocol
  imports Step_Facts
begin

text \<open>
  The seam between \<open>src/src/managers/plugin_manager.cpp\<close> and the C++ plugin: the table of functions the
  plugin exports (\<open>cpp_plugin_api\<close>), the protocol of its output buffers as a locale, and its
  interpretation on the plugin's own functions.

  The world of the debugger is here the state of the plugin, which has the operating system in it.
\<close>

section \<open>The exported table\<close>

text \<open>A call that does not come back has no result; the table, whose functions are total, gives any one.\<close>

definition returned :: "'r \<Rightarrow> 's \<Rightarrow> ('r \<times> 's) option \<Rightarrow> 'r \<times> 's" where
  "returned d s r = (case r of None \<Rightarrow> (d, s) | Some x \<Rightarrow> x)"

definition cpp_plugin_api :: "'w plugin_env \<Rightarrow> 'w cpp_plugin plugin_api" where
  "cpp_plugin_api E =
     \<lparr> pl_languages = (\<lambda>s. get_metadata),
       pl_initialize_plugin = (\<lambda>s pid dll pdb. initialize_plugin E pid dll pdb s),
       pl_uninitialize_plugin = uninitialize_plugin E,
       pl_get_source_info_for_address = (\<lambda>s a. returned source_location_zero s (plugin_source_info a s)),
       pl_create_conditional_expression = (\<lambda>s a expression. create_conditional_expression E a expression s),
       pl_reached_breakpoint = (\<lambda>s a tid. plugin_reached_breakpoint E a tid s),
       pl_print_process_info = (\<lambda>s a tid info. returned [] s (plugin_print_process_info E a tid info s)),
       pl_get_address_from_name = (\<lambda>s name symbol_type. returned 0 s (map_option (\<lambda>a. (a, s)) (get_address_from_name name symbol_type s))),
       pl_get_function_bounds = (\<lambda>s a. returned \<lparr> fb_start = 0, fb_end = 0 \<rparr> s (map_option (\<lambda>b. (b, s)) (plugin_function_bounds a s))),
       pl_add_branch_instrumentation = (\<lambda>s c t. returned False s (add_branch_instrumentation E c t s)),
       pl_get_true_address = (\<lambda>s a. (plugin_true_address a s, s)),
       pl_get_original_address = (\<lambda>s a. (plugin_original_address a s, s)),
       pl_get_address_predecessors = (\<lambda>s a c mode buf.
         returned (0, buf) s (map_option (\<lambda>r. (r, s)) (plugin_address_predecessors E a c mode buf s))),
       pl_print_stack = (\<lambda>s tid. returned [] s (plugin_print_stack E tid s)),
       pl_print_registers = (\<lambda>s tid. plugin_print_registers E tid s),
       pl_print_lines = (\<lambda>s a l l'. returned [] s (plugin_print_lines E a l l' s)),
       pl_get_frame_return_address = (\<lambda>s tid. returned 0 s (plugin_frame_return_address E tid s)),
       pl_get_breakpoints_for_step = (\<lambda>s a code buf. returned (0, buf) s (plugin_breakpoints_for_step a code buf s)),
       pl_get_branch_target = (\<lambda>s a c. (plugin_branch_target a c s, s)),
       pl_get_all_frame_return_addresses = (\<lambda>s tid buf. returned (0, buf) s (plugin_all_frame_return_addresses E tid buf s)),
       pl_print_object_type = (\<lambda>s name dll a. returned [] s (map_option (\<lambda>ls. (ls, s)) (plugin_print_object_type name dll s))) \<rparr>"

section \<open>The protocol of an output buffer\<close>

text \<open>
  The promise of the plugin, for the states of \<open>inv\<close>: the number of entries is always reported, a
  buffer that has room for them starts with them, its length never changes, and \<open>inv\<close> still holds.
  What is left in a buffer that is too small is open: some functions fill it, some do not.
\<close>

locale output_buffer =
  fixes inv :: "'w \<Rightarrow> bool" and call :: "'w \<Rightarrow> 'b list \<Rightarrow> (nat \<times> 'b list) \<times> 'w" and items :: "'b list"
  assumes reports: "inv w \<Longrightarrow> fst (fst (call w buf)) = length items"
    and same_size: "inv w \<Longrightarrow> length (snd (fst (call w buf))) = length buf"
    and filled: "inv w \<Longrightarrow> length items \<le> length buf \<Longrightarrow> take (length items) (snd (fst (call w buf))) = items"
    and again: "inv w \<Longrightarrow> inv (snd (call w buf))"
begin

lemma call_cases:
  assumes "inv w"
  obtains buf' w' where "call w buf = ((length items, buf'), w')" "length buf' = length buf" "inv w'"
    "length items \<le> length buf \<Longrightarrow> take (length items) buf' = items"
  using reports[OF assms, of buf] same_size[OF assms, of buf] filled[OF assms, of buf] again[OF assms, of buf]
  by (metis prod.collapse)

text \<open>
  The two calls of the manager: with a buffer of \<open>k\<close> entries, and, if the entries do not fit, with one
  that was resized to their number.
\<close>

lemma two_calls:
  assumes "inv w"
  obtains b1 w1 w2 where "call w (replicate k d) = ((length items, b1), w1)" "length b1 = k" "inv w1"
    "length items \<le> k \<Longrightarrow> resize (length items) d b1 = items"
    "call w1 (resize (length items) d b1) = ((length items, items), w2)" "inv w2"
proof -
  obtain b1 w1 where c1: "call w (replicate k d) = ((length items, b1), w1)" "length b1 = k" "inv w1"
      "length items \<le> k \<Longrightarrow> take (length items) b1 = items"
    using call_cases[OF assms, of "replicate k d"] by auto
  obtain b2 w2 where c2: "call w1 (resize (length items) d b1) = ((length items, b2), w2)" "length b2 = length items" "inv w2"
      "take (length items) b2 = items"
    using call_cases[OF c1(3), of "resize (length items) d b1"] by auto
  then have "call w1 (resize (length items) d b1) = ((length items, items), w2)" by simp
  then show ?thesis using that c1 c2(3) by (simp add: resize_def)
qed

end

section \<open>The plugin keeps the promise\<close>

lemma same_but_cache_sym: "same_but_cache s s' \<Longrightarrow> same_but_cache s' s"
  unfolding same_but_cache_def by (elim exE, rule exI[of _ "cp_source_locations s"]) simp

text \<open>Two states that differ in their caches, both sound, give the same answers.\<close>

definition alike :: "addr \<Rightarrow> ('w, 'z) pdb_state_scheme \<Rightarrow> ('w, 'z) pdb_state_scheme \<Rightarrow> bool" where
  "alike image_base s1 s2 = (cache_ok image_base s1 \<and> cache_ok image_base s2 \<and> same_but_cache s1 s2)"

lemma load_breakpoint_alike:
  assumes "alike image_base s1 s2" "load_breakpoint_from_pdb a image_base s1 = Some (l, s1')"
  obtains s2' where "load_breakpoint_from_pdb a image_base s2 = Some (l, s2')" "alike image_base s1' s2'"
    "same_but_cache s1 s1'" "same_but_cache s2 s2'"
proof -
  have ok: "cache_ok image_base s1" "cache_ok image_base s2" "same_but_cache s1 s2" using assms(1) by (auto simp: alike_def)
  obtain d where d: "cp_session s1 = Some d" "cp_session s2 = Some d"
    using ok same_but_cache_session by (fastforce simp: cache_ok_def)
  note first = load_breakpoint_cached(2)[OF ok(1) d(1) assms(2)]
  obtain l' s2' where second: "load_breakpoint_from_pdb a image_base s2 = Some (l', s2')"
    using load_breakpoint_cached(1)[OF ok(2) d(2), of a] first by (cases "load_breakpoint_from_pdb a image_base s2") auto
  note second' = load_breakpoint_cached(2)[OF ok(2) d(2) second]
  have "same_but_cache s1' s2'"
    using first second' ok(3) same_but_cache_sym same_but_cache_trans by blast
  then show ?thesis using that second second' first by (auto simp: alike_def)
qed

lemma add_step_breakpoint_alike:
  assumes "alike image_base s1 s2" "add_step_breakpoint image_base a kind (bps, s1) = Some (bps', s1')"
  obtains s2' where "add_step_breakpoint image_base a kind (bps, s2) = Some (bps', s2')" "alike image_base s1' s2'"
    "same_but_cache s1 s1'" "same_but_cache s2 s2'"
proof (cases "list_ex (\<lambda>bp. sb_original_address bp = a) bps")
  case True
  then show ?thesis using assms that[of s2] by (simp add: add_step_breakpoint_def)
next
  case False
  then obtain l where l: "load_breakpoint_from_pdb a image_base s1 = Some (l, s1')"
      "bps' = bps @ [\<lparr> sb_original_address = a, sb_true_address = fst (get_true_instruction_address a s1), sb_step_kind = kind,
                        sb_has_source_info = (sl_line_number l \<noteq> 0) \<rparr>]"
    using assms(2) by (auto simp: add_step_breakpoint_def Let_def split: bind_splits)
  obtain s2' where "load_breakpoint_from_pdb a image_base s2 = Some (l, s2')" "alike image_base s1' s2'"
      "same_but_cache s1 s1'" "same_but_cache s2 s2'"
    by (rule load_breakpoint_alike[OF assms(1) l(1)])
  then show ?thesis
    using False l(2) that[of s2'] same_but_cache_maps(1)[of s1 s2 a] assms(1) by (simp add: add_step_breakpoint_def alike_def Let_def)
qed

lemma add_step_breakpoints_alike:
  assumes "alike image_base s1 s2" "foldM (\<lambda>(a, kind). add_step_breakpoint image_base a kind) reqs (bps, s1) = Some (bps', s1')"
  shows "\<exists>s2'. foldM (\<lambda>(a, kind). add_step_breakpoint image_base a kind) reqs (bps, s2) = Some (bps', s2')
    \<and> alike image_base s1' s2' \<and> same_but_cache s2 s2'"
  using assms
proof (induction reqs arbitrary: bps s1 s2)
  case (Cons req reqs)
  obtain a kind where req: "req = (a, kind)" by force
  obtain bps1 t1 where step: "add_step_breakpoint image_base a kind (bps, s1) = Some (bps1, t1)"
      "foldM (\<lambda>(a, kind). add_step_breakpoint image_base a kind) reqs (bps1, t1) = Some (bps', s1')"
    using Cons.prems(2) req by (auto split: bind_splits)
  obtain t2 where t2: "add_step_breakpoint image_base a kind (bps, s2) = Some (bps1, t2)" "alike image_base t1 t2" "same_but_cache s2 t2"
    by (rule add_step_breakpoint_alike[OF Cons.prems(1) step(1)])
  from Cons.IH[OF t2(2) step(2)] show ?case using req t2 same_but_cache_trans by auto
qed auto

lemma same_but_cache_fields:
  fixes s1 :: "('w, 'z) cpp_plugin_scheme"
  assumes "same_but_cache s1 s2"
  shows "cp_image_base s2 = cp_image_base s1"
    and "get_line_ranges_from_address a b s2 = get_line_ranges_from_address a b s1"
    and "function_analysis_containing_address a s2 = function_analysis_containing_address a s1"
  using assms
  by (auto simp: same_but_cache_def get_line_ranges_from_address_def function_analysis_containing_address_def)

lemma step_breakpoints_alike:
  assumes "alike (cp_image_base s1) s1 s2" "step_breakpoints_for t mode s1 = Some (bps, s1')"
  shows "\<exists>s2'. step_breakpoints_for t mode s2 = Some (bps, s2') \<and> alike (cp_image_base s1) s1' s2' \<and> same_but_cache s2 s2'"
proof -
  have eqs: "same_but_cache s1 s2" using assms(1) by (simp add: alike_def)
  show ?thesis
    using assms(2) add_step_breakpoints_alike[OF assms(1)] assms(1)
    by (auto simp: step_breakpoints_for_def Let_def same_but_cache_fields[OF eqs] same_but_cache_maps[OF eqs]
        split: if_splits option.splits bind_splits)
qed

definition steps_known ::
    "'w cpp_plugin \<Rightarrow> true_address \<Rightarrow> step_mode \<Rightarrow> step_breakpoint list \<Rightarrow> 'w cpp_plugin \<Rightarrow> bool" where
  "steps_known s0 t mode bps s =
     (cache_ok (cp_image_base s) s \<and> same_but_cache s0 s \<and> map_option fst (step_breakpoints_for t mode s) = Some bps)"

lemma step_mode_of_code [simp]: "step_mode_of (step_mode_code mode) = mode"
  by (cases mode) (simp_all add: step_mode_of_def)

lemma steps_known_call:
  assumes "steps_known s0 t mode bps s"
  obtains s' where
    "returned (0, buf) s (plugin_breakpoints_for_step t (step_mode_code mode) buf s) = (fill_or_count bps buf, s')"
    "steps_known s0 t mode bps s'"
proof -
  obtain s' where run: "step_breakpoints_for t mode s = Some (bps, s')" using assms by (auto simp: steps_known_def)
  have self: "alike (cp_image_base s) s s" using assms by (simp add: steps_known_def alike_def)
  have next_state: "alike (cp_image_base s) s' s'" "same_but_cache s s'"
    using step_breakpoints_alike[OF self run] run by auto
  have base: "cp_image_base s' = cp_image_base s" using same_but_cache_fields(1)[OF next_state(2)] .
  have "alike (cp_image_base s) s s'" using self next_state by (simp add: alike_def)
  from step_breakpoints_alike[OF this run] have "map_option fst (step_breakpoints_for t mode s') = Some bps" by auto
  then have "steps_known s0 t mode bps s'"
    using assms next_state base same_but_cache_trans by (auto simp: steps_known_def alike_def)
  then show ?thesis using that run by (simp add: returned_def plugin_breakpoints_for_step_def)
qed

interpretation cpp_steps: output_buffer "steps_known s0 t mode bps"
  "\<lambda>s buf. returned (0, buf) s (plugin_breakpoints_for_step t (step_mode_code mode) buf s)" bps
proof
  fix s :: "'a cpp_plugin" and buf
  assume "steps_known s0 t mode bps s"
  then obtain s' where
    "returned (0, buf) s (plugin_breakpoints_for_step t (step_mode_code mode) buf s) = (fill_or_count bps buf, s')"
    "steps_known s0 t mode bps s'"
    by (rule steps_known_call)
  then show "fst (fst (returned (0, buf) s (plugin_breakpoints_for_step t (step_mode_code mode) buf s))) = length bps"
    "length (snd (fst (returned (0, buf) s (plugin_breakpoints_for_step t (step_mode_code mode) buf s)))) = length buf"
    "length bps \<le> length buf \<Longrightarrow>
       take (length bps) (snd (fst (returned (0, buf) s (plugin_breakpoints_for_step t (step_mode_code mode) buf s)))) = bps"
    "steps_known s0 t mode bps (snd (returned (0, buf) s (plugin_breakpoints_for_step t (step_mode_code mode) buf s)))"
    by (auto simp: fill_or_count_def)
qed

text \<open>The predecessors: the call reads the process and the analysis and changes nothing.\<close>

definition predecessors_known ::
    "'w plugin_env \<Rightarrow> 'w cpp_plugin \<Rightarrow> true_address \<Rightarrow> u64 \<Rightarrow> reverse_step_mode \<Rightarrow> potential_predecessor list \<Rightarrow>
      'w cpp_plugin \<Rightarrow> bool" where
  "predecessors_known E s0 t c mode preds s =
     (s = s0 \<and> get_predecessors_of_address (pe_win32 E) (pe_zydis E) t c mode (cp_image_base s) s = Some preds)"

interpretation cpp_predecessors: output_buffer "predecessors_known E s0 t c mode preds"
  "\<lambda>s buf. returned (0, buf) s (map_option (\<lambda>r. (r, s)) (plugin_address_predecessors E t c mode buf s))" preds
  by unfold_locales (auto simp: predecessors_known_def returned_def plugin_address_predecessors_def)

section \<open>What the debugger gets\<close>

text \<open>
  C13: The lists the C++ plugin computes are the lists the debugger gets.  With the plugin loaded and its
  cache of source locations sound, \<open>plugin_manager::get_breakpoints_for_step\<close> returns exactly the
  breakpoints the plugin computes for the step, although the plugin leaves a buffer that is too
  small as it was and looks up source locations on both calls; and \<open>get_address_predecesors\<close> returns
  exactly the predecessors the plugin computes for the thread's branch counter.  The plugin's state
  changes in nothing but that cache.
\<close>

theorem cpp_lists_arrive:
  assumes "map_of (pm_plugin_apis m) language = Some (cpp_plugin_api E)"
    and "cache_ok (cp_image_base (m_world m)) (m_world m)"
    and "step_breakpoints_for t mode (m_world m) = Some (bps, s')"
    and "read_thread_tls W tid BranchCounter m = (c, m1)" "pm_plugin_apis m1 = pm_plugin_apis m"
    and "get_predecessors_of_address (pe_win32 E) (pe_zydis E) t c rmode (cp_image_base (m_world m1)) (m_world m1) = Some preds"
  shows "(\<exists>m'. get_breakpoints_for_step language t mode m = Some (bps, m') \<and> same_but_cache (m_world m) (m_world m'))
    \<and> get_address_predecessors W language t rmode tid m = Some (preds, m1)"
proof (intro conjI)
  have "steps_known (m_world m) t mode bps (m_world m)" using assms(2,3) by (simp add: steps_known_def)
  from cpp_steps.two_calls[OF this, of 8 step_breakpoint_zero] obtain b1 s1 s2 where calls:
    "returned (0, replicate 8 step_breakpoint_zero) (m_world m)
       (plugin_breakpoints_for_step t (step_mode_code mode) (replicate 8 step_breakpoint_zero) (m_world m)) = ((length bps, b1), s1)"
    "length b1 = 8" "steps_known (m_world m) t mode bps s1"
    "length bps \<le> 8 \<Longrightarrow> resize (length bps) step_breakpoint_zero b1 = bps"
    "returned (0, resize (length bps) step_breakpoint_zero b1) s1
       (plugin_breakpoints_for_step t (step_mode_code mode) (resize (length bps) step_breakpoint_zero b1) s1) = ((length bps, bps), s2)"
    "steps_known (m_world m) t mode bps s2" by blast
  have api: "pl_get_breakpoints_for_step (cpp_plugin_api E) =
      (\<lambda>s a code buf. returned (0, buf) s (plugin_breakpoints_for_step a code buf s))"
    by (simp add: cpp_plugin_api_def)
  have full: "resize (length bps) step_breakpoint_zero bps = bps" by (simp add: resize_def)
  have "get_breakpoints_for_step language t mode m = Some (bps, m \<lparr> m_world := if 8 < length bps then s2 else s1 \<rparr>)"
    using calls by (auto simp: get_breakpoints_for_step_def call_plugin_def assms(1) api full not_less)
  then show "\<exists>m'. get_breakpoints_for_step language t mode m = Some (bps, m') \<and> same_but_cache (m_world m) (m_world m')"
    using calls(3,6) by (auto simp: steps_known_def)
next
  have "predecessors_known E (m_world m1) t c rmode preds (m_world m1)" using assms(6) by (simp add: predecessors_known_def)
  from cpp_predecessors.two_calls[OF this, of 5 predecessor_zero] obtain b1 s1 s2 where calls:
    "returned (0, replicate 5 predecessor_zero) (m_world m1) (map_option (\<lambda>r. (r, m_world m1))
       (plugin_address_predecessors E t c rmode (replicate 5 predecessor_zero) (m_world m1))) = ((length preds, b1), s1)"
    "length b1 = 5" "predecessors_known E (m_world m1) t c rmode preds s1"
    "length preds \<le> 5 \<Longrightarrow> resize (length preds) predecessor_zero b1 = preds"
    "returned (0, resize (length preds) predecessor_zero b1) s1 (map_option (\<lambda>r. (r, s1))
       (plugin_address_predecessors E t c rmode (resize (length preds) predecessor_zero b1) s1)) = ((length preds, preds), s2)"
    "predecessors_known E (m_world m1) t c rmode preds s2" by blast
  have worlds: "s1 = m_world m1" "s2 = m_world m1" using calls(3,6) by (simp_all add: predecessors_known_def)
  have api: "pl_get_address_predecessors (cpp_plugin_api E) =
      (\<lambda>s a c mode buf. returned (0, buf) s (map_option (\<lambda>r. (r, s)) (plugin_address_predecessors E a c mode buf s)))"
    by (simp add: cpp_plugin_api_def)
  have full: "resize (length preds) predecessor_zero preds = preds" by (simp add: resize_def)
  show "get_address_predecessors W language t rmode tid m = Some (preds, m1)"
    using calls(1,2,4,5) by (auto simp: get_address_predecessors_def call_plugin_def assms(1,4,5) api full not_less worlds)
qed

definition sample_env :: "(addr \<Rightarrow> byte) plugin_env" where
  "sample_env =
     \<lparr> pe_win32 = flat_win32, pe_zydis = sample_zydis,
       pe_stack = \<lparr> sa_walk = (\<lambda>w h read f. Some None), sa_context = (\<lambda>w h. None), sa_modules = (\<lambda>w p. None),
         sa_symbol = (\<lambda>w a. None), sa_module_name = (\<lambda>w a. None), sa_line = (\<lambda>w a. None), sa_segments = (\<lambda>c. []),
         sa_source = (\<lambda>w f. None) \<rparr>,
       pe_format = \<lparr> tf_float = show_dec, tf_double = show_dec, tf_wide = (\<lambda>c. ''?'') \<rparr>,
       pe_granularity = 0x10000,
       pe_open_source = (\<lambda>path. \<lparr> dsrc_created = True, dsrc_pdb_loaded = True, dsrc_exe_loaded = True,
         dsrc_session = Some sample_dia, dsrc_scope_found = True, dsrc_compilands_found = True \<rparr>),
       pe_open_process = (\<lambda>w p. (4, w)), pe_temp_path = ''/tmp/'', pe_temp_file_name = (\<lambda>w d p. (d @ p, w)),
       pe_create_file = (\<lambda>w f. (Some 12, w)), pe_write_file = (\<lambda>w h t. w), pe_delete_file = (\<lambda>w f. w),
       pe_run = (\<lambda>w c. (Some 0, w)), pe_load_library = (\<lambda>w f. (8, w)),
       pe_evaluate = (\<lambda>w h. None), pe_free_library = (\<lambda>w h. w) \<rparr>"

definition sample_debugger :: "(addr \<Rightarrow> byte) cpp_plugin plugins" where
  "sample_debugger =
     plugins_init (threads_init sample_plugin [] [BranchCounter \<mapsto> 5]) [(''cpp'', cpp_plugin_api sample_env)]"

lemma sample_maps: "get_original_instruction_address a sample_plugin = a" "get_true_instruction_address a sample_plugin = (a, 0)"
    "is_instrumented_leader a sample_plugin \<longleftrightarrow> a = 0x1010"
  by (simp_all add: sample_plugin_def get_original_instruction_address_def get_true_instruction_address_def is_instrumented_leader_def)

lemma sample_fallthrough: "fallthrough_predecessor flat_win32 sample_zydis 0x1011 sample_plugin = Some 0x1010"
proof -
  have found: "function_analysis_containing_address 0x1011 sample_plugin = Some sample_analysis" by code_simp
  have "take 1 (bytes_at sample_memory 0x1010 64) = [0x55]" by code_simp
  then obtain bs where bs: "bytes_at sample_memory 0x1010 64 = 0x55 # bs" by (cases "bytes_at sample_memory 0x1010 64") auto
  have one: "zy_decode_instruction sample_zydis (0x55 # bs) = Some (plain_insn 1 Cat_Other)"
    by (simp add: sample_zydis_def sample_decode_def)
  have loop: "fallthrough_loop flat_win32 sample_zydis 0x1010 0x1011 sample_plugin (0x55 # bs) 0 None =
      Some (Inr (Some (0x1010, plain_insn 1 Cat_Other)))"
    by (subst fallthrough_loop.simps, simp add: restore_moved_def sample_maps one, subst fallthrough_loop.simps)
      (simp add: plain_insn_def)
  have read: "w_read flat_win32 (cp_world sample_plugin) 0x1010 (replicate 64 0) = (True, 0x55 # bs)"
    by (simp add: flat_win32_def sample_plugin_def bs)
  show ?thesis
    by (simp add: fallthrough_predecessor_def found sample_analysis_def sample_main_def read loop plain_insn_def)
qed

lemma sample_steps_at: "map_option fst (step_breakpoints_for 0x1011 Step_Line sample_plugin) = Some sample_steps"
  by code_simp

lemma sample_predecessors:
  "get_predecessors_of_address flat_win32 sample_zydis 0x1011 c Reverse_Instruction b sample_plugin =
     Some [\<lparr> pp_true_address = 0x1010, pp_branch_counter = c, pp_is_block_leader = False \<rparr>]"
  by (simp add: get_predecessors_of_address_def get_instruction_predecessors_of_address_def sample_fallthrough sample_maps Let_def)

theorem cpp_lists_arrive_witness:
  "map_option fst (get_breakpoints_for_step ''cpp'' 0x1011 Step_Line sample_debugger) = Some sample_steps
   \<and> (\<forall>W. \<exists>c. map_option fst (get_address_predecessors W ''cpp'' 0x1011 Reverse_Instruction 9 sample_debugger) =
        Some [\<lparr> pp_true_address = 0x1010, pp_branch_counter = c, pp_is_block_leader = False \<rparr>])"
proof -
  have world: "m_world sample_debugger = sample_plugin" and apis: "map_of (pm_plugin_apis sample_debugger) ''cpp'' = Some (cpp_plugin_api sample_env)"
    by (simp_all add: sample_debugger_def plugins_init_def threads_init_def machine_init_def trampolines.defs threads.defs machine.defs)
  have ok: "cache_ok (cp_image_base (m_world sample_debugger)) (m_world sample_debugger)"
    by (simp add: world cache_ok_def sample_plugin_def)
  obtain s' where run: "step_breakpoints_for 0x1011 Step_Line (m_world sample_debugger) = Some (sample_steps, s')"
    using sample_steps_at world by auto
  have arrive: "map_option fst (get_breakpoints_for_step ''cpp'' 0x1011 Step_Line sample_debugger) = Some sample_steps
      \<and> (\<exists>c. map_option fst (get_address_predecessors W ''cpp'' 0x1011 Reverse_Instruction 9 sample_debugger) =
           Some [\<lparr> pp_true_address = 0x1010, pp_branch_counter = c, pp_is_block_leader = False \<rparr>])"
    for W :: "(addr \<Rightarrow> byte) cpp_plugin win32"
  proof -
    obtain c m1 where tls: "read_thread_tls W 9 BranchCounter sample_debugger = (c, m1)" by force
    then have m1: "pm_plugin_apis m1 = pm_plugin_apis sample_debugger" "m_world m1 = sample_plugin"
      using world
      by (auto simp: read_thread_tls_def tls_subscript_def meta_subscript_def Let_def split: option.splits prod.splits)
    have "get_predecessors_of_address (pe_win32 sample_env) (pe_zydis sample_env) 0x1011 c Reverse_Instruction
        (cp_image_base (m_world m1)) (m_world m1) =
        Some [\<lparr> pp_true_address = 0x1010, pp_branch_counter = c, pp_is_block_leader = False \<rparr>]"
      by (simp add: m1 sample_env_def sample_predecessors)
    from cpp_lists_arrive[OF apis ok run tls m1(1) this] show ?thesis by auto
  qed
  then show ?thesis by blast
qed

end
