(* ===== verification/Module_Instrumentation.thy ===== *)
theory Module_Instrumentation
  imports Plugin_Protocol
begin

text \<open>
  The instrumentation of a whole module, \<open>add_branch_instrumentation\<close> of
  \<open>src/plugins/cpp/cpp_breakpoint_plugin.cpp\<close>: which blocks are counted afterwards.  The reverse step relies on it:
  \<open>predecessor_analysis.cpp\<close> takes one off the branch counter exactly at the leaders in its set.
\<close>

lemma foldM_foldM: "foldM (\<lambda>x. foldM f (g x)) xs a = foldM f (concat (map g xs)) a"
  by (induction xs arbitrary: a) (auto simp: foldM_append split: bind_split)

text \<open>The leaders collected so far are the blocks that have a patch.\<close>

definition leaders_ok :: "original_address list \<Rightarrow> ('w, 'z) instrumentation_scheme \<Rightarrow> bool" where
  "leaders_ok leaders s = (bi_ok s \<and> sorted leaders \<and> distinct leaders \<and> set leaders = fst ` set (bi_patches s))"

lemma instrument_leader_eq:
  "instrument_leader E b (leaders, s) =
     map_option (\<lambda>(stub, s). (if stub = 0 then leaders else List.insort_insert (bb_start b) leaders, s))
       (instrument_block (pe_win32 E) (pe_zydis E) (bb_start b) (bb_end b) s)"
  by (cases "instrument_block (pe_win32 E) (pe_zydis E) (bb_start b) (bb_end b) s") (auto simp: instrument_leader_def)

lemma instrument_leaders_Cons:
  assumes "foldM (instrument_leader E) (b # blocks) (leaders, s) = Some (leaders', s')"
  obtains stub s1 where "instrument_block (pe_win32 E) (pe_zydis E) (bb_start b) (bb_end b) s = Some (stub, s1)"
    "foldM (instrument_leader E) blocks (if stub = 0 then leaders else List.insort_insert (bb_start b) leaders, s1) = Some (leaders', s')"
  using assms by (auto simp: instrument_leader_eq split: bind_splits)

lemma enter_base:
  "bi_region_base (fold (enter_stub_address r m a) xs s) = bi_region_base s"
  "bi_region_base (fold (enter_displaced r) ys s) = bi_region_base s"
proof -
  show "bi_region_base (fold (enter_stub_address r m a) xs s) = bi_region_base s"
    by (induction xs arbitrary: s) (simp_all add: enter_stub_address_def Let_def split: prod.split)
  show "bi_region_base (fold (enter_displaced r) ys s) = bi_region_base s"
    by (induction ys arbitrary: s) (simp_all add: enter_displaced_def Let_def split: prod.split)
qed

lemma instrument_block_base:
  assumes "instrument_block W Z b e s = Some (stub, s')"
  shows "bi_region_base s' = bi_region_base s"
proof -
  have "bi_region_base s' = bi_region_base s" if "emit_block Z buf b p ds s = Some (stub, s')" for buf p ds
    using emit_block_cases[OF that] by (auto simp: Let_def map_stub_eq map_displaced_eq skip_block_def enter_base)
  then show ?thesis using assms
    by (auto simp: instrument_block_def Let_def skip_block_def
        split: prod.splits bool.splits bind_splits displacement.splits if_splits)
qed

lemma instrument_leader_grows:
  assumes "zydis_ok (pe_zydis E)" "foldM (instrument_leader E) blocks (leaders, s) = Some (leaders', s')"
  shows "length (bi_code s) \<le> length (bi_code s') \<and> bi_region_base s' = bi_region_base s"
  using assms(2)
proof (induction blocks arbitrary: leaders s)
  case (Cons b blocks)
  from Cons.prems obtain stub s1 where s1: "instrument_block (pe_win32 E) (pe_zydis E) (bb_start b) (bb_end b) s = Some (stub, s1)"
      "foldM (instrument_leader E) blocks (if stub = 0 then leaders else List.insort_insert (bb_start b) leaders, s1) = Some (leaders', s')"
    by (rule instrument_leaders_Cons)
  then show ?case using Cons.IH[OF s1(2)] instrument_block_grows[OF assms(1) s1(1)] instrument_block_base[OF s1(1)] by simp
qed simp

lemma instrument_leaders:
  assumes "zydis_ok (pe_zydis E)" "foldM (instrument_leader E) blocks (leaders, s) = Some (leaders', s')"
    and "leaders_ok leaders s" "unat (bi_region_base s) + length (bi_code s') < 2 ^ 64"
  shows "leaders_ok leaders' s' \<and> same_setup s s' \<and> set leaders' \<subseteq> set leaders \<union> bb_start ` set blocks"
  using assms(2-4)
proof (induction blocks arbitrary: leaders s)
  case (Cons b blocks)
  from Cons.prems(1) obtain stub s1 where s1: "instrument_block (pe_win32 E) (pe_zydis E) (bb_start b) (bb_end b) s = Some (stub, s1)"
      "foldM (instrument_leader E) blocks (if stub = 0 then leaders else List.insort_insert (bb_start b) leaders, s1) = Some (leaders', s')"
    by (rule instrument_leaders_Cons)
  have ok: "bi_ok s" using Cons.prems(2) by (simp add: leaders_ok_def)
  have fits: "unat (bi_region_base s) + length (bi_code s1) < 2 ^ 64"
    using instrument_leader_grows[OF assms(1) s1(2)] Cons.prems(3) by simp
  let ?l = "if stub = 0 then leaders else List.insort_insert (bb_start b) leaders"
  have "leaders_ok ?l s1 \<and> same_setup s s1"
    using instrument_block_cases[OF assms(1) s1(1) ok fits]
  proof (elim disjE conjE)
    assume new: "stub \<noteq> 0" "later s s1" "bi_ok s1" "map fst (bi_patches s1) = map fst (bi_patches s) @ [bb_start b]"
    have "fst ` set (bi_patches s1) = set (map fst (bi_patches s1))" by simp
    also have "\<dots> = insert (bb_start b) (fst ` set (bi_patches s))" unfolding new(4) by simp
    finally show ?thesis
      using Cons.prems(2) new(1-3)
      by (simp add: leaders_ok_def same_setup_def later_def set_insort_insert sorted_insort_insert distinct_insort_insert)
  qed (use Cons.prems(2) bi_ok_skip[OF ok] in \<open>auto simp: leaders_ok_def same_setup_def skip_block_def\<close>)
  moreover from this have "unat (bi_region_base s1) + length (bi_code s') < 2 ^ 64"
    using Cons.prems(3) by (simp add: same_setup_def)
  ultimately show ?case
    using Cons.IH[OF s1(2)] by (auto simp: same_setup_def set_insort_insert split: if_splits)
qed (simp add: same_setup_def)

text \<open>What the call does, step by step.\<close>

lemma add_branch_instrumentation_cases:
  assumes "add_branch_instrumentation E ci ti s = Some (True, s')"
  obtains s1 analysis leaders s2 where
    "create_instrumentation_region (pe_win32 E) (pe_granularity E) (kTlsSlots + 8 * ci) (kTlsSlots + 8 * ti) (cp_image_base s)
       0x10000 s = Some (True, s1)"
    "analyze_module (pe_win32 E) (pe_zydis E) (cp_image_base s1) s1 = Some analysis"
    "foldM (instrument_leader E) (concat (map discover_blocks analysis)) ([], s1) = Some (leaders, s2)"
    "s' = snd (commit_instrumentation_region (pe_win32 E) (init_reverse_step_analysis analysis leaders s2))"
  using assms by (auto simp: add_branch_instrumentation_def foldM_foldM Let_def split: if_splits bind_splits)

lemma init_analysis_simps:
  "bi_ok (init_reverse_step_analysis an l s) = bi_ok s" "bi_code (init_reverse_step_analysis an l s) = bi_code s"
  "bi_patches (init_reverse_step_analysis an l s) = bi_patches s" "bi_region_base (init_reverse_step_analysis an l s) = bi_region_base s"
  "bi_tls_counter_offset (init_reverse_step_analysis an l s) = bi_tls_counter_offset s"
  "bi_tls_target_offset (init_reverse_step_analysis an l s) = bi_tls_target_offset s"
  "pa_leaders (init_reverse_step_analysis an l s) = l" "pa_analysis (init_reverse_step_analysis an l s) = an"
proof -
  have "code_addr (init_reverse_step_analysis an l s) = code_addr s"
    by (rule code_addr_cong) (simp add: init_reverse_step_analysis_def)
  then show "bi_ok (init_reverse_step_analysis an l s) = bi_ok s"
    unfolding bi_ok_def maps_ok_def stub_ok_def by (simp add: init_reverse_step_analysis_def)
qed (simp_all add: init_reverse_step_analysis_def)


section \<open>A sample module\<close>

text \<open>A system with one free region, in which every allocation succeeds.\<close>

definition open_win32 :: "(addr \<Rightarrow> byte) win32" where
  "open_win32 = flat_win32
     \<lparr> w_virtual_query := (\<lambda>w a. Some \<lparr> mbi_BaseAddress = 0x20000, mbi_AllocationBase = 0, mbi_AllocationProtect = 0,
         mbi_RegionSize = 0x100000, mbi_State = MEM_FREE, mbi_Protect = 0, mbi_Type = 0 \<rparr>),
       w_virtual_alloc := (\<lambda>w a n t p. (a, w)) \<rparr>"

definition open_env :: "(addr \<Rightarrow> byte) plugin_env" where
  "open_env = sample_env \<lparr> pe_win32 := open_win32 \<rparr>"

definition sample_built :: "(original_address list \<times> (addr \<Rightarrow> byte) cpp_plugin) option" where
  "sample_built = do { analysis \<leftarrow> analyze_module open_win32 sample_zydis 0x1000 sample_plugin;
     foldM (\<lambda>fn. foldM (instrument_leader open_env) (discover_blocks fn)) analysis ([], sample_plugin) }"

lemma sample_built_result:
  "map_option (\<lambda>(l, s). (l, bi_patches s, length (bi_code s), bi_region_base s)) sample_built =
     Some ([0x1010], [(0x1010, [0xE9, 0xEB, 0xEF, 0x01, 0, 0x90, 0x90, 0x90])], 64, 0x20000)"
  by code_simp

lemma open_win32_region: "alloc_near open_win32 0x10000 0x1000 0x10000 w = Some (0x20000, w)"
proof -
  have "search_round open_win32 0x10000 0x1000 0x10000 True (0x1000, w) = Some (Inr (0x20000, w))"
    by (simp add: search_round_def open_win32_def flat_win32_def slot_in_def distance_def Let_def)
  then show ?thesis by (simp add: alloc_near_def search_near_def loop_done)
qed

lemma sample_module_run:
  "\<exists>s'. add_branch_instrumentation open_env 0 1 sample_plugin = Some (True, s')
     \<and> bi_patches s' = [(0x1010, [0xE9, 0xEB, 0xEF, 0x01, 0, 0x90, 0x90, 0x90])] \<and> length (bi_code s') = 64 \<and> bi_region_base s' = 0x20000"
proof -
  have env: "pe_win32 open_env = open_win32" "pe_zydis open_env = sample_zydis" "pe_granularity open_env = 0x10000"
    by (simp_all add: open_env_def sample_env_def)
  have "create_instrumentation_region open_win32 0x10000 0x1480 0x1488 (cp_image_base sample_plugin) 0x10000 sample_plugin =
      Some (True, sample_plugin)"
    by (simp add: create_instrumentation_region_def open_win32_region sample_plugin_def)
  then have created: "create_instrumentation_region (pe_win32 open_env) (pe_granularity open_env) (kTlsSlots + 8 * 0)
      (kTlsSlots + 8 * 1) (cp_image_base sample_plugin) 0x10000 sample_plugin = Some (True, sample_plugin)"
    by (simp add: env kTlsSlots_def)
  obtain l s2 where built: "sample_built = Some (l, s2)"
    using sample_built_result by (cases sample_built) auto
  have s2: "bi_patches s2 = [(0x1010, [0xE9, 0xEB, 0xEF, 0x01, 0, 0x90, 0x90, 0x90])]" "length (bi_code s2) = 64"
      "bi_region_base s2 = 0x20000"
    using sample_built_result unfolding built option.map option.inject by simp_all
  have base: "cp_image_base sample_plugin = 0x1000" by (simp add: sample_plugin_def)
  obtain analysis where an: "analyze_module open_win32 sample_zydis 0x1000 sample_plugin = Some analysis"
      "foldM (\<lambda>fn. foldM (instrument_leader open_env) (discover_blocks fn)) analysis ([], sample_plugin) = Some (l, s2)"
    using built by (auto simp: sample_built_def split: bind_splits)
  let ?s2 = "init_reverse_step_analysis analysis l s2"
  obtain r s' where commit: "commit_instrumentation_region open_win32 ?s2 = (r, s')" by force
  have ok: "w_bytes_ok open_win32 (\<lambda>w. w)" "w_vm_ok open_win32 (\<lambda>w. w)"
    by (simp_all add: w_bytes_ok_def w_vm_ok_def open_win32_def flat_win32_def)
  obtain w where "s' = ?s2 \<lparr> cp_world := w \<rparr>"
    using commit_mem(3)[OF ok _ commit] s2(3) by (auto simp: init_analysis_simps)
  then have "bi_patches s' = bi_patches s2" "bi_code s' = bi_code s2" "bi_region_base s' = bi_region_base s2"
    by (simp_all add: init_analysis_simps)
  moreover have "add_branch_instrumentation open_env 0 1 sample_plugin = Some (True, s')"
    using created an commit by (simp add: add_branch_instrumentation_def base env Let_def)
  ultimately show ?thesis using s2 by (intro exI[of _ s']) simp
qed


end
