(* ===== verification/Spec2Isabelle.thy ===== *)
theory Spec2Isabelle
  imports Cache_Array Memory_Time_Travel Stop_Facts Module_Instrumentation
begin

text \<open>
  \<^bold>\<open>Chronoporia\<close>, a time-travelling debugger for Windows programs, modelled from its C++ sources.

  The program runs a debuggee under the Windows debug API.  While it records, it takes snapshots of the
  debuggee's memory, threads and modules at increasing run sequences, and logs the non-deterministic
  calls.  The user may go back to a snapshot: memory is rebuilt, threads are terminated, modules
  unloaded, and execution goes on as a new run that branches off the old one, with the logged calls
  replayed.  A language plugin counts basic blocks by instrumenting the debuggee, which is how a
  reverse step finds the visit of an instruction it has to stop at.

  \<^bold>\<open>How the model is written.\<close>  The globals of the C++ modules are records, each extending the one below:
  \<open>machine\<close>, \<open>threads\<close>, \<open>trampolines\<close>, \<open>plugins\<close>, \<open>breakpoints\<close>, \<open>memories\<close>, the tables of modules
  and threads, the logs, the session; and in the plugin \<open>pdb_state\<close>, \<open>instrumentation\<close>,
  \<open>predecessors\<close>, \<open>cpp_plugin\<close>.  A function of the source that changes them takes the record and returns
  it.  \<open>None\<close> as a result means that the source has none there: undefined behaviour, an exception
  nobody catches, or a loop that does not end.  Failures that the source reports are values.  Addresses
  and counters are words of the width they have in the source, so they wrap as they do there.
  Assertions are compiled out of the release build and are not modelled.  A \<open>std::map\<close> is a list with
  ascending keys (\<open>smap\<close>); an \<open>unordered_map\<close> is a function when it is only looked up and an
  association list, in its unspecified order, when it is walked.

  \<^bold>\<open>What is not under \<open>src/\<close>\<close> is a parameter: the operating system is the record \<open>'w win32\<close> over an abstract
  world \<open>'w\<close> (\<open>w_read\<close> is \<open>ReadProcessMemory\<close>, \<open>w_wait_event\<close> is \<open>WaitForDebugEvent\<close>, and so on),
  \<open>zydis\<close> the instruction decoder, \<open>dia\<close> the answers of the debug interface, \<open>stack_api\<close> the symbol
  library, \<open>plugin_env\<close> the plugin's surroundings with the compiler, \<open>environment\<close> those of the debugger
  with the argument parser.  What theorems need of them are the named hypotheses \<open>w_bytes_ok\<close> (reads
  and writes of memory that is accessible), \<open>w_vm_ok\<close>, \<open>vq_ok\<close>, \<open>w_alloc_ok\<close> (the virtual memory calls),
  \<open>w_layout_ok\<close> (an allocation's regions are listed from its base on) and \<open>zydis_ok\<close> (the length of a decoded instruction); \<open>flat_win32\<close>, \<open>paged_win32\<close>, \<open>roomy_win32\<close> and
  \<open>sample_zydis\<close> satisfy them and carry the witnesses.

  \<^bold>\<open>The theories\<close>, with the files under \<open>src/\<close> they model (\<open>src/src/\<close> unless \<open>plugins\<close> is named):

  \<^item> \<open>Prelude\<close>: list, option and map vocabulary, \<open>std::upper_bound\<close>, \<open>smap\<close>, \<open>foldM\<close>, \<open>mapM\<close>.
    \<open>Machine\<close>: the Windows types, the system calls, \<open>globals.cpp\<close>, \<open>memory_utils.cpp\<close>, \<open>nt_wrappers.cpp\<close>.
    \<open>Loops\<close>: the shape of a debug loop as a partial function, and as its unfolding into rounds.
    \<open>Struct_Layout\<close>: the layout rule of C++ structures, for \<open>process_utils.h\<close> and \<open>nt_undocumented.h\<close>.
  \<^item> The history containers.  \<open>Persistence\<close> is their abstract specification: a \<open>timeline\<close> gives the value
    at every (run, sequence), and the locales \<open>fully_persistent\<close>, \<open>created_history\<close> and \<open>history_pair\<close> say
    what an update and a branch do to it.  \<open>Persistent_Array\<close> and \<open>Cache_Array\<close> (\<open>fully_persistent_array.h\<close>),
    \<open>Execution_Tree\<close> (\<open>execution_tree.h\<close>), \<open>Persistent_Region\<close> (\<open>fully_persistent_region.h\<close>) and \<open>Region_History\<close>
    (\<open>utils/memory\<close>) refine it: the lineage walk, the cursor of the fat nodes and the depth-first
    searches of the tree all compute the timeline's value.
  \<^item> The tables of the debuggee.  \<open>Thread_Utils\<close> and \<open>Remote_Thread\<close> (\<open>thread_utils.cpp\<close>), \<open>Trampoline\<close>, \<open>Text_Utils\<close>,
    \<open>Plugin_Manager\<close>, \<open>Breakpoints\<close>, \<open>Memory_Manager\<close>, and on the shared contract \<open>tracked\<close> of \<open>Tracking\<close> the
    \<open>Module_Manager\<close> (with \<open>shellcode.cpp\<close>) and the \<open>Thread_Manager\<close>.  \<open>Patches\<close> is the contract of temporary breakpoints,
    interpreted on the breakpoint table.  \<open>Memory_Time_Travel\<close> follows the memory history through whole sessions
    of snapshots and returns.
  \<^item> The session.  \<open>Snapshot_Log\<close>, \<open>Event_Log\<close> (\<open>event_log.cpp\<close>, \<open>Events\<close>), \<open>Transitions\<close>, \<open>Recording\<close>,
    \<open>Time_Restore\<close>, \<open>Reverse_Replay\<close> (the phases), \<open>Debugger_Input\<close>, \<open>Commands\<close>, \<open>Step_Command\<close>, \<open>Process_Info\<close>, \<open>Debugger\<close>
    (\<open>cli\<close>, \<open>process_utils.cpp\<close>), \<open>State_Machine\<close> (\<open>state_machine.cpp\<close>, \<open>main.cpp\<close>).
  \<^item> The C++ plugin (\<open>plugins/cpp\<close>).  \<open>Pdb\<close> (\<open>pdb.cpp\<close>), \<open>Branch_Stub\<close>, \<open>Branch_Analysis\<close> and \<open>Instrumentation\<close>
    (\<open>branch_instrumentation.cpp\<close>), \<open>Predecessors\<close> (\<open>predecessor_analysis.cpp\<close>), \<open>Stack_Walk\<close> (\<open>utils.cpp\<close>),
    \<open>Cpp_Plugin\<close> (\<open>cpp_breakpoint_plugin.cpp\<close>, \<open>compiler.cpp\<close>).  \<open>Plugin_Protocol\<close> hands it to the debugger as one of
    the plugins of \<open>Plugin_Manager\<close>, and \<open>Module_Instrumentation\<close> follows the instrumentation of a whole module.

  \<^bold>\<open>What is shown.\<close>
  \<^item> Time travel: reverting and recording on, any number of times, shows in each run the new values over those
    of its branch point and leaves every other run as it was, for the tree, the arrays and the regions;
    leaving the restore phase branches every table at once (\<open>Restore_Facts\<close>).  Snapshots record the whole
    address space, and restoring rebuilds it byte for byte; threads and modules end up as they were.  The
    composition is \<open>Memory_Time_Travel\<close>: in any session of snapshots and returns, whatever the debuggee does
    to its memory in between, every point of every run can be restored to the bytes it stands for.
  \<^item> Replay (\<open>Event_Replay\<close>): an invariant of the four logs, and that after a reset every thread gets its
    recorded calls in their order, however the threads interleave.
  \<^item> Sessions (\<open>Execution_Facts\<close>, \<open>Stop_Facts\<close>): which phase may follow which, and that the debug loops
    return only at the stops they are meant for.
  \<^item> Instrumentation: the emitted machine code, run on a small x86 semantics, counts and traps and changes nothing else;
    moved instructions mean the same; detours in the debuggee's memory lead to their stubs; addresses
    translate back and forth; a thread stopped in a stub is shown where it would be without it; and the leaders the
    reverse step takes for counted are the blocks whose detour is in memory (\<open>Module_Instrumentation\<close>).
  \<^item> The seams: the breakpoints of a source step catch every way out of the line (\<open>Step_Facts\<close>), and the lists
    the plugin computes are the lists the debugger gets (\<open>Plugin_Protocol\<close>, over the locale
    \<open>output_buffer\<close>).
  \<^item> Where the code does not do what it means to, a theorem states what it does:
    a shared breakpoint is uncovered, a module unloaded where it was loaded stays loaded, the first
    call after a snapshot is not reset, the original bytes of a stub are miscounted.

  \<^bold>\<open>Bounds and fuel.\<close>  No definition has fuel.  Loops whose end depends on the debuggee, the user or the operating
  system are \<open>partial_function\<close>s with \<open>None\<close> for not ending, and the theorems that rely on an end prove
  it; loops over data are structural or have a measure.  The bound of 1024 lines on the loader list, of 64
  frames on a stack walk and of 1 GiB on the search for the stub region are the source's own.

  \<^bold>\<open>Not modelled.\<close>  The start of the logger and its messages; the C++ runtime's exceptions beyond \<open>None\<close>;
  \<open>argparse\<close> and the command headers that only configure it; the declarations of undocumented Windows
  structures and function types that no modelled code reads; \<open>unload_dll.asm\<close> and \<open>SetupDllUnloadShellCode\<close>,
  which nothing calls; the compiler that \<open>compile_condition\<close> starts and the library it loads, which are fields of
  \<open>plugin_env\<close>; the unit tests and sample programs.
\<close>

end
